(* ===== verification/Prelude.thy ===== *)
theory Prelude
  imports Main "HOL-Library.Word"
begin

text \<open>
  Shared vocabulary of the development: the machine types of the C++ sources, binary32 values as
  their bit patterns, little-endian byte strings, and loops over the seats of a session.

  A \<^verbatim>\<open>std::uintN_t\<close> is an \<open>N word\<close>, so sums wrap and comparisons are unsigned, as in C++.
  A \<^verbatim>\<open>float\<close> is its 32-bit pattern: the code moves floats with \<^verbatim>\<open>memcpy\<close> and tests them with
  \<^verbatim>\<open>std::isfinite\<close> and \<^verbatim>\<open>==\<close>, all of which are functions of the pattern.
\<close>

unbundle bit_operations_syntax

type_synonym u8 = "8 word"
type_synonym u16 = "16 word"
type_synonym u32 = "32 word"
type_synonym u64 = "64 word"
type_synonym f32 = "32 word"
type_synonym bytes = "8 word list"

section \<open>Binary32 values as bit patterns\<close>

definition f32_exponent :: "f32 \<Rightarrow> f32" where
  "f32_exponent x = take_bit 8 (drop_bit 23 x)"

definition f32_mantissa :: "f32 \<Rightarrow> f32" where
  "f32_mantissa x = take_bit 23 x"

definition f32_isfinite :: "f32 \<Rightarrow> bool" where
  "f32_isfinite x \<longleftrightarrow> f32_exponent x \<noteq> 255"

definition f32_isnan :: "f32 \<Rightarrow> bool" where
  "f32_isnan x \<longleftrightarrow> f32_exponent x = 255 \<and> f32_mantissa x \<noteq> 0"

definition f32_iszero :: "f32 \<Rightarrow> bool" where
  "f32_iszero x \<longleftrightarrow> take_bit 31 x = 0"

text \<open>IEEE equality: a NaN equals nothing, and the two zeros are equal.\<close>

definition f32_eq :: "f32 \<Rightarrow> f32 \<Rightarrow> bool" where
  "f32_eq x y \<longleftrightarrow> \<not> f32_isnan x \<and> \<not> f32_isnan y \<and> (x = y \<or> (f32_iszero x \<and> f32_iszero y))"

lemma f32_eq_sym: "f32_eq x y \<longleftrightarrow> f32_eq y x"
  by (auto simp: f32_eq_def)

lemma f32_eq_trans: "f32_eq x y \<Longrightarrow> f32_eq y z \<Longrightarrow> f32_eq x z"
  by (auto simp: f32_eq_def)

lemma f32_finite_not_nan: "f32_isfinite x \<Longrightarrow> \<not> f32_isnan x"
  by (simp add: f32_isfinite_def f32_isnan_def)

lemma f32_eq_refl: "f32_isfinite x \<Longrightarrow> f32_eq x x"
  by (simp add: f32_eq_def f32_finite_not_nan)

section \<open>Little-endian byte strings\<close>

definition le_bytes :: "nat \<Rightarrow> 'a::len word \<Rightarrow> bytes" where
  "le_bytes n w = map (\<lambda>i. ucast (drop_bit (8 * i) w)) [0..<n]"

definition le_word :: "bytes \<Rightarrow> 'a::len word" where
  "le_word bs = foldr (\<lambda>b acc. ucast b OR push_bit 8 acc) bs 0"

lemma length_le_bytes [simp]: "length (le_bytes n w) = n"
  by (simp add: le_bytes_def)

lemma le_bytes_0 [simp]: "le_bytes 0 w = []"
  by (simp add: le_bytes_def)

lemma le_bytes_Suc: "le_bytes (Suc n) w = ucast w # le_bytes n (drop_bit 8 w)"
proof -
  have "[0..<Suc n] = 0 # map Suc [0..<n]"
    by (simp add: upt_conv_Cons map_Suc_upt del: upt_Suc)
  then show ?thesis
    by (simp add: le_bytes_def comp_def ac_simps del: upt_Suc)
qed

lemma le_word_Nil [simp]: "le_word [] = 0"
  by (simp add: le_word_def)

lemma le_word_Cons: "le_word (b # bs) = ucast b OR push_bit 8 (le_word bs)"
  by (simp add: le_word_def)

lemma le_word_le_bytes: "le_word (le_bytes n w) = take_bit (8 * n) w"
proof (induction n arbitrary: w)
  case 0
  then show ?case by simp
next
  case (Suc n)
  have "(ucast (ucast w :: u8) :: 'a word) OR push_bit 8 (take_bit (8 * n) (drop_bit 8 w))
      = take_bit (8 * Suc n) w"
    by (rule bit_word_eqI) (auto simp: bit_simps)
  with Suc show ?case
    by (simp add: le_bytes_Suc le_word_Cons)
qed

lemma le_word_le_bytes_id: "LENGTH('a) \<le> 8 * n \<Longrightarrow> le_word (le_bytes n (w :: 'a::len word)) = w"
  by (simp add: le_word_le_bytes take_bit_word_eq_self)

lemma le_bytes_le_word:
  "8 * length bs \<le> LENGTH('a) \<Longrightarrow> le_bytes (length bs) (le_word bs :: 'a::len word) = bs"
proof (induction bs)
  case Nil
  then show ?case by simp
next
  case (Cons b bs)
  let ?w = "le_word bs :: 'a word"
  from Cons.prems have len: "8 \<le> LENGTH('a)" by simp
  have lo: "ucast (ucast b OR push_bit 8 ?w :: 'a word) = b"
    by (rule bit_word_eqI) (use len in \<open>auto simp: bit_simps\<close>)
  have small: "le_bytes (length bs) (drop_bit 8 (ucast b OR push_bit 8 ?w)) = le_bytes (length bs) ?w"
  proof (unfold le_bytes_def, rule map_cong [OF refl])
    fix i assume "i \<in> set [0..<length bs]"
    with Cons.prems have "8 * i + 8 + 8 \<le> LENGTH('a)" by simp
    then show "(ucast (drop_bit (8 * i) (drop_bit 8 (ucast b OR push_bit 8 ?w))) :: u8)
        = ucast (drop_bit (8 * i) ?w)"
      by (intro bit_word_eqI) (auto simp: bit_simps dest: bit_imp_le_length)
  qed
  from Cons lo small show ?case
    by (simp add: le_bytes_Suc le_word_Cons)
qed

section \<open>Evaluating comparisons of words\<close>

lemma unat_eq_unat_iff: "unat (p :: 'a::len word) = unat q \<longleftrightarrow> p = q"
  by (simp add: word_unat_eq_iff)

lemma u8_one_numeral [simp]:
  "((1 :: u8) < numeral n) = (1 < (numeral n mod 256 :: nat))"
  "((1 :: u8) \<le> numeral n) = (1 \<le> (numeral n mod 256 :: nat))"
  "((numeral n :: u8) < 1) = ((numeral n mod 256 :: nat) < 1)"
  "((numeral n :: u8) \<le> 1) = ((numeral n mod 256 :: nat) \<le> 1)"
  by (simp_all add: word_less_nat_alt word_le_nat_alt unsigned_numeral take_bit_eq_mod)

lemma u32_one_numeral [simp]:
  "((1 :: u32) < numeral n) = (1 < (numeral n mod 4294967296 :: nat))"
  "((1 :: u32) \<le> numeral n) = (1 \<le> (numeral n mod 4294967296 :: nat))"
  "((numeral n :: u32) < 1) = ((numeral n mod 4294967296 :: nat) < 1)"
  "((numeral n :: u32) \<le> 1) = ((numeral n mod 4294967296 :: nat) \<le> 1)"
  by (simp_all add: word_less_nat_alt word_le_nat_alt unsigned_numeral take_bit_eq_mod)

section \<open>Loops over the seats of a session\<close>

text \<open>
  \<^verbatim>\<open>for (std::uint8_t player = 0; player < n; ++player)\<close>: the seats visited, in order.
\<close>

definition seats :: "u8 \<Rightarrow> u8 list" where
  "seats n = map word_of_nat [0..<unat n]"

lemma set_seats [simp]: "set (seats n) = {p. p < n}"
proof -
  have "p < n \<Longrightarrow> p \<in> word_of_nat ` {0..<unat n}" for p
    by (rule image_eqI [of _ _ "unat p"]) (auto simp: word_less_nat_alt)
  moreover have "k < unat n \<Longrightarrow> (word_of_nat k :: u8) < n" for k
    by (simp add: word_less_nat_alt le_unat_uoi [of k n])
  ultimately show ?thesis
    by (auto simp: seats_def)
qed

lemma distinct_seats [simp]: "distinct (seats n)"
proof -
  have "inj_on (word_of_nat :: nat \<Rightarrow> u8) {0..<unat n}"
    by (rule inj_onI) (metis atLeastLessThan_iff less_imp_le le_unat_uoi)
  then show ?thesis
    by (simp add: seats_def distinct_map)
qed

lemma length_seats [simp]: "length (seats n) = unat n"
  by (simp add: seats_def)

lemma nth_seats: "i < unat n \<Longrightarrow> seats n ! i = word_of_nat i"
  by (simp add: seats_def)

text \<open>The one-bit mask \<^verbatim>\<open>static_cast<std::uint8_t>(1u << player)\<close> of a seat.\<close>

definition seat_mask :: "u8 \<Rightarrow> u8" where
  "seat_mask p = push_bit (unat p) 1"

lemma and_seat_mask: "m AND seat_mask p = 0 \<longleftrightarrow> \<not> bit m (unat p)"
  by (auto simp: seat_mask_def and_exp_eq_0_iff_not_bit push_bit_eq_mult)

end
