(* ===== verification/Codec.thy ===== *)
theory Codec
  imports Prelude
begin

text \<open>
  The interface between a packet format and its fields. A field has a writer of fixed width and a
  reader that fails beyond the end of the buffer or on a value that is not valid; the laws say that
  the reader accepts exactly what the writer produces. Every packet codec of the repository
  (netplay packets, the input replay file) is proved over this interface.
\<close>

text \<open>The loop that reads \<open>n\<close> consecutive fields, stopping at the first failure.\<close>

fun get_many :: "(bytes \<Rightarrow> nat \<Rightarrow> ('a \<times> nat) option) \<Rightarrow> nat \<Rightarrow> bytes \<Rightarrow> nat \<Rightarrow> ('a list \<times> nat) option" where
  "get_many get 0 data at = Some ([], at)"
| "get_many get (Suc n) data at = (case get data at of None \<Rightarrow> None
     | Some (v, at) \<Rightarrow> (case get_many get n data at of None \<Rightarrow> None
       | Some (vs, at) \<Rightarrow> Some (v # vs, at)))"

locale field_codec =
  fixes put :: "'a \<Rightarrow> bytes"
    and get :: "bytes \<Rightarrow> nat \<Rightarrow> ('a \<times> nat) option"
    and width :: nat
    and valid :: "'a \<Rightarrow> bool"
  assumes length_put: "length (put v) = width"
    and get_put: "valid v \<Longrightarrow> drop at data = put v @ rest \<Longrightarrow> get data at = Some (v, at + width)"
    and get_sound: "get data at = Some (v, at') \<Longrightarrow>
      valid v \<and> at' = at + width \<and> drop at data = put v @ drop (at + width) data"
begin

lemma drop_put: "drop at data = put v @ rest \<Longrightarrow> drop (at + width) data = rest"
proof -
  assume "drop at data = put v @ rest"
  then have "drop width (drop at data) = drop width (put v @ rest)" by (rule arg_cong)
  then show ?thesis by (simp add: length_put add.commute)
qed

lemma get_drop: "get data at = Some (v, at') \<Longrightarrow> drop at data = put v @ drop at' data"
  by (drule get_sound) simp

lemma put_inj:
  assumes "valid v" and "valid w" and "put v = put w"
  shows "v = w"
proof -
  have "get (put u) 0 = Some (u, width)" if "valid u" for u
    using get_put [where at = 0 and data = "put u" and rest = "[]", OF that] by simp
  from this [OF assms(1)] this [OF assms(2)] assms(3) show ?thesis by (metis option.inject prod.inject)
qed

lemma get_many_put:
  "list_all valid vs \<Longrightarrow> drop at data = concat (map put vs) @ rest \<Longrightarrow>
     get_many get (length vs) data at = Some (vs, at + length vs * width)"
proof (induction vs arbitrary: at)
  case Nil
  then show ?case by simp
next
  case (Cons v vs)
  from Cons.prems have first: "get data at = Some (v, at + width)"
    and rest: "drop (at + width) data = concat (map put vs) @ rest"
    by (auto intro: get_put drop_put)
  from Cons.IH [OF _ rest] Cons.prems first show ?case
    by (simp add: add.assoc)
qed

lemma get_many_sound:
  "get_many get n data at = Some (vs, at') \<Longrightarrow>
     length vs = n \<and> list_all valid vs \<and> at' = at + n * width \<and>
     drop at data = concat (map put vs) @ drop (at + n * width) data"
proof (induction n arbitrary: at vs)
  case 0
  then show ?case by simp
next
  case (Suc n)
  from Suc.prems obtain v vs' at1 where
    v: "get data at = Some (v, at1)" and vs: "get_many get n data at1 = Some (vs', at')"
    and eq: "vs = v # vs'"
    by (auto split: option.splits)
  from get_sound [OF v] Suc.IH [OF vs] eq show ?case
    by (auto simp: add.assoc)
qed

lemma length_concat_put: "length (concat (map put vs)) = length vs * width"
  by (induction vs) (auto simp: length_put)

end

text \<open>Fields every value of whose type is valid: the reader then only checks the bounds.\<close>

locale total_codec = field_codec +
  assumes all_valid: "valid v"
begin

lemma get_put_total: "drop at data = put v @ rest \<Longrightarrow> get data at = Some (v, at + width)"
  by (rule get_put [OF all_valid])

end

end
