(* ===== verification/Protocol.thy ===== *)
theory Protocol
  imports Codec
begin

text \<open>
  The wire protocol: \<^verbatim>\<open>NetplayProtocol.hpp\<close> and \<^verbatim>\<open>NetplayProtocol.cpp\<close>. The input sample, the three
  packets, the byte writers and readers, and the encoder and decoder of each packet.

  A \<^verbatim>\<open>std::array<FrameInput, N>\<close> is a function on the index. A writer takes the vector written so
  far and returns the longer one; a reader takes the buffer and the offset \<^verbatim>\<open>*at\<close> and returns the
  value with the advanced offset, or \<open>None\<close> where the code returns false. An encoder returns its
  result with the final content of \<^verbatim>\<open>*out\<close>; a decoder writes \<^verbatim>\<open>*out\<close> only on success, so it is an
  option. The title's \<^verbatim>\<open>ProtocolConfig\<close> is not part of the repository: it is the argument
  \<open>cfg\<close>. Pointers are not null.
\<close>

section \<open>Constants and data\<close>

definition PROTOCOL_VERSION :: u8 where "PROTOCOL_VERSION = 4"
definition INVALID_FRAME :: u32 where "INVALID_FRAME = 0xffffffff"
definition MAX_PLAYERS :: u8 where "MAX_PLAYERS = 3"
definition MAX_REDUNDANT_INPUTS :: u8 where "MAX_REDUNDANT_INPUTS = 32"

record ProtocolConfig =
  MagicGame :: u8
  MaxAnalogMode :: u8

datatype PacketType = PT_Input | PT_Session | PT_SpectatorFrame

fun PacketType_byte :: "PacketType \<Rightarrow> u8" where
  "PacketType_byte PT_Input = 1"
| "PacketType_byte PT_Session = 2"
| "PacketType_byte PT_SpectatorFrame = 3"

datatype SessionPhase = Hello | Ready

fun SessionPhase_byte :: "SessionPhase \<Rightarrow> u8" where
  "SessionPhase_byte Hello = 1"
| "SessionPhase_byte Ready = 2"

text \<open>
  \<^verbatim>\<open>AnalogMode\<close> has a fixed underlying type and is read from the wire by a cast, so a sample may
  hold any byte until \<open>ValidInput\<close> has looked at it: the field is the byte, the enumerators are
  constants.
\<close>

definition AM_None :: u8 where "AM_None = 0"
definition AM_Joystick :: u8 where "AM_Joystick = 1"
definition AM_DirectTouch :: u8 where "AM_DirectTouch = 2"
definition AM_DirectTouchDelta :: u8 where "AM_DirectTouchDelta = 3"
definition AM_DirectTouchBegin :: u8 where "AM_DirectTouchBegin = 4"

lemmas AnalogMode_defs =
  AM_None_def AM_Joystick_def AM_DirectTouch_def AM_DirectTouchDelta_def AM_DirectTouchBegin_def

record FrameInput =
  buttons :: u16
  analogMode :: u8
  axis_x :: f32
  axis_y :: f32
  unlimited :: bool
  touchUsed :: bool
  touchBomb :: bool

definition FrameInput_default :: FrameInput where
  "FrameInput_default = \<lparr>buttons = 0, analogMode = AM_None, axis_x = 0, axis_y = 0,
     unlimited = False, touchUsed = False, touchBomb = False\<rparr>"

definition FrameInput_of_bits :: "u16 \<Rightarrow> FrameInput" where
  "FrameInput_of_bits value = FrameInput_default\<lparr>buttons := value\<rparr>"

record SpectatorFramePacket =
  sf_sessionId :: u64
  sf_frame :: u32
  sf_gameplayAbi :: u32
  sf_playerCount :: u8
  sf_inputs :: "nat \<Rightarrow> FrameInput"

record InputPacket =
  ip_sessionId :: u64
  ip_sequence :: u32
  ip_ackSequence :: u32
  ip_latestFrame :: u32
  ip_ackFrame :: u32
  ip_firstInputFrame :: u32
  ip_senderFrame :: u32
  ip_frameAdvantage :: u16
  ip_senderPlayer :: u8
  ip_playerCount :: u8
  ip_inputCount :: u8
  ip_inputs :: "nat \<Rightarrow> FrameInput"

definition InputPacket_default :: InputPacket where
  "InputPacket_default = \<lparr>ip_sessionId = 0, ip_sequence = 0, ip_ackSequence = 0,
     ip_latestFrame = INVALID_FRAME, ip_ackFrame = INVALID_FRAME,
     ip_firstInputFrame = INVALID_FRAME, ip_senderFrame = INVALID_FRAME, ip_frameAdvantage = 0,
     ip_senderPlayer = 0, ip_playerCount = 0, ip_inputCount = 0,
     ip_inputs = (\<lambda>_. FrameInput_default)\<rparr>"

record SessionPacket =
  sp_sessionId :: u64
  sp_seed :: u32
  sp_gameplayAbi :: u32
  sp_gameId :: u32
  sp_senderPlayer :: u8
  sp_playerCount :: u8
  sp_phase :: SessionPhase

definition SessionPacket_default :: SessionPacket where
  "SessionPacket_default = \<lparr>sp_sessionId = 0, sp_seed = 0, sp_gameplayAbi = 0, sp_gameId = 0,
     sp_senderPlayer = 0, sp_playerCount = 0, sp_phase = Hello\<rparr>"

text \<open>\<^verbatim>\<open>operator==\<close> on samples: the axes are compared as floats.\<close>

definition input_eq :: "FrameInput \<Rightarrow> FrameInput \<Rightarrow> bool" where
  "input_eq l r \<longleftrightarrow> buttons l = buttons r \<and> analogMode l = analogMode r \<and>
     f32_eq (axis_x l) (axis_x r) \<and> f32_eq (axis_y l) (axis_y r) \<and> unlimited l = unlimited r \<and>
     touchUsed l = touchUsed r \<and> touchBomb l = touchBomb r"

definition ValidInput :: "ProtocolConfig \<Rightarrow> FrameInput \<Rightarrow> bool" where
  "ValidInput cfg input \<longleftrightarrow> analogMode input \<le> MaxAnalogMode cfg \<and>
     f32_isfinite (axis_x input) \<and> f32_isfinite (axis_y input)"

definition IsValidFrameInput :: "ProtocolConfig \<Rightarrow> FrameInput \<Rightarrow> bool" where
  "IsValidFrameInput cfg input = ValidInput cfg input"

lemma input_eq_sym: "input_eq l r \<longleftrightarrow> input_eq r l"
  by (auto simp: input_eq_def f32_eq_sym)

lemma input_eq_trans: "input_eq a b \<Longrightarrow> input_eq b c \<Longrightarrow> input_eq a c"
  by (auto simp: input_eq_def intro: f32_eq_trans)

lemma input_eq_refl: "ValidInput cfg a \<Longrightarrow> input_eq a a"
  by (simp add: input_eq_def ValidInput_def f32_eq_refl)

section \<open>Byte writers\<close>

definition PutU16 :: "bytes \<Rightarrow> u16 \<Rightarrow> bytes" where
  "PutU16 out value = out @ [ucast value, ucast (drop_bit 8 value)]"

definition PutU32 :: "bytes \<Rightarrow> u32 \<Rightarrow> bytes" where
  "PutU32 out value = foldl (\<lambda>o' shift. o' @ [ucast (drop_bit shift value)]) out [0, 8, 16, 24]"

definition PutU64 :: "bytes \<Rightarrow> u64 \<Rightarrow> bytes" where
  "PutU64 out value =
     foldl (\<lambda>o' shift. o' @ [ucast (drop_bit shift value)]) out [0, 8, 16, 24, 32, 40, 48, 56]"

definition PutFloat :: "bytes \<Rightarrow> f32 \<Rightarrow> bytes" where
  "PutFloat out value = PutU32 out value"

definition input_flags :: "FrameInput \<Rightarrow> u8" where
  "input_flags input = (if unlimited input then 1 else 0) OR (if touchUsed input then 2 else 0) OR
     (if touchBomb input then 4 else 0)"

definition PutInput :: "bytes \<Rightarrow> FrameInput \<Rightarrow> bytes" where
  "PutInput out input =
     PutFloat (PutFloat (PutU16 out (buttons input) @ [analogMode input] @ [input_flags input])
       (axis_x input)) (axis_y input)"

section \<open>Byte readers\<close>

definition GetU16 :: "bytes \<Rightarrow> nat \<Rightarrow> (u16 \<times> nat) option" where
  "GetU16 data at = (if at + 2 > length data then None
     else Some (ucast (data ! at) OR push_bit 8 (ucast (data ! (at + 1))), at + 2))"

definition GetU32 :: "bytes \<Rightarrow> nat \<Rightarrow> (u32 \<times> nat) option" where
  "GetU32 data at = (if at + 4 > length data then None
     else Some (ucast (data ! at) OR push_bit 8 (ucast (data ! (at + 1))) OR
       push_bit 16 (ucast (data ! (at + 2))) OR push_bit 24 (ucast (data ! (at + 3))), at + 4))"

definition GetU64 :: "bytes \<Rightarrow> nat \<Rightarrow> (u64 \<times> nat) option" where
  "GetU64 data at = (if at + 8 > length data then None
     else Some (foldl (\<lambda>value i. value OR push_bit (8 * i) (ucast (data ! (at + i)))) 0 [0, 1, 2, 3, 4, 5, 6, 7], at + 8))"

definition GetFloat :: "bytes \<Rightarrow> nat \<Rightarrow> (f32 \<times> nat) option" where
  "GetFloat data at = (case GetU32 data at of None \<Rightarrow> None
     | Some (bits, at') \<Rightarrow> if f32_isfinite bits then Some (bits, at') else None)"

definition GetInput :: "ProtocolConfig \<Rightarrow> bytes \<Rightarrow> nat \<Rightarrow> (FrameInput \<times> nat) option" where
  "GetInput cfg data at =
     (case GetU16 data at of None \<Rightarrow> None | Some (b, at) \<Rightarrow>
      if at + 2 > length data then None else
      let mode = data ! at; flags = data ! (at + 1); at = at + 2 in
      if flags AND NOT 7 \<noteq> 0 then None else
      case GetFloat data at of None \<Rightarrow> None | Some (fx, at) \<Rightarrow>
      (case GetFloat data at of None \<Rightarrow> None | Some (fy, at) \<Rightarrow>
       let input = \<lparr>buttons = b, analogMode = mode, axis_x = fx, axis_y = fy,
         unlimited = (flags AND 1 \<noteq> 0), touchUsed = (flags AND 2 \<noteq> 0),
         touchBomb = (flags AND 4 \<noteq> 0)\<rparr> in
       if ValidInput cfg input then Some (input, at) else None))"

text \<open>The loop \<^verbatim>\<open>for (i = 0; i < n; ++i) if (!GetInput(...)) return false;\<close>.\<close>

definition GetInputs :: "ProtocolConfig \<Rightarrow> nat \<Rightarrow> bytes \<Rightarrow> nat \<Rightarrow> (FrameInput list \<times> nat) option" where
  "GetInputs cfg = get_many (GetInput cfg)"

text \<open>The array of a freshly constructed packet after the loop stored \<open>xs\<close> at its front.\<close>

definition stored_inputs :: "FrameInput list \<Rightarrow> nat \<Rightarrow> FrameInput" where
  "stored_inputs xs i = (if i < length xs then xs ! i else FrameInput_default)"

section \<open>The fields satisfy the codec interface\<close>

lemma PutU16_le: "PutU16 out value = out @ le_bytes 2 value"
  by (simp add: PutU16_def le_bytes_def upt_rec)

lemma PutU32_le: "PutU32 out value = out @ le_bytes 4 value"
  by (simp add: PutU32_def le_bytes_def upt_rec)

lemma PutU64_le: "PutU64 out value = out @ le_bytes 8 value"
  by (simp add: PutU64_def le_bytes_def upt_rec)

lemma PutFloat_le: "PutFloat out value = out @ le_bytes 4 value"
  by (simp add: PutFloat_def PutU32_le)

lemma take_drop_nths:
  "at + 2 \<le> length data \<Longrightarrow> take 2 (drop at data) = [data ! at, data ! (at + 1)]"
  "at + 4 \<le> length data \<Longrightarrow> take 4 (drop at data) = [data ! at, data ! (at + 1), data ! (at + 2), data ! (at + 3)]"
  "at + 8 \<le> length data \<Longrightarrow> take 8 (drop at data) = [data ! at, data ! (at + 1), data ! (at + 2), data ! (at + 3),
     data ! (at + 4), data ! (at + 5), data ! (at + 6), data ! (at + 7)]"
  by (simp_all add: Cons_nth_drop_Suc [symmetric] numeral_eq_Suc)

lemma GetU16_le:
  "GetU16 data at = (if at + 2 \<le> length data then Some (le_word (take 2 (drop at data)), at + 2) else None)"
  by (simp add: GetU16_def take_drop_nths le_word_Cons del: One_nat_def)

lemma GetU32_le:
  "GetU32 data at = (if at + 4 \<le> length data then Some (le_word (take 4 (drop at data)), at + 4) else None)"
  by (simp add: GetU32_def take_drop_nths le_word_Cons push_bit_or del: One_nat_def)

lemma GetU64_le:
  "GetU64 data at = (if at + 8 \<le> length data then Some (le_word (take 8 (drop at data)), at + 8) else None)"
  by (simp add: GetU64_def take_drop_nths le_word_Cons push_bit_or ac_simps del: One_nat_def)

lemma drop_eq_le_bytes:
  "drop at data = le_bytes n v @ rest \<Longrightarrow> 0 < n \<Longrightarrow> at + n \<le> length data \<and> take n (drop at data) = le_bytes n v"
proof -
  assume eq: "drop at data = le_bytes n v @ rest" and "0 < n"
  from arg_cong [OF eq, of length] \<open>0 < n\<close> have "at + n \<le> length data" by simp
  with eq show ?thesis by simp
qed

lemma drop_take_drop: "drop at data = take w (drop at data) @ drop (at + w) data"
  by (metis add.commute append_take_drop_id drop_drop)

lemma le_bytes_le_word_take:
  assumes "at + n \<le> length data" and "LENGTH('a) = 8 * n"
  shows "le_bytes n (le_word (take n (drop at data)) :: 'a::len word) = take n (drop at data)"
  using le_bytes_le_word [of "take n (drop at data)", where ?'a = 'a] assms by simp

interpretation u16: total_codec "PutU16 []" GetU16 2 "\<lambda>_. True"
proof
  show "GetU16 data at = Some (v, at + 2)" if "drop at data = PutU16 [] v @ rest" for data at v rest
    using that drop_eq_le_bytes [of at data 2 v rest] by (simp add: PutU16_le GetU16_le le_word_le_bytes_id)
  show "True \<and> at' = at + 2 \<and> drop at data = PutU16 [] v @ drop (at + 2) data"
    if "GetU16 data at = Some (v, at')" for data at v at'
    using that drop_take_drop [of at data 2]
    by (auto simp: PutU16_le GetU16_le le_bytes_le_word_take split: if_splits)
qed (auto simp: PutU16_le)

interpretation u32: total_codec "PutU32 []" GetU32 4 "\<lambda>_. True"
proof
  show "GetU32 data at = Some (v, at + 4)" if "drop at data = PutU32 [] v @ rest" for data at v rest
    using that drop_eq_le_bytes [of at data 4 v rest] by (simp add: PutU32_le GetU32_le le_word_le_bytes_id)
  show "True \<and> at' = at + 4 \<and> drop at data = PutU32 [] v @ drop (at + 4) data"
    if "GetU32 data at = Some (v, at')" for data at v at'
    using that drop_take_drop [of at data 4]
    by (auto simp: PutU32_le GetU32_le le_bytes_le_word_take split: if_splits)
qed (auto simp: PutU32_le)

interpretation u64: total_codec "PutU64 []" GetU64 8 "\<lambda>_. True"
proof
  show "GetU64 data at = Some (v, at + 8)" if "drop at data = PutU64 [] v @ rest" for data at v rest
    using that drop_eq_le_bytes [of at data 8 v rest] by (simp add: PutU64_le GetU64_le le_word_le_bytes_id)
  show "True \<and> at' = at + 8 \<and> drop at data = PutU64 [] v @ drop (at + 8) data"
    if "GetU64 data at = Some (v, at')" for data at v at'
    using that drop_take_drop [of at data 8]
    by (auto simp: PutU64_le GetU64_le le_bytes_le_word_take split: if_splits)
qed (auto simp: PutU64_le)

interpretation float: field_codec "PutFloat []" GetFloat 4 f32_isfinite
proof
  show "GetFloat data at = Some (v, at + 4)"
    if "f32_isfinite v" and "drop at data = PutFloat [] v @ rest" for data at v rest
    using that u32.get_put_total [of at data v rest] by (simp add: GetFloat_def PutFloat_def)
  show "f32_isfinite v \<and> at' = at + 4 \<and> drop at data = PutFloat [] v @ drop (at + 4) data"
    if "GetFloat data at = Some (v, at')" for data at v at'
    using that u32.get_sound [of data at v at']
    by (auto simp: GetFloat_def PutFloat_def split: option.splits if_splits)
qed (simp add: PutFloat_le)

lemma drop_Cons_nth:
  "drop at data = b # rest \<Longrightarrow> at < length data \<and> data ! at = b \<and> drop (at + 1) data = rest"
proof -
  assume eq: "drop at data = b # rest"
  then have "at < length data" by (metis drop_all leI list.distinct(1))
  with eq show ?thesis by (simp add: Cons_nth_drop_Suc [symmetric])
qed

lemma input_flags_bits:
  "input_flags i AND NOT 7 = 0"
  "input_flags i AND 1 \<noteq> 0 \<longleftrightarrow> unlimited i"
  "input_flags i AND 2 \<noteq> 0 \<longleftrightarrow> touchUsed i"
  "input_flags i AND 4 \<noteq> 0 \<longleftrightarrow> touchBomb i"
  by (simp_all add: input_flags_def)

lemma flags_of_bits:
  fixes f :: u8
  assumes "f AND NOT 7 = 0"
  shows "(if f AND 1 \<noteq> 0 then 1 else 0) OR (if f AND 2 \<noteq> 0 then 2 else 0) OR (if f AND 4 \<noteq> 0 then 4 else 0) = f"
proof -
  have "f = (f AND 7) OR (f AND NOT 7)" by (simp flip: bit.conj_disj_distrib)
  with assms have "f = f AND 7" by simp
  then have "f \<le> 7" by (metis word_and_le1)
  then have "unat f \<le> 7" by (simp add: word_le_nat_alt)
  then obtain n where f: "f = word_of_nat n" and "n \<le> 7" by (metis of_nat_unat ucast_id)
  then have "n = 0 \<or> n = 1 \<or> n = 2 \<or> n = 3 \<or> n = 4 \<or> n = 5 \<or> n = 6 \<or> n = 7" by linarith
  then show ?thesis by (elim disjE) (simp_all add: f)
qed

lemma PutInput_append:
  "PutInput out i = out @ PutU16 [] (buttons i) @ analogMode i # input_flags i #
     PutFloat [] (axis_x i) @ PutFloat [] (axis_y i)"
  by (simp add: PutInput_def PutU16_le PutFloat_le)

interpretation input: field_codec "PutInput []" "GetInput cfg" 12 "ValidInput cfg" for cfg
proof
  show "GetInput cfg data at = Some (v, at + 12)"
    if valid: "ValidInput cfg v" and eq: "drop at data = PutInput [] v @ rest" for data at v rest
  proof -
    from valid have fin: "f32_isfinite (axis_x v)" "f32_isfinite (axis_y v)"
      by (simp_all add: ValidInput_def)
    from eq have b: "drop at data = PutU16 [] (buttons v) @ (analogMode v # input_flags v #
        PutFloat [] (axis_x v) @ PutFloat [] (axis_y v) @ rest)"
      by (simp add: PutInput_append)
    note m = drop_Cons_nth [OF u16.drop_put [OF b]]
    note f = drop_Cons_nth [OF conjunct2 [OF conjunct2 [OF m]]]
    note fx = float.get_put [OF fin(1) conjunct2 [OF conjunct2 [OF f]]]
    note fy = float.get_put [OF fin(2) float.drop_put [OF conjunct2 [OF conjunct2 [OF f]]]]
    from u16.get_put_total [OF b] m f fx fy valid show ?thesis
      by (cases v) (simp add: GetInput_def input_flags_bits [simplified] Let_def)
  qed
  show "ValidInput cfg v \<and> at' = at + 12 \<and> drop at data = PutInput [] v @ drop (at + 12) data"
    if get: "GetInput cfg data at = Some (v, at')" for data at v at'
  proof -
    from get obtain b fx fy where
      b: "GetU16 data at = Some (b, at + 2)" and bound: "at + 4 \<le> length data"
      and flags: "data ! (at + 3) AND NOT 7 = 0"
      and fx: "GetFloat data (at + 4) = Some (fx, at + 8)"
      and fy: "GetFloat data (at + 8) = Some (fy, at + 12)"
      and v: "v = \<lparr>buttons = b, analogMode = data ! (at + 2), axis_x = fx, axis_y = fy,
        unlimited = (data ! (at + 3) AND 1 \<noteq> 0), touchUsed = (data ! (at + 3) AND 2 \<noteq> 0),
        touchBomb = (data ! (at + 3) AND 4 \<noteq> 0)\<rparr>"
      and rest: "ValidInput cfg v" "at' = at + 12"
      by (auto simp: GetInput_def Let_def eval_nat_numeral split: option.splits if_splits
          dest!: u16.get_sound float.get_sound)
    have "drop (at + 2) data = data ! (at + 2) # data ! (at + 3) # drop (at + 4) data"
      using bound by (simp add: Cons_nth_drop_Suc numeral_eq_Suc)
    moreover have "input_flags v = data ! (at + 3)"
      using flags_of_bits [OF flags] by (simp add: v input_flags_def)
    ultimately show ?thesis
      using u16.get_sound [OF b] float.get_sound [OF fx] float.get_sound [OF fy] rest
      by (simp add: PutInput_append v add.commute [of at 8] add.commute [of at 12])
  qed
qed (simp add: PutInput_append u16.length_put float.length_put)

section \<open>The packets\<close>

definition HEADER_SIZE :: nat where "HEADER_SIZE = 44"
definition SESSION_PACKET_SIZE :: nat where "SESSION_PACKET_SIZE = 32"
definition INPUT_SAMPLE_SIZE :: nat where "INPUT_SAMPLE_SIZE = 12"
definition SPECTATOR_FRAME_HEADER_SIZE :: nat where "SPECTATOR_FRAME_HEADER_SIZE = 24"

lemmas size_defs =
  HEADER_SIZE_def SESSION_PACKET_SIZE_def INPUT_SAMPLE_SIZE_def SPECTATOR_FRAME_HEADER_SIZE_def

definition MAGIC :: "ProtocolConfig \<Rightarrow> bytes" where
  "MAGIC cfg = [0x45, MagicGame cfg, 0x4E, 0x50]"

definition PeekPacketType :: "ProtocolConfig \<Rightarrow> bytes \<Rightarrow> PacketType option" where
  "PeekPacketType cfg data =
     (if length data < 6 \<or> data ! 0 \<noteq> MAGIC cfg ! 0 \<or> data ! 1 \<noteq> MAGIC cfg ! 1 \<or>
         data ! 2 \<noteq> MAGIC cfg ! 2 \<or> data ! 3 \<noteq> MAGIC cfg ! 3 \<or> data ! 4 \<noteq> PROTOCOL_VERSION
      then None
      else if data ! 5 = PacketType_byte PT_Input then Some PT_Input
      else if data ! 5 = PacketType_byte PT_Session then Some PT_Session
      else if data ! 5 = PacketType_byte PT_SpectatorFrame then Some PT_SpectatorFrame
      else None)"

text \<open>
  The test on a non-empty packet that encoder, decoder and packet ingestion all make: its frames
  are \<open>first, ..., latest\<close>, \<open>count\<close> of them, without reaching the sentinel.
\<close>

definition frame_range_ok :: "u32 \<Rightarrow> u32 \<Rightarrow> u8 \<Rightarrow> bool" where
  "frame_range_ok first latest count \<longleftrightarrow>
     \<not> (first = INVALID_FRAME \<or> latest = INVALID_FRAME \<or>
        first > INVALID_FRAME - (ucast count - 1) \<or> first + ucast count - 1 \<noteq> latest)"

definition EncodeInputPacket :: "ProtocolConfig \<Rightarrow> InputPacket \<Rightarrow> bytes \<Rightarrow> bool \<times> bytes" where
  "EncodeInputPacket cfg packet out =
     (if ip_playerCount packet < 2 \<or> ip_playerCount packet > MAX_PLAYERS \<or>
         ip_senderPlayer packet \<ge> ip_playerCount packet \<or>
         ip_inputCount packet > MAX_REDUNDANT_INPUTS
      then (False, out)
      else if ip_inputCount packet > 0 \<and> \<not> frame_range_ok (ip_firstInputFrame packet)
                (ip_latestFrame packet) (ip_inputCount packet)
      then (False, out)
      else
        let n = unat (ip_inputCount packet); out = [] in
        if \<not> list_all (\<lambda>i. ValidInput cfg (ip_inputs packet i)) [0..<n] then (False, out)
        else
          let out = out @ MAGIC cfg;
              out = out @ [PROTOCOL_VERSION];
              out = out @ [PacketType_byte PT_Input];
              out = out @ [ip_senderPlayer packet];
              out = out @ [ip_playerCount packet];
              out = PutU64 out (ip_sessionId packet);
              out = PutU32 out (ip_sequence packet);
              out = PutU32 out (ip_ackSequence packet);
              out = PutU32 out (ip_latestFrame packet);
              out = PutU32 out (ip_ackFrame packet);
              out = PutU32 out (ip_firstInputFrame packet);
              out = PutU32 out (ip_senderFrame packet);
              out = PutU16 out (ip_frameAdvantage packet);
              out = out @ [ip_inputCount packet];
              out = out @ [0];
              out = foldl (\<lambda>o' i. PutInput o' (ip_inputs packet i)) out [0..<n]
          in (length out = HEADER_SIZE + n * INPUT_SAMPLE_SIZE, out))"

definition DecodeInputPacket :: "ProtocolConfig \<Rightarrow> bytes \<Rightarrow> InputPacket option" where
  "DecodeInputPacket cfg data =
     (if length data < HEADER_SIZE \<or> data ! 0 \<noteq> MAGIC cfg ! 0 \<or> data ! 1 \<noteq> MAGIC cfg ! 1 \<or>
         data ! 2 \<noteq> MAGIC cfg ! 2 \<or> data ! 3 \<noteq> MAGIC cfg ! 3 \<or> data ! 4 \<noteq> PROTOCOL_VERSION \<or>
         data ! 5 \<noteq> PacketType_byte PT_Input
      then None
      else let sender = data ! 6; players = data ! 7 in
      if players < 2 \<or> players > MAX_PLAYERS \<or> sender \<ge> players then None
      else case GetU64 data 8 of None \<Rightarrow> None | Some (sessionId, at) \<Rightarrow>
      (case GetU32 data at of None \<Rightarrow> None | Some (sequence, at) \<Rightarrow>
      (case GetU32 data at of None \<Rightarrow> None | Some (ackSequence, at) \<Rightarrow>
      (case GetU32 data at of None \<Rightarrow> None | Some (latestFrame, at) \<Rightarrow>
      (case GetU32 data at of None \<Rightarrow> None | Some (ackFrame, at) \<Rightarrow>
      (case GetU32 data at of None \<Rightarrow> None | Some (firstInputFrame, at) \<Rightarrow>
      (case GetU32 data at of None \<Rightarrow> None | Some (senderFrame, at) \<Rightarrow>
      (case GetU16 data at of None \<Rightarrow> None | Some (frameAdvantage, at) \<Rightarrow>
       if at + 2 > length data then None
       else let count = data ! at; at = at + 2 in
       if count > MAX_REDUNDANT_INPUTS \<or>
          length data \<noteq> HEADER_SIZE + unat count * INPUT_SAMPLE_SIZE
       then None
       else if count = 0 \<and> firstInputFrame \<noteq> INVALID_FRAME then None
       else if count \<noteq> 0 \<and> \<not> frame_range_ok firstInputFrame latestFrame count then None
       else case GetInputs cfg (unat count) data at of None \<Rightarrow> None | Some (inputs, _) \<Rightarrow>
         Some \<lparr>ip_sessionId = sessionId, ip_sequence = sequence, ip_ackSequence = ackSequence,
           ip_latestFrame = latestFrame, ip_ackFrame = ackFrame,
           ip_firstInputFrame = firstInputFrame, ip_senderFrame = senderFrame,
           ip_frameAdvantage = frameAdvantage, ip_senderPlayer = sender,
           ip_playerCount = players, ip_inputCount = count,
           ip_inputs = stored_inputs inputs\<rparr>))))))))"

definition EncodeSessionPacket :: "ProtocolConfig \<Rightarrow> SessionPacket \<Rightarrow> bytes \<Rightarrow> bool \<times> bytes" where
  "EncodeSessionPacket cfg packet out =
     (if sp_playerCount packet < 2 \<or> sp_playerCount packet > MAX_PLAYERS \<or>
         sp_senderPlayer packet \<ge> sp_playerCount packet
      then (False, out)
      else
        let out = [];
            out = out @ MAGIC cfg;
            out = out @ [PROTOCOL_VERSION];
            out = out @ [PacketType_byte PT_Session];
            out = out @ [sp_senderPlayer packet];
            out = out @ [sp_playerCount packet];
            out = PutU64 out (sp_sessionId packet);
            out = PutU32 out (sp_seed packet);
            out = PutU32 out (sp_gameplayAbi packet);
            out = PutU32 out (sp_gameId packet);
            out = out @ [SessionPhase_byte (sp_phase packet)];
            out = out @ [0];
            out = out @ [0];
            out = out @ [0]
        in (length out = SESSION_PACKET_SIZE, out))"

definition DecodeSessionPacket :: "ProtocolConfig \<Rightarrow> bytes \<Rightarrow> SessionPacket option" where
  "DecodeSessionPacket cfg data =
     (if length data \<noteq> SESSION_PACKET_SIZE then None
      else if PeekPacketType cfg data \<noteq> Some PT_Session then None
      else let sender = data ! 6; players = data ! 7 in
      if players < 2 \<or> players > MAX_PLAYERS \<or> sender \<ge> players then None
      else case GetU64 data 8 of None \<Rightarrow> None | Some (sessionId, at) \<Rightarrow>
      (case GetU32 data at of None \<Rightarrow> None | Some (seed, at) \<Rightarrow>
      (case GetU32 data at of None \<Rightarrow> None | Some (gameplayAbi, at) \<Rightarrow>
      (case GetU32 data at of None \<Rightarrow> None | Some (gameId, at) \<Rightarrow>
       if data ! at \<noteq> SessionPhase_byte Hello \<and> data ! at \<noteq> SessionPhase_byte Ready then None
       else Some \<lparr>sp_sessionId = sessionId, sp_seed = seed, sp_gameplayAbi = gameplayAbi,
         sp_gameId = gameId, sp_senderPlayer = sender, sp_playerCount = players,
         sp_phase = (if data ! at = SessionPhase_byte Hello then Hello else Ready)\<rparr>))))"

definition EncodeSpectatorFramePacket ::
    "ProtocolConfig \<Rightarrow> SpectatorFramePacket \<Rightarrow> bytes \<Rightarrow> bool \<times> bytes" where
  "EncodeSpectatorFramePacket cfg packet out =
     (let n = unat (sf_playerCount packet) in
      if sf_frame packet = INVALID_FRAME \<or> sf_playerCount packet < 2 \<or>
         sf_playerCount packet > MAX_PLAYERS
      then (False, out)
      else if \<not> list_all (\<lambda>player. ValidInput cfg (sf_inputs packet player)) [0..<n]
      then (False, out)
      else
        let out = [];
            out = out @ MAGIC cfg;
            out = out @ [PROTOCOL_VERSION];
            out = out @ [PacketType_byte PT_SpectatorFrame];
            out = out @ [sf_playerCount packet];
            out = out @ [0];
            out = PutU64 out (sf_sessionId packet);
            out = PutU32 out (sf_frame packet);
            out = PutU32 out (sf_gameplayAbi packet);
            out = foldl (\<lambda>o' player. PutInput o' (sf_inputs packet player)) out [0..<n]
        in (length out = SPECTATOR_FRAME_HEADER_SIZE + n * INPUT_SAMPLE_SIZE, out))"

definition DecodeSpectatorFramePacket ::
    "ProtocolConfig \<Rightarrow> bytes \<Rightarrow> SpectatorFramePacket option" where
  "DecodeSpectatorFramePacket cfg data =
     (if PeekPacketType cfg data \<noteq> Some PT_SpectatorFrame \<or>
         length data < SPECTATOR_FRAME_HEADER_SIZE
      then None
      else let players = data ! 6 in
      if players < 2 \<or> players > MAX_PLAYERS \<or> data ! 7 \<noteq> 0 \<or>
         length data \<noteq> SPECTATOR_FRAME_HEADER_SIZE + unat players * INPUT_SAMPLE_SIZE
      then None
      else case GetU64 data 8 of None \<Rightarrow> None | Some (sessionId, at) \<Rightarrow>
      (case GetU32 data at of None \<Rightarrow> None | Some (frame, at) \<Rightarrow>
      (case GetU32 data at of None \<Rightarrow> None | Some (gameplayAbi, at) \<Rightarrow>
       if frame = INVALID_FRAME then None
       else case GetInputs cfg (unat players) data at of None \<Rightarrow> None | Some (inputs, _) \<Rightarrow>
         Some \<lparr>sf_sessionId = sessionId, sf_frame = frame, sf_gameplayAbi = gameplayAbi,
           sf_playerCount = players, sf_inputs = stored_inputs inputs\<rparr>)))"

end
