(* ===== verification/Wire.thy ===== *)
theory Wire
  imports Protocol
begin

text \<open>
  Correctness of the packet codecs of \<^verbatim>\<open>NetplayProtocol.cpp\<close>: what the encoders accept and write,
  that the decoders read it back, that the decoders accept nothing else, and what a decoded packet
  satisfies. The proofs walk along the buffer with the field interface of \<open>Codec\<close>.
\<close>

section \<open>What the encoders write\<close>

lemma foldl_PutInput:
  "foldl (\<lambda>o' i. PutInput o' (f i)) out is = out @ concat (map (PutInput []) (map f is))"
proof (induction "is" arbitrary: out)
  case Nil
  then show ?case by simp
next
  case (Cons i js)
  have "PutInput out (f i) = out @ PutInput [] (f i)"
    using PutInput_append [of out "f i"] PutInput_append [of "[]" "f i"] by simp
  with Cons show ?case by simp
qed

definition input_list :: "InputPacket \<Rightarrow> FrameInput list" where
  "input_list p = map (ip_inputs p) [0..<unat (ip_inputCount p)]"

lemma length_input_list [simp]: "length (input_list p) = unat (ip_inputCount p)"
  by (simp add: input_list_def)

definition input_packet_bytes :: "ProtocolConfig \<Rightarrow> InputPacket \<Rightarrow> bytes" where
  "input_packet_bytes cfg p =
     [0x45, MagicGame cfg, 0x4E, 0x50, 4, 1, ip_senderPlayer p, ip_playerCount p] @
     PutU64 [] (ip_sessionId p) @ PutU32 [] (ip_sequence p) @ PutU32 [] (ip_ackSequence p) @
     PutU32 [] (ip_latestFrame p) @ PutU32 [] (ip_ackFrame p) @ PutU32 [] (ip_firstInputFrame p) @
     PutU32 [] (ip_senderFrame p) @ PutU16 [] (ip_frameAdvantage p) @ ip_inputCount p # 0 #
     concat (map (PutInput []) (input_list p))"

definition session_packet_bytes :: "ProtocolConfig \<Rightarrow> SessionPacket \<Rightarrow> bytes" where
  "session_packet_bytes cfg p =
     [0x45, MagicGame cfg, 0x4E, 0x50, 4, 2, sp_senderPlayer p, sp_playerCount p] @
     PutU64 [] (sp_sessionId p) @ PutU32 [] (sp_seed p) @ PutU32 [] (sp_gameplayAbi p) @
     PutU32 [] (sp_gameId p) @ [SessionPhase_byte (sp_phase p), 0, 0, 0]"

definition spectator_inputs :: "SpectatorFramePacket \<Rightarrow> FrameInput list" where
  "spectator_inputs p = map (sf_inputs p) [0..<unat (sf_playerCount p)]"

definition spectator_packet_bytes :: "ProtocolConfig \<Rightarrow> SpectatorFramePacket \<Rightarrow> bytes" where
  "spectator_packet_bytes cfg p =
     [0x45, MagicGame cfg, 0x4E, 0x50, 4, 3, sf_playerCount p, 0] @
     PutU64 [] (sf_sessionId p) @ PutU32 [] (sf_frame p) @ PutU32 [] (sf_gameplayAbi p) @
     concat (map (PutInput []) (spectator_inputs p))"

text \<open>The conditions under which the encoders accept a packet.\<close>

definition input_packet_ok :: "ProtocolConfig \<Rightarrow> InputPacket \<Rightarrow> bool" where
  "input_packet_ok cfg p \<longleftrightarrow> 2 \<le> ip_playerCount p \<and> ip_playerCount p \<le> MAX_PLAYERS \<and>
     ip_senderPlayer p < ip_playerCount p \<and> ip_inputCount p \<le> MAX_REDUNDANT_INPUTS \<and>
     (0 < ip_inputCount p \<longrightarrow>
       frame_range_ok (ip_firstInputFrame p) (ip_latestFrame p) (ip_inputCount p)) \<and>
     list_all (ValidInput cfg) (input_list p)"

definition session_packet_ok :: "SessionPacket \<Rightarrow> bool" where
  "session_packet_ok p \<longleftrightarrow> 2 \<le> sp_playerCount p \<and> sp_playerCount p \<le> MAX_PLAYERS \<and>
     sp_senderPlayer p < sp_playerCount p"

definition spectator_packet_ok :: "ProtocolConfig \<Rightarrow> SpectatorFramePacket \<Rightarrow> bool" where
  "spectator_packet_ok cfg p \<longleftrightarrow> sf_frame p \<noteq> INVALID_FRAME \<and> 2 \<le> sf_playerCount p \<and>
     sf_playerCount p \<le> MAX_PLAYERS \<and> list_all (ValidInput cfg) (spectator_inputs p)"

lemma length_spectator_inputs [simp]: "length (spectator_inputs p) = unat (sf_playerCount p)"
  by (simp add: spectator_inputs_def)

lemma length_input_packet_bytes: "length (input_packet_bytes cfg p) = 44 + unat (ip_inputCount p) * 12"
  by (simp add: input_packet_bytes_def u64.length_put u32.length_put u16.length_put
      input.length_concat_put)

lemma length_spectator_packet_bytes:
  "length (spectator_packet_bytes cfg p) = 24 + unat (sf_playerCount p) * 12"
  by (simp add: spectator_packet_bytes_def u64.length_put u32.length_put input.length_concat_put)

lemma length_session_packet_bytes: "length (session_packet_bytes cfg p) = 32"
  by (simp add: session_packet_bytes_def u64.length_put u32.length_put)

lemmas packet_simps = MAGIC_def PROTOCOL_VERSION_def size_defs Let_def
  PutU16_le PutU32_le PutU64_le foldl_PutInput

lemma list_all_upt: "list_all (\<lambda>i. P (f i)) [0..<n] = list_all P (map f [0..<n])"
  by (simp add: list_all_iff)

lemma EncodeInputPacket_ok:
  "input_packet_ok cfg p \<Longrightarrow> EncodeInputPacket cfg p out = (True, input_packet_bytes cfg p)"
  using length_input_packet_bytes [of cfg p]
  by (cases "ip_inputCount p = 0")
    (simp_all add: EncodeInputPacket_def packet_simps input_packet_ok_def list_all_upt
      input_packet_bytes_def input_list_def [symmetric] not_le not_less word_gt_0)

lemma EncodeInputPacket_fails: "\<not> input_packet_ok cfg p \<Longrightarrow> \<not> fst (EncodeInputPacket cfg p out)"
  by (auto simp: EncodeInputPacket_def input_packet_ok_def list_all_upt input_list_def Let_def)

lemma EncodeSessionPacket_ok:
  "session_packet_ok p \<Longrightarrow> EncodeSessionPacket cfg p out = (True, session_packet_bytes cfg p)"
  using length_session_packet_bytes [of cfg p]
  by (simp add: EncodeSessionPacket_def packet_simps session_packet_ok_def
      session_packet_bytes_def not_le not_less)

lemma EncodeSessionPacket_fails: "\<not> session_packet_ok p \<Longrightarrow> EncodeSessionPacket cfg p out = (False, out)"
  by (auto simp: EncodeSessionPacket_def session_packet_ok_def)

lemma EncodeSpectatorFramePacket_ok:
  "spectator_packet_ok cfg p \<Longrightarrow>
     EncodeSpectatorFramePacket cfg p out = (True, spectator_packet_bytes cfg p)"
  using length_spectator_packet_bytes [of cfg p]
  by (simp add: EncodeSpectatorFramePacket_def packet_simps spectator_packet_ok_def list_all_upt
      spectator_packet_bytes_def spectator_inputs_def [symmetric] not_le not_less)

lemma EncodeSpectatorFramePacket_fails:
  "\<not> spectator_packet_ok cfg p \<Longrightarrow> EncodeSpectatorFramePacket cfg p out = (False, out)"
  by (auto simp: EncodeSpectatorFramePacket_def spectator_packet_ok_def list_all_upt
      spectator_inputs_def Let_def)

section \<open>The decoders read it back\<close>

text \<open>Entries beyond the count are not transmitted: the decoder leaves them at their default.\<close>

definition transmitted :: "InputPacket \<Rightarrow> InputPacket" where
  "transmitted p = p\<lparr>ip_inputs := stored_inputs (input_list p)\<rparr>"

definition spectator_transmitted :: "SpectatorFramePacket \<Rightarrow> SpectatorFramePacket" where
  "spectator_transmitted p = p\<lparr>sf_inputs := stored_inputs (spectator_inputs p)\<rparr>"

lemma transmitted_input: "i < unat (ip_inputCount p) \<Longrightarrow> ip_inputs (transmitted p) i = ip_inputs p i"
  by (simp add: transmitted_def stored_inputs_def input_list_def)

lemma DecodeInputPacket_bytes:
  assumes ok: "input_packet_ok cfg p" and empty: "ip_inputCount p = 0 \<Longrightarrow> ip_firstInputFrame p = INVALID_FRAME"
  shows "DecodeInputPacket cfg (input_packet_bytes cfg p) = Some (transmitted p)"
proof -
  let ?d = "input_packet_bytes cfg p" and ?xs = "input_list p"
  have d: "drop 8 ?d = PutU64 [] (ip_sessionId p) @ PutU32 [] (ip_sequence p) @
      PutU32 [] (ip_ackSequence p) @ PutU32 [] (ip_latestFrame p) @ PutU32 [] (ip_ackFrame p) @
      PutU32 [] (ip_firstInputFrame p) @ PutU32 [] (ip_senderFrame p) @
      PutU16 [] (ip_frameAdvantage p) @ ip_inputCount p # 0 # concat (map (PutInput []) ?xs)"
    by (simp add: input_packet_bytes_def)
  note d1 = u64.drop_put [OF d]
  note d2 = u32.drop_put [OF d1]
  note d3 = u32.drop_put [OF d2]
  note d4 = u32.drop_put [OF d3]
  note d5 = u32.drop_put [OF d4]
  note d6 = u32.drop_put [OF d5]
  note d7 = u32.drop_put [OF d6]
  note c = drop_Cons_nth [OF u16.drop_put [OF d7]]
  note z = drop_Cons_nth [OF conjunct2 [OF conjunct2 [OF c]]]
  from ok have valid: "list_all (ValidInput cfg) ?xs" by (simp add: input_packet_ok_def)
  have xs: "get_many (GetInput cfg) (length ?xs) ?d 44 = Some (?xs, 44 + length ?xs * 12)"
    by (rule input.get_many_put [OF valid, of _ _ "[]"]) (use z in simp)
  have head: "\<not> length ?d < 44" "\<not> length ?d < 44" "?d ! 0 = 0x45" "?d ! 1 = MagicGame cfg" "?d ! 2 = 0x4E"
      "?d ! 3 = 0x50" "?d ! 4 = 4" "?d ! 5 = 1" "?d ! 6 = ip_senderPlayer p" "?d ! 7 = ip_playerCount p"
    by (simp_all only: length_input_packet_bytes) (simp_all add: input_packet_bytes_def)
  show ?thesis
    using u64.get_put_total [OF d] u32.get_put_total [OF d1] u32.get_put_total [OF d2]
      u32.get_put_total [OF d3] u32.get_put_total [OF d4] u32.get_put_total [OF d5]
      u32.get_put_total [OF d6] u16.get_put_total [OF d7] c z xs head ok empty
    by (cases "ip_inputCount p = 0")
      (simp_all add: DecodeInputPacket_def packet_simps GetInputs_def input_packet_ok_def
        transmitted_def length_input_packet_bytes word_gt_0 not_le not_less)
qed

lemma PeekPacketType_head:
  "6 \<le> length d \<Longrightarrow> d ! 0 = 0x45 \<Longrightarrow> d ! 1 = MagicGame cfg \<Longrightarrow> d ! 2 = 0x4E \<Longrightarrow> d ! 3 = 0x50 \<Longrightarrow> d ! 4 = 4 \<Longrightarrow>
     d ! 5 = PacketType_byte t \<Longrightarrow> PeekPacketType cfg d = Some t"
  by (cases t) (simp_all add: PeekPacketType_def MAGIC_def PROTOCOL_VERSION_def)

lemma DecodeSessionPacket_bytes:
  assumes ok: "session_packet_ok p" and len: "length d = 32"
    and same: "take 29 d = take 29 (session_packet_bytes cfg p)"
  shows "DecodeSessionPacket cfg d = Some p"
proof -
  define tail where "tail = drop 29 d"
  have "d = take 29 d @ tail" by (simp add: tail_def)
  then have whole: "d = [0x45, MagicGame cfg, 0x4E, 0x50, 4, 2, sp_senderPlayer p, sp_playerCount p] @
      PutU64 [] (sp_sessionId p) @ PutU32 [] (sp_seed p) @ PutU32 [] (sp_gameplayAbi p) @
      PutU32 [] (sp_gameId p) @ SessionPhase_byte (sp_phase p) # tail"
    unfolding same by (simp add: session_packet_bytes_def PutU32_le PutU64_le)
  then have d: "drop 8 d = PutU64 [] (sp_sessionId p) @ PutU32 [] (sp_seed p) @ PutU32 [] (sp_gameplayAbi p) @
      PutU32 [] (sp_gameId p) @ SessionPhase_byte (sp_phase p) # tail"
    by simp
  note d1 = u64.drop_put [OF d]
  note d2 = u32.drop_put [OF d1]
  note d3 = u32.drop_put [OF d2]
  note c = drop_Cons_nth [OF u32.drop_put [OF d3]]
  have head: "d ! 6 = sp_senderPlayer p" "d ! 7 = sp_playerCount p"
    by (simp_all add: whole)
  have "PeekPacketType cfg d = Some PT_Session"
    by (rule PeekPacketType_head) (simp_all add: whole)
  then show ?thesis
    using u64.get_put_total [OF d] u32.get_put_total [OF d1] u32.get_put_total [OF d2]
      u32.get_put_total [OF d3] c head ok len
    by (cases p, cases "sp_phase p") (simp_all add: DecodeSessionPacket_def packet_simps
        session_packet_ok_def not_le not_less)
qed

lemma DecodeSpectatorFramePacket_bytes:
  assumes ok: "spectator_packet_ok cfg p"
  shows "DecodeSpectatorFramePacket cfg (spectator_packet_bytes cfg p) = Some (spectator_transmitted p)"
proof -
  let ?d = "spectator_packet_bytes cfg p" and ?xs = "spectator_inputs p"
  have d: "drop 8 ?d = PutU64 [] (sf_sessionId p) @ PutU32 [] (sf_frame p) @
      PutU32 [] (sf_gameplayAbi p) @ concat (map (PutInput []) ?xs)"
    by (simp add: spectator_packet_bytes_def)
  note d1 = u64.drop_put [OF d]
  note d2 = u32.drop_put [OF d1]
  note d3 = u32.drop_put [OF d2]
  from ok have valid: "list_all (ValidInput cfg) ?xs" by (simp add: spectator_packet_ok_def)
  have xs: "get_many (GetInput cfg) (length ?xs) ?d 24 = Some (?xs, 24 + length ?xs * 12)"
    by (rule input.get_many_put [OF valid, of _ _ "[]"]) (use d3 in simp)
  have head: "?d ! 6 = sf_playerCount p" "?d ! 7 = 0"
    by (simp_all add: spectator_packet_bytes_def)
  have "PeekPacketType cfg ?d = Some PT_SpectatorFrame"
    by (rule PeekPacketType_head) (simp_all add: spectator_packet_bytes_def)
  then show ?thesis
    using u64.get_put_total [OF d] u32.get_put_total [OF d1] u32.get_put_total [OF d2] xs head ok
    by (simp add: DecodeSpectatorFramePacket_def packet_simps GetInputs_def spectator_packet_ok_def
        spectator_transmitted_def length_spectator_packet_bytes not_le not_less)
qed

section \<open>The decoders accept nothing else\<close>

lemma take_8_nth:
  assumes "8 \<le> length d"
  shows "[d ! 0, d ! 1, d ! 2, d ! 3, d ! 4, d ! 5, d ! 6, d ! 7] @ drop 8 d = d"
  using take_drop_nths(3) [of 0 d] append_take_drop_id [of 8 d] assms by (simp add: numeral_2_eq_2)

lemma DecodeInputPacket_fields:
  assumes dec: "DecodeInputPacket cfg d = Some p"
  shows "input_packet_ok cfg p" and "ip_inputCount p = 0 \<Longrightarrow> ip_firstInputFrame p = INVALID_FRAME"
    and "transmitted p = p" and "length d = 44 + unat (ip_inputCount p) * 12"
    and "d = take 43 (input_packet_bytes cfg p) @ d ! 43 # drop 44 (input_packet_bytes cfg p)"
proof -
  from dec obtain xs at where
    len: "44 \<le> length d" and head: "d ! 0 = 0x45" "d ! 1 = MagicGame cfg" "d ! 2 = 0x4E" "d ! 3 = 0x50"
      "d ! 4 = 4" "d ! 5 = 1" "d ! 6 = ip_senderPlayer p" "d ! 7 = ip_playerCount p"
    and seats: "2 \<le> ip_playerCount p" "ip_playerCount p \<le> MAX_PLAYERS" "ip_senderPlayer p < ip_playerCount p"
    and g: "GetU64 d 8 = Some (ip_sessionId p, 16)" "GetU32 d 16 = Some (ip_sequence p, 20)"
      "GetU32 d 20 = Some (ip_ackSequence p, 24)" "GetU32 d 24 = Some (ip_latestFrame p, 28)"
      "GetU32 d 28 = Some (ip_ackFrame p, 32)" "GetU32 d 32 = Some (ip_firstInputFrame p, 36)"
      "GetU32 d 36 = Some (ip_senderFrame p, 40)" "GetU16 d 40 = Some (ip_frameAdvantage p, 42)"
    and count: "d ! 42 = ip_inputCount p" "ip_inputCount p \<le> MAX_REDUNDANT_INPUTS"
      "length d = 44 + unat (ip_inputCount p) * 12"
      "ip_inputCount p = 0 \<Longrightarrow> ip_firstInputFrame p = INVALID_FRAME"
      "ip_inputCount p \<noteq> 0 \<Longrightarrow> frame_range_ok (ip_firstInputFrame p) (ip_latestFrame p) (ip_inputCount p)"
    and xs: "get_many (GetInput cfg) (unat (ip_inputCount p)) d 44 = Some (xs, at)"
    and inputs: "ip_inputs p = stored_inputs xs"
    by (auto simp: DecodeInputPacket_def packet_simps GetInputs_def not_le not_less split: option.splits if_splits
        dest!: u64.get_sound u32.get_sound u16.get_sound)
  from input.get_many_sound [OF xs] have list: "length xs = unat (ip_inputCount p)" "list_all (ValidInput cfg) xs"
    and body: "drop 44 d = concat (map (PutInput []) xs) @ drop (44 + unat (ip_inputCount p) * 12) d"
    by simp_all
  from list(1) inputs have il: "input_list p = xs"
    by (auto simp: input_list_def stored_inputs_def intro: nth_equalityI)
  show "input_packet_ok cfg p"
    using seats count list(2) il by (simp add: input_packet_ok_def word_gt_0)
  show "ip_inputCount p = 0 \<Longrightarrow> ip_firstInputFrame p = INVALID_FRAME" by (rule count(4))
  show "transmitted p = p" using il inputs by (simp add: transmitted_def)
  show "length d = 44 + unat (ip_inputCount p) * 12" by (rule count(3))
  note fields = u64.get_drop [OF g(1)] u32.get_drop [OF g(2)] u32.get_drop [OF g(3)] u32.get_drop [OF g(4)]
    u32.get_drop [OF g(5)] u32.get_drop [OF g(6)] u32.get_drop [OF g(7)] u16.get_drop [OF g(8)]
  have tail: "drop 42 d = ip_inputCount p # d ! 43 # concat (map (PutInput []) xs)"
    using count(1,3) len body Cons_nth_drop_Suc [of 42 d] Cons_nth_drop_Suc [of 43 d] by simp
  have "d = [0x45, MagicGame cfg, 0x4E, 0x50, 4, 1, ip_senderPlayer p, ip_playerCount p] @ drop 8 d"
    by (rule sym) (use take_8_nth [of d] len head in simp)
  also have "drop 8 d = PutU64 [] (ip_sessionId p) @ PutU32 [] (ip_sequence p) @
      PutU32 [] (ip_ackSequence p) @ PutU32 [] (ip_latestFrame p) @ PutU32 [] (ip_ackFrame p) @
      PutU32 [] (ip_firstInputFrame p) @ PutU32 [] (ip_senderFrame p) @
      PutU16 [] (ip_frameAdvantage p) @ ip_inputCount p # d ! 43 # concat (map (PutInput []) xs)"
    by (simp only: fields tail append.assoc)
  also have "[0x45, MagicGame cfg, 0x4E, 0x50, 4, 1, ip_senderPlayer p, ip_playerCount p] @ \<dots> =
      take 43 (input_packet_bytes cfg p) @ d ! 43 # drop 44 (input_packet_bytes cfg p)"
    by (simp add: input_packet_bytes_def il PutU16_le PutU32_le PutU64_le)
  finally show "d = take 43 (input_packet_bytes cfg p) @ d ! 43 # drop 44 (input_packet_bytes cfg p)" .
qed

lemma PeekPacketType_Some:
  assumes "PeekPacketType cfg d = Some t"
  shows "6 \<le> length d" and "d ! 0 = 0x45" and "d ! 1 = MagicGame cfg" and "d ! 2 = 0x4E" and "d ! 3 = 0x50"
    and "d ! 4 = 4" and "d ! 5 = PacketType_byte t"
  using assms by (auto simp: PeekPacketType_def MAGIC_def PROTOCOL_VERSION_def not_less split: if_splits)

lemma DecodeSessionPacket_fields:
  assumes dec: "DecodeSessionPacket cfg d = Some p"
  shows "session_packet_ok p" and "length d = 32" and "d = take 29 (session_packet_bytes cfg p) @ drop 29 d"
proof -
  from dec have len: "length d = 32" and peek: "PeekPacketType cfg d = Some PT_Session"
    by (auto simp: DecodeSessionPacket_def packet_simps split: if_splits)
  from dec peek have head: "d ! 6 = sp_senderPlayer p" "d ! 7 = sp_playerCount p"
    and seats: "2 \<le> sp_playerCount p" "sp_playerCount p \<le> MAX_PLAYERS" "sp_senderPlayer p < sp_playerCount p"
    and g: "GetU64 d 8 = Some (sp_sessionId p, 16)" "GetU32 d 16 = Some (sp_seed p, 20)"
      "GetU32 d 20 = Some (sp_gameplayAbi p, 24)" "GetU32 d 24 = Some (sp_gameId p, 28)"
    and phase: "d ! 28 = SessionPhase_byte (sp_phase p)"
    by (auto simp: DecodeSessionPacket_def packet_simps not_le not_less split: option.splits if_splits
        dest!: u64.get_sound u32.get_sound)
  show "session_packet_ok p" using seats by (simp add: session_packet_ok_def)
  show "length d = 32" by (rule len)
  note fields = u64.get_drop [OF g(1)] u32.get_drop [OF g(2)] u32.get_drop [OF g(3)] u32.get_drop [OF g(4)]
  have tail: "drop 28 d = SessionPhase_byte (sp_phase p) # drop 29 d"
    using len phase Cons_nth_drop_Suc [of 28 d] by simp
  have "d = [0x45, MagicGame cfg, 0x4E, 0x50, 4, 2, sp_senderPlayer p, sp_playerCount p] @ drop 8 d"
    by (rule sym) (use take_8_nth [of d] len head PeekPacketType_Some [OF peek] in simp)
  also have "drop 8 d = PutU64 [] (sp_sessionId p) @ PutU32 [] (sp_seed p) @ PutU32 [] (sp_gameplayAbi p) @
      PutU32 [] (sp_gameId p) @ SessionPhase_byte (sp_phase p) # drop 29 d"
    by (simp only: fields tail append.assoc)
  also have "[0x45, MagicGame cfg, 0x4E, 0x50, 4, 2, sp_senderPlayer p, sp_playerCount p] @ \<dots> =
      take 29 (session_packet_bytes cfg p) @ drop 29 d"
    by (simp add: session_packet_bytes_def PutU32_le PutU64_le)
  finally show "d = take 29 (session_packet_bytes cfg p) @ drop 29 d" .
qed

lemma DecodeSpectatorFramePacket_fields:
  assumes dec: "DecodeSpectatorFramePacket cfg d = Some p"
  shows "spectator_packet_ok cfg p" and "spectator_transmitted p = p" and "d = spectator_packet_bytes cfg p"
proof -
  from dec have peek: "PeekPacketType cfg d = Some PT_SpectatorFrame"
    by (auto simp: DecodeSpectatorFramePacket_def split: if_splits)
  from dec peek obtain xs at where head: "d ! 6 = sf_playerCount p" "d ! 7 = 0"
    and seats: "2 \<le> sf_playerCount p" "sf_playerCount p \<le> MAX_PLAYERS" "sf_frame p \<noteq> INVALID_FRAME"
    and len: "length d = 24 + unat (sf_playerCount p) * 12"
    and g: "GetU64 d 8 = Some (sf_sessionId p, 16)" "GetU32 d 16 = Some (sf_frame p, 20)"
      "GetU32 d 20 = Some (sf_gameplayAbi p, 24)"
    and xs: "get_many (GetInput cfg) (unat (sf_playerCount p)) d 24 = Some (xs, at)"
    and inputs: "sf_inputs p = stored_inputs xs"
    by (auto simp: DecodeSpectatorFramePacket_def packet_simps GetInputs_def not_le not_less
        split: option.splits if_splits dest!: u64.get_sound u32.get_sound)
  from input.get_many_sound [OF xs] len have list: "length xs = unat (sf_playerCount p)" "list_all (ValidInput cfg) xs"
    and body: "drop 24 d = concat (map (PutInput []) xs)"
    by simp_all
  from list(1) inputs have il: "spectator_inputs p = xs"
    by (auto simp: spectator_inputs_def stored_inputs_def intro: nth_equalityI)
  show "spectator_packet_ok cfg p" using seats list(2) il by (simp add: spectator_packet_ok_def)
  show "spectator_transmitted p = p" using il inputs by (simp add: spectator_transmitted_def)
  note fields = u64.get_drop [OF g(1)] u32.get_drop [OF g(2)] u32.get_drop [OF g(3)]
  have "d = [0x45, MagicGame cfg, 0x4E, 0x50, 4, 3, sf_playerCount p, 0] @ drop 8 d"
    by (rule sym) (use take_8_nth [of d] len head PeekPacketType_Some [OF peek] in simp)
  also have "drop 8 d = PutU64 [] (sf_sessionId p) @ PutU32 [] (sf_frame p) @ PutU32 [] (sf_gameplayAbi p) @
      concat (map (PutInput []) xs)"
    by (simp only: fields body append.assoc)
  finally show "d = spectator_packet_bytes cfg p" by (simp add: spectator_packet_bytes_def il)
qed

section \<open>Frame ranges\<close>

lemma unat_INVALID_FRAME: "unat INVALID_FRAME = 4294967295"
  by (simp add: INVALID_FRAME_def)

lemma unat_frame_less: "unat (f :: u32) < 4294967296"
  using unsigned_less [of f, where ?'a = nat] by simp

lemma frame_neq_INVALID: "f \<noteq> INVALID_FRAME \<longleftrightarrow> unat f < 4294967295"
proof -
  have "f \<noteq> INVALID_FRAME \<longleftrightarrow> unat f \<noteq> 4294967295"
    using unat_INVALID_FRAME by (metis word_unat_eq_iff)
  then show ?thesis using unat_frame_less [of f] by linarith
qed

lemma unat_add_nat: "unat f + k < 4294967296 \<Longrightarrow> unat (f + word_of_nat k :: u32) = unat f + k"
  by (simp add: unat_word_ariths unat_of_nat)

lemma unat_ucast_count: "unat (ucast (count :: u8) :: u32) = unat count"
  using unsigned_less [of count, where ?'a = nat] by (simp add: unsigned_ucast_eq take_bit_nat_eq_self)

lemma frame_range_ok_iff:
  assumes "0 < count"
  shows "frame_range_ok first latest count \<longleftrightarrow>
    unat latest + 1 = unat first + unat count \<and> unat latest < 4294967295"
proof -
  let ?c = "ucast count :: u32"
  have c: "unat ?c = unat count" by (rule unat_ucast_count)
  have "0 < unat count" "unat count < 256" using assms unsigned_less [of count, where ?'a = nat]
    by (simp_all add: word_less_nat_alt)
  with c have c1: "unat (?c - 1) = unat count - 1" "unat (INVALID_FRAME - (?c - 1)) = 4294967295 - (unat count - 1)"
    by (simp_all add: unat_sub word_le_nat_alt unat_INVALID_FRAME)
  have sum: "unat (first + ?c - 1) = unat first + unat count - 1"
    if "unat first + (unat count - 1) \<le> 4294967295"
  proof -
    have "word_of_nat (unat count - 1) = ?c - 1" using c1(1) by (metis of_nat_unat ucast_id)
    with unat_add_nat [of first "unat count - 1"] that \<open>0 < unat count\<close>
    have "unat (first + (?c - 1)) = unat first + unat count - 1" by simp
    then show ?thesis by (simp only: add_diff_eq)
  qed
  have "frame_range_ok first latest count \<longleftrightarrow> unat first < 4294967295 \<and> unat latest < 4294967295 \<and>
      unat first + (unat count - 1) \<le> 4294967295 \<and> unat (first + ?c - 1) = unat latest"
    using c1(2) \<open>unat count < 256\<close> unat_frame_less [of latest] unat_frame_less [of first]
    by (auto simp: frame_range_ok_def frame_neq_INVALID word_less_nat_alt word_unat_eq_iff unat_INVALID_FRAME)
  also have "\<dots> \<longleftrightarrow> unat latest + 1 = unat first + unat count \<and> unat latest < 4294967295"
    using sum \<open>0 < unat count\<close> by auto
  finally show ?thesis .
qed

section \<open>Properties of the wire codec\<close>

text \<open>The configuration and the packets the witnesses evaluate.\<close>

definition sample_config :: ProtocolConfig where
  "sample_config = \<lparr>MagicGame = 0x54, MaxAnalogMode = 4\<rparr>"

definition sample_packet :: InputPacket where
  "sample_packet = InputPacket_default\<lparr>ip_sessionId := 7, ip_latestFrame := 1, ip_firstInputFrame := 0,
     ip_senderFrame := 2, ip_senderPlayer := 1, ip_playerCount := 2, ip_inputCount := 2,
     ip_inputs := (\<lambda>i. FrameInput_of_bits (word_of_nat (i + 5)))\<rparr>"

definition sample_spectator_packet :: SpectatorFramePacket where
  "sample_spectator_packet = \<lparr>sf_sessionId = 9, sf_frame = 3, sf_gameplayAbi = 4, sf_playerCount = 2,
     sf_inputs = (\<lambda>i. FrameInput_of_bits (word_of_nat (i + 1)))\<rparr>"

lemma ValidInput_of_bits [simp]: "ValidInput cfg (FrameInput_of_bits b)"
  by (simp add: ValidInput_def FrameInput_of_bits_def FrameInput_default_def AM_None_def f32_isfinite_def
      f32_exponent_def)

lemma sample_packet_ok: "input_packet_ok sample_config sample_packet"
  by (simp add: input_packet_ok_def sample_packet_def InputPacket_default_def MAX_PLAYERS_def
      MAX_REDUNDANT_INPUTS_def frame_range_ok_def INVALID_FRAME_def input_list_def list_all_iff)

lemma sample_spectator_packet_ok: "spectator_packet_ok sample_config sample_spectator_packet"
  by (simp add: spectator_packet_ok_def sample_spectator_packet_def MAX_PLAYERS_def INVALID_FRAME_def
      spectator_inputs_def list_all_iff)

lemma Encode_iff: "fst (EncodeInputPacket cfg p out) \<longleftrightarrow> input_packet_ok cfg p"
  using EncodeInputPacket_ok [of cfg p out] EncodeInputPacket_fails [of cfg p out] by auto

text \<open>
  C11: Decoding what the encoder of input packets wrote gives the packet back, with the samples
  beyond its count at their default, for every packet the encoder accepts whose first frame is the
  sentinel when it carries no input.
\<close>

theorem input_packet_roundtrip:
  assumes "fst (EncodeInputPacket cfg p out)"
    and "ip_inputCount p = 0 \<Longrightarrow> ip_firstInputFrame p = INVALID_FRAME"
  shows "DecodeInputPacket cfg (snd (EncodeInputPacket cfg p out)) = Some (transmitted p)"
proof -
  from assms(1) have ok: "input_packet_ok cfg p" by (simp add: Encode_iff)
  from DecodeInputPacket_bytes [OF ok assms(2)] EncodeInputPacket_ok [OF ok, of out] show ?thesis by simp
qed

theorem input_packet_roundtrip_witness:
  "DecodeInputPacket sample_config (snd (EncodeInputPacket sample_config sample_packet [])) =
     Some (transmitted sample_packet)"
  by (rule input_packet_roundtrip) (simp add: Encode_iff sample_packet_ok, simp add: sample_packet_def)

text \<open>
  C12: The decoder of input packets accepts only what the encoder produces, up to the reserved byte
  at offset 43, which the decoder skips: if a buffer decodes, then encoding the decoded packet
  succeeds, into any buffer, and gives the accepted bytes with the reserved byte cleared.
\<close>

theorem input_packet_canonical:
  assumes dec: "DecodeInputPacket cfg d = Some p"
  shows "EncodeInputPacket cfg p out = (True, d[43 := 0])"
proof -
  note f = DecodeInputPacket_fields [OF dec]
  let ?e = "input_packet_bytes cfg p"
  have len: "43 < length ?e" by (simp add: length_input_packet_bytes)
  have zero: "?e ! 43 = 0"
    by (simp add: input_packet_bytes_def nth_append PutU16_le PutU32_le PutU64_le)
  from f(5) have "d[43 := 0] = (take 43 ?e @ d ! 43 # drop 44 ?e)[43 := 0]" by (rule arg_cong)
  also have "\<dots> = take 43 ?e @ 0 # drop 44 ?e" using len by (simp add: list_update_append)
  also have "\<dots> = ?e" using id_take_nth_drop [OF len] zero by simp
  finally show ?thesis using EncodeInputPacket_ok [OF f(1)] by simp
qed

theorem input_packet_canonical_witness:
  "EncodeInputPacket sample_config (transmitted sample_packet) [] =
     (True, (snd (EncodeInputPacket sample_config sample_packet []))[43 := 0])"
proof (rule input_packet_canonical)
  show "DecodeInputPacket sample_config (snd (EncodeInputPacket sample_config sample_packet [])) =
      Some (transmitted sample_packet)"
    using DecodeInputPacket_bytes [OF sample_packet_ok] EncodeInputPacket_ok [OF sample_packet_ok]
    by (simp add: sample_packet_def)
qed

text \<open>
  C13: Every decoded input packet is safe to index with: two or three seats, the sender one of them,
  at most 32 samples, each of them finite and of a supported analog mode; a packet with samples
  covers the frames first to latest without wrapping around or reaching the sentinel, and a packet
  without has the sentinel as its first frame.
\<close>

theorem input_packet_decoder_guarantee:
  assumes "DecodeInputPacket cfg d = Some p"
  shows "2 \<le> ip_playerCount p \<and> ip_playerCount p \<le> 3 \<and> ip_senderPlayer p < ip_playerCount p \<and>
    unat (ip_inputCount p) \<le> 32 \<and> (\<forall>i. ValidInput cfg (ip_inputs p i)) \<and>
    (if ip_inputCount p = 0 then ip_firstInputFrame p = INVALID_FRAME
     else unat (ip_latestFrame p) + 1 = unat (ip_firstInputFrame p) + unat (ip_inputCount p) \<and>
       ip_latestFrame p \<noteq> INVALID_FRAME)"
proof -
  note f = DecodeInputPacket_fields [OF assms]
  have default: "ValidInput cfg FrameInput_default"
    using ValidInput_of_bits [of cfg 0] by (simp add: FrameInput_of_bits_def FrameInput_default_def)
  from f(3) have "ip_inputs p = stored_inputs (input_list p)"
    by (metis (mono_tags) InputPacket.select_convs(12) InputPacket.surjective InputPacket.update_convs(12) transmitted_def)
  with f(1) default have "ValidInput cfg (ip_inputs p i)" for i
    by (auto simp: stored_inputs_def input_packet_ok_def list_all_length)
  moreover have "unat (ip_inputCount p) \<le> 32"
    using f(1) by (simp add: input_packet_ok_def MAX_REDUNDANT_INPUTS_def word_le_nat_alt)
  ultimately show ?thesis
    using f(1,2) frame_range_ok_iff [of "ip_inputCount p" "ip_firstInputFrame p" "ip_latestFrame p"]
    by (auto simp: input_packet_ok_def MAX_PLAYERS_def frame_neq_INVALID word_gt_0)
qed

theorem input_packet_decoder_guarantee_witness:
  "unat (ip_latestFrame (transmitted sample_packet)) + 1 =
     unat (ip_firstInputFrame (transmitted sample_packet)) + unat (ip_inputCount (transmitted sample_packet))"
  using input_packet_decoder_guarantee [of sample_config "input_packet_bytes sample_config sample_packet"
      "transmitted sample_packet"] DecodeInputPacket_bytes [OF sample_packet_ok]
  by (simp add: sample_packet_def transmitted_def)

lemma session_packet_bytes_reserved:
  "take 29 (session_packet_bytes cfg p) @ [0, 0, 0] = session_packet_bytes cfg p"
  by (simp add: session_packet_bytes_def PutU16_le PutU32_le PutU64_le)

text \<open>
  C14: The codec of session packets is exact up to the three reserved bytes at the end, which the
  encoder clears and the decoder does not read: a buffer decodes to a packet if and only if it has
  32 bytes and the encoder accepts that packet and writes the first 29 bytes of the buffer followed
  by three zero bytes.
\<close>

theorem session_packet_codec_exact:
  "DecodeSessionPacket cfg d = Some p \<longleftrightarrow>
     length d = 32 \<and> EncodeSessionPacket cfg p out = (True, take 29 d @ [0, 0, 0])"
proof
  assume dec: "DecodeSessionPacket cfg d = Some p"
  note f = DecodeSessionPacket_fields [OF dec]
  from f(3) have "take 29 d = take 29 (take 29 (session_packet_bytes cfg p) @ drop 29 d)" by (rule arg_cong)
  then have "take 29 d = take 29 (session_packet_bytes cfg p)"
    by (simp add: length_session_packet_bytes)
  with f(2) EncodeSessionPacket_ok [OF f(1)] session_packet_bytes_reserved [of cfg p]
  show "length d = 32 \<and> EncodeSessionPacket cfg p out = (True, take 29 d @ [0, 0, 0])" by simp
next
  assume enc: "length d = 32 \<and> EncodeSessionPacket cfg p out = (True, take 29 d @ [0, 0, 0])"
  then have ok: "session_packet_ok p" using EncodeSessionPacket_fails [of p cfg out] by fastforce
  from enc EncodeSessionPacket_ok [OF ok] have "take 29 d @ [0, 0, 0] = session_packet_bytes cfg p" by simp
  then have "take 29 (take 29 d @ [0, 0, 0]) = take 29 (session_packet_bytes cfg p)" by (rule arg_cong)
  with enc have same: "take 29 d = take 29 (session_packet_bytes cfg p)" by simp
  from DecodeSessionPacket_bytes [OF ok _ same] enc show "DecodeSessionPacket cfg d = Some p" by simp
qed

text \<open>
  The codec of spectator frames is exact and leaves no slack: a buffer decodes to a packet if
  and only if the packet is what is transmitted of itself, the encoder accepts it and the buffer is
  what the encoder writes.
\<close>

lemma spectator_packet_codec_exact:
  "DecodeSpectatorFramePacket cfg d = Some p \<longleftrightarrow>
     spectator_transmitted p = p \<and> EncodeSpectatorFramePacket cfg p out = (True, d)"
proof
  assume dec: "DecodeSpectatorFramePacket cfg d = Some p"
  note f = DecodeSpectatorFramePacket_fields [OF dec]
  from f(2,3) EncodeSpectatorFramePacket_ok [OF f(1)]
  show "spectator_transmitted p = p \<and> EncodeSpectatorFramePacket cfg p out = (True, d)" by simp
next
  assume enc: "spectator_transmitted p = p \<and> EncodeSpectatorFramePacket cfg p out = (True, d)"
  then have ok: "spectator_packet_ok cfg p"
    using EncodeSpectatorFramePacket_fails [of cfg p out] by (metis prod.inject)
  with enc EncodeSpectatorFramePacket_ok [OF ok, of out] DecodeSpectatorFramePacket_bytes [OF ok]
  show "DecodeSpectatorFramePacket cfg d = Some p" by simp
qed

lemma packet_kinds:
  "DecodeInputPacket cfg d \<noteq> None \<Longrightarrow> PeekPacketType cfg d = Some PT_Input \<and>
      DecodeSessionPacket cfg d = None \<and> DecodeSpectatorFramePacket cfg d = None"
  "DecodeSessionPacket cfg d \<noteq> None \<Longrightarrow> PeekPacketType cfg d = Some PT_Session \<and>
      DecodeInputPacket cfg d = None \<and> DecodeSpectatorFramePacket cfg d = None"
  "DecodeSpectatorFramePacket cfg d \<noteq> None \<Longrightarrow> PeekPacketType cfg d = Some PT_SpectatorFrame \<and>
      DecodeInputPacket cfg d = None \<and> DecodeSessionPacket cfg d = None"
proof -
  have i: "DecodeInputPacket cfg d \<noteq> None \<Longrightarrow> PeekPacketType cfg d = Some PT_Input"
    by (rule PeekPacketType_head) (auto simp: DecodeInputPacket_def packet_simps split: if_splits)
  have s: "DecodeSessionPacket cfg d \<noteq> None \<Longrightarrow> PeekPacketType cfg d = Some PT_Session"
    by (auto simp: DecodeSessionPacket_def split: if_splits)
  have f: "DecodeSpectatorFramePacket cfg d \<noteq> None \<Longrightarrow> PeekPacketType cfg d = Some PT_SpectatorFrame"
    by (auto simp: DecodeSpectatorFramePacket_def split: if_splits)
  show "DecodeInputPacket cfg d \<noteq> None \<Longrightarrow> PeekPacketType cfg d = Some PT_Input \<and>
      DecodeSessionPacket cfg d = None \<and> DecodeSpectatorFramePacket cfg d = None"
    "DecodeSessionPacket cfg d \<noteq> None \<Longrightarrow> PeekPacketType cfg d = Some PT_Session \<and>
      DecodeInputPacket cfg d = None \<and> DecodeSpectatorFramePacket cfg d = None"
    "DecodeSpectatorFramePacket cfg d \<noteq> None \<Longrightarrow> PeekPacketType cfg d = Some PT_SpectatorFrame \<and>
      DecodeInputPacket cfg d = None \<and> DecodeSessionPacket cfg d = None"
    using i s f by (metis PacketType.distinct option.inject)+
qed

text \<open>
  C15: The three packet kinds share one prefix and cannot be confused: a buffer that one decoder
  accepts is classified as that kind and rejected by the two others.
\<close>

theorem packet_kinds_disjoint:
  "(DecodeInputPacket cfg d \<noteq> None \<longrightarrow> PeekPacketType cfg d = Some PT_Input \<and>
      DecodeSessionPacket cfg d = None \<and> DecodeSpectatorFramePacket cfg d = None) \<and>
   (DecodeSessionPacket cfg d \<noteq> None \<longrightarrow> PeekPacketType cfg d = Some PT_Session \<and>
      DecodeInputPacket cfg d = None \<and> DecodeSpectatorFramePacket cfg d = None) \<and>
   (DecodeSpectatorFramePacket cfg d \<noteq> None \<longrightarrow> PeekPacketType cfg d = Some PT_SpectatorFrame \<and>
      DecodeInputPacket cfg d = None \<and> DecodeSessionPacket cfg d = None)"
  using packet_kinds [of cfg d] by blast

theorem packet_kinds_disjoint_witness:
  "DecodeSpectatorFramePacket sample_config (spectator_packet_bytes sample_config sample_spectator_packet) \<noteq> None \<and>
   DecodeInputPacket sample_config (spectator_packet_bytes sample_config sample_spectator_packet) = None"
  using packet_kinds_disjoint [of sample_config "spectator_packet_bytes sample_config sample_spectator_packet"]
    DecodeSpectatorFramePacket_bytes [OF sample_spectator_packet_ok] by simp

end
