(* ===== verification/Session.thy ===== *)
theory Session
  imports Wire
begin

text \<open>
  The readiness gate of a session: \<^verbatim>\<open>NetplaySession.hpp\<close> and \<^verbatim>\<open>NetplaySession.cpp\<close>. The state of
  \<^verbatim>\<open>SessionGate\<close>, its operations, runs of operations as an inductive relation that records the
  packets applied, and the handshake properties.
\<close>

section \<open>The gate\<close>

record SessionConfig =
  sc_sessionId :: u64
  sc_seed :: u32
  sc_gameplayAbi :: u32
  sc_gameId :: u32
  sc_playerCount :: u8
  sc_localPlayer :: u8

definition SessionConfig_default :: SessionConfig where
  "SessionConfig_default = \<lparr>sc_sessionId = 0, sc_seed = 0, sc_gameplayAbi = 0, sc_gameId = 0,
     sc_playerCount = 2, sc_localPlayer = 0\<rparr>"

datatype SessionPacketResult =
  SPR_Accepted | SPR_Duplicate | SPR_InvalidPeer | SPR_ContractMismatch | SPR_ReadyBeforeHello

record SessionGate =
  sg_config :: SessionConfig
  sg_configured :: bool
  sg_localReady :: bool
  sg_transportAvailable :: bool
  sg_peerHello :: "u8 \<Rightarrow> bool"
  sg_peerReady :: "u8 \<Rightarrow> bool"

definition Gate_Clear :: "SessionGate \<Rightarrow> SessionGate" where
  "Gate_Clear g = g\<lparr>sg_config := SessionConfig_default, sg_configured := False,
     sg_localReady := False, sg_transportAvailable := True,
     sg_peerHello := (\<lambda>_. False), sg_peerReady := (\<lambda>_. False)\<rparr>"

definition Gate_Reset :: "SessionGate \<Rightarrow> SessionConfig \<Rightarrow> bool \<times> SessionGate" where
  "Gate_Reset g config =
     (let g = Gate_Clear g in
      if sc_playerCount config < 2 \<or> sc_playerCount config > MAX_PLAYERS \<or>
         sc_localPlayer config \<ge> sc_playerCount config \<or> sc_gameId config = 0 \<or>
         sc_gameplayAbi config = 0 \<or> sc_sessionId config = 0
      then (False, g)
      else (True, g\<lparr>sg_config := config, sg_configured := True\<rparr>))"

definition Gate_BuildPacket :: "SessionGate \<Rightarrow> SessionPhase \<Rightarrow> SessionPacket" where
  "Gate_BuildPacket g phase =
     (if \<not> sg_configured g then SessionPacket_default
      else \<lparr>sp_sessionId = sc_sessionId (sg_config g), sp_seed = sc_seed (sg_config g),
        sp_gameplayAbi = sc_gameplayAbi (sg_config g), sp_gameId = sc_gameId (sg_config g),
        sp_senderPlayer = sc_localPlayer (sg_config g),
        sp_playerCount = sc_playerCount (sg_config g), sp_phase = phase\<rparr>)"

definition MatchesContract :: "SessionGate \<Rightarrow> SessionPacket \<Rightarrow> bool" where
  "MatchesContract g packet \<longleftrightarrow>
     sp_sessionId packet = sc_sessionId (sg_config g) \<and> sp_seed packet = sc_seed (sg_config g) \<and>
     sp_gameplayAbi packet = sc_gameplayAbi (sg_config g) \<and>
     sp_gameId packet = sc_gameId (sg_config g) \<and>
     sp_playerCount packet = sc_playerCount (sg_config g)"

definition Gate_Apply :: "SessionGate \<Rightarrow> SessionPacket \<Rightarrow> SessionPacketResult \<times> SessionGate" where
  "Gate_Apply g packet =
     (if \<not> sg_configured g \<or> sp_senderPlayer packet \<ge> sc_playerCount (sg_config g) \<or>
         sp_senderPlayer packet = sc_localPlayer (sg_config g)
      then (SPR_InvalidPeer, g)
      else if \<not> MatchesContract g packet then (SPR_ContractMismatch, g)
      else let player = sp_senderPlayer packet in
      if sp_phase packet = Hello then
        (if sg_peerHello g player then (SPR_Duplicate, g)
         else (SPR_Accepted, g\<lparr>sg_peerHello := (sg_peerHello g)(player := True)\<rparr>))
      else if \<not> sg_peerHello g player then (SPR_ReadyBeforeHello, g)
      else if sg_peerReady g player then (SPR_Duplicate, g)
      else (SPR_Accepted, g\<lparr>sg_peerReady := (sg_peerReady g)(player := True)\<rparr>))"

definition is_remote :: "SessionConfig \<Rightarrow> u8 \<Rightarrow> bool" where
  "is_remote config player \<longleftrightarrow> player < sc_playerCount config \<and> player \<noteq> sc_localPlayer config"

definition PeerHello :: "SessionGate \<Rightarrow> u8 \<Rightarrow> bool" where
  "PeerHello g player \<longleftrightarrow> sg_configured g \<and> player < sc_playerCount (sg_config g) \<and>
     player \<noteq> sc_localPlayer (sg_config g) \<and> sg_peerHello g player"

definition PeerReady :: "SessionGate \<Rightarrow> u8 \<Rightarrow> bool" where
  "PeerReady g player \<longleftrightarrow> sg_configured g \<and> player < sc_playerCount (sg_config g) \<and>
     player \<noteq> sc_localPlayer (sg_config g) \<and> sg_peerReady g player"

definition AllPeersHello :: "SessionGate \<Rightarrow> bool" where
  "AllPeersHello g \<longleftrightarrow> sg_configured g \<and>
     list_all (\<lambda>player. \<not> (player \<noteq> sc_localPlayer (sg_config g) \<and> \<not> sg_peerHello g player))
       (seats (sc_playerCount (sg_config g)))"

definition AllPeersReady :: "SessionGate \<Rightarrow> bool" where
  "AllPeersReady g \<longleftrightarrow> sg_configured g \<and>
     list_all (\<lambda>player. \<not> (player \<noteq> sc_localPlayer (sg_config g) \<and> \<not> sg_peerReady g player))
       (seats (sc_playerCount (sg_config g)))"

definition CanSendReady :: "SessionGate \<Rightarrow> bool" where
  "CanSendReady g = AllPeersHello g"

definition CanStart :: "SessionGate \<Rightarrow> bool" where
  "CanStart g \<longleftrightarrow> sg_transportAvailable g \<and> sg_localReady g \<and> AllPeersReady g"

definition SetTransportAvailable :: "SessionGate \<Rightarrow> bool \<Rightarrow> SessionGate" where
  "SetTransportAvailable g available = g\<lparr>sg_transportAvailable := available\<rparr>"

definition MarkLocalReady :: "SessionGate \<Rightarrow> SessionGate" where
  "MarkLocalReady g = (if CanSendReady g then g\<lparr>sg_localReady := True\<rparr> else g)"

section \<open>Runs\<close>

text \<open>
  \<open>gate_run config log g\<close>: the gate \<open>g\<close> results from a successful reset with \<open>config\<close>
  and any sequence of the state-changing operations; \<open>log\<close> holds the packets it accepted,
  latest first.
\<close>

inductive gate_run :: "SessionConfig \<Rightarrow> SessionPacket list \<Rightarrow> SessionGate \<Rightarrow> bool"
  for config :: SessionConfig
where
  reset: "Gate_Reset g0 config = (True, g) \<Longrightarrow> gate_run config [] g"
| accept: "gate_run config log g \<Longrightarrow> Gate_Apply g packet = (SPR_Accepted, g') \<Longrightarrow>
     gate_run config (packet # log) g'"
| refuse: "gate_run config log g \<Longrightarrow> Gate_Apply g packet = (r, g') \<Longrightarrow> r \<noteq> SPR_Accepted \<Longrightarrow>
     gate_run config log g'"
| ready: "gate_run config log g \<Longrightarrow> gate_run config log (MarkLocalReady g)"
| transport: "gate_run config log g \<Longrightarrow> gate_run config log (SetTransportAvailable g available)"

lemma AllPeersHello_iff:
  "AllPeersHello g \<longleftrightarrow> sg_configured g \<and> (\<forall>p. is_remote (sg_config g) p \<longrightarrow> sg_peerHello g p)"
  by (auto simp: AllPeersHello_def list_all_iff is_remote_def)

lemma AllPeersReady_iff:
  "AllPeersReady g \<longleftrightarrow> sg_configured g \<and> (\<forall>p. is_remote (sg_config g) p \<longrightarrow> sg_peerReady g p)"
  by (auto simp: AllPeersReady_def list_all_iff is_remote_def)

lemma Gate_Apply_accepted:
  assumes "Gate_Apply g packet = (SPR_Accepted, g')"
  shows "sg_configured g" and "is_remote (sg_config g) (sp_senderPlayer packet)" and "MatchesContract g packet"
    and "sp_phase packet = Hello \<Longrightarrow> \<not> sg_peerHello g (sp_senderPlayer packet) \<and>
      g' = g\<lparr>sg_peerHello := (sg_peerHello g)(sp_senderPlayer packet := True)\<rparr>"
    and "sp_phase packet = Ready \<Longrightarrow> sg_peerHello g (sp_senderPlayer packet) \<and> \<not> sg_peerReady g (sp_senderPlayer packet) \<and>
      g' = g\<lparr>sg_peerReady := (sg_peerReady g)(sp_senderPlayer packet := True)\<rparr>"
  using assms by (auto simp: Gate_Apply_def is_remote_def Let_def split: if_splits)

text \<open>A packet that is not accepted changes nothing.\<close>

lemma Gate_Apply_refused: "Gate_Apply g packet = (r, g') \<Longrightarrow> r \<noteq> SPR_Accepted \<Longrightarrow> g' = g"
  by (auto simp: Gate_Apply_def Let_def split: if_splits)

text \<open>The contract packet a conforming peer in seat \<open>p\<close> sends.\<close>

definition contract_packet :: "SessionConfig \<Rightarrow> u8 \<Rightarrow> SessionPhase \<Rightarrow> SessionPacket" where
  "contract_packet config p phase = \<lparr>sp_sessionId = sc_sessionId config, sp_seed = sc_seed config,
     sp_gameplayAbi = sc_gameplayAbi config, sp_gameId = sc_gameId config, sp_senderPlayer = p,
     sp_playerCount = sc_playerCount config, sp_phase = phase\<rparr>"

lemma MatchesContract_iff:
  "MatchesContract g packet \<longleftrightarrow> packet = contract_packet (sg_config g) (sp_senderPlayer packet) (sp_phase packet)"
  by (cases packet) (auto simp: MatchesContract_def contract_packet_def)

lemma SessionPhase_exhaust: "phase \<noteq> Hello \<longleftrightarrow> phase = Ready"
  by (cases phase) auto

definition gate_inv :: "SessionConfig \<Rightarrow> SessionPacket list \<Rightarrow> SessionGate \<Rightarrow> bool" where
  "gate_inv config log g \<longleftrightarrow> sg_configured g \<and> sg_config g = config \<and>
     (\<forall>p. sg_peerHello g p \<longleftrightarrow> contract_packet config p Hello \<in> set log) \<and>
     (\<forall>p. sg_peerReady g p \<longleftrightarrow> contract_packet config p Ready \<in> set log) \<and>
     (\<forall>m \<in> set log. is_remote config (sp_senderPlayer m) \<and>
        m = contract_packet config (sp_senderPlayer m) (sp_phase m)) \<and>
     distinct log \<and> (\<forall>p. sg_peerReady g p \<longrightarrow> sg_peerHello g p) \<and>
     (sg_localReady g \<longrightarrow> (\<forall>p. is_remote config p \<longrightarrow> sg_peerHello g p))"

lemma contract_packet_eq [simp]:
  "contract_packet c p a = contract_packet c q b \<longleftrightarrow> p = q \<and> a = b"
  "sp_senderPlayer (contract_packet c p a) = p" "sp_phase (contract_packet c p a) = a"
  by (auto simp: contract_packet_def)

lemma gate_inv_accept:
  assumes inv: "gate_inv config log g" and acc: "Gate_Apply g packet = (SPR_Accepted, g')"
  shows "gate_inv config (packet # log) g'"
proof -
  from inv have cfg: "sg_config g = config" by (simp add: gate_inv_def)
  note a = Gate_Apply_accepted [OF acc, unfolded cfg]
  define p where "p = sp_senderPlayer packet"
  from a(3) have packet: "packet = contract_packet config p (sp_phase packet)"
    by (simp add: MatchesContract_iff cfg p_def)
  show ?thesis
  proof (cases "sp_phase packet")
    case Hello
    with a(2,4) packet inv show ?thesis
      by (auto simp: gate_inv_def p_def [symmetric])
  next
    case Ready
    with a(2,5) packet inv show ?thesis
      by (auto simp: gate_inv_def p_def [symmetric])
  qed
qed

lemma gate_run_inv: "gate_run config log g \<Longrightarrow> gate_inv config log g"
proof (induction rule: gate_run.induct)
  case (reset g0 g)
  then show ?case by (auto simp: Gate_Reset_def Gate_Clear_def gate_inv_def Let_def split: if_splits)
next
  case (accept log g packet g')
  then show ?case by (blast intro: gate_inv_accept)
next
  case (refuse log g packet r g')
  then show ?case using Gate_Apply_refused by blast
next
  case (ready log g)
  then show ?case by (auto simp: MarkLocalReady_def CanSendReady_def AllPeersHello_iff gate_inv_def)
next
  case (transport log g available)
  then show ?case by (auto simp: SetTransportAvailable_def gate_inv_def)
qed

text \<open>READY is only ever accepted after HELLO from the same seat.\<close>

lemma gate_run_order:
  "gate_run config log g \<Longrightarrow> log = us @ contract_packet config p Ready # vs \<Longrightarrow>
     contract_packet config p Hello \<in> set vs"
proof (induction arbitrary: us rule: gate_run.induct)
  case (accept log g packet g')
  from gate_run_inv [OF accept.hyps(1)] have inv: "gate_inv config log g" .
  show ?case
  proof (cases us)
    case Nil
    with accept.prems have eq: "packet = contract_packet config p Ready" "vs = log" by simp_all
    with Gate_Apply_accepted(5) [OF accept.hyps(2)] have "sg_peerHello g p" by simp
    with inv eq show ?thesis by (simp add: gate_inv_def)
  next
    case (Cons m us')
    with accept.prems accept.IH [of us'] show ?thesis by simp
  qed
qed simp_all

section \<open>Properties of the handshake\<close>

definition sample_session :: "u8 \<Rightarrow> SessionConfig" where
  "sample_session p = \<lparr>sc_sessionId = 11, sc_seed = 5, sc_gameplayAbi = 8, sc_gameId = 6,
     sc_playerCount = 2, sc_localPlayer = p\<rparr>"

definition fresh_gate :: SessionGate where
  "fresh_gate = \<lparr>sg_config = SessionConfig_default, sg_configured = False, sg_localReady = False,
     sg_transportAvailable = True, sg_peerHello = (\<lambda>_. False), sg_peerReady = (\<lambda>_. False)\<rparr>"

definition sample_gate :: "u8 \<Rightarrow> SessionGate" where
  "sample_gate p = snd (Gate_Reset fresh_gate (sample_session p))"

definition sample_log :: "SessionPacket list" where
  "sample_log = [contract_packet (sample_session 0) 1 Ready, contract_packet (sample_session 0) 1 Hello]"

definition started_gate :: SessionGate where
  "started_gate = MarkLocalReady (snd (Gate_Apply (snd (Gate_Apply (sample_gate 0)
     (contract_packet (sample_session 0) 1 Hello))) (contract_packet (sample_session 0) 1 Ready)))"

lemmas sample_gate_defs = sample_gate_def fresh_gate_def sample_session_def Gate_Reset_def Gate_Clear_def
  SessionConfig_default_def MAX_PLAYERS_def

lemma sample_gate_reset: "p < 2 \<Longrightarrow> gate_run (sample_session p) [] (sample_gate p)"
  by (rule gate_run.reset [of fresh_gate]) (simp add: sample_gate_defs Let_def)

lemma gate_run_accept:
  "gate_run config log g \<Longrightarrow> fst (Gate_Apply g m) = SPR_Accepted \<Longrightarrow>
     gate_run config (m # log) (snd (Gate_Apply g m))"
  by (rule gate_run.accept) (auto simp: prod_eq_iff)

lemma started_gate_run: "gate_run (sample_session 0) sample_log started_gate"
  unfolding started_gate_def sample_log_def
  by (rule gate_run.ready, rule gate_run_accept, rule gate_run_accept, rule sample_gate_reset)
    (simp_all add: Gate_Apply_def MatchesContract_def contract_packet_def sample_gate_defs Let_def)

lemma started_gate_CanStart: "CanStart started_gate"
  by (simp add: started_gate_def CanStart_def AllPeersReady_iff MarkLocalReady_def CanSendReady_def
      AllPeersHello_iff is_remote_def Gate_Apply_def MatchesContract_def contract_packet_def
      sample_gate_defs Let_def) unat_arith

text \<open>
  C16: A gate opens only after a complete handshake. In every run from a successful reset, the gate
  can start only if from every remote seat it has accepted a HELLO and, later, a READY that both
  carry this session's id, seed, gameplay ABI, game and player count; the local seat was marked
  ready, and no seat outside the session is recorded.
\<close>

theorem gate_start_requires_handshake:
  assumes run: "gate_run config log g" and start: "CanStart g"
  shows "sg_localReady g \<and> sg_transportAvailable g \<and>
    (\<forall>p. is_remote config p \<longrightarrow> (\<exists>us vs. log = us @ contract_packet config p Ready # vs \<and>
       contract_packet config p Hello \<in> set vs)) \<and>
    set log = {contract_packet config p phase |p phase. is_remote config p}"
proof -
  from gate_run_inv [OF run] have inv: "gate_inv config log g" .
  with start have all: "contract_packet config p Ready \<in> set log" "contract_packet config p Hello \<in> set log"
    if "is_remote config p" for p
    using that by (auto simp: CanStart_def AllPeersReady_iff gate_inv_def)
  have "contract_packet config p phase \<in> set log" if "is_remote config p" for p phase
    using all [OF that] by (cases phase) simp_all
  moreover have "m \<in> {contract_packet config p phase |p phase. is_remote config p}" if "m \<in> set log" for m
    using inv that unfolding gate_inv_def by blast
  ultimately have "set log = {contract_packet config p phase |p phase. is_remote config p}"
    by blast
  moreover have "\<exists>us vs. log = us @ contract_packet config p Ready # vs \<and> contract_packet config p Hello \<in> set vs"
    if "is_remote config p" for p
    using split_list [OF all(1) [OF that]] gate_run_order [OF run] by blast
  ultimately show ?thesis using start by (auto simp: CanStart_def)
qed

theorem gate_start_requires_handshake_witness:
  "is_remote (sample_session 0) 1 \<and>
   set sample_log = {contract_packet (sample_session 0) p phase |p phase. is_remote (sample_session 0) p}"
  using gate_start_requires_handshake [OF started_gate_run started_gate_CanStart]
  by (simp add: is_remote_def sample_session_def)

text \<open>
  C17: The handshake completes. In every run in which the READY of every remote seat was accepted,
  marking the local seat ready makes the gate able to start while the transport is available, and
  every further copy of a packet it already accepted is reported as a duplicate and changes nothing.
\<close>

theorem gate_handshake_completes:
  assumes run: "gate_run config log g"
    and ready: "\<forall>p. is_remote config p \<longrightarrow> contract_packet config p Ready \<in> set log"
    and transport: "sg_transportAvailable g"
  shows "CanStart (MarkLocalReady g) \<and>
    (\<forall>m \<in> set log. Gate_Apply (MarkLocalReady g) m = (SPR_Duplicate, MarkLocalReady g))"
proof -
  from gate_run_inv [OF gate_run.ready [OF run]] have inv': "gate_inv config log (MarkLocalReady g)" .
  from gate_run_inv [OF run] have inv: "gate_inv config log g" .
  with ready have hello: "AllPeersHello g" and allready: "AllPeersReady g"
    by (auto simp: AllPeersHello_iff AllPeersReady_iff gate_inv_def)
  have "Gate_Apply (MarkLocalReady g) m = (SPR_Duplicate, MarkLocalReady g)" if m: "m \<in> set log" for m
  proof -
    from inv' m have remote: "is_remote config (sp_senderPlayer m)"
      and eq: "m = contract_packet config (sp_senderPlayer m) (sp_phase m)"
      by (auto simp: gate_inv_def)
    from inv' have cfg: "sg_configured (MarkLocalReady g)" "sg_config (MarkLocalReady g) = config"
      by (simp_all add: gate_inv_def)
    from eq cfg have "MatchesContract (MarkLocalReady g) m" by (simp add: MatchesContract_iff)
    moreover from inv' m eq have "sp_phase m = Hello \<Longrightarrow> sg_peerHello (MarkLocalReady g) (sp_senderPlayer m)"
      and "sp_phase m = Ready \<Longrightarrow> sg_peerHello (MarkLocalReady g) (sp_senderPlayer m) \<and>
        sg_peerReady (MarkLocalReady g) (sp_senderPlayer m)"
      by (auto simp: gate_inv_def)
    ultimately show ?thesis
      using cfg remote by (cases "sp_phase m") (auto simp: Gate_Apply_def is_remote_def Let_def)
  qed
  moreover have "CanStart (MarkLocalReady g)"
    using hello allready transport
    by (simp add: CanStart_def MarkLocalReady_def CanSendReady_def AllPeersReady_iff)
  ultimately show ?thesis by blast
qed

theorem gate_handshake_completes_witness: "CanStart (MarkLocalReady started_gate)"
proof (rule conjunct1 [OF gate_handshake_completes [OF started_gate_run]])
  show "\<forall>p. is_remote (sample_session 0) p \<longrightarrow> contract_packet (sample_session 0) p Ready \<in> set sample_log"
    by (simp add: is_remote_def sample_session_def sample_log_def contract_packet_def) unat_arith
  show "sg_transportAvailable started_gate"
    using started_gate_CanStart by (simp add: CanStart_def)
qed

text \<open>
  C18: A gate that accepts the packet another configured gate built agrees with it on the whole
  contract: session id, seed, gameplay ABI, game and player count are equal, and the two gates hold
  different seats.
\<close>

theorem gate_accept_agreement:
  assumes "sg_configured h" and "Gate_Apply g (Gate_BuildPacket h phase) = (SPR_Accepted, g')"
  shows "sg_config h = (sg_config g)\<lparr>sc_localPlayer := sc_localPlayer (sg_config h)\<rparr> \<and>
    sc_localPlayer (sg_config h) \<noteq> sc_localPlayer (sg_config g) \<and>
    sc_localPlayer (sg_config h) < sc_playerCount (sg_config g)"
  using Gate_Apply_accepted(2,3) [OF assms(2)] assms(1)
  by (cases "sg_config h", cases "sg_config g")
    (auto simp: Gate_BuildPacket_def MatchesContract_def is_remote_def)

theorem gate_accept_agreement_witness:
  "sg_config (sample_gate 1) = (sg_config (sample_gate 0))\<lparr>sc_localPlayer := 1\<rparr>"
  using gate_accept_agreement [of "sample_gate 1" "sample_gate 0" Hello "snd (Gate_Apply (sample_gate 0)
      (Gate_BuildPacket (sample_gate 1) Hello))"]
  by (simp add: Gate_Apply_def Gate_BuildPacket_def MatchesContract_def sample_gate_defs Let_def)

end
