(* ===== verification/Core.thy ===== *)
theory Core
  imports Wire
begin

text \<open>
  The rollback core: \<^verbatim>\<open>NetplayCore.hpp\<close> and \<^verbatim>\<open>NetplayCore.cpp\<close>. The configuration, the input and
  decision rings, and every operation of \<^verbatim>\<open>RollbackCore\<close>, in the order of the source.

  \<^verbatim>\<open>inputs_[player][frame % 256]\<close> and \<^verbatim>\<open>used_[frame % 256]\<close> are functions of the seat and the ring
  index; arrays indexed by a seat are functions of the seat. A method that changes the object
  returns its result with the new object. A pointer to a slot is the slot itself, an absent one is
  \<open>None\<close>. The loop of \<open>AdvanceConfirmedThrough\<close> has fuel \<open>INPUT_HISTORY_SIZE + 1\<close>:
  \<open>advance_loop_exit\<close> in \<open>CoreLemmas\<close> shows that it always leaves the loop by the code's own exits.
\<close>

section \<open>Data\<close>

definition INPUT_HISTORY_SIZE :: nat where "INPUT_HISTORY_SIZE = 256"

record CoreConfig =
  cc_sessionId :: u64
  cc_playerCount :: u8
  cc_localPlayer :: u8
  cc_inputDelay :: u8
  cc_maxRollbackFrames :: u8
  cc_predictableButtons :: u16
  cc_directionButtons :: u16
  cc_maxDirectionPredictionFrames :: u8
  cc_maxDirectTouchDeltaPredictionFrames :: u8
  cc_directTouchIsAbsolute :: bool
  cc_allowPrediction :: bool

definition CoreConfig_default :: CoreConfig where
  "CoreConfig_default = \<lparr>cc_sessionId = 0, cc_playerCount = 2, cc_localPlayer = 0, cc_inputDelay = 0,
     cc_maxRollbackFrames = 8, cc_predictableButtons = 0xffff, cc_directionButtons = 0,
     cc_maxDirectionPredictionFrames = 0xff, cc_maxDirectTouchDeltaPredictionFrames = 0,
     cc_directTouchIsAbsolute = False, cc_allowPrediction = True\<rparr>"

record FrameDecision =
  fd_canAdvance :: bool
  fd_predictedMask :: u8
  fd_inputs :: "u8 \<Rightarrow> FrameInput"

definition FrameDecision_default :: FrameDecision where
  "FrameDecision_default = \<lparr>fd_canAdvance = False, fd_predictedMask = 0,
     fd_inputs = (\<lambda>_. FrameInput_default)\<rparr>"

datatype RemoteInputResult =
  RIR_Accepted | RIR_Duplicate | RIR_PredictionCorrect | RIR_RollbackRequired
| RIR_ConflictingConfirmedInput | RIR_TooOld | RIR_InvalidPlayer

datatype EquivalentRemoteInputResult =
  EQR_Confirmed | EQR_Duplicate | EQR_ConflictingConfirmedInput | EQR_TooOld | EQR_InvalidPlayer
| EQR_NotPredicted

record InputSlot =
  slot_frame :: u32
  slot_input :: FrameInput
  slot_present :: bool

definition InputSlot_default :: InputSlot where
  "InputSlot_default = \<lparr>slot_frame = INVALID_FRAME, slot_input = FrameInput_default, slot_present = False\<rparr>"

record UsedSlot =
  used_frame :: u32
  used_inputs :: "u8 \<Rightarrow> FrameInput"
  used_predictedMask :: u8

definition UsedSlot_default :: UsedSlot where
  "UsedSlot_default = \<lparr>used_frame = INVALID_FRAME, used_inputs = (\<lambda>_. FrameInput_default),
     used_predictedMask = 0\<rparr>"

record RollbackCore =
  rc_config :: CoreConfig
  rc_configured :: bool
  rc_inputs :: "u8 \<Rightarrow> nat \<Rightarrow> InputSlot"
  rc_used :: "nat \<Rightarrow> UsedSlot"
  rc_confirmedThrough :: "u8 \<Rightarrow> u32"
  rc_peerAckOfLocal :: "u8 \<Rightarrow> u32"
  rc_lastSimulatedFrame :: u32
  rc_rollbackFrame :: u32

fun ResultRank :: "RemoteInputResult \<Rightarrow> nat" where
  "ResultRank RIR_ConflictingConfirmedInput = 6"
| "ResultRank RIR_TooOld = 5"
| "ResultRank RIR_RollbackRequired = 4"
| "ResultRank RIR_PredictionCorrect = 3"
| "ResultRank RIR_Accepted = 2"
| "ResultRank RIR_Duplicate = 1"
| "ResultRank RIR_InvalidPlayer = 7"

definition inputs_eq :: "(u8 \<Rightarrow> FrameInput) \<Rightarrow> (u8 \<Rightarrow> FrameInput) \<Rightarrow> bool" where
  "inputs_eq a b = list_all (\<lambda>p. input_eq (a p) (b p)) (seats MAX_PLAYERS)"

section \<open>Slots\<close>

definition ring :: "u32 \<Rightarrow> nat" where
  "ring frame = unat frame mod INPUT_HISTORY_SIZE"

definition slot_at :: "RollbackCore \<Rightarrow> u8 \<Rightarrow> u32 \<Rightarrow> InputSlot" where
  "slot_at c player frame = rc_inputs c player (ring frame)"

definition set_slot :: "RollbackCore \<Rightarrow> u8 \<Rightarrow> u32 \<Rightarrow> InputSlot \<Rightarrow> RollbackCore" where
  "set_slot c player frame slot =
     c\<lparr>rc_inputs := (rc_inputs c)(player := (rc_inputs c player)(ring frame := slot))\<rparr>"

definition GetInputSlot :: "RollbackCore \<Rightarrow> u8 \<Rightarrow> u32 \<Rightarrow> RollbackCore" where
  "GetInputSlot c player frame =
     (if slot_frame (slot_at c player frame) \<noteq> frame
      then set_slot c player frame (InputSlot_default\<lparr>slot_frame := frame\<rparr>) else c)"

definition FindInputSlot :: "RollbackCore \<Rightarrow> u8 \<Rightarrow> u32 \<Rightarrow> InputSlot option" where
  "FindInputSlot c player frame =
     (let slot = slot_at c player frame in
      if slot_frame slot = frame \<and> slot_present slot then Some slot else None)"

definition FindUsedSlot :: "RollbackCore \<Rightarrow> u32 \<Rightarrow> UsedSlot option" where
  "FindUsedSlot c frame =
     (let slot = rc_used c (ring frame) in if used_frame slot = frame then Some slot else None)"

text \<open>\<^verbatim>\<open>slot->input = input; slot->present = true;\<close> on the slot \<^verbatim>\<open>GetInputSlot\<close> returned.\<close>

definition fill_slot :: "RollbackCore \<Rightarrow> u8 \<Rightarrow> u32 \<Rightarrow> FrameInput \<Rightarrow> RollbackCore" where
  "fill_slot c player frame input =
     set_slot c player frame ((slot_at c player frame)\<lparr>slot_input := input, slot_present := True\<rparr>)"

section \<open>Confirmation frontier\<close>

fun advance_loop :: "nat \<Rightarrow> RollbackCore \<Rightarrow> u8 \<Rightarrow> u32 \<Rightarrow> u32 \<Rightarrow> u32" where
  "advance_loop 0 c player confirmed next = confirmed"
| "advance_loop (Suc n) c player confirmed next =
     (if FindInputSlot c player next = None then confirmed
      else if next = INVALID_FRAME - 1 then next
      else advance_loop n c player next (next + 1))"

definition AdvanceConfirmedThrough :: "RollbackCore \<Rightarrow> u8 \<Rightarrow> RollbackCore" where
  "AdvanceConfirmedThrough c player =
     (let confirmed = rc_confirmedThrough c player;
          next = (if confirmed = INVALID_FRAME then 0 else confirmed + 1)
      in c\<lparr>rc_confirmedThrough := (rc_confirmedThrough c)
           (player := advance_loop (INPUT_HISTORY_SIZE + 1) c player confirmed next)\<rparr>)"

section \<open>Lifecycle\<close>

definition Core_Clear :: "RollbackCore \<Rightarrow> RollbackCore" where
  "Core_Clear c = c\<lparr>rc_configured := False, rc_config := CoreConfig_default,
     rc_inputs := (\<lambda>_ _. InputSlot_default), rc_used := (\<lambda>_. UsedSlot_default),
     rc_confirmedThrough := (\<lambda>_. INVALID_FRAME), rc_peerAckOfLocal := (\<lambda>_. INVALID_FRAME),
     rc_lastSimulatedFrame := INVALID_FRAME, rc_rollbackFrame := INVALID_FRAME\<rparr>"

definition config_valid :: "CoreConfig \<Rightarrow> bool" where
  "config_valid config \<longleftrightarrow>
     \<not> (cc_playerCount config < 2 \<or> cc_playerCount config > MAX_PLAYERS \<or>
        cc_localPlayer config \<ge> cc_playerCount config \<or> cc_maxRollbackFrames config = 0 \<or>
        unat (cc_maxRollbackFrames config) \<ge> INPUT_HISTORY_SIZE div 2 \<or>
        unat (cc_inputDelay config) \<ge> INPUT_HISTORY_SIZE div 4)"

definition Core_Reset :: "RollbackCore \<Rightarrow> CoreConfig \<Rightarrow> bool \<times> RollbackCore" where
  "Core_Reset c config =
     (let c = Core_Clear c in
      if \<not> config_valid config then (False, c)
      else
        let c = c\<lparr>rc_config := config, rc_configured := True\<rparr>;
            c = foldl (\<lambda>c player. c\<lparr>rc_confirmedThrough :=
                  (rc_confirmedThrough c)(player := INVALID_FRAME)\<rparr>) c (seats (cc_playerCount config));
            c = foldl (\<lambda>c frame. fill_slot (GetInputSlot c (cc_localPlayer config) frame)
                  (cc_localPlayer config) frame FrameInput_default) c
                  (map word_of_nat [0..<unat (cc_inputDelay config)])
        in (True, AdvanceConfirmedThrough c (cc_localPlayer config)))"

section \<open>Local input\<close>

definition LocalFrameForCapture :: "RollbackCore \<Rightarrow> u32 \<Rightarrow> u32" where
  "LocalFrameForCapture c captureFrame =
     (if \<not> rc_configured c \<or> captureFrame \<ge> INVALID_FRAME - ucast (cc_inputDelay (rc_config c))
      then INVALID_FRAME else captureFrame + ucast (cc_inputDelay (rc_config c)))"

definition ScheduleLocalInput :: "RollbackCore \<Rightarrow> u32 \<Rightarrow> FrameInput \<Rightarrow> bool \<times> RollbackCore" where
  "ScheduleLocalInput c captureFrame input =
     (let frame = LocalFrameForCapture c captureFrame; local = cc_localPlayer (rc_config c) in
      if frame = INVALID_FRAME then (False, c)
      else
        let c = GetInputSlot c local frame; slot = slot_at c local frame in
        if slot_present slot \<and> \<not> input_eq (slot_input slot) input then (False, c)
        else (True, AdvanceConfirmedThrough (fill_slot c local frame input) local))"

definition SetLocalLeadInInput :: "RollbackCore \<Rightarrow> u32 \<Rightarrow> FrameInput \<Rightarrow> bool \<times> RollbackCore" where
  "SetLocalLeadInInput c frame input =
     (let config = rc_config c; local = cc_localPlayer config in
      if \<not> rc_configured c \<or> frame \<ge> ucast (cc_inputDelay config) \<or>
         rc_lastSimulatedFrame c \<noteq> INVALID_FRAME
      then (False, c)
      else if list_ex (\<lambda>peer. peer \<noteq> local \<and> rc_peerAckOfLocal c peer \<noteq> INVALID_FRAME)
                (seats (cc_playerCount config))
      then (False, c)
      else
        let c = GetInputSlot c local frame; slot = slot_at c local frame in
        if \<not> slot_present slot \<or>
           (\<not> input_eq (slot_input slot) FrameInput_default \<and> \<not> input_eq (slot_input slot) input)
        then (False, c)
        else (True, set_slot c local frame (slot\<lparr>slot_input := input\<rparr>)))"

definition HasLocalCapture :: "RollbackCore \<Rightarrow> u32 \<Rightarrow> bool" where
  "HasLocalCapture c captureFrame =
     (let target = LocalFrameForCapture c captureFrame in
      target \<noteq> INVALID_FRAME \<and> FindInputSlot c (cc_localPlayer (rc_config c)) target \<noteq> None)"

section \<open>Remote input\<close>

definition FrameIsTooOld :: "RollbackCore \<Rightarrow> u32 \<Rightarrow> bool" where
  "FrameIsTooOld c frame \<longleftrightarrow>
     rc_lastSimulatedFrame c \<noteq> INVALID_FRAME \<and> frame \<le> rc_lastSimulatedFrame c \<and>
     unat (rc_lastSimulatedFrame c - frame) \<ge> INPUT_HISTORY_SIZE"

definition SubmitRemoteInput ::
    "RollbackCore \<Rightarrow> u8 \<Rightarrow> u32 \<Rightarrow> FrameInput \<Rightarrow> RemoteInputResult \<times> RollbackCore" where
  "SubmitRemoteInput c player frame input =
     (if \<not> rc_configured c \<or> player \<ge> cc_playerCount (rc_config c) \<or>
         player = cc_localPlayer (rc_config c)
      then (RIR_InvalidPlayer, c)
      else if FrameIsTooOld c frame then (RIR_TooOld, c)
      else
        let c = GetInputSlot c player frame; slot = slot_at c player frame in
        if slot_present slot
        then (if input_eq (slot_input slot) input then RIR_Duplicate else RIR_ConflictingConfirmedInput, c)
        else
          let c = AdvanceConfirmedThrough (fill_slot c player frame input) player in
          case FindUsedSlot c frame of None \<Rightarrow> (RIR_Accepted, c) | Some used \<Rightarrow>
          if rc_lastSimulatedFrame c = INVALID_FRAME \<or> frame > rc_lastSimulatedFrame c
          then (RIR_Accepted, c)
          else if used_predictedMask used AND seat_mask player = 0
          then (if input_eq (used_inputs used player) input then RIR_Duplicate
                else RIR_ConflictingConfirmedInput, c)
          else if input_eq (used_inputs used player) input then (RIR_PredictionCorrect, c)
          else (RIR_RollbackRequired,
            if rc_rollbackFrame c = INVALID_FRAME \<or> frame < rc_rollbackFrame c
            then c\<lparr>rc_rollbackFrame := frame\<rparr> else c))"

definition SubmitEquivalentRemoteInput ::
    "RollbackCore \<Rightarrow> u8 \<Rightarrow> u32 \<Rightarrow> FrameInput \<Rightarrow> EquivalentRemoteInputResult \<times> RollbackCore" where
  "SubmitEquivalentRemoteInput c player frame input =
     (if \<not> rc_configured c \<or> player \<ge> cc_playerCount (rc_config c) \<or>
         player = cc_localPlayer (rc_config c)
      then (EQR_InvalidPlayer, c)
      else if FrameIsTooOld c frame then (EQR_TooOld, c)
      else
        let c = GetInputSlot c player frame; slot = slot_at c player frame in
        if slot_present slot
        then (if input_eq (slot_input slot) input then EQR_Duplicate else EQR_ConflictingConfirmedInput, c)
        else
          case FindUsedSlot c frame of None \<Rightarrow> (EQR_NotPredicted, c) | Some used \<Rightarrow>
          if rc_lastSimulatedFrame c = INVALID_FRAME \<or> frame > rc_lastSimulatedFrame c
          then (EQR_NotPredicted, c)
          else if used_predictedMask used AND seat_mask player = 0 then (EQR_NotPredicted, c)
          else (EQR_Confirmed, AdvanceConfirmedThrough (fill_slot c player frame input) player))"

section \<open>Observers\<close>

definition InputPresent :: "RollbackCore \<Rightarrow> u8 \<Rightarrow> u32 \<Rightarrow> bool" where
  "InputPresent c player frame \<longleftrightarrow>
     rc_configured c \<and> player < cc_playerCount (rc_config c) \<and> FindInputSlot c player frame \<noteq> None"

text \<open>The input and the flag \<^verbatim>\<open>UsedInput\<close> writes, where it returns true.\<close>

definition UsedInput :: "RollbackCore \<Rightarrow> u8 \<Rightarrow> u32 \<Rightarrow> (FrameInput \<times> bool) option" where
  "UsedInput c player frame =
     (if \<not> rc_configured c \<or> player \<ge> cc_playerCount (rc_config c) then None
      else case FindUsedSlot c frame of None \<Rightarrow> None
        | Some slot \<Rightarrow> Some (used_inputs slot player, used_predictedMask slot AND seat_mask player \<noteq> 0))"

definition ConfirmedThrough :: "RollbackCore \<Rightarrow> u8 \<Rightarrow> u32" where
  "ConfirmedThrough c player =
     (if rc_configured c \<and> player < cc_playerCount (rc_config c)
      then rc_confirmedThrough c player else INVALID_FRAME)"

fun remotes_minimum :: "RollbackCore \<Rightarrow> u8 list \<Rightarrow> u32 \<Rightarrow> u32" where
  "remotes_minimum c [] confirmed = confirmed"
| "remotes_minimum c (player # players) confirmed =
     (if player = cc_localPlayer (rc_config c) then remotes_minimum c players confirmed
      else let value = ConfirmedThrough c player in
        if value = INVALID_FRAME then INVALID_FRAME
        else remotes_minimum c players
          (if confirmed = INVALID_FRAME \<or> value < confirmed then value else confirmed))"

definition ConfirmedThroughAllRemotes :: "RollbackCore \<Rightarrow> u32" where
  "ConfirmedThroughAllRemotes c =
     (if \<not> rc_configured c then INVALID_FRAME
      else remotes_minimum c (seats (cc_playerCount (rc_config c))) INVALID_FRAME)"

definition LocalInput :: "RollbackCore \<Rightarrow> u32 \<Rightarrow> FrameInput \<times> bool" where
  "LocalInput c frame =
     (case (if rc_configured c then FindInputSlot c (cc_localPlayer (rc_config c)) frame else None) of
        None \<Rightarrow> (FrameInput_default, False) | Some slot \<Rightarrow> (slot_input slot, True))"

definition AcknowledgedLocalThrough :: "RollbackCore \<Rightarrow> u8 \<Rightarrow> u32" where
  "AcknowledgedLocalThrough c peer =
     (if \<not> rc_configured c \<or> peer \<ge> cc_playerCount (rc_config c) \<or> peer = cc_localPlayer (rc_config c)
      then INVALID_FRAME else rc_peerAckOfLocal c peer)"

fun acks_minimum :: "RollbackCore \<Rightarrow> u8 list \<Rightarrow> u32 \<Rightarrow> u32" where
  "acks_minimum c [] minimum = minimum"
| "acks_minimum c (peer # peers) minimum =
     (if peer = cc_localPlayer (rc_config c) then acks_minimum c peers minimum
      else if rc_peerAckOfLocal c peer = INVALID_FRAME then INVALID_FRAME
      else acks_minimum c peers (min minimum (rc_peerAckOfLocal c peer)))"

definition AcknowledgedLocalThroughAllRemotes :: "RollbackCore \<Rightarrow> u32" where
  "AcknowledgedLocalThroughAllRemotes c =
     (if \<not> rc_configured c then INVALID_FRAME
      else acks_minimum c (seats (cc_playerCount (rc_config c))) INVALID_FRAME)"

definition HasRollbackRequest :: "RollbackCore \<Rightarrow> bool" where
  "HasRollbackRequest c \<longleftrightarrow> rc_rollbackFrame c \<noteq> INVALID_FRAME"

definition ClearRollbackRequest :: "RollbackCore \<Rightarrow> RollbackCore" where
  "ClearRollbackRequest c = c\<lparr>rc_rollbackFrame := INVALID_FRAME\<rparr>"

section \<open>Prediction\<close>

text \<open>The prediction made from the sample \<open>input\<close> of \<open>distance\<close> frames ago.\<close>

definition predict_from :: "CoreConfig \<Rightarrow> nat \<Rightarrow> FrameInput \<Rightarrow> FrameInput" where
  "predict_from config distance input =
     (let predicted = input;
          predicted = predicted\<lparr>buttons := buttons predicted AND cc_predictableButtons config\<rparr>;
          predicted = (if distance > unat (cc_maxDirectionPredictionFrames config)
            then predicted\<lparr>buttons := buttons predicted AND NOT (cc_directionButtons config)\<rparr> else predicted);
          predicted = predicted\<lparr>touchBomb := False\<rparr>;
          predicted =
            (if analogMode predicted = AM_DirectTouchDelta \<or> analogMode predicted = AM_DirectTouchBegin
             then
               let holdDelta = (analogMode predicted = AM_DirectTouchDelta \<and>
                     distance \<le> unat (cc_maxDirectTouchDeltaPredictionFrames config));
                   predicted = predicted\<lparr>analogMode := AM_DirectTouchDelta\<rparr>
               in if \<not> holdDelta then predicted\<lparr>axis_x := 0, axis_y := 0\<rparr> else predicted
             else predicted)
      in if analogMode predicted = AM_DirectTouch \<and> \<not> cc_directTouchIsAbsolute config \<and> distance > 1
         then predicted\<lparr>axis_x := 0, axis_y := 0\<rparr> else predicted)"

text \<open>The loop over the distances: the first one with a sample in history decides.\<close>

fun predict_loop :: "RollbackCore \<Rightarrow> u8 \<Rightarrow> u32 \<Rightarrow> nat list \<Rightarrow> FrameInput" where
  "predict_loop c player frame [] = FrameInput_default"
| "predict_loop c player frame (distance # distances) =
     (case FindInputSlot c player (frame - word_of_nat distance) of
        Some slot \<Rightarrow> predict_from (rc_config c) distance (slot_input slot)
      | None \<Rightarrow> predict_loop c player frame distances)"

definition PredictInput :: "RollbackCore \<Rightarrow> u8 \<Rightarrow> u32 \<Rightarrow> FrameInput" where
  "PredictInput c player frame =
     (if frame = 0 then FrameInput_default
      else predict_loop c player frame [1..<min (unat frame) INPUT_HISTORY_SIZE + 1])"

section \<open>Frames\<close>

fun prepare_seats :: "RollbackCore \<Rightarrow> u32 \<Rightarrow> u8 list \<Rightarrow> FrameDecision \<Rightarrow> FrameDecision" where
  "prepare_seats c frame [] decision = decision\<lparr>fd_canAdvance := True\<rparr>"
| "prepare_seats c frame (player # players) decision =
     (let config = rc_config c; confirmed = rc_confirmedThrough c player in
      if \<not> cc_allowPrediction config \<and> (confirmed = INVALID_FRAME \<or> confirmed < frame) then decision
      else if player \<noteq> cc_localPlayer config \<and>
          (if confirmed = INVALID_FRAME then frame + 1
           else if frame > confirmed then frame - confirmed else 0) > ucast (cc_maxRollbackFrames config)
      then decision
      else case FindInputSlot c player frame of
        Some slot \<Rightarrow> prepare_seats c frame players
          (decision\<lparr>fd_inputs := (fd_inputs decision)(player := slot_input slot)\<rparr>)
      | None \<Rightarrow>
        if player = cc_localPlayer config then decision
        else if confirmed \<noteq> INVALID_FRAME \<and> frame \<le> confirmed then decision
        else prepare_seats c frame players
          (decision\<lparr>fd_inputs := (fd_inputs decision)(player := PredictInput c player frame),
             fd_predictedMask := fd_predictedMask decision OR seat_mask player\<rparr>))"

definition PrepareFrame :: "RollbackCore \<Rightarrow> u32 \<Rightarrow> FrameDecision" where
  "PrepareFrame c frame =
     (if \<not> rc_configured c \<or> frame = INVALID_FRAME then FrameDecision_default
      else prepare_seats c frame (seats (cc_playerCount (rc_config c))) FrameDecision_default)"

definition MarkSimulated :: "RollbackCore \<Rightarrow> u32 \<Rightarrow> FrameDecision \<Rightarrow> bool \<times> RollbackCore" where
  "MarkSimulated c frame decision =
     (if \<not> rc_configured c \<or> \<not> fd_canAdvance decision then (False, c)
      else if \<not> cc_allowPrediction (rc_config c) \<and>
         (let exact = PrepareFrame c frame;
              next = (if rc_lastSimulatedFrame c = INVALID_FRAME then 0 else rc_lastSimulatedFrame c + 1)
          in frame \<noteq> next \<or> fd_predictedMask decision \<noteq> 0 \<or> \<not> fd_canAdvance exact \<or>
             \<not> inputs_eq (fd_inputs decision) (fd_inputs exact))
      then (False, c)
      else
        let c = c\<lparr>rc_used := (rc_used c)(ring frame := \<lparr>used_frame = frame,
              used_inputs = fd_inputs decision, used_predictedMask = fd_predictedMask decision\<rparr>)\<rparr>
        in (True, if rc_lastSimulatedFrame c = INVALID_FRAME \<or> frame > rc_lastSimulatedFrame c
                  then c\<lparr>rc_lastSimulatedFrame := frame\<rparr> else c))"

definition RewindSimulationTo :: "RollbackCore \<Rightarrow> u32 \<Rightarrow> bool \<times> RollbackCore" where
  "RewindSimulationTo c firstFrame =
     (let last = rc_lastSimulatedFrame c; rollback = rc_rollbackFrame c in
      if \<not> rc_configured c \<or> \<not> cc_allowPrediction (rc_config c) \<or> firstFrame = INVALID_FRAME \<or>
         last = INVALID_FRAME \<or> firstFrame > last \<or>
         unat (last - firstFrame) \<ge> INPUT_HISTORY_SIZE \<or>
         (rollback \<noteq> INVALID_FRAME \<and> firstFrame > rollback)
      then (False, c)
      else if list_ex (\<lambda>k. FindUsedSlot c (firstFrame + word_of_nat k) = None)
                [0..<unat (last - firstFrame) + 1]
      then (False, c)
      else (True, c\<lparr>rc_used := (\<lambda>i. let slot = rc_used c i in
              if used_frame slot \<noteq> INVALID_FRAME \<and> used_frame slot \<ge> firstFrame
              then UsedSlot_default else slot),
            rc_lastSimulatedFrame := (if firstFrame = 0 then INVALID_FRAME else firstFrame - 1),
            rc_rollbackFrame := INVALID_FRAME\<rparr>))"

fun confirmed_seats :: "RollbackCore \<Rightarrow> u32 \<Rightarrow> UsedSlot \<Rightarrow> u8 list \<Rightarrow> (u8 \<Rightarrow> FrameInput) \<Rightarrow>
    (u8 \<Rightarrow> FrameInput) option" where
  "confirmed_seats c frame used [] candidate = Some candidate"
| "confirmed_seats c frame used (seat # seats') candidate =
     (if rc_confirmedThrough c seat = INVALID_FRAME \<or> rc_confirmedThrough c seat < frame then None
      else case FindInputSlot c seat frame of None \<Rightarrow> None
        | Some input \<Rightarrow>
          if \<not> input_eq (slot_input input) (used_inputs used seat) then None
          else confirmed_seats c frame used seats' (candidate(seat := slot_input input)))"

definition ConfirmedInputs :: "RollbackCore \<Rightarrow> u32 \<Rightarrow> (u8 \<Rightarrow> FrameInput) option" where
  "ConfirmedInputs c frame =
     (if \<not> rc_configured c \<or> frame = INVALID_FRAME \<or> rc_lastSimulatedFrame c = INVALID_FRAME \<or>
         frame > rc_lastSimulatedFrame c \<or>
         (rc_rollbackFrame c \<noteq> INVALID_FRAME \<and> rc_rollbackFrame c \<le> frame)
      then None
      else case FindUsedSlot c frame of None \<Rightarrow> None
        | Some used \<Rightarrow> confirmed_seats c frame used (seats (cc_playerCount (rc_config c)))
            (\<lambda>_. FrameInput_default))"

section \<open>Packets\<close>

fun build_loop :: "RollbackCore \<Rightarrow> u32 \<Rightarrow> nat \<Rightarrow> u32 \<Rightarrow> FrameInput list" where
  "build_loop c latestFrame 0 frame = []"
| "build_loop c latestFrame (Suc n) frame =
     (if \<not> frame \<le> latestFrame then []
      else case FindInputSlot c (cc_localPlayer (rc_config c)) frame of None \<Rightarrow> []
        | Some slot \<Rightarrow> slot_input slot # build_loop c latestFrame n (frame + 1))"

definition BuildInputPacket :: "RollbackCore \<Rightarrow> u8 \<Rightarrow> u32 \<Rightarrow> u32 \<Rightarrow> u32 \<Rightarrow> InputPacket" where
  "BuildInputPacket c peer latestFrame sequence ackSequence =
     (let config = rc_config c in
      if \<not> rc_configured c \<or> peer \<ge> cc_playerCount config \<or> peer = cc_localPlayer config
      then InputPacket_default
      else
        let packet = InputPacket_default\<lparr>ip_sessionId := cc_sessionId config, ip_sequence := sequence,
              ip_ackSequence := ackSequence, ip_senderPlayer := cc_localPlayer config,
              ip_playerCount := cc_playerCount config, ip_latestFrame := latestFrame,
              ip_ackFrame := rc_confirmedThrough c peer\<rparr>;
            peerAck = rc_peerAckOfLocal c peer;
            first = (if peerAck = INVALID_FRAME then 0 else peerAck + 1);
            first = (if peerAck = INVALID_FRAME \<and> latestFrame + 1 > ucast MAX_REDUNDANT_INPUTS
              then latestFrame + 1 - ucast MAX_REDUNDANT_INPUTS else first)
        in if first > latestFrame then packet\<lparr>ip_firstInputFrame := INVALID_FRAME, ip_inputCount := 0\<rparr>
        else
          let inputs = build_loop c latestFrame (unat MAX_REDUNDANT_INPUTS) first;
              packet = packet\<lparr>ip_firstInputFrame := first, ip_inputCount := word_of_nat (length inputs),
                ip_inputs := stored_inputs inputs\<rparr>
          in if ip_inputCount packet = 0 then packet\<lparr>ip_firstInputFrame := INVALID_FRAME\<rparr>
             else packet\<lparr>ip_latestFrame := ip_firstInputFrame packet + ucast (ip_inputCount packet) - 1\<rparr>)"

text \<open>
  \<^verbatim>\<open>ApplyInputPacket\<close>, in the parts of its body: the header tests, the test of sample \<open>i\<close> of the
  validation loop (the result it would report, or \<open>None\<close> if it passes), and the commit loop.
\<close>

definition packet_header_ok :: "RollbackCore \<Rightarrow> InputPacket \<Rightarrow> bool" where
  "packet_header_ok c packet \<longleftrightarrow>
     (let config = rc_config c; local = cc_localPlayer config;
          nextFrame = (if rc_lastSimulatedFrame c = INVALID_FRAME then 0
            else unat (rc_lastSimulatedFrame c) + 1) in
      \<not> (\<not> rc_configured c \<or> ip_sessionId packet \<noteq> cc_sessionId config \<or>
         ip_playerCount packet \<noteq> cc_playerCount config \<or>
         ip_senderPlayer packet \<ge> cc_playerCount config \<or> ip_senderPlayer packet = local \<or>
         ip_inputCount packet > MAX_REDUNDANT_INPUTS) \<and>
      \<not> (ip_inputCount packet = 0 \<and> ip_firstInputFrame packet \<noteq> INVALID_FRAME) \<and>
      \<not> (ip_inputCount packet \<noteq> 0 \<and> \<not> frame_range_ok (ip_firstInputFrame packet)
           (ip_latestFrame packet) (ip_inputCount packet)) \<and>
      \<not> (ip_ackFrame packet \<noteq> INVALID_FRAME \<and>
         (rc_confirmedThrough c local = INVALID_FRAME \<or>
          ip_ackFrame packet > rc_confirmedThrough c local)) \<and>
      \<not> (ip_inputCount packet \<noteq> 0 \<and> unat (ip_latestFrame packet) \<ge> nextFrame + INPUT_HISTORY_SIZE))"

definition oldestRecoverable :: "RollbackCore \<Rightarrow> u32" where
  "oldestRecoverable c =
     (if rc_lastSimulatedFrame c = INVALID_FRAME \<or>
         rc_lastSimulatedFrame c < ucast (cc_maxRollbackFrames (rc_config c))
      then 0 else rc_lastSimulatedFrame c - ucast (cc_maxRollbackFrames (rc_config c)) + 1)"

definition validate_sample ::
    "ProtocolConfig \<Rightarrow> RollbackCore \<Rightarrow> InputPacket \<Rightarrow> nat \<Rightarrow> RemoteInputResult option" where
  "validate_sample cfg c packet i =
     (let sender = ip_senderPlayer packet; input = ip_inputs packet i;
          frame = ip_firstInputFrame packet + word_of_nat i in
      if \<not> IsValidFrameInput cfg input then Some RIR_InvalidPlayer
      else if FrameIsTooOld c frame then None
      else
        let occupant = slot_at c sender frame in
        if slot_present occupant \<and> slot_frame occupant \<noteq> frame \<and>
           (slot_frame occupant \<ge> oldestRecoverable c \<or>
            slot_frame occupant = rc_confirmedThrough c sender)
        then Some RIR_InvalidPlayer
        else if (case FindInputSlot c sender frame of
            Some existing \<Rightarrow> \<not> input_eq (slot_input existing) input
          | None \<Rightarrow> (case FindUsedSlot c frame of None \<Rightarrow> False
              | Some used \<Rightarrow> rc_lastSimulatedFrame c \<noteq> INVALID_FRAME \<and> frame \<le> rc_lastSimulatedFrame c \<and>
                  used_predictedMask used AND seat_mask sender = 0 \<and>
                  \<not> input_eq (used_inputs used sender) input))
        then Some RIR_ConflictingConfirmedInput else None)"

fun validate_samples ::
    "ProtocolConfig \<Rightarrow> RollbackCore \<Rightarrow> InputPacket \<Rightarrow> nat list \<Rightarrow> RemoteInputResult option" where
  "validate_samples cfg c packet [] = None"
| "validate_samples cfg c packet (i # is) = (case validate_sample cfg c packet i of
     Some result \<Rightarrow> Some result | None \<Rightarrow> validate_samples cfg c packet is)"

fun commit_samples :: "RollbackCore \<Rightarrow> InputPacket \<Rightarrow> nat list \<Rightarrow> RemoteInputResult \<Rightarrow>
    bool \<times> RemoteInputResult \<times> RollbackCore" where
  "commit_samples c packet [] worst = (True, worst, c)"
| "commit_samples c packet (i # is) worst =
     (let (result, c) = SubmitRemoteInput c (ip_senderPlayer packet)
            (ip_firstInputFrame packet + word_of_nat i) (ip_inputs packet i);
          worst = (if ResultRank result > ResultRank worst then result else worst)
      in if result = RIR_ConflictingConfirmedInput \<or> result = RIR_InvalidPlayer
         then (False, result, c)
         else commit_samples c packet is worst)"

definition record_ack :: "RollbackCore \<Rightarrow> InputPacket \<Rightarrow> RollbackCore" where
  "record_ack c packet =
     (let ack = rc_peerAckOfLocal c (ip_senderPlayer packet) in
      if ip_ackFrame packet \<noteq> INVALID_FRAME \<and> (ack = INVALID_FRAME \<or> ip_ackFrame packet > ack)
      then c\<lparr>rc_peerAckOfLocal := (rc_peerAckOfLocal c)(ip_senderPlayer packet := ip_ackFrame packet)\<rparr>
      else c)"

definition ApplyInputPacket ::
    "ProtocolConfig \<Rightarrow> RollbackCore \<Rightarrow> InputPacket \<Rightarrow> bool \<times> RemoteInputResult \<times> RollbackCore" where
  "ApplyInputPacket cfg c packet =
     (let samples = [0..<unat (ip_inputCount packet)] in
      if \<not> packet_header_ok c packet then (False, RIR_InvalidPlayer, c)
      else case validate_samples cfg c packet samples of
        Some result \<Rightarrow> (False, result, c)
      | None \<Rightarrow> commit_samples (record_ack c packet) packet samples RIR_Duplicate)"

end
