(* ===== verification/CoreLemmas.thy ===== *)
theory CoreLemmas
  imports Core
begin

text \<open>
  The library of facts about \<open>RollbackCore\<close> that the invariant and the driver theorems share:
  frame counts, reads of a ring after a write, the exit of the confirmation loop, and what each
  operation leaves unchanged.
\<close>

section \<open>Frame counts\<close>

text \<open>
  How many frames \<open>0, ..., f\<close> a frontier covers; the sentinel covers none. Increasing the sentinel
  wraps to frame zero, so the successor of a frontier is always the frame with that number.
\<close>

definition frames_through :: "u32 \<Rightarrow> nat" where
  "frames_through f = unat (f + 1)"

lemma frames_through_INVALID [simp]: "frames_through INVALID_FRAME = 0"
  by (simp add: frames_through_def INVALID_FRAME_def)

lemma frames_through_valid: "f \<noteq> INVALID_FRAME \<Longrightarrow> frames_through f = unat f + 1"
  using unat_add_nat [of f 1] by (simp add: frames_through_def frame_neq_INVALID)

lemma frames_through_0_iff: "frames_through f = 0 \<longleftrightarrow> f = INVALID_FRAME"
  using frames_through_valid [of f] by (cases "f = INVALID_FRAME") auto

lemma frames_through_le: "frames_through f \<le> 4294967295"
  using unat_frame_less [of f] frames_through_valid [of f] frame_neq_INVALID [of f]
  by (cases "f = INVALID_FRAME") auto

lemma of_nat_frames_through: "word_of_nat (frames_through f) = f + 1"
  by (simp add: frames_through_def)

lemma frames_through_inject: "frames_through f = frames_through g \<Longrightarrow> f = g"
  by (metis add_right_cancel of_nat_frames_through)

lemma frames_through_le_iff:
  "g \<noteq> INVALID_FRAME \<Longrightarrow> f \<noteq> INVALID_FRAME \<Longrightarrow> frames_through f \<le> frames_through g \<longleftrightarrow> f \<le> g"
  by (simp add: frames_through_valid word_le_nat_alt)

lemma unat_of_nat_frame: "k < 4294967296 \<Longrightarrow> unat (word_of_nat k :: u32) = k"
  by (simp add: unat_of_nat)

lemma of_nat_frame_INVALID: "k < 4294967295 \<Longrightarrow> (word_of_nat k :: u32) \<noteq> INVALID_FRAME"
  by (simp add: frame_neq_INVALID unat_of_nat_frame)

lemma frame_eq_of_nat: "f = word_of_nat (unat (f :: u32))"
  by simp

section \<open>Rings\<close>

lemma ring_of_nat: "k < 4294967296 \<Longrightarrow> ring (word_of_nat k) = k mod 256"
  by (simp add: ring_def INPUT_HISTORY_SIZE_def unat_of_nat_frame)

lemma ring_less: "ring f < 256"
  by (simp add: ring_def INPUT_HISTORY_SIZE_def)

text \<open>Two frames less than a history apart have their own slots.\<close>

lemma ring_eq_near:
  assumes "ring f = ring g" and "unat f \<le> unat g" and "unat g < unat f + 256"
  shows "f = g"
proof -
  from assms(1) have "unat f mod 256 = unat g mod 256" by (simp add: ring_def INPUT_HISTORY_SIZE_def)
  then have "256 dvd unat g - unat f" using assms(2) by (metis mod_eq_dvd_iff_nat)
  with assms(2,3) have "unat f = unat g" by (auto dest!: dvd_imp_le)
  then show ?thesis by (simp add: word_unat_eq_iff)
qed

lemma FindInputSlot_Some:
  "FindInputSlot c p f = Some s \<longleftrightarrow> s = slot_at c p f \<and> slot_frame s = f \<and> slot_present s"
  by (auto simp: FindInputSlot_def Let_def)

lemma FindInputSlot_None:
  "FindInputSlot c p f = None \<longleftrightarrow> \<not> (slot_frame (slot_at c p f) = f \<and> slot_present (slot_at c p f))"
  by (auto simp: FindInputSlot_def Let_def)

lemma FindUsedSlot_Some:
  "FindUsedSlot c f = Some u \<longleftrightarrow> u = rc_used c (ring f) \<and> used_frame u = f"
  by (auto simp: FindUsedSlot_def Let_def)

text \<open>The net effect of \<^verbatim>\<open>GetInputSlot\<close> followed by storing an input in the slot.\<close>

definition store_input :: "RollbackCore \<Rightarrow> u8 \<Rightarrow> u32 \<Rightarrow> FrameInput \<Rightarrow> RollbackCore" where
  "store_input c p f x = set_slot c p f \<lparr>slot_frame = f, slot_input = x, slot_present = True\<rparr>"

lemma slot_at_set_slot:
  "slot_at (set_slot c p f s) q g = (if q = p \<and> ring g = ring f then s else slot_at c q g)"
  by (simp add: slot_at_def set_slot_def)

lemma set_slot_fields [simp]:
  "rc_config (set_slot c p f s) = rc_config c" "rc_configured (set_slot c p f s) = rc_configured c"
  "rc_used (set_slot c p f s) = rc_used c" "rc_confirmedThrough (set_slot c p f s) = rc_confirmedThrough c"
  "rc_peerAckOfLocal (set_slot c p f s) = rc_peerAckOfLocal c"
  "rc_lastSimulatedFrame (set_slot c p f s) = rc_lastSimulatedFrame c"
  "rc_rollbackFrame (set_slot c p f s) = rc_rollbackFrame c"
  by (simp_all add: set_slot_def)

lemma fill_GetInputSlot: "fill_slot (GetInputSlot c p f) p f x = store_input c p f x"
  by (cases "slot_at c p f") (auto simp: fill_slot_def GetInputSlot_def store_input_def slot_at_set_slot
      set_slot_def slot_at_def InputSlot_default_def)

lemma store_input_fields [simp]:
  "rc_config (store_input c p f x) = rc_config c" "rc_configured (store_input c p f x) = rc_configured c"
  "rc_used (store_input c p f x) = rc_used c" "rc_confirmedThrough (store_input c p f x) = rc_confirmedThrough c"
  "rc_peerAckOfLocal (store_input c p f x) = rc_peerAckOfLocal c"
  "rc_lastSimulatedFrame (store_input c p f x) = rc_lastSimulatedFrame c"
  "rc_rollbackFrame (store_input c p f x) = rc_rollbackFrame c"
  by (simp_all add: store_input_def)

lemma slot_at_store_input:
  "slot_at (store_input c p f x) q g =
     (if q = p \<and> ring g = ring f then \<lparr>slot_frame = f, slot_input = x, slot_present = True\<rparr> else slot_at c q g)"
  by (simp add: store_input_def slot_at_set_slot)

lemma FindInputSlot_store_input:
  "FindInputSlot (store_input c p f x) q g =
     (if q = p \<and> ring g = ring f
      then if g = f then Some \<lparr>slot_frame = f, slot_input = x, slot_present = True\<rparr> else None
      else FindInputSlot c q g)"
proof (cases "q = p \<and> ring g = ring f")
  case True
  then have "slot_at (store_input c p f x) q g = \<lparr>slot_frame = f, slot_input = x, slot_present = True\<rparr>"
    by (simp add: slot_at_store_input)
  with True show ?thesis by (simp add: FindInputSlot_def eq_commute [of f g])
next
  case False
  then have "slot_at (store_input c p f x) q g = slot_at c q g"
    unfolding slot_at_store_input by (rule if_not_P)
  then show ?thesis unfolding if_not_P [OF False] FindInputSlot_def by simp
qed

text \<open>\<^verbatim>\<open>GetInputSlot\<close> finds the slot, or replaces its occupant by an empty slot.\<close>

lemma GetInputSlot_fields [simp]:
  "rc_config (GetInputSlot c p f) = rc_config c" "rc_configured (GetInputSlot c p f) = rc_configured c"
  "rc_used (GetInputSlot c p f) = rc_used c" "rc_confirmedThrough (GetInputSlot c p f) = rc_confirmedThrough c"
  "rc_peerAckOfLocal (GetInputSlot c p f) = rc_peerAckOfLocal c"
  "rc_lastSimulatedFrame (GetInputSlot c p f) = rc_lastSimulatedFrame c"
  "rc_rollbackFrame (GetInputSlot c p f) = rc_rollbackFrame c"
  by (simp_all add: GetInputSlot_def)

lemma slot_at_GetInputSlot:
  "slot_at (GetInputSlot c p f) q g =
     (if q = p \<and> ring g = ring f \<and> slot_frame (slot_at c p f) \<noteq> f
      then InputSlot_default\<lparr>slot_frame := f\<rparr> else slot_at c q g)"
  by (auto simp: GetInputSlot_def slot_at_set_slot)

lemma GetInputSlot_found: "FindInputSlot c p f \<noteq> None \<Longrightarrow> GetInputSlot c p f = c"
  by (auto simp: GetInputSlot_def FindInputSlot_None)

lemma slot_present_GetInputSlot:
  "slot_present (slot_at (GetInputSlot c p f) p f) \<longleftrightarrow> FindInputSlot c p f \<noteq> None"
  by (auto simp: slot_at_GetInputSlot FindInputSlot_None InputSlot_default_def)

lemma slot_input_GetInputSlot:
  "FindInputSlot c p f = Some s \<Longrightarrow> slot_at (GetInputSlot c p f) p f = s"
  by (auto simp: slot_at_GetInputSlot FindInputSlot_Some)

section \<open>The confirmation loop\<close>

lemma advance_loop_stop:
  "FindInputSlot c p next \<noteq> None \<Longrightarrow> next = INVALID_FRAME - 1 \<Longrightarrow> advance_loop (Suc n) c p conf next = next"
  by auto

lemma advance_loop_spec:
  assumes "FindInputSlot c p INVALID_FRAME = None"
  shows "\<exists>k \<le> n. frames_through (advance_loop n c p conf (conf + 1)) = frames_through conf + k \<and>
    (\<forall>j < k. FindInputSlot c p (word_of_nat (frames_through conf + j)) \<noteq> None) \<and>
    (k = n \<or> FindInputSlot c p (advance_loop n c p conf (conf + 1) + 1) = None)"
proof (induction n arbitrary: conf)
  case 0
  then show ?case by simp
next
  case (Suc n)
  show ?case
  proof (cases "FindInputSlot c p (conf + 1) = None")
    case True
    then show ?thesis by (intro exI [of _ 0]) simp
  next
    case present: False
    with assms have valid: "conf + 1 \<noteq> INVALID_FRAME" by auto
    have step: "frames_through (conf + 1) = frames_through conf + 1"
      using frames_through_valid [OF valid] by (simp add: frames_through_def)
    show ?thesis
    proof (cases "conf + 1 = INVALID_FRAME - 1")
      case True
      note stop = advance_loop_stop [OF present True]
      have "conf + 1 + 1 = INVALID_FRAME" by (simp only: True) simp
      with assms present step show ?thesis
        unfolding stop by (intro exI [of _ 1]) (simp add: of_nat_frames_through)
    next
      case False
      from Suc.IH [of "conf + 1"] obtain k where "k \<le> n"
        and k: "frames_through (advance_loop n c p (conf + 1) (conf + 1 + 1)) = frames_through conf + 1 + k"
        and all: "\<And>j. j < k \<Longrightarrow> FindInputSlot c p (word_of_nat (frames_through conf + 1 + j)) \<noteq> None"
        and exit: "k = n \<or> FindInputSlot c p (advance_loop n c p (conf + 1) (conf + 1 + 1) + 1) = None"
        by (auto simp: step)
      have "FindInputSlot c p (word_of_nat (frames_through conf + j)) \<noteq> None" if "j < Suc k" for j
      proof (cases j)
        case 0
        with present show ?thesis by (simp add: of_nat_frames_through)
      next
        case (Suc j')
        with that all [of j'] show ?thesis by simp
      qed
      with False present \<open>k \<le> n\<close> k exit show ?thesis
        by (intro exI [of _ "Suc k"]) simp
    qed
  qed
qed

text \<open>
  The history holds 256 frames, so at most 256 consecutive ones are present: the fuel of the loop is
  never used up, whatever the state.
\<close>

lemma ring_holds_256:
  assumes "n + 257 \<le> 4294967295"
  shows "\<exists>j < 257. FindInputSlot c p (word_of_nat (n + j)) = None"
proof (rule ccontr)
  assume "\<not> ?thesis"
  then have all: "FindInputSlot c p (word_of_nat (n + j)) \<noteq> None" if "j < 257" for j
    using that by auto
  have "FindInputSlot c p (word_of_nat (n + 0)) \<noteq> None" "FindInputSlot c p (word_of_nat (n + 256)) \<noteq> None"
    by (rule all, simp)+
  moreover have "ring (word_of_nat (n + 256)) = ring (word_of_nat (n + 0))"
    using ring_of_nat [of "n + 256"] ring_of_nat [of n] assms by simp
  ultimately have "(word_of_nat (n + 0) :: u32) = word_of_nat (n + 256)"
    by (auto simp: FindInputSlot_None slot_at_def)
  then have "unat (word_of_nat (n + 0) :: u32) = unat (word_of_nat (n + 256) :: u32)" by simp
  with assms unat_of_nat_frame [of "n + 256"] unat_of_nat_frame [of "n + 0"] show False by (simp del: of_nat_add)
qed

lemma advance_loop_exit:
  assumes "FindInputSlot c p INVALID_FRAME = None"
  shows "\<exists>k \<le> 256. frames_through (advance_loop 257 c p conf (conf + 1)) = frames_through conf + k \<and>
    (\<forall>j < k. FindInputSlot c p (word_of_nat (frames_through conf + j)) \<noteq> None) \<and>
    FindInputSlot c p (advance_loop 257 c p conf (conf + 1) + 1) = None"
proof -
  let ?r = "advance_loop 257 c p conf (conf + 1)"
  from advance_loop_spec [OF assms, of 257 conf] obtain k where "k \<le> 257"
    and k: "frames_through ?r = frames_through conf + k"
    and all: "\<And>j. j < k \<Longrightarrow> FindInputSlot c p (word_of_nat (frames_through conf + j)) \<noteq> None"
    and exit: "k = 257 \<or> FindInputSlot c p (?r + 1) = None"
    by auto
  have "k \<noteq> 257"
  proof
    assume "k = 257"
    with k frames_through_le [of ?r] have "frames_through conf + 257 \<le> 4294967295" by simp
    from ring_holds_256 [OF this] all \<open>k = 257\<close> show False by blast
  qed
  with \<open>k \<le> 257\<close> k all exit show ?thesis by (intro exI [of _ k]) auto
qed

lemma Advance_eq:
  "AdvanceConfirmedThrough c p = c\<lparr>rc_confirmedThrough := (rc_confirmedThrough c)
     (p := advance_loop 257 c p (rc_confirmedThrough c p) (rc_confirmedThrough c p + 1))\<rparr>"
proof -
  have "(if rc_confirmedThrough c p = INVALID_FRAME then 0 else rc_confirmedThrough c p + 1) = rc_confirmedThrough c p + 1"
    by (simp add: INVALID_FRAME_def)
  then show ?thesis by (simp only: AdvanceConfirmedThrough_def Let_def INPUT_HISTORY_SIZE_def) simp
qed

lemma Advance_fields [simp]:
  "rc_config (AdvanceConfirmedThrough c p) = rc_config c"
  "rc_configured (AdvanceConfirmedThrough c p) = rc_configured c"
  "rc_inputs (AdvanceConfirmedThrough c p) = rc_inputs c"
  "rc_used (AdvanceConfirmedThrough c p) = rc_used c"
  "rc_peerAckOfLocal (AdvanceConfirmedThrough c p) = rc_peerAckOfLocal c"
  "rc_lastSimulatedFrame (AdvanceConfirmedThrough c p) = rc_lastSimulatedFrame c"
  "rc_rollbackFrame (AdvanceConfirmedThrough c p) = rc_rollbackFrame c"
  "slot_at (AdvanceConfirmedThrough c p) q f = slot_at c q f"
  "FindInputSlot (AdvanceConfirmedThrough c p) q f = FindInputSlot c q f"
  "FindUsedSlot (AdvanceConfirmedThrough c p) f = FindUsedSlot c f"
  "q \<noteq> p \<Longrightarrow> rc_confirmedThrough (AdvanceConfirmedThrough c p) q = rc_confirmedThrough c q"
  by (simp_all add: Advance_eq slot_at_def FindInputSlot_def FindUsedSlot_def)

lemma FindUsedSlot_frame [simp]:
  "FindUsedSlot (set_slot c p f s) g = FindUsedSlot c g"
  "FindUsedSlot (GetInputSlot c p f) g = FindUsedSlot c g"
  "FindUsedSlot (store_input c p f x) g = FindUsedSlot c g"
  by (simp_all add: FindUsedSlot_def)

lemma FrameIsTooOld_frame [simp]:
  "FrameIsTooOld (AdvanceConfirmedThrough c p) g = FrameIsTooOld c g"
  "FrameIsTooOld (GetInputSlot c p f) g = FrameIsTooOld c g"
  "FrameIsTooOld (store_input c p f x) g = FrameIsTooOld c g"
  by (simp_all add: FrameIsTooOld_def)

text \<open>What the frontier of a seat is after the loop: it never moves back, every frame it passed is
  present, and the next frame is not.\<close>

lemma Advance_frontier:
  assumes "FindInputSlot c p INVALID_FRAME = None"
  defines "old \<equiv> frames_through (rc_confirmedThrough c p)"
    and "new \<equiv> frames_through (rc_confirmedThrough (AdvanceConfirmedThrough c p) p)"
  shows "old \<le> new"
    and "old \<le> f \<Longrightarrow> f < new \<Longrightarrow> FindInputSlot c p (word_of_nat f) \<noteq> None"
    and "FindInputSlot c p (rc_confirmedThrough (AdvanceConfirmedThrough c p) p + 1) = None"
proof -
  from advance_loop_exit [OF assms(1), of "rc_confirmedThrough c p"] obtain k where
    k: "new = old + k" and all: "\<And>j. j < k \<Longrightarrow> FindInputSlot c p (word_of_nat (old + j)) \<noteq> None"
    and exit: "FindInputSlot c p (rc_confirmedThrough (AdvanceConfirmedThrough c p) p + 1) = None"
    by (auto simp: Advance_eq old_def new_def)
  from k show "old \<le> new" by simp
  from all [of "f - old"] k show "old \<le> f \<Longrightarrow> f < new \<Longrightarrow> FindInputSlot c p (word_of_nat f) \<noteq> None" by simp
  from exit show "FindInputSlot c p (rc_confirmedThrough (AdvanceConfirmedThrough c p) p + 1) = None" .
qed

section \<open>Closed forms of the storing operations\<close>

definition submit_store :: "RollbackCore \<Rightarrow> u8 \<Rightarrow> u32 \<Rightarrow> FrameInput \<Rightarrow> RollbackCore" where
  "submit_store c p f x = AdvanceConfirmedThrough (store_input c p f x) p"

lemma found_slot:
  "FindInputSlot c p f = Some s \<Longrightarrow> slot_present (slot_at c p f) \<and> slot_at c p f = s \<and> GetInputSlot c p f = c"
  by (auto simp: FindInputSlot_Some GetInputSlot_def)

text \<open>How a new sample compares with what was simulated.\<close>

definition submit_result :: "RollbackCore \<Rightarrow> u8 \<Rightarrow> u32 \<Rightarrow> FrameInput \<Rightarrow> RemoteInputResult" where
  "submit_result c p f x = (case FindUsedSlot c f of None \<Rightarrow> RIR_Accepted | Some used \<Rightarrow>
     if rc_lastSimulatedFrame c = INVALID_FRAME \<or> f > rc_lastSimulatedFrame c then RIR_Accepted
     else if used_predictedMask used AND seat_mask p = 0
     then (if input_eq (used_inputs used p) x then RIR_Duplicate else RIR_ConflictingConfirmedInput)
     else if input_eq (used_inputs used p) x then RIR_PredictionCorrect else RIR_RollbackRequired)"

definition request_rollback :: "RollbackCore \<Rightarrow> u32 \<Rightarrow> RollbackCore" where
  "request_rollback c f = (if rc_rollbackFrame c = INVALID_FRAME \<or> f < rc_rollbackFrame c
     then c\<lparr>rc_rollbackFrame := f\<rparr> else c)"

lemma SubmitRemoteInput_alt:
  "SubmitRemoteInput c p f x =
     (if \<not> rc_configured c \<or> p \<ge> cc_playerCount (rc_config c) \<or> p = cc_localPlayer (rc_config c)
      then (RIR_InvalidPlayer, c)
      else if FrameIsTooOld c f then (RIR_TooOld, c)
      else case FindInputSlot c p f of
        Some s \<Rightarrow> (if input_eq (slot_input s) x then RIR_Duplicate else RIR_ConflictingConfirmedInput, c)
      | None \<Rightarrow> (submit_result c p f x,
          if submit_result c p f x = RIR_RollbackRequired
          then request_rollback (submit_store c p f x) f else submit_store c p f x))"
proof (cases "FindInputSlot c p f")
  case None
  then have "\<not> slot_present (slot_at (GetInputSlot c p f) p f)" by (simp add: slot_present_GetInputSlot)
  with None show ?thesis
    by (auto simp: SubmitRemoteInput_def fill_GetInputSlot submit_store_def submit_result_def
        request_rollback_def Let_def split: option.splits)
next
  case (Some s)
  from found_slot [OF Some] Some show ?thesis by (auto simp: SubmitRemoteInput_def Let_def)
qed

lemma SubmitEquivalent_alt:
  "SubmitEquivalentRemoteInput c p f x =
     (if \<not> rc_configured c \<or> p \<ge> cc_playerCount (rc_config c) \<or> p = cc_localPlayer (rc_config c)
      then (EQR_InvalidPlayer, c)
      else if FrameIsTooOld c f then (EQR_TooOld, c)
      else case FindInputSlot c p f of
        Some s \<Rightarrow> (if input_eq (slot_input s) x then EQR_Duplicate else EQR_ConflictingConfirmedInput, c)
      | None \<Rightarrow> if submit_result c p f x = RIR_PredictionCorrect \<or> submit_result c p f x = RIR_RollbackRequired
          then (EQR_Confirmed, submit_store c p f x) else (EQR_NotPredicted, GetInputSlot c p f))"
proof (cases "FindInputSlot c p f")
  case None
  then have "\<not> slot_present (slot_at (GetInputSlot c p f) p f)" by (simp add: slot_present_GetInputSlot)
  with None show ?thesis
    by (auto simp: SubmitEquivalentRemoteInput_def fill_GetInputSlot submit_store_def submit_result_def
        Let_def split: option.splits)
next
  case (Some s)
  from found_slot [OF Some] Some show ?thesis by (auto simp: SubmitEquivalentRemoteInput_def Let_def)
qed

lemma ScheduleLocalInput_alt:
  "ScheduleLocalInput c n x =
     (let f = LocalFrameForCapture c n; local = cc_localPlayer (rc_config c) in
      if f = INVALID_FRAME then (False, c)
      else case FindInputSlot c local f of
        Some s \<Rightarrow> if input_eq (slot_input s) x then (True, submit_store c local f x) else (False, c)
      | None \<Rightarrow> (True, submit_store c local f x))"
proof (cases "FindInputSlot c (cc_localPlayer (rc_config c)) (LocalFrameForCapture c n)")
  case None
  then show ?thesis
    by (simp add: ScheduleLocalInput_def Let_def fill_GetInputSlot submit_store_def slot_present_GetInputSlot)
next
  case (Some s)
  from found_slot [OF Some] Some show ?thesis
    using fill_GetInputSlot [of c "cc_localPlayer (rc_config c)" "LocalFrameForCapture c n" x]
    by (auto simp: ScheduleLocalInput_def Let_def submit_store_def)
qed

lemma request_rollback_fields [simp]:
  "rc_config (request_rollback c f) = rc_config c" "rc_configured (request_rollback c f) = rc_configured c"
  "rc_inputs (request_rollback c f) = rc_inputs c" "rc_used (request_rollback c f) = rc_used c"
  "rc_confirmedThrough (request_rollback c f) = rc_confirmedThrough c"
  "rc_peerAckOfLocal (request_rollback c f) = rc_peerAckOfLocal c"
  "rc_lastSimulatedFrame (request_rollback c f) = rc_lastSimulatedFrame c"
  "slot_at (request_rollback c f) q g = slot_at c q g"
  "FindInputSlot (request_rollback c f) q g = FindInputSlot c q g"
  "FindUsedSlot (request_rollback c f) g = FindUsedSlot c g"
  by (simp_all add: request_rollback_def slot_at_def FindInputSlot_def FindUsedSlot_def)

lemma submit_store_fields [simp]:
  "rc_config (submit_store c p f x) = rc_config c" "rc_configured (submit_store c p f x) = rc_configured c"
  "rc_used (submit_store c p f x) = rc_used c"
  "rc_peerAckOfLocal (submit_store c p f x) = rc_peerAckOfLocal c"
  "rc_lastSimulatedFrame (submit_store c p f x) = rc_lastSimulatedFrame c"
  "rc_rollbackFrame (submit_store c p f x) = rc_rollbackFrame c"
  "FindUsedSlot (submit_store c p f x) g = FindUsedSlot c g"
  "q \<noteq> p \<Longrightarrow> rc_confirmedThrough (submit_store c p f x) q = rc_confirmedThrough c q"
  by (simp_all add: submit_store_def)

lemma FindInputSlot_submit_store:
  "FindInputSlot (submit_store c p f x) q g = FindInputSlot (store_input c p f x) q g"
  "slot_at (submit_store c p f x) q g = slot_at (store_input c p f x) q g"
  by (simp_all add: submit_store_def)

end
