(* ===== verification/CoreApply.thy ===== *)
theory CoreApply
  imports CoreLemmas
begin

text \<open>
  Ingestion of input packets is a transaction: the validation pass decides, in the state before the
  packet, exactly what the commit pass does. The tests of one sample only read its own ring slot and
  parts of the core no sample changes (\<open>same_frame\<close>), and the at most 32 consecutive
  frames of a packet have distinct slots.
\<close>

section \<open>One sample\<close>

definition same_frame :: "RollbackCore \<Rightarrow> RollbackCore \<Rightarrow> bool" where
  "same_frame c c' \<longleftrightarrow> rc_config c' = rc_config c \<and> rc_configured c' = rc_configured c \<and>
     rc_used c' = rc_used c \<and> rc_lastSimulatedFrame c' = rc_lastSimulatedFrame c"

lemma same_frame_refl [simp]: "same_frame c c"
  by (simp add: same_frame_def)

lemma same_frame_trans: "same_frame a b \<Longrightarrow> same_frame b c \<Longrightarrow> same_frame a c"
  by (simp add: same_frame_def)

lemma same_frameD:
  assumes "same_frame c c'"
  shows "rc_config c' = rc_config c" "rc_configured c' = rc_configured c" "rc_used c' = rc_used c"
    "rc_lastSimulatedFrame c' = rc_lastSimulatedFrame c" "FrameIsTooOld c' f = FrameIsTooOld c f"
    "FindUsedSlot c' f = FindUsedSlot c f" "oldestRecoverable c' = oldestRecoverable c"
  using assms by (simp_all add: same_frame_def FrameIsTooOld_def FindUsedSlot_def oldestRecoverable_def)

lemma submit_same_frame [simp]: "same_frame c (snd (SubmitRemoteInput c p f x))"
  by (simp add: SubmitRemoteInput_alt same_frame_def split: option.split)

lemma submit_slot_at:
  assumes "\<not> (q = p \<and> ring g = ring f)"
  shows "slot_at (snd (SubmitRemoteInput c p f x)) q g = slot_at c q g"
proof -
  have "slot_at (store_input c p f x) q g = slot_at c q g"
    unfolding slot_at_store_input by (rule if_not_P) (rule assms)
  then show ?thesis
    by (simp add: SubmitRemoteInput_alt FindInputSlot_submit_store split: option.split)
qed

lemma submit_acks [simp]: "rc_peerAckOfLocal (snd (SubmitRemoteInput c p f x)) = rc_peerAckOfLocal c"
  by (simp add: SubmitRemoteInput_alt split: option.split)

text \<open>The verdict on a sample depends on its own slot only.\<close>

lemma submit_verdict_local:
  assumes "same_frame c c'" and "slot_at c' p f = slot_at c p f"
  shows "fst (SubmitRemoteInput c' p f x) = fst (SubmitRemoteInput c p f x)"
proof -
  have "FindInputSlot c' p f = FindInputSlot c p f"
    using assms(2) by (simp add: FindInputSlot_def)
  with same_frameD [OF assms(1)] show ?thesis
    by (simp add: SubmitRemoteInput_alt submit_result_def split: option.split)
qed

definition rejects :: "RemoteInputResult \<Rightarrow> bool" where
  "rejects r \<longleftrightarrow> r = RIR_ConflictingConfirmedInput \<or> r = RIR_InvalidPlayer"

text \<open>What the validation of one sample establishes; unlike the test of the code it does not
  mention the frontier of the sender, so it stays true while the samples are committed.\<close>

definition sample_ok :: "RollbackCore \<Rightarrow> u8 \<Rightarrow> u32 \<Rightarrow> FrameInput \<Rightarrow> bool" where
  "sample_ok c p f x \<longleftrightarrow>
     (\<not> FrameIsTooOld c f \<longrightarrow>
       (slot_present (slot_at c p f) \<longrightarrow> slot_frame (slot_at c p f) \<noteq> f \<longrightarrow>
          slot_frame (slot_at c p f) < oldestRecoverable c) \<and>
       \<not> rejects (fst (SubmitRemoteInput c p f x)))"

lemma sample_ok_local:
  assumes "same_frame c c'" and "slot_at c' p f = slot_at c p f"
  shows "sample_ok c' p f x = sample_ok c p f x"
  using assms by (simp add: sample_ok_def submit_verdict_local [OF assms] same_frameD [OF assms(1)])

lemma unat_inputCount_le: "unat n \<le> 32 \<longleftrightarrow> n \<le> MAX_REDUNDANT_INPUTS"
  by (simp add: MAX_REDUNDANT_INPUTS_def word_le_nat_alt)

lemma packet_header_okD:
  assumes "packet_header_ok c packet"
  shows "rc_configured c" "ip_senderPlayer packet < cc_playerCount (rc_config c)"
    "ip_senderPlayer packet \<noteq> cc_localPlayer (rc_config c)" "unat (ip_inputCount packet) \<le> 32"
    "ip_inputCount packet \<noteq> 0 \<Longrightarrow>
       frame_range_ok (ip_firstInputFrame packet) (ip_latestFrame packet) (ip_inputCount packet)"
    "ip_ackFrame packet \<noteq> INVALID_FRAME \<Longrightarrow>
       rc_confirmedThrough c (cc_localPlayer (rc_config c)) \<noteq> INVALID_FRAME \<and>
       ip_ackFrame packet \<le> rc_confirmedThrough c (cc_localPlayer (rc_config c))"
    "ip_inputCount packet \<noteq> 0 \<Longrightarrow>
       unat (ip_latestFrame packet) < frames_through (rc_lastSimulatedFrame c) + 256"
proof -
  from assms show "rc_configured c" "ip_senderPlayer packet < cc_playerCount (rc_config c)"
    "ip_senderPlayer packet \<noteq> cc_localPlayer (rc_config c)" "unat (ip_inputCount packet) \<le> 32"
    "ip_inputCount packet \<noteq> 0 \<Longrightarrow>
       frame_range_ok (ip_firstInputFrame packet) (ip_latestFrame packet) (ip_inputCount packet)"
    "ip_ackFrame packet \<noteq> INVALID_FRAME \<Longrightarrow>
       rc_confirmedThrough c (cc_localPlayer (rc_config c)) \<noteq> INVALID_FRAME \<and>
       ip_ackFrame packet \<le> rc_confirmedThrough c (cc_localPlayer (rc_config c))"
    by (auto simp: packet_header_ok_def Let_def not_le not_less unat_inputCount_le)
  assume "ip_inputCount packet \<noteq> 0"
  with assms have "unat (ip_latestFrame packet) < (if rc_lastSimulatedFrame c = INVALID_FRAME then 0
      else unat (rc_lastSimulatedFrame c) + 1) + 256"
    by (auto simp: packet_header_ok_def Let_def INPUT_HISTORY_SIZE_def)
  then show "unat (ip_latestFrame packet) < frames_through (rc_lastSimulatedFrame c) + 256"
    by (cases "rc_lastSimulatedFrame c = INVALID_FRAME") (simp_all add: frames_through_valid)
qed

lemma validate_sample_ok:
  assumes "packet_header_ok c packet" and "validate_sample cfg c packet i = None"
  shows "IsValidFrameInput cfg (ip_inputs packet i)"
    and "sample_ok c (ip_senderPlayer packet) (ip_firstInputFrame packet + word_of_nat i) (ip_inputs packet i)"
proof -
  let ?p = "ip_senderPlayer packet" let ?f = "ip_firstInputFrame packet + word_of_nat i"
  let ?x = "ip_inputs packet i"
  from assms(2) show "IsValidFrameInput cfg ?x"
    by (auto simp: validate_sample_def Let_def split: if_splits)
  show "sample_ok c ?p ?f ?x"
  proof (cases "FrameIsTooOld c ?f")
    case True
    then show ?thesis by (simp add: sample_ok_def)
  next
    case False
    with assms(2) have occ: "slot_present (slot_at c ?p ?f) \<longrightarrow> slot_frame (slot_at c ?p ?f) \<noteq> ?f \<longrightarrow>
        slot_frame (slot_at c ?p ?f) < oldestRecoverable c"
      and sample: "\<not> (case FindInputSlot c ?p ?f of
            Some existing \<Rightarrow> \<not> input_eq (slot_input existing) ?x
          | None \<Rightarrow> (case FindUsedSlot c ?f of None \<Rightarrow> False
              | Some used \<Rightarrow> rc_lastSimulatedFrame c \<noteq> INVALID_FRAME \<and> ?f \<le> rc_lastSimulatedFrame c \<and>
                  used_predictedMask used AND seat_mask ?p = 0 \<and> \<not> input_eq (used_inputs used ?p) ?x))"
      by (auto simp: validate_sample_def Let_def not_le split: if_splits)
    have "\<not> rejects (fst (SubmitRemoteInput c ?p ?f ?x))"
    proof (cases "FindInputSlot c ?p ?f")
      case None
      with sample False packet_header_okD(1-3) [OF assms(1)] show ?thesis
        by (auto simp: SubmitRemoteInput_alt rejects_def submit_result_def not_le split: option.splits)
    next
      case (Some s)
      with sample False packet_header_okD(1-3) [OF assms(1)] show ?thesis
        by (auto simp: SubmitRemoteInput_alt rejects_def not_le)
    qed
    with occ show ?thesis by (simp add: sample_ok_def)
  qed
qed

lemma validate_samples_None:
  "validate_samples cfg c packet is = None \<longleftrightarrow> (\<forall>i \<in> set is. validate_sample cfg c packet i = None)"
  by (induction "is") (auto split: option.splits)

section \<open>The frames of a packet\<close>

definition packet_frame :: "InputPacket \<Rightarrow> nat \<Rightarrow> u32" where
  "packet_frame packet i = ip_firstInputFrame packet + word_of_nat i"

lemma packet_frame_props:
  assumes "packet_header_ok c packet" and "i < unat (ip_inputCount packet)"
  shows "unat (packet_frame packet i) = unat (ip_firstInputFrame packet) + i"
    and "packet_frame packet i \<noteq> INVALID_FRAME"
    and "unat (packet_frame packet i) < frames_through (rc_lastSimulatedFrame c) + 256"
proof -
  from assms(2) have "ip_inputCount packet \<noteq> 0" by auto
  with packet_header_okD(5,7) [OF assms(1)]
  have range: "frame_range_ok (ip_firstInputFrame packet) (ip_latestFrame packet) (ip_inputCount packet)"
    and near: "unat (ip_latestFrame packet) < frames_through (rc_lastSimulatedFrame c) + 256" by auto
  from range frame_range_ok_iff [of "ip_inputCount packet"] \<open>ip_inputCount packet \<noteq> 0\<close>
  have latest: "unat (ip_latestFrame packet) + 1 = unat (ip_firstInputFrame packet) + unat (ip_inputCount packet)"
    and "unat (ip_firstInputFrame packet) + unat (ip_inputCount packet) \<le> 4294967295"
    by (simp_all add: word_gt_0)
  with assms(2) show frame: "unat (packet_frame packet i) = unat (ip_firstInputFrame packet) + i"
    unfolding packet_frame_def by (intro unat_add_nat) simp
  from assms(2) latest near show "unat (packet_frame packet i) < frames_through (rc_lastSimulatedFrame c) + 256"
    by (simp add: frame)
  from assms(2) frame \<open>_ \<le> 4294967295\<close> show "packet_frame packet i \<noteq> INVALID_FRAME"
    by (simp add: frame_neq_INVALID)
qed

lemma packet_frame_ring:
  assumes "packet_header_ok c packet" "i < unat (ip_inputCount packet)" "j < unat (ip_inputCount packet)"
    and "ring (packet_frame packet i) = ring (packet_frame packet j)"
  shows "i = j"
proof -
  note fi = packet_frame_props(1) [OF assms(1,2)] and fj = packet_frame_props(1) [OF assms(1,3)]
  have "unat (ip_inputCount packet) \<le> 32" by (rule packet_header_okD(4) [OF assms(1)])
  with assms(2,3) fi fj have near: "unat (packet_frame packet i) < unat (packet_frame packet j) + 256"
    "unat (packet_frame packet j) < unat (packet_frame packet i) + 256" by linarith+
  have "packet_frame packet i = packet_frame packet j"
  proof (cases "unat (packet_frame packet i) \<le> unat (packet_frame packet j)")
    case True
    from ring_eq_near [OF assms(4) this near(2)] show ?thesis .
  next
    case False
    then have "unat (packet_frame packet j) \<le> unat (packet_frame packet i)" by linarith
    from ring_eq_near [OF assms(4) [symmetric] this near(1)] show ?thesis by (rule sym)
  qed
  then have "unat (packet_frame packet i) = unat (packet_frame packet j)" by (rule arg_cong)
  with fi fj show ?thesis by linarith
qed

section \<open>The commit pass\<close>

definition submit_sample :: "InputPacket \<Rightarrow> nat \<Rightarrow> RollbackCore \<Rightarrow> RollbackCore" where
  "submit_sample packet i c =
     snd (SubmitRemoteInput c (ip_senderPlayer packet) (packet_frame packet i) (ip_inputs packet i))"

lemma submit_sample_same_frame [simp]: "same_frame c (submit_sample packet i c)"
  by (simp add: submit_sample_def)

lemma fold_submit_same_frame: "same_frame c (fold (submit_sample packet) is c)"
proof (induction "is" arbitrary: c)
  case (Cons i "is")
  from same_frame_trans [OF submit_sample_same_frame this] show ?case by simp
qed simp

text \<open>
  Induction over a committed packet: every sample is submitted in a state in which it still passes
  the tests it passed before the packet. A value \<open>a\<close> may be folded along with the state.
\<close>

lemma commit_induct:
  assumes "\<And>i. i \<in> set is \<Longrightarrow>
      sample_ok c (ip_senderPlayer packet) (packet_frame packet i) (ip_inputs packet i)"
    and "\<And>i j. i \<in> set is \<Longrightarrow> j \<in> set is \<Longrightarrow>
      ring (packet_frame packet i) = ring (packet_frame packet j) \<Longrightarrow> i = j"
    and "distinct is"
    and "P a c"
    and "\<And>a' c' i. P a' c' \<Longrightarrow> i \<in> set is \<Longrightarrow>
      sample_ok c' (ip_senderPlayer packet) (packet_frame packet i) (ip_inputs packet i) \<Longrightarrow>
      P (g i a') (submit_sample packet i c')"
  shows "P (fold g is a) (fold (submit_sample packet) is c)"
  using assms
proof (induction "is" arbitrary: a c)
  case Nil
  then show ?case by simp
next
  case (Cons i "is")
  let ?c = "submit_sample packet i c"
  have "sample_ok ?c (ip_senderPlayer packet) (packet_frame packet j) (ip_inputs packet j)" if "j \<in> set is" for j
  proof -
    from that Cons.prems(2) [of i j] Cons.prems(3)
    have "\<not> (ip_senderPlayer packet = ip_senderPlayer packet \<and>
        ring (packet_frame packet j) = ring (packet_frame packet i))" by auto
    then have "slot_at ?c (ip_senderPlayer packet) (packet_frame packet j)
        = slot_at c (ip_senderPlayer packet) (packet_frame packet j)"
      unfolding submit_sample_def by (rule submit_slot_at)
    from sample_ok_local [OF submit_sample_same_frame this] Cons.prems(1) [of j] that show ?thesis by simp
  qed
  moreover have "P (g i a) ?c" using Cons.prems(1,4,5) by simp
  ultimately have "P (fold g is (g i a)) (fold (submit_sample packet) is ?c)"
    using Cons.prems(2,3,5) by (intro Cons.IH) auto
  then show ?case by simp
qed

lemma commit_samples_fold:
  assumes "\<And>i. i \<in> set is \<Longrightarrow>
      sample_ok c (ip_senderPlayer packet) (packet_frame packet i) (ip_inputs packet i)"
    and "\<And>i j. i \<in> set is \<Longrightarrow> j \<in> set is \<Longrightarrow>
      ring (packet_frame packet i) = ring (packet_frame packet j) \<Longrightarrow> i = j"
    and "distinct is"
    and "rc_configured c" "ip_senderPlayer packet < cc_playerCount (rc_config c)"
    and "ip_senderPlayer packet \<noteq> cc_localPlayer (rc_config c)"
  shows "\<exists>r. commit_samples c packet is worst = (True, r, fold (submit_sample packet) is c)"
  using assms
proof (induction "is" arbitrary: c worst)
  case Nil
  then show ?case by simp
next
  case (Cons i "is")
  let ?p = "ip_senderPlayer packet" let ?c = "submit_sample packet i c"
  obtain r0 where step: "SubmitRemoteInput c ?p (packet_frame packet i) (ip_inputs packet i) = (r0, ?c)"
    by (cases "SubmitRemoteInput c ?p (packet_frame packet i) (ip_inputs packet i)") (simp add: submit_sample_def)
  have good: "\<not> rejects r0"
    using Cons.prems(1) [of i] Cons.prems(4-6) step
    by (cases "FrameIsTooOld c (packet_frame packet i)")
      (auto simp: sample_ok_def rejects_def SubmitRemoteInput_alt not_le [symmetric])
  have "sample_ok ?c ?p (packet_frame packet j) (ip_inputs packet j)" if "j \<in> set is" for j
  proof -
    from that Cons.prems(2) [of i j] Cons.prems(3)
    have "\<not> (?p = ?p \<and> ring (packet_frame packet j) = ring (packet_frame packet i))" by auto
    then have "slot_at ?c ?p (packet_frame packet j) = slot_at c ?p (packet_frame packet j)"
      unfolding submit_sample_def by (rule submit_slot_at)
    from sample_ok_local [OF submit_sample_same_frame this] Cons.prems(1) [of j] that show ?thesis by simp
  qed
  with Cons.prems(2-6) same_frameD [OF submit_sample_same_frame [of c packet i]]
  have "\<exists>r. commit_samples ?c packet is (if ResultRank r0 > ResultRank worst then r0 else worst)
      = (True, r, fold (submit_sample packet) is ?c)"
    by (intro Cons.IH) auto
  with good step show ?case
    by (simp add: Let_def packet_frame_def rejects_def)
qed

section \<open>The whole packet\<close>

lemma record_ack_fields [simp]:
  "rc_config (record_ack c packet) = rc_config c" "rc_configured (record_ack c packet) = rc_configured c"
  "rc_inputs (record_ack c packet) = rc_inputs c" "rc_used (record_ack c packet) = rc_used c"
  "rc_confirmedThrough (record_ack c packet) = rc_confirmedThrough c"
  "rc_lastSimulatedFrame (record_ack c packet) = rc_lastSimulatedFrame c"
  "rc_rollbackFrame (record_ack c packet) = rc_rollbackFrame c"
  "slot_at (record_ack c packet) p f = slot_at c p f"
  "FindInputSlot (record_ack c packet) p f = FindInputSlot c p f"
  by (simp_all add: record_ack_def Let_def slot_at_def FindInputSlot_def)

lemma record_ack_same_frame [simp]: "same_frame c (record_ack c packet)"
  by (simp add: same_frame_def)

definition packet_samples :: "InputPacket \<Rightarrow> nat list" where
  "packet_samples packet = [0..<unat (ip_inputCount packet)]"

text \<open>The samples of a packet that passed validation, in the state the commit pass starts in.\<close>

definition accepted_packet :: "ProtocolConfig \<Rightarrow> RollbackCore \<Rightarrow> InputPacket \<Rightarrow> bool" where
  "accepted_packet cfg c packet \<longleftrightarrow>
     packet_header_ok c packet \<and> validate_samples cfg c packet (packet_samples packet) = None"

lemma accepted_packetD:
  assumes "accepted_packet cfg c packet" and "i < unat (ip_inputCount packet)"
  shows "IsValidFrameInput cfg (ip_inputs packet i)"
    "sample_ok c (ip_senderPlayer packet) (packet_frame packet i) (ip_inputs packet i)"
  using assms validate_sample_ok [of c packet cfg i]
  by (simp_all add: accepted_packet_def validate_samples_None packet_samples_def packet_frame_def)

lemma accepted_sample_ok:
  assumes "accepted_packet cfg c packet" and "i \<in> set (packet_samples packet)"
  shows "sample_ok (record_ack c packet) (ip_senderPlayer packet) (packet_frame packet i) (ip_inputs packet i)"
  using accepted_packetD(2) [OF assms(1), of i] assms(2)
    sample_ok_local [OF record_ack_same_frame [of c packet], of "ip_senderPlayer packet" "packet_frame packet i"]
  by (simp add: packet_samples_def)

lemma packet_samples_ring:
  assumes "packet_header_ok c packet" "i \<in> set (packet_samples packet)" "j \<in> set (packet_samples packet)"
    and "ring (packet_frame packet i) = ring (packet_frame packet j)"
  shows "i = j"
  using packet_frame_ring [OF assms(1) _ _ assms(4)] assms(2,3) by (simp add: packet_samples_def)

text \<open>The closed form of \<^verbatim>\<open>ApplyInputPacket\<close>: it does nothing, or it submits every sample.\<close>

lemma Apply_eq:
  "\<exists>r. ApplyInputPacket cfg c packet =
     (if accepted_packet cfg c packet
      then (True, r, fold (submit_sample packet) (packet_samples packet) (record_ack c packet))
      else (False, r, c))"
proof (cases "accepted_packet cfg c packet")
  case True
  then have header: "packet_header_ok c packet" by (simp add: accepted_packet_def)
  have "\<exists>r. commit_samples (record_ack c packet) packet (packet_samples packet) RIR_Duplicate
      = (True, r, fold (submit_sample packet) (packet_samples packet) (record_ack c packet))"
    by (rule commit_samples_fold [OF accepted_sample_ok [OF True] packet_samples_ring [OF header]])
      (use packet_header_okD(1-3) [OF header] in \<open>simp_all add: packet_samples_def\<close>)
  moreover have "validate_samples cfg c packet (packet_samples packet) = None"
    using True by (simp add: accepted_packet_def)
  ultimately show ?thesis
    using header True unfolding ApplyInputPacket_def packet_samples_def [symmetric] by simp
next
  case False
  then show ?thesis
  proof (cases "packet_header_ok c packet")
    case True
    with False obtain r where "validate_samples cfg c packet (packet_samples packet) = Some r"
      by (auto simp: accepted_packet_def)
    with True False show ?thesis
      unfolding ApplyInputPacket_def packet_samples_def [symmetric] by simp
  qed (simp add: ApplyInputPacket_def)
qed

lemma Apply_accepts_iff: "fst (ApplyInputPacket cfg c packet) \<longleftrightarrow> accepted_packet cfg c packet"
  using Apply_eq [of cfg c packet] by (auto split: if_splits)

lemma Apply_state:
  "snd (snd (ApplyInputPacket cfg c packet)) =
     (if accepted_packet cfg c packet
      then fold (submit_sample packet) (packet_samples packet) (record_ack c packet) else c)"
  using Apply_eq [of cfg c packet] by (auto split: if_splits)

section \<open>What an accepted packet delivers\<close>

lemma fold_submit_slot_at:
  assumes "\<And>i. i \<in> set is \<Longrightarrow> \<not> (p = ip_senderPlayer packet \<and> ring f = ring (packet_frame packet i))"
  shows "slot_at (fold (submit_sample packet) is c) p f = slot_at c p f"
  using assms
proof (induction "is" arbitrary: c)
  case (Cons i "is")
  have "slot_at (fold (submit_sample packet) is (submit_sample packet i c)) p f
      = slot_at (submit_sample packet i c) p f"
    using Cons by simp
  also have "\<dots> = slot_at c p f"
    unfolding submit_sample_def by (rule submit_slot_at) (use Cons.prems [of i] in simp)
  finally show ?case by simp
qed simp

lemma submit_delivers:
  assumes "sample_ok c p f x" "\<not> FrameIsTooOld c f" "input_eq x x"
    and "rc_configured c" "p < cc_playerCount (rc_config c)" "p \<noteq> cc_localPlayer (rc_config c)"
  shows "\<exists>s. FindInputSlot (snd (SubmitRemoteInput c p f x)) p f = Some s \<and> input_eq (slot_input s) x"
proof (cases "FindInputSlot c p f")
  case None
  with assms show ?thesis
    by (auto simp: SubmitRemoteInput_alt FindInputSlot_submit_store FindInputSlot_store_input not_le [symmetric])
next
  case (Some s)
  with assms show ?thesis
    by (auto simp: SubmitRemoteInput_alt sample_ok_def rejects_def not_le [symmetric] split: if_splits)
qed

lemma IsValid_input_eq_refl: "IsValidFrameInput cfg x \<Longrightarrow> input_eq x x"
  by (simp add: IsValidFrameInput_def ValidInput_def input_eq_def f32_eq_refl)

lemma accepted_delivers:
  assumes "accepted_packet cfg c packet" and "i < unat (ip_inputCount packet)"
    and "\<not> FrameIsTooOld c (packet_frame packet i)"
  defines "c' \<equiv> fold (submit_sample packet) (packet_samples packet) (record_ack c packet)"
  shows "\<exists>s. FindInputSlot c' (ip_senderPlayer packet) (packet_frame packet i) = Some s \<and>
    input_eq (slot_input s) (ip_inputs packet i)"
proof -
  let ?p = "ip_senderPlayer packet"
  from assms(1) have header: "packet_header_ok c packet" by (simp add: accepted_packet_def)
  from assms(2) have split: "packet_samples packet = [0..<i] @ i # [Suc i..<unat (ip_inputCount packet)]"
    using upt_add_eq_append [of 0 i "unat (ip_inputCount packet) - i"]
    by (simp add: packet_samples_def upt_conv_Cons)
  let ?c1 = "fold (submit_sample packet) [0..<i] (record_ack c packet)"
  have other: "\<not> (?p = ?p \<and> ring (packet_frame packet i) = ring (packet_frame packet j))"
    if "j < unat (ip_inputCount packet)" "j \<noteq> i" for j
    using packet_frame_ring [OF header assms(2) that(1)] that(2) by auto
  have frame: "same_frame c ?c1"
    by (rule same_frame_trans [OF record_ack_same_frame fold_submit_same_frame])
  have "slot_at ?c1 ?p (packet_frame packet i) = slot_at (record_ack c packet) ?p (packet_frame packet i)"
    using assms(2) by (intro fold_submit_slot_at other) auto
  then have "slot_at ?c1 ?p (packet_frame packet i) = slot_at c ?p (packet_frame packet i)" by simp
  from sample_ok_local [OF frame this] accepted_packetD [OF assms(1,2)]
  have "sample_ok ?c1 ?p (packet_frame packet i) (ip_inputs packet i)"
    and valid: "IsValidFrameInput cfg (ip_inputs packet i)" by simp_all
  from submit_delivers [OF this(1)] IsValid_input_eq_refl [OF valid] assms(3) same_frameD [OF frame]
    packet_header_okD(1-3) [OF header]
  obtain s where s: "FindInputSlot (submit_sample packet i ?c1) ?p (packet_frame packet i) = Some s"
    "input_eq (slot_input s) (ip_inputs packet i)"
    by (auto simp: submit_sample_def)
  have "slot_at c' ?p (packet_frame packet i) = slot_at (submit_sample packet i ?c1) ?p (packet_frame packet i)"
    unfolding c'_def split fold_append fold_Cons comp_def
    by (rule fold_submit_slot_at, rule other) auto
  with s show ?thesis by (simp add: FindInputSlot_def)
qed

lemma fold_submit_acks [simp]:
  "rc_peerAckOfLocal (fold (submit_sample packet) is c) = rc_peerAckOfLocal c"
  by (induction "is" arbitrary: c) (simp_all add: submit_sample_def)

lemma frames_through_less_iff:
  "frames_through f < frames_through g \<longleftrightarrow> g \<noteq> INVALID_FRAME \<and> (f = INVALID_FRAME \<or> g > f)"
proof (cases "g = INVALID_FRAME \<or> f = INVALID_FRAME")
  case True
  then show ?thesis using frames_through_0_iff [of g] by auto
next
  case False
  then have "frames_through g \<le> frames_through f \<longleftrightarrow> g \<le> f" by (simp add: frames_through_le_iff)
  with False show ?thesis by auto
qed

section \<open>A sample session\<close>

text \<open>Seat 0 of a session of two; seat 1 already delivered its frame 1, out of order.\<close>

definition sample_core_config :: CoreConfig where
  "sample_core_config = CoreConfig_default\<lparr>cc_sessionId := 7\<rparr>"

definition blank_core :: RollbackCore where
  "blank_core = \<lparr>rc_config = CoreConfig_default, rc_configured = False, rc_inputs = (\<lambda>_ _. InputSlot_default),
     rc_used = (\<lambda>_. UsedSlot_default), rc_confirmedThrough = (\<lambda>_. INVALID_FRAME),
     rc_peerAckOfLocal = (\<lambda>_. INVALID_FRAME), rc_lastSimulatedFrame = INVALID_FRAME,
     rc_rollbackFrame = INVALID_FRAME\<rparr>"

definition ready_core :: RollbackCore where
  "ready_core = blank_core\<lparr>rc_config := sample_core_config, rc_configured := True\<rparr>"

definition gap_core :: RollbackCore where
  "gap_core = snd (SubmitRemoteInput ready_core 1 1 (FrameInput_of_bits 4))"

lemma advance_loop_absent: "FindInputSlot c p next = None \<Longrightarrow> advance_loop n c p conf next = conf"
  by (cases n) simp_all

lemma Advance_absent:
  "FindInputSlot c p (rc_confirmedThrough c p + 1) = None \<Longrightarrow> AdvanceConfirmedThrough c p = c"
  by (simp add: Advance_eq advance_loop_absent)

lemma ready_core_reset: "Core_Reset blank_core sample_core_config = (True, ready_core)"
  by (simp add: Core_Reset_def Core_Clear_def config_valid_def sample_core_config_def CoreConfig_default_def
      MAX_PLAYERS_def INPUT_HISTORY_SIZE_def seats_def ready_core_def blank_core_def Advance_eq
      advance_loop_absent FindInputSlot_def slot_at_def InputSlot_default_def INVALID_FRAME_def upt_conv_Cons fun_eq_iff)

definition two_sample_packet :: "u16 \<Rightarrow> InputPacket" where
  "two_sample_packet b = InputPacket_default\<lparr>ip_sessionId := 7, ip_senderPlayer := 1, ip_playerCount := 2,
     ip_firstInputFrame := 0, ip_latestFrame := 1, ip_inputCount := 2,
     ip_inputs := stored_inputs [FrameInput_of_bits 3, FrameInput_of_bits b]\<rparr>"

lemma ready_core_fields [simp]:
  "rc_config ready_core = sample_core_config" "rc_configured ready_core"
  "rc_used ready_core = (\<lambda>_. UsedSlot_default)" "rc_lastSimulatedFrame ready_core = INVALID_FRAME"
  "rc_confirmedThrough ready_core = (\<lambda>_. INVALID_FRAME)" "rc_peerAckOfLocal ready_core = (\<lambda>_. INVALID_FRAME)"
  "rc_rollbackFrame ready_core = INVALID_FRAME" "slot_at ready_core p f = InputSlot_default"
  by (simp_all add: ready_core_def blank_core_def slot_at_def)

lemma ready_core_absent [simp]: "FindInputSlot ready_core p f = None"
  by (simp add: FindInputSlot_def InputSlot_default_def)

lemma INVALID_FRAME_plus_1: "INVALID_FRAME + 1 = 0"
  by (simp add: INVALID_FRAME_def)

lemma gap_core_eq: "gap_core = store_input ready_core 1 1 (FrameInput_of_bits 4)"
proof -
  have "FindInputSlot (store_input ready_core 1 1 (FrameInput_of_bits 4)) 1 0 = None"
    by (simp add: FindInputSlot_store_input ring_def INPUT_HISTORY_SIZE_def)
  then have "submit_store ready_core 1 1 (FrameInput_of_bits 4) = store_input ready_core 1 1 (FrameInput_of_bits 4)"
    unfolding submit_store_def by (intro Advance_absent) (simp add: INVALID_FRAME_plus_1)
  then show ?thesis
    by (simp add: gap_core_def SubmitRemoteInput_alt sample_core_config_def CoreConfig_default_def
        FrameIsTooOld_def submit_result_def FindUsedSlot_def UsedSlot_default_def INVALID_FRAME_def)
qed

lemma two_sample_header: "packet_header_ok gap_core (two_sample_packet b)"
  by (simp add: packet_header_ok_def gap_core_eq two_sample_packet_def InputPacket_default_def
      sample_core_config_def CoreConfig_default_def MAX_REDUNDANT_INPUTS_def frame_range_ok_def
      INVALID_FRAME_def INPUT_HISTORY_SIZE_def)

lemma two_sample_valid: "IsValidFrameInput sample_config (FrameInput_of_bits b)"
  by (simp add: IsValidFrameInput_def ValidInput_def FrameInput_of_bits_def FrameInput_default_def
      sample_config_def AM_None_def f32_isfinite_def f32_exponent_def)

lemma two_sample_validation:
  "validate_samples sample_config gap_core (two_sample_packet b) [0, 1] =
     (if b = 4 then None else Some RIR_ConflictingConfirmedInput)"
  using two_sample_valid
  by (simp add: validate_sample_def two_sample_packet_def InputPacket_default_def stored_inputs_def
      gap_core_eq FrameIsTooOld_def FindInputSlot_store_input slot_at_store_input ring_def
      INPUT_HISTORY_SIZE_def FindUsedSlot_def UsedSlot_default_def INVALID_FRAME_def input_eq_def
      InputSlot_default_def FrameInput_of_bits_def FrameInput_default_def f32_eq_def f32_isnan_def f32_exponent_def)

section \<open>Properties\<close>

text \<open>
  C5: Packet ingestion is a transaction. When \<^verbatim>\<open>ApplyInputPacket\<close> reports failure, for whatever
  reason and in whatever state, the core is exactly what it was: no sample, acknowledgement,
  frontier or rollback request of the refused packet remains, not even of the samples before the
  offending one.
\<close>

theorem apply_packet_failure_changes_nothing:
  assumes "\<not> fst (ApplyInputPacket cfg c packet)"
  shows "snd (snd (ApplyInputPacket cfg c packet)) = c"
  using assms by (simp add: Apply_accepts_iff Apply_state)

theorem apply_packet_failure_changes_nothing_witness:
  "snd (snd (ApplyInputPacket sample_config gap_core (two_sample_packet 5))) = gap_core"
  by (rule apply_packet_failure_changes_nothing)
    (use two_sample_validation [of 5] in \<open>simp add: Apply_accepts_iff accepted_packet_def packet_samples_def
      two_sample_packet_def InputPacket_default_def upt_conv_Cons\<close>)

lemma apply_packet_success_delivers_parts:
  assumes "ApplyInputPacket cfg c packet = (True, worst, c')"
  shows "\<forall>i < unat (ip_inputCount packet).
      FrameIsTooOld c (ip_firstInputFrame packet + word_of_nat i) \<or>
      (\<exists>s. FindInputSlot c' (ip_senderPlayer packet) (ip_firstInputFrame packet + word_of_nat i) = Some s \<and>
        input_eq (slot_input s) (ip_inputs packet i))"
    and "\<forall>q f. q = ip_senderPlayer packet \<or> FindInputSlot c' q f = FindInputSlot c q f"
    and "frames_through (rc_peerAckOfLocal c' (ip_senderPlayer packet)) =
      max (frames_through (rc_peerAckOfLocal c (ip_senderPlayer packet))) (frames_through (ip_ackFrame packet))"
proof -
  from assms have ok: "accepted_packet cfg c packet"
    and c': "c' = fold (submit_sample packet) (packet_samples packet) (record_ack c packet)"
    using Apply_accepts_iff [of cfg c packet] Apply_state [of cfg c packet] by auto
  from accepted_delivers [OF ok] show "\<forall>i < unat (ip_inputCount packet).
      FrameIsTooOld c (ip_firstInputFrame packet + word_of_nat i) \<or>
      (\<exists>s. FindInputSlot c' (ip_senderPlayer packet) (ip_firstInputFrame packet + word_of_nat i) = Some s \<and>
        input_eq (slot_input s) (ip_inputs packet i))"
    by (auto simp: c' packet_frame_def)
  show "\<forall>q f. q = ip_senderPlayer packet \<or> FindInputSlot c' q f = FindInputSlot c q f"
  proof (intro allI disjCI)
    fix q f assume "\<not> FindInputSlot c' q f = FindInputSlot c q f"
    then have "slot_at c' q f \<noteq> slot_at c q f" by (auto simp: FindInputSlot_def)
    then show "q = ip_senderPlayer packet"
      using fold_submit_slot_at [of "packet_samples packet" q packet f "record_ack c packet"] by (auto simp: c')
  qed
  let ?old = "rc_peerAckOfLocal c (ip_senderPlayer packet)" and ?new = "ip_ackFrame packet"
  have "?new \<noteq> INVALID_FRAME \<and> (?old = INVALID_FRAME \<or> ?new > ?old) \<longleftrightarrow> frames_through ?old < frames_through ?new"
    by (rule frames_through_less_iff [symmetric])
  then show "frames_through (rc_peerAckOfLocal c' (ip_senderPlayer packet)) = max (frames_through ?old) (frames_through ?new)"
    by (simp add: c' record_ack_def Let_def max_def)
qed

text \<open>What a packet leaves alone: the decisions, the frontiers of the other seats, every ring slot
  that is not the sender's slot of one of its frames.\<close>

lemma submit_confirmed_other:
  "q \<noteq> p \<Longrightarrow> rc_confirmedThrough (snd (SubmitRemoteInput c p f x)) q = rc_confirmedThrough c q"
  by (simp add: SubmitRemoteInput_alt submit_store_def request_rollback_def AdvanceConfirmedThrough_def
      store_input_def Let_def split: option.split)

lemma submit_rollbackFrame:
  "rc_rollbackFrame (snd (SubmitRemoteInput c p f x)) \<in> {rc_rollbackFrame c, f}"
  by (simp add: SubmitRemoteInput_alt submit_store_def request_rollback_def AdvanceConfirmedThrough_def
      store_input_def Let_def split: option.split)

lemma fold_submit_confirmed_other:
  "q \<noteq> ip_senderPlayer packet \<Longrightarrow>
    rc_confirmedThrough (fold (submit_sample packet) is c) q = rc_confirmedThrough c q"
  by (induction "is" arbitrary: c) (simp_all add: submit_sample_def submit_confirmed_other)

lemma fold_submit_rollbackFrame:
  "rc_rollbackFrame (fold (submit_sample packet) is c) \<in> {rc_rollbackFrame c} \<union> packet_frame packet ` set is"
proof (induction "is" arbitrary: c)
  case (Cons i "is")
  have "rc_rollbackFrame (submit_sample packet i c) \<in> {rc_rollbackFrame c, packet_frame packet i}"
    unfolding submit_sample_def by (rule submit_rollbackFrame)
  with Cons [of "submit_sample packet i c"] show ?case by auto
qed simp

lemma apply_packet_success_frame:
  assumes "ApplyInputPacket cfg c packet = (True, worst, c')"
  shows "\<forall>q f. slot_at c' q f = slot_at c q f \<or>
      q = ip_senderPlayer packet \<and> (\<exists>i < unat (ip_inputCount packet). ring f = ring (ip_firstInputFrame packet + word_of_nat i))"
    and "\<forall>q. q = ip_senderPlayer packet \<or>
      rc_peerAckOfLocal c' q = rc_peerAckOfLocal c q \<and> rc_confirmedThrough c' q = rc_confirmedThrough c q"
    and "same_frame c c'"
    and "rc_rollbackFrame c' \<in> insert (rc_rollbackFrame c)
      ((\<lambda>i. ip_firstInputFrame packet + word_of_nat i) ` {..<unat (ip_inputCount packet)})"
proof -
  from assms have c': "c' = fold (submit_sample packet) (packet_samples packet) (record_ack c packet)"
    using Apply_accepts_iff [of cfg c packet] Apply_state [of cfg c packet] by auto
  show "\<forall>q f. slot_at c' q f = slot_at c q f \<or>
      q = ip_senderPlayer packet \<and> (\<exists>i < unat (ip_inputCount packet). ring f = ring (ip_firstInputFrame packet + word_of_nat i))"
    using fold_submit_slot_at [of "packet_samples packet" _ packet _ "record_ack c packet"]
    by (force simp: c' packet_samples_def packet_frame_def)
  show "\<forall>q. q = ip_senderPlayer packet \<or>
      rc_peerAckOfLocal c' q = rc_peerAckOfLocal c q \<and> rc_confirmedThrough c' q = rc_confirmedThrough c q"
  proof
    fix q
    show "q = ip_senderPlayer packet \<or>
        rc_peerAckOfLocal c' q = rc_peerAckOfLocal c q \<and> rc_confirmedThrough c' q = rc_confirmedThrough c q"
      by (cases "q = ip_senderPlayer packet")
        (simp_all add: c' record_ack_def Let_def fold_submit_confirmed_other)
  qed
  show "same_frame c c'"
    unfolding c' by (rule same_frame_trans [OF record_ack_same_frame fold_submit_same_frame])
  show "rc_rollbackFrame c' \<in> insert (rc_rollbackFrame c)
      ((\<lambda>i. ip_firstInputFrame packet + word_of_nat i) ` {..<unat (ip_inputCount packet)})"
    using fold_submit_rollbackFrame [of packet "packet_samples packet" "record_ack c packet"]
    by (auto simp: c' packet_samples_def packet_frame_def)
qed



end
