(* ===== verification/CorePrepare.thy ===== *)
theory CorePrepare
  imports CoreLemmas
begin

text \<open>
  What a frame decision is made of, and what taking simulated frames back does. \<open>seat_passes\<close> and
  \<open>seat_input\<close> describe one round of the seat loop of \<^verbatim>\<open>PrepareFrame\<close>;
  \<open>prepare_seats_eq\<close> composes the rounds.
\<close>

section \<open>One seat\<close>

definition within_window :: "RollbackCore \<Rightarrow> u32 \<Rightarrow> u8 \<Rightarrow> bool" where
  "within_window c frame p \<longleftrightarrow>
     unat frame + 1 \<le> frames_through (rc_confirmedThrough c p) + unat (cc_maxRollbackFrames (rc_config c))"

definition seat_passes :: "RollbackCore \<Rightarrow> u32 \<Rightarrow> u8 \<Rightarrow> bool" where
  "seat_passes c frame p \<longleftrightarrow>
     (cc_allowPrediction (rc_config c) \<or> unat frame < frames_through (rc_confirmedThrough c p)) \<and>
     (p = cc_localPlayer (rc_config c) \<or> within_window c frame p) \<and>
     (FindInputSlot c p frame \<noteq> None \<or>
       p \<noteq> cc_localPlayer (rc_config c) \<and> frames_through (rc_confirmedThrough c p) \<le> unat frame)"

definition seat_input :: "RollbackCore \<Rightarrow> u32 \<Rightarrow> u8 \<Rightarrow> FrameInput" where
  "seat_input c frame p =
     (case FindInputSlot c p frame of Some slot \<Rightarrow> slot_input slot | None \<Rightarrow> PredictInput c p frame)"

lemma frames_through_gt_iff:
  "f \<noteq> INVALID_FRAME \<Longrightarrow> unat f < frames_through g \<longleftrightarrow> g \<noteq> INVALID_FRAME \<and> f \<le> g"
  by (cases "g = INVALID_FRAME") (auto simp: frames_through_valid word_le_nat_alt)

lemma unat_ucast_u8: "unat (ucast (m :: u8) :: u32) = unat m"
  by (rule unat_ucast_count)

lemma window_test:
  assumes "f \<noteq> INVALID_FRAME"
  shows "(if g = INVALID_FRAME then f + 1 else if f > g then f - g else 0) > ucast (m :: u8)
    \<longleftrightarrow> \<not> unat f + 1 \<le> frames_through g + unat m"
proof (cases "g = INVALID_FRAME")
  case True
  have "unat (f + 1) = unat f + 1"
    using frames_through_valid [OF assms] by (simp add: frames_through_def)
  with True show ?thesis by (simp add: word_less_nat_alt unat_ucast_u8 not_le)
next
  case False
  note g = frames_through_valid [OF False]
  show ?thesis
  proof (cases "f > g")
    case True
    then have "unat (f - g) = unat f - unat g" "unat g < unat f"
      by (simp_all add: unat_sub order_less_imp_le word_less_nat_alt)
    with True False g show ?thesis by (simp add: word_less_nat_alt unat_ucast_u8) linarith
  next
    case le: False
    with False g show ?thesis by (simp add: word_less_nat_alt unat_ucast_u8)
  qed
qed

lemma prepare_seats_Cons:
  assumes "frame \<noteq> INVALID_FRAME"
  shows "prepare_seats c frame (p # ps) d =
    (if seat_passes c frame p
     then prepare_seats c frame ps (d\<lparr>fd_inputs := (fd_inputs d)(p := seat_input c frame p),
       fd_predictedMask := fd_predictedMask d OR
         (if FindInputSlot c p frame = None then seat_mask p else 0)\<rparr>)
     else d)"
proof -
  have lock: "rc_confirmedThrough c p = INVALID_FRAME \<or> rc_confirmedThrough c p < frame
      \<longleftrightarrow> \<not> unat frame < frames_through (rc_confirmedThrough c p)"
    using frames_through_gt_iff [OF assms] by (auto simp: not_le)
  have hole: "rc_confirmedThrough c p \<noteq> INVALID_FRAME \<and> frame \<le> rc_confirmedThrough c p
      \<longleftrightarrow> \<not> frames_through (rc_confirmedThrough c p) \<le> unat frame"
    using frames_through_gt_iff [OF assms] by (simp add: not_le)
  define mine where "mine \<longleftrightarrow> p = cc_localPlayer (rc_config c)"
  show ?thesis
    by (cases mine; cases "FindInputSlot c p frame")
      (simp_all add: Let_def mine_def [symmetric] lock hole window_test [OF assms] seat_passes_def seat_input_def within_window_def)
qed

section \<open>The decision\<close>

definition predicted_mask :: "RollbackCore \<Rightarrow> u32 \<Rightarrow> u8 list \<Rightarrow> u8" where
  "predicted_mask c frame ps =
     foldr (\<lambda>p m. (if FindInputSlot c p frame = None then seat_mask p else 0) OR m) ps 0"

lemma prepare_seats_eq:
  assumes "frame \<noteq> INVALID_FRAME" and "\<forall>p \<in> set ps. seat_passes c frame p"
  shows "prepare_seats c frame ps d = d\<lparr>fd_canAdvance := True,
    fd_predictedMask := fd_predictedMask d OR predicted_mask c frame ps,
    fd_inputs := (\<lambda>p. if p \<in> set ps then seat_input c frame p else fd_inputs d p)\<rparr>"
  using assms(2)
proof (induction ps arbitrary: d)
  case Nil
  then show ?case by (simp add: predicted_mask_def)
next
  case (Cons p ps)
  then show ?case
    by (simp only: prepare_seats_Cons [OF assms(1)])
      (auto simp: predicted_mask_def or.assoc fun_eq_iff intro!: FrameDecision.equality)
qed

lemma prepare_seats_canAdvance:
  assumes "frame \<noteq> INVALID_FRAME" and "\<not> fd_canAdvance d"
  shows "fd_canAdvance (prepare_seats c frame ps d) \<longleftrightarrow> (\<forall>p \<in> set ps. seat_passes c frame p)"
  using assms(2)
proof (induction ps arbitrary: d)
  case Nil
  then show ?case by simp
next
  case (Cons p ps)
  then show ?case by (simp only: prepare_seats_Cons [OF assms(1)]) simp
qed

lemma PrepareFrame_canAdvance:
  "fd_canAdvance (PrepareFrame c frame) \<longleftrightarrow>
     rc_configured c \<and> frame \<noteq> INVALID_FRAME \<and> (\<forall>p < cc_playerCount (rc_config c). seat_passes c frame p)"
  using prepare_seats_canAdvance [of frame FrameDecision_default c "seats (cc_playerCount (rc_config c))"]
  by (simp add: PrepareFrame_def FrameDecision_default_def)

lemma PrepareFrame_eq:
  assumes "fd_canAdvance (PrepareFrame c frame)"
  shows "PrepareFrame c frame = \<lparr>fd_canAdvance = True,
    fd_predictedMask = predicted_mask c frame (seats (cc_playerCount (rc_config c))),
    fd_inputs = (\<lambda>p. if p < cc_playerCount (rc_config c) then seat_input c frame p else FrameInput_default)\<rparr>"
proof -
  from assms have "rc_configured c" "frame \<noteq> INVALID_FRAME"
    and "\<forall>p \<in> set (seats (cc_playerCount (rc_config c))). seat_passes c frame p"
    by (auto simp: PrepareFrame_canAdvance)
  with prepare_seats_eq [of frame "seats (cc_playerCount (rc_config c))" c FrameDecision_default]
  show ?thesis
    by (simp add: PrepareFrame_def) (simp add: FrameDecision_default_def fun_eq_iff)
qed

lemma bit_seat_mask: "p < 8 \<Longrightarrow> bit (seat_mask p) n \<longleftrightarrow> n = unat p"
  by (auto simp: seat_mask_def bit_simps word_less_nat_alt)

lemma bit_predicted_mask:
  assumes "\<forall>q \<in> set ps. q < 8"
  shows "bit (predicted_mask c frame ps) (unat p) \<longleftrightarrow> p \<in> set ps \<and> FindInputSlot c p frame = None"
  using assms
proof (induction ps)
  case Nil
  then show ?case by (simp add: predicted_mask_def)
next
  case (Cons q ps)
  then show ?case
    by (auto simp: predicted_mask_def bit_or_iff bit_seat_mask unat_eq_unat_iff)
qed

section \<open>Rewinding\<close>

definition rewound :: "RollbackCore \<Rightarrow> u32 \<Rightarrow> RollbackCore" where
  "rewound c first = c\<lparr>rc_used := (\<lambda>i. let slot = rc_used c i in
       if used_frame slot \<noteq> INVALID_FRAME \<and> used_frame slot \<ge> first then UsedSlot_default else slot),
     rc_lastSimulatedFrame := (if first = 0 then INVALID_FRAME else first - 1),
     rc_rollbackFrame := INVALID_FRAME\<rparr>"

definition rewindable :: "RollbackCore \<Rightarrow> u32 \<Rightarrow> bool" where
  "rewindable c first \<longleftrightarrow> rc_configured c \<and> cc_allowPrediction (rc_config c) \<and> first \<noteq> INVALID_FRAME \<and>
     unat first < frames_through (rc_lastSimulatedFrame c) \<and>
     frames_through (rc_lastSimulatedFrame c) \<le> unat first + 256 \<and>
     (rc_rollbackFrame c = INVALID_FRAME \<or> first \<le> rc_rollbackFrame c) \<and>
     (\<forall>f. unat first \<le> f \<longrightarrow> f < frames_through (rc_lastSimulatedFrame c) \<longrightarrow> FindUsedSlot c (word_of_nat f) \<noteq> None)"

lemma Rewind_eq:
  "RewindSimulationTo c first = (if rewindable c first then (True, rewound c first) else (False, c))"
proof (cases "first = INVALID_FRAME \<or> rc_lastSimulatedFrame c = INVALID_FRAME \<or> first > rc_lastSimulatedFrame c")
  case True
  then have "\<not> rewindable c first"
    using frames_through_gt_iff [of first "rc_lastSimulatedFrame c"] by (auto simp: rewindable_def)
  with True show ?thesis by (auto simp: RewindSimulationTo_def Let_def)
next
  case False
  let ?last = "rc_lastSimulatedFrame c"
  from False have le: "unat first \<le> unat ?last" and n: "frames_through ?last = unat ?last + 1"
    by (simp_all add: not_less word_le_nat_alt frames_through_valid)
  from False have sub: "unat (?last - first) = unat ?last - unat first" by (simp add: not_less unat_sub)
  have far: "unat (?last - first) \<ge> INPUT_HISTORY_SIZE \<longleftrightarrow> \<not> frames_through ?last \<le> unat first + 256"
    using le by (simp add: sub n INPUT_HISTORY_SIZE_def) linarith
  have shift: "first + word_of_nat k = word_of_nat (unat first + k)" for k by simp
  have "list_ex (\<lambda>k. FindUsedSlot c (first + word_of_nat k) = None) [0..<unat (?last - first) + 1]
      \<longleftrightarrow> (\<exists>k < unat (?last - first) + 1. FindUsedSlot c (word_of_nat (unat first + k)) = None)"
    unfolding shift by (auto simp: list_ex_iff simp del: upt_Suc of_nat_add)
  also have "\<dots> \<longleftrightarrow> \<not> (\<forall>f. unat first \<le> f \<longrightarrow> f < frames_through ?last \<longrightarrow> FindUsedSlot c (word_of_nat f) \<noteq> None)"
    (is "_ \<longleftrightarrow> \<not> ?all")
  proof
    assume "\<exists>k < unat (?last - first) + 1. FindUsedSlot c (word_of_nat (unat first + k)) = None"
    then obtain k where "k < unat (?last - first) + 1" "FindUsedSlot c (word_of_nat (unat first + k)) = None" by auto
    with le show "\<not> ?all" by (intro notI) (auto simp: sub n simp del: of_nat_add)
  next
    assume "\<not> ?all"
    then obtain f where "unat first \<le> f" "f < frames_through ?last" "FindUsedSlot c (word_of_nat f) = None" by auto
    with le show "\<exists>k < unat (?last - first) + 1. FindUsedSlot c (word_of_nat (unat first + k)) = None"
      by (intro exI [of _ "f - unat first"]) (auto simp: sub n)
  qed
  finally have missing: "list_ex (\<lambda>k. FindUsedSlot c (first + word_of_nat k) = None) [0..<unat (?last - first) + 1]
      \<longleftrightarrow> \<not> ?all" .
  have "rewindable c first \<longleftrightarrow> rc_configured c \<and> cc_allowPrediction (rc_config c) \<and>
      frames_through ?last \<le> unat first + 256 \<and>
      (rc_rollbackFrame c = INVALID_FRAME \<or> first \<le> rc_rollbackFrame c) \<and> ?all"
    using False le n by (simp add: rewindable_def)
  with False show ?thesis
    unfolding RewindSimulationTo_def Let_def far missing rewound_def by (auto simp: not_le)
qed

lemma rewound_fields [simp]:
  "rc_config (rewound c f) = rc_config c" "rc_configured (rewound c f) = rc_configured c"
  "rc_inputs (rewound c f) = rc_inputs c" "rc_confirmedThrough (rewound c f) = rc_confirmedThrough c"
  "rc_peerAckOfLocal (rewound c f) = rc_peerAckOfLocal c" "rc_rollbackFrame (rewound c f) = INVALID_FRAME"
  "FindInputSlot (rewound c f) p g = FindInputSlot c p g" "slot_at (rewound c f) p g = slot_at c p g"
  by (simp_all add: rewound_def FindInputSlot_def slot_at_def)

lemma frames_through_rewound:
  "f \<noteq> INVALID_FRAME \<Longrightarrow> frames_through (rc_lastSimulatedFrame (rewound c f)) = unat f"
  by (simp add: rewound_def frames_through_def INVALID_FRAME_def)

lemma FindUsedSlot_rewound:
  assumes "g \<noteq> INVALID_FRAME"
  shows "FindUsedSlot (rewound c f) g = (if g < f then FindUsedSlot c g else None)"
  using assms by (auto simp: rewound_def FindUsedSlot_def Let_def UsedSlot_default_def not_le)

end
