(* ===== verification/CoreDriver.thy ===== *)
theory CoreDriver
  imports CoreApply CorePrepare
begin

text \<open>
  The rollback core under the driver the source prescribes: local input is captured for frames not
  yet simulated, packets arrive in any order, a frame is simulated from the decision of
  \<^verbatim>\<open>PrepareFrame\<close> when no rollback is requested, and a requested rollback rewinds to the requested
  frame. Two ghost components record what the core forgets: the samples every seat's history
  accepted (\<open>samples\<close>, by seat and frame number) and the inputs each frame was last simulated with
  (\<open>history\<close>).
\<close>

section \<open>The driver\<close>

type_synonym samples = "u8 \<Rightarrow> nat \<Rightarrow> FrameInput option"
type_synonym history = "nat \<Rightarrow> u8 \<Rightarrow> FrameInput"

abbreviation sim_count :: "RollbackCore \<Rightarrow> nat" where
  "sim_count c \<equiv> frames_through (rc_lastSimulatedFrame c)"

abbreviation confirmed_count :: "RollbackCore \<Rightarrow> u8 \<Rightarrow> nat" where
  "confirmed_count c p \<equiv> frames_through (rc_confirmedThrough c p)"

definition lead_in :: "CoreConfig \<Rightarrow> samples" where
  "lead_in config p f = (if p = cc_localPlayer config \<and> f < unat (cc_inputDelay config)
     then Some FrameInput_default else None)"

definition add_sample :: "u8 \<Rightarrow> nat \<Rightarrow> FrameInput \<Rightarrow> samples \<Rightarrow> samples" where
  "add_sample p f x A = A(p := (A p)(f \<mapsto> x))"

text \<open>The first sample accepted for a frame stays: a later packet only repeats it.\<close>

definition record_packet :: "InputPacket \<Rightarrow> samples \<Rightarrow> samples" where
  "record_packet packet A = (\<lambda>p f. case A p f of Some x \<Rightarrow> Some x | None \<Rightarrow>
     if p = ip_senderPlayer packet \<and> unat (ip_firstInputFrame packet) \<le> f \<and>
        f < unat (ip_firstInputFrame packet) + unat (ip_inputCount packet)
     then Some (ip_inputs packet (f - unat (ip_firstInputFrame packet))) else None)"

text \<open>Captures stay between the frame to simulate next and the part of the ring a rewind may need.\<close>

definition capture_allowed :: "RollbackCore \<Rightarrow> u32 \<Rightarrow> bool" where
  "capture_allowed c n \<longleftrightarrow>
     sim_count c \<le> unat (LocalFrameForCapture c n) \<and>
     unat (LocalFrameForCapture c n) + unat (cc_maxRollbackFrames (rc_config c)) < sim_count c + INPUT_HISTORY_SIZE"

inductive driver_run ::
    "ProtocolConfig \<Rightarrow> CoreConfig \<Rightarrow> samples \<Rightarrow> history \<Rightarrow> RollbackCore \<Rightarrow> bool"
  for cfg config where
  start: "Core_Reset c0 config = (True, c) \<Longrightarrow>
    driver_run cfg config (lead_in config) (\<lambda>_ _. FrameInput_default) c"
| bootstrap: "driver_run cfg config A S c \<Longrightarrow> IsValidFrameInput cfg x \<Longrightarrow>
    SetLocalLeadInInput c f x = (True, c') \<Longrightarrow>
    driver_run cfg config (add_sample (cc_localPlayer config) (unat f) x A) S c'"
| capture: "driver_run cfg config A S c \<Longrightarrow> IsValidFrameInput cfg x \<Longrightarrow> capture_allowed c n \<Longrightarrow>
    ScheduleLocalInput c n x = (True, c') \<Longrightarrow>
    driver_run cfg config (add_sample (cc_localPlayer config) (unat (LocalFrameForCapture c n)) x A) S c'"
| receive: "driver_run cfg config A S c \<Longrightarrow> ApplyInputPacket cfg c packet = (True, worst, c') \<Longrightarrow>
    driver_run cfg config (record_packet packet A) S c'"
| advance: "driver_run cfg config A S c \<Longrightarrow> \<not> HasRollbackRequest c \<Longrightarrow>
    MarkSimulated c (rc_lastSimulatedFrame c + 1) (PrepareFrame c (rc_lastSimulatedFrame c + 1)) = (True, c') \<Longrightarrow>
    driver_run cfg config A (S(sim_count c := fd_inputs (PrepareFrame c (rc_lastSimulatedFrame c + 1)))) c'"
| rollback: "driver_run cfg config A S c \<Longrightarrow> HasRollbackRequest c \<Longrightarrow>
    RewindSimulationTo c (rc_rollbackFrame c) = (True, c') \<Longrightarrow>
    driver_run cfg config A S c'"

section \<open>The invariant\<close>

text \<open>The histories hold what was accepted, and only frames behind the rollback window leave them.
  \<open>hw\<close> is the largest number of frames ever simulated.\<close>

definition hist_inv :: "ProtocolConfig \<Rightarrow> CoreConfig \<Rightarrow> samples \<Rightarrow> nat \<Rightarrow> RollbackCore \<Rightarrow> bool" where
  "hist_inv cfg config A hw c \<longleftrightarrow>
     (\<forall>p f. slot_present (slot_at c p f) \<longrightarrow> ring (slot_frame (slot_at c p f)) = ring f \<and>
        A p (unat (slot_frame (slot_at c p f))) = Some (slot_input (slot_at c p f))) \<and>
     (\<forall>p f x. A p f = Some x \<longrightarrow> f < 4294967295 \<and> IsValidFrameInput cfg x \<and>
        slot_present (slot_at c p (word_of_nat f)) \<and> f \<le> unat (slot_frame (slot_at c p (word_of_nat f)))) \<and>
     (\<forall>p f. A p f \<noteq> None \<longrightarrow> hw \<le> f + unat (cc_maxRollbackFrames config) \<longrightarrow>
        FindInputSlot c p (word_of_nat f) \<noteq> None) \<and>
     (\<forall>f. A (cc_localPlayer config) f \<noteq> None \<longrightarrow> f + unat (cc_maxRollbackFrames config) < hw + 256)"

definition frontier_inv :: "CoreConfig \<Rightarrow> samples \<Rightarrow> nat \<Rightarrow> RollbackCore \<Rightarrow> bool" where
  "frontier_inv config A hw c \<longleftrightarrow>
     (\<forall>p f. f < confirmed_count c p \<longrightarrow> A p f \<noteq> None) \<and>
     (\<forall>p. A p (confirmed_count c p) = None) \<and>
     (\<forall>p < cc_playerCount config. hw \<le> confirmed_count c p + unat (cc_maxRollbackFrames config)) \<and>
     hw \<le> confirmed_count c (cc_localPlayer config) \<and>
     (\<forall>p. frames_through (rc_peerAckOfLocal c p) \<le> confirmed_count c (cc_localPlayer config))"

definition sim_inv :: "CoreConfig \<Rightarrow> samples \<Rightarrow> history \<Rightarrow> nat \<Rightarrow> RollbackCore \<Rightarrow> bool" where
  "sim_inv config A S hw c \<longleftrightarrow>
     sim_count c \<le> hw \<and> hw \<le> sim_count c + unat (cc_maxRollbackFrames config) \<and>
     (\<forall>f u. f \<noteq> INVALID_FRAME \<longrightarrow> FindUsedSlot c f = Some u \<longrightarrow> unat f < sim_count c \<and> used_inputs u = S (unat f)) \<and>
     (\<forall>f. f < sim_count c \<longrightarrow> hw \<le> f + 256 \<longrightarrow> FindUsedSlot c (word_of_nat f) \<noteq> None) \<and>
     (\<forall>f p x. f < sim_count c \<longrightarrow> p < cc_playerCount config \<longrightarrow> A p f = Some x \<longrightarrow> \<not> input_eq (S f p) x \<longrightarrow>
        rc_rollbackFrame c \<noteq> INVALID_FRAME \<and> unat (rc_rollbackFrame c) \<le> f) \<and>
     (rc_rollbackFrame c \<noteq> INVALID_FRAME \<longrightarrow> cc_allowPrediction config \<and>
        unat (rc_rollbackFrame c) < sim_count c \<and> hw \<le> unat (rc_rollbackFrame c) + unat (cc_maxRollbackFrames config)) \<and>
     (cc_allowPrediction config \<or> (\<forall>p < cc_playerCount config. sim_count c \<le> confirmed_count c p))"

definition driver_inv ::
    "ProtocolConfig \<Rightarrow> CoreConfig \<Rightarrow> samples \<Rightarrow> history \<Rightarrow> nat \<Rightarrow> RollbackCore \<Rightarrow> bool" where
  "driver_inv cfg config A S hw c \<longleftrightarrow>
     rc_configured c \<and> rc_config c = config \<and> config_valid config \<and>
     hist_inv cfg config A hw c \<and> frontier_inv config A hw c \<and> sim_inv config A S hw c"

lemma config_validD:
  assumes "config_valid config"
  shows "1 < cc_playerCount config" "cc_playerCount config \<le> 3" "cc_localPlayer config < cc_playerCount config"
    "0 < unat (cc_maxRollbackFrames config)" "unat (cc_maxRollbackFrames config) < 128"
    "unat (cc_inputDelay config) < 64"
  using assms
  by (auto simp: config_valid_def MAX_PLAYERS_def INPUT_HISTORY_SIZE_def not_le not_less word_le_nat_alt
      word_less_nat_alt unat_gt_0)

subsection \<open>Reading the invariant\<close>

lemma hist_slotD:
  assumes "hist_inv cfg config A hw c" "FindInputSlot c p f = Some s"
  shows "A p (unat f) = Some (slot_input s)"
proof -
  from assms(2) have "slot_present (slot_at c p f)" "slot_frame (slot_at c p f) = f" "s = slot_at c p f"
    by (auto simp: FindInputSlot_Some)
  with assms(1) show ?thesis unfolding hist_inv_def by metis
qed

lemma hist_occupantD:
  assumes "hist_inv cfg config A hw c" "slot_present (slot_at c p f)"
  shows "ring (slot_frame (slot_at c p f)) = ring f"
    "A p (unat (slot_frame (slot_at c p f))) = Some (slot_input (slot_at c p f))"
  using assms unfolding hist_inv_def by auto

lemma hist_sampleD:
  assumes "hist_inv cfg config A hw c" "A p f = Some x"
  shows "f < 4294967295" "IsValidFrameInput cfg x" "slot_present (slot_at c p (word_of_nat f))"
    "f \<le> unat (slot_frame (slot_at c p (word_of_nat f)))"
  using assms unfolding hist_inv_def by blast+

lemma hist_keptD:
  assumes "hist_inv cfg config A hw c" "A p f = Some x" "hw \<le> f + unat (cc_maxRollbackFrames config)"
  shows "\<exists>s. FindInputSlot c p (word_of_nat f) = Some s \<and> slot_input s = x"
proof -
  from assms have "FindInputSlot c p (word_of_nat f) \<noteq> None" unfolding hist_inv_def by blast
  then obtain s where s: "FindInputSlot c p (word_of_nat f) = Some s" by auto
  from hist_slotD [OF assms(1) s] hist_sampleD(1) [OF assms(1,2)] assms(2) s show ?thesis
    by (simp add: unat_of_nat_frame)
qed

lemma hist_localD:
  assumes "hist_inv cfg config A hw c" "A (cc_localPlayer config) f = Some x"
  shows "f + unat (cc_maxRollbackFrames config) < hw + 256"
  using assms unfolding hist_inv_def by blast

lemma hist_sentinel: "hist_inv cfg config A hw c \<Longrightarrow> FindInputSlot c p INVALID_FRAME = None"
  using hist_slotD [of cfg config A hw c p INVALID_FRAME] hist_sampleD(1) [of cfg config A hw c p "unat INVALID_FRAME"]
  by (cases "FindInputSlot c p INVALID_FRAME") (auto simp: unat_INVALID_FRAME)

lemma oldestRecoverable_count:
  "unat (oldestRecoverable c) = sim_count c - unat (cc_maxRollbackFrames (rc_config c))"
proof (cases "rc_lastSimulatedFrame c = INVALID_FRAME")
  case True
  then show ?thesis by (simp add: oldestRecoverable_def)
next
  case False
  let ?last = "rc_lastSimulatedFrame c" and ?m = "cc_maxRollbackFrames (rc_config c)"
  note n = frames_through_valid [OF False]
  show ?thesis
  proof (cases "?last < ucast ?m")
    case True
    then show ?thesis
      by (simp add: oldestRecoverable_def n word_less_nat_alt unat_ucast_u8)
  next
    case le: False
    then have sub: "unat (?last - ucast ?m) = unat ?last - unat ?m"
      by (simp add: unat_sub not_less unat_ucast_u8)
    have "unat ?last < 4294967295" using False by (simp add: frame_neq_INVALID)
    then have "unat (?last - ucast ?m + 1) = unat ?last - unat ?m + 1"
      using unat_add_nat [of "?last - ucast ?m" 1] sub by simp
    with le False show ?thesis
      by (simp add: oldestRecoverable_def n not_less word_le_nat_alt unat_ucast_u8 Suc_diff_le)
  qed
qed

lemma FrameIsTooOld_count: "FrameIsTooOld c f \<longleftrightarrow> f \<noteq> INVALID_FRAME \<and> unat f + 256 < sim_count c"
proof (cases "rc_lastSimulatedFrame c = INVALID_FRAME")
  case True
  then show ?thesis by (simp add: FrameIsTooOld_def)
next
  case False
  have "unat (rc_lastSimulatedFrame c - f) = unat (rc_lastSimulatedFrame c) - unat f"
    if "f \<le> rc_lastSimulatedFrame c" using that by (simp add: unat_sub)
  moreover have "unat (rc_lastSimulatedFrame c) < 4294967295" using False by (simp add: frame_neq_INVALID)
  ultimately show ?thesis
    using False frames_through_valid [OF False] frame_neq_INVALID [of f] unat_frame_less [of f]
    by (auto simp: FrameIsTooOld_def INPUT_HISTORY_SIZE_def word_le_nat_alt)
qed

subsection \<open>Storing a sample\<close>

lemma add_sample_simp: "add_sample p f x A q g = (if q = p \<and> g = f then Some x else A q g)"
  by (simp add: add_sample_def)

lemma add_sample_other: "\<not> (q = p \<and> g = f) \<Longrightarrow> add_sample p f x A q g = A q g"
  by (auto simp: add_sample_def)

lemma hist_store:
  assumes inv: "hist_inv cfg config A hw c"
    and f: "f \<noteq> INVALID_FRAME" and x: "IsValidFrameInput cfg x"
    and occ: "slot_present (slot_at c p f) \<Longrightarrow> slot_frame (slot_at c p f) \<noteq> f \<Longrightarrow>
      unat (slot_frame (slot_at c p f)) + unat (cc_maxRollbackFrames config) < hw \<and>
      unat (slot_frame (slot_at c p f)) \<le> unat f"
    and loc: "p = cc_localPlayer config \<Longrightarrow> unat f + unat (cc_maxRollbackFrames config) < hw + 256"
  shows "hist_inv cfg config (add_sample p (unat f) x A) hw (store_input c p f x)"
proof -
  let ?A = "add_sample p (unat f) x A" and ?c = "store_input c p f x" and ?M = "unat (cc_maxRollbackFrames config)"
  have f_small: "unat f < 4294967295" using f by (simp add: frame_neq_INVALID)
  have old: "A q (unat (slot_frame (slot_at c q g))) = Some (slot_input (slot_at c q g)) \<and>
      ring (slot_frame (slot_at c q g)) = ring g" if "slot_present (slot_at c q g)" for q g
    using hist_occupantD [OF inv that] by simp
  have "ring (slot_frame (slot_at ?c q g)) = ring g \<and>
      ?A q (unat (slot_frame (slot_at ?c q g))) = Some (slot_input (slot_at ?c q g))"
    if "slot_present (slot_at ?c q g)" for q g
  proof (cases "q = p \<and> ring g = ring f")
    case True
    then have "slot_at ?c q g = \<lparr>slot_frame = f, slot_input = x, slot_present = True\<rparr>"
      unfolding slot_at_store_input by (rule if_P)
    with True show ?thesis by (simp add: add_sample_simp)
  next
    case False
    then have same: "slot_at ?c q g = slot_at c q g"
      unfolding slot_at_store_input by (rule if_not_P)
    with that old have "A q (unat (slot_frame (slot_at c q g))) = Some (slot_input (slot_at c q g))"
      "ring (slot_frame (slot_at c q g)) = ring g" by auto
    with False same show ?thesis by (auto simp: add_sample_simp unat_eq_unat_iff)
  qed
  moreover have "g < 4294967295 \<and> IsValidFrameInput cfg y \<and> slot_present (slot_at ?c q (word_of_nat g)) \<and>
      g \<le> unat (slot_frame (slot_at ?c q (word_of_nat g)))" if "?A q g = Some y" for q g y
  proof (cases "q = p \<and> g = unat f")
    case True
    with that f_small x show ?thesis by (simp add: add_sample_simp slot_at_store_input)
  next
    case new: False
    with that add_sample_other [OF this] have A: "A q g = Some y" by simp
    note s = hist_sampleD [OF inv A]
    show ?thesis
    proof (cases "q = p \<and> ring (word_of_nat g) = ring f")
      case True
      then have here: "slot_at c q (word_of_nat g) = slot_at c p f" by (simp add: slot_at_def)
      have "g \<le> unat f"
      proof (cases "slot_frame (slot_at c p f) = f")
        case True
        with s(4) here show ?thesis by simp
      next
        case False
        with occ s(3,4) here show ?thesis by simp
      qed
      with True s(1,2) show ?thesis by (simp add: slot_at_store_input)
    next
      case False
      then have "slot_at ?c q (word_of_nat g) = slot_at c q (word_of_nat g)"
        unfolding slot_at_store_input by (rule if_not_P)
      with s show ?thesis by simp
    qed
  qed
  moreover have "FindInputSlot ?c q (word_of_nat g) \<noteq> None" if "?A q g \<noteq> None" "hw \<le> g + ?M" for q g
  proof (cases "q = p \<and> g = unat f")
    case True
    then show ?thesis by (simp add: FindInputSlot_store_input)
  next
    case new: False
    with that(1) add_sample_other [OF this] obtain y where A: "A q g = Some y" by auto
    from hist_keptD [OF inv A that(2)] obtain s where s: "FindInputSlot c q (word_of_nat g) = Some s" by auto
    have "\<not> (q = p \<and> ring (word_of_nat g) = ring f)"
    proof
      assume same: "q = p \<and> ring (word_of_nat g) = ring f"
      then have "slot_at c q (word_of_nat g) = slot_at c p f" by (simp add: slot_at_def)
      with s have "slot_present (slot_at c p f)" "slot_frame (slot_at c p f) = word_of_nat g"
        by (auto simp: FindInputSlot_Some)
      moreover from hist_sampleD(1) [OF inv A] have g: "unat (word_of_nat g :: u32) = g" by (simp add: unat_of_nat_frame)
      moreover from g new same have "word_of_nat g \<noteq> f" by auto
      ultimately show False using occ that(2) by simp
    qed
    then have "FindInputSlot ?c q (word_of_nat g) = FindInputSlot c q (word_of_nat g)"
      unfolding FindInputSlot_store_input by (rule if_not_P)
    with s show ?thesis by simp
  qed
  moreover have "g + ?M < hw + 256" if "?A (cc_localPlayer config) g \<noteq> None" for g
    using that loc hist_localD [OF inv, of g] by (auto simp: add_sample_simp split: if_splits)
  ultimately show ?thesis unfolding hist_inv_def by blast
qed

lemma hist_slots_only:
  assumes "hist_inv cfg config A hw c" "rc_inputs c' = rc_inputs c" "hw \<le> hw'"
  shows "hist_inv cfg config A hw' c'"
proof -
  from assms(2) have "slot_at c' p f = slot_at c p f" "FindInputSlot c' p f = FindInputSlot c p f" for p f
    by (simp_all add: slot_at_def FindInputSlot_def)
  with assms(1,3) show ?thesis
    unfolding hist_inv_def by (auto dest: le_trans [OF assms(3)])
qed

text \<open>The frontier of the seat moves on; it stops at the first frame without a sample.\<close>

lemma frontier_advance:
  assumes hist: "hist_inv cfg config A hw c"
    and filled: "\<And>q g. g < confirmed_count c q \<Longrightarrow> A q g \<noteq> None"
    and others: "\<And>q. q \<noteq> p \<Longrightarrow> A q (confirmed_count c q) = None"
    and window: "\<And>q. q < cc_playerCount config \<Longrightarrow> hw \<le> confirmed_count c q + unat (cc_maxRollbackFrames config)"
    and local: "hw \<le> confirmed_count c (cc_localPlayer config)"
    and acks: "\<And>q. frames_through (rc_peerAckOfLocal c q) \<le> confirmed_count c (cc_localPlayer config)"
    and p: "p < cc_playerCount config"
  shows "frontier_inv config A hw (AdvanceConfirmedThrough c p)"
proof -
  let ?c = "AdvanceConfirmedThrough c p" and ?M = "unat (cc_maxRollbackFrames config)"
  note adv = Advance_frontier [OF hist_sentinel [OF hist, of p]]
  have grow: "confirmed_count c q \<le> confirmed_count ?c q" for q
    using adv(1) by (cases "q = p") simp_all
  have filled': "A q g \<noteq> None" if "g < confirmed_count ?c q" for q g
  proof (cases "g < confirmed_count c q")
    case True
    then show ?thesis by (rule filled)
  next
    case False
    with that have "q = p" by (cases "q = p") auto
    with adv(2) [of g] that False obtain s where "FindInputSlot c p (word_of_nat g) = Some s" by auto
    from hist_slotD [OF hist this] have "A p (unat (word_of_nat g :: u32)) \<noteq> None" by simp
    moreover have "g < 4294967296" using that frames_through_le [of "rc_confirmedThrough ?c q"] by simp
    ultimately show ?thesis using \<open>q = p\<close> by (simp add: unat_of_nat_frame)
  qed
  have stop: "A q (confirmed_count ?c q) = None" for q
  proof (cases "q = p")
    case False
    with others show ?thesis by simp
  next
    case True
    let ?n = "confirmed_count ?c p"
    have absent: "FindInputSlot c p (word_of_nat ?n) = None"
      using adv(3) by (simp add: of_nat_frames_through)
    have "hw \<le> ?n + ?M" using window [OF p] grow [of p] by (meson add_le_mono1 le_trans)
    with hist_keptD [OF hist, of p ?n] absent True show ?thesis by (cases "A p ?n") auto
  qed
  have "hw \<le> confirmed_count ?c q + ?M" if "q < cc_playerCount config" for q
    using window [OF that] grow [of q] by (meson add_le_mono1 le_trans)
  moreover have "hw \<le> confirmed_count ?c (cc_localPlayer config)"
    using local grow by (rule le_trans)
  moreover have "frames_through (rc_peerAckOfLocal ?c q) \<le> confirmed_count ?c (cc_localPlayer config)" for q
    using le_trans [OF acks grow, of q] by simp
  ultimately show ?thesis using filled' stop unfolding frontier_inv_def by blast
qed

lemma frontier_submit:
  assumes "hist_inv cfg config (add_sample p (unat f) x A) hw (store_input c p f x)"
    and front: "frontier_inv config A hw c" and "p < cc_playerCount config"
  shows "frontier_inv config (add_sample p (unat f) x A) hw (submit_store c p f x)"
proof -
  have "add_sample p (unat f) x A q g \<noteq> None" if "g < confirmed_count c q" for q g
    using front that by (auto simp: frontier_inv_def add_sample_simp)
  then show ?thesis
    unfolding submit_store_def using assms
    by (intro frontier_advance [OF assms(1)]) (auto simp: frontier_inv_def add_sample_simp)
qed

text \<open>What was simulated stays consistent with the histories, if a frame that used another
  input than the new sample is covered by a rollback request.\<close>

lemma sim_submit:
  assumes sim: "sim_inv config A S hw c"
    and same: "rc_used c' = rc_used c" "rc_lastSimulatedFrame c' = rc_lastSimulatedFrame c"
    and front: "\<And>q. confirmed_count c q \<le> confirmed_count c' q"
    and request: "rc_rollbackFrame c' = rc_rollbackFrame c \<or>
      rc_rollbackFrame c' = f \<and> f \<noteq> INVALID_FRAME \<and> cc_allowPrediction config \<and> unat f < sim_count c \<and>
      hw \<le> unat f + unat (cc_maxRollbackFrames config) \<and>
      (rc_rollbackFrame c = INVALID_FRAME \<or> f < rc_rollbackFrame c)"
    and sample: "unat f < sim_count c \<Longrightarrow> p < cc_playerCount config \<Longrightarrow> \<not> input_eq (S (unat f) p) x \<Longrightarrow>
      rc_rollbackFrame c' \<noteq> INVALID_FRAME \<and> unat (rc_rollbackFrame c') \<le> unat f"
  shows "sim_inv config (add_sample p (unat f) x A) S hw c'"
proof -
  have used: "FindUsedSlot c' g = FindUsedSlot c g" for g by (simp add: FindUsedSlot_def same)
  have covered: "rc_rollbackFrame c' \<noteq> INVALID_FRAME \<and> unat (rc_rollbackFrame c') \<le> g"
    if "g < sim_count c" "q < cc_playerCount config" "add_sample p (unat f) x A q g = Some y" "\<not> input_eq (S g q) y" for g q y
  proof (cases "q = p \<and> g = unat f")
    case True
    with that sample show ?thesis by (simp add: add_sample_simp)
  next
    case False
    with that add_sample_other [OF False] have "A q g = Some y" by simp
    with sim that have "rc_rollbackFrame c \<noteq> INVALID_FRAME \<and> unat (rc_rollbackFrame c) \<le> g"
      unfolding sim_inv_def by blast
    with request show ?thesis by (auto simp: word_less_nat_alt)
  qed
  have "rc_rollbackFrame c' \<noteq> INVALID_FRAME \<longrightarrow> cc_allowPrediction config \<and>
      unat (rc_rollbackFrame c') < sim_count c \<and>
      hw \<le> unat (rc_rollbackFrame c') + unat (cc_maxRollbackFrames config)"
    using request sim unfolding sim_inv_def by auto
  moreover have "cc_allowPrediction config \<or> (\<forall>p < cc_playerCount config. sim_count c \<le> confirmed_count c' p)"
    using sim front unfolding sim_inv_def by (meson le_trans)
  ultimately show ?thesis
    using sim covered unfolding sim_inv_def used same(2) by blast
qed

subsection \<open>A sample of a packet\<close>

text \<open>A sample that passed validation is either new, and then its slot is free, or it repeats what
  the history already accepted, and then nothing changes.\<close>

lemma sample_new:
  assumes inv: "driver_inv cfg config A S hw c" and ok: "sample_ok c p f x" and f: "f \<noteq> INVALID_FRAME"
    and p: "p < cc_playerCount config" and new: "A p (unat f) = None"
  shows "FindInputSlot c p f = None" "\<not> FrameIsTooOld c f" "confirmed_count c p \<le> unat f"
    "slot_present (slot_at c p f) \<Longrightarrow>
       unat (slot_frame (slot_at c p f)) + unat (cc_maxRollbackFrames config) < hw \<and>
       unat (slot_frame (slot_at c p f)) \<le> unat f"
proof -
  from inv have hist: "hist_inv cfg config A hw c" and front: "frontier_inv config A hw c"
    and sim: "sim_inv config A S hw c" and config: "rc_config c = config" "config_valid config"
    by (auto simp: driver_inv_def)
  note M = config_validD(5) [OF config(2)]
  show absent: "FindInputSlot c p f = None"
    using hist_slotD [OF hist, of p f] new by (cases "FindInputSlot c p f") auto
  show ge: "confirmed_count c p \<le> unat f"
    using front new unfolding frontier_inv_def by (meson not_le)
  have n: "sim_count c \<le> hw" "hw \<le> confirmed_count c p + unat (cc_maxRollbackFrames config)"
    using front sim p unfolding frontier_inv_def sim_inv_def by auto
  with ge M show old: "\<not> FrameIsTooOld c f" by (simp add: FrameIsTooOld_count)
  assume present: "slot_present (slot_at c p f)"
  let ?e = "slot_frame (slot_at c p f)"
  from absent present have "?e \<noteq> f" by (simp add: FindInputSlot_None)
  with ok old present have "unat ?e < unat (oldestRecoverable c)"
    by (simp add: sample_ok_def word_less_nat_alt)
  then have e: "unat ?e + unat (cc_maxRollbackFrames config) < sim_count c"
    by (simp add: oldestRecoverable_count config less_diff_conv)
  moreover have "unat ?e \<le> unat f"
  proof (rule ccontr)
    assume "\<not> unat ?e \<le> unat f"
    moreover from this e n ge M have "unat ?e < unat f + 256" by linarith
    ultimately have "f = ?e"
      using hist_occupantD(1) [OF hist present] by (intro ring_eq_near) simp_all
    with \<open>?e \<noteq> f\<close> show False by simp
  qed
  ultimately show "unat ?e + unat (cc_maxRollbackFrames config) < hw \<and> unat ?e \<le> unat f"
    using n(1) by simp
qed

lemma sample_repeated:
  assumes inv: "driver_inv cfg config A S hw c" and ok: "sample_ok c p f x" and f: "f \<noteq> INVALID_FRAME"
    and known: "A p (unat f) \<noteq> None"
  shows "snd (SubmitRemoteInput c p f x) = c"
proof -
  from inv have hist: "hist_inv cfg config A hw c" and sim: "sim_inv config A S hw c" by (auto simp: driver_inv_def)
  from known obtain y where y: "A p (unat f) = Some y" by auto
  have "FrameIsTooOld c f \<or> FindInputSlot c p f \<noteq> None"
  proof (rule disjCI)
    assume "\<not> FindInputSlot c p f \<noteq> None"
    then have absent: "FindInputSlot c p f = None" by simp
    let ?e = "slot_frame (slot_at c p f)"
    from hist_sampleD(3,4) [OF hist y] have present: "slot_present (slot_at c p f)" and ge: "unat f \<le> unat ?e" by simp_all
    from absent present have ne: "?e \<noteq> f" by (simp add: FindInputSlot_None)
    show "FrameIsTooOld c f"
    proof (rule ccontr)
      assume young: "\<not> FrameIsTooOld c f"
      with ok present ne have "unat ?e < sim_count c - unat (cc_maxRollbackFrames (rc_config c))"
        by (simp add: sample_ok_def word_less_nat_alt oldestRecoverable_count)
      then have "unat ?e < sim_count c" by linarith
      moreover from young f have "sim_count c \<le> unat f + 256" by (simp add: FrameIsTooOld_count)
      ultimately have "f = ?e"
        using hist_occupantD(1) [OF hist present] ge by (intro ring_eq_near) simp_all
      with ne show False by simp
    qed
  qed
  then show ?thesis by (auto simp: SubmitRemoteInput_alt split: option.split)
qed

lemma submit_result_cases:
  assumes "frames_through (rc_lastSimulatedFrame c) = n" "f \<noteq> INVALID_FRAME"
  shows "unat f < n \<Longrightarrow> FindUsedSlot c f = Some u \<Longrightarrow> \<not> input_eq (used_inputs u p) x \<Longrightarrow>
      submit_result c p f x = RIR_RollbackRequired \<or> submit_result c p f x = RIR_ConflictingConfirmedInput"
    and "submit_result c p f x = RIR_RollbackRequired \<Longrightarrow> unat f < n"
proof -
  have behind: "unat f < n \<longleftrightarrow> \<not> (rc_lastSimulatedFrame c = INVALID_FRAME \<or> f > rc_lastSimulatedFrame c)"
    using frames_through_gt_iff [OF assms(2), of "rc_lastSimulatedFrame c"] assms(1) by auto
  show "unat f < n \<Longrightarrow> FindUsedSlot c f = Some u \<Longrightarrow> \<not> input_eq (used_inputs u p) x \<Longrightarrow>
      submit_result c p f x = RIR_RollbackRequired \<or> submit_result c p f x = RIR_ConflictingConfirmedInput"
    unfolding behind by (auto simp: submit_result_def)
  show "submit_result c p f x = RIR_RollbackRequired \<Longrightarrow> unat f < n"
    unfolding behind by (auto simp: submit_result_def split: option.splits if_splits)
qed

definition accept_sample :: "u8 \<Rightarrow> nat \<Rightarrow> FrameInput \<Rightarrow> samples \<Rightarrow> samples" where
  "accept_sample p f x A = (if A p f = None then add_sample p f x A else A)"

lemma driver_slots_only:
  assumes "hist_inv cfg config A hw c" "frontier_inv config A hw c"
    and "rc_inputs c' = rc_inputs c" "rc_confirmedThrough c' = rc_confirmedThrough c"
    and "rc_peerAckOfLocal c' = rc_peerAckOfLocal c"
  shows "hist_inv cfg config A hw c'" "frontier_inv config A hw c'"
  using assms hist_slots_only [of cfg config A hw c c' hw] by (simp_all add: frontier_inv_def)

lemma submit_inv:
  assumes inv: "driver_inv cfg config A S hw c" and ok: "sample_ok c p f x" and f: "f \<noteq> INVALID_FRAME"
    and x: "IsValidFrameInput cfg x" and p: "p < cc_playerCount config" "p \<noteq> cc_localPlayer config"
  shows "driver_inv cfg config (accept_sample p (unat f) x A) S hw (snd (SubmitRemoteInput c p f x))"
proof (cases "A p (unat f) = None")
  case False
  then have "accept_sample p (unat f) x A = A" unfolding accept_sample_def by (rule if_not_P)
  with sample_repeated [OF inv ok f False] inv show ?thesis by simp
next
  case True
  note new = sample_new [OF inv ok f p(1) True]
  from inv have hist: "hist_inv cfg config A hw c" and front: "frontier_inv config A hw c"
    and sim: "sim_inv config A S hw c" and config: "rc_configured c" "rc_config c = config" "config_valid config"
    by (auto simp: driver_inv_def)
  note M = config_validD(5) [OF config(3)]
  let ?A = "add_sample p (unat f) x A" and ?store = "submit_store c p f x"
  let ?c = "if submit_result c p f x = RIR_RollbackRequired then request_rollback ?store f else ?store"
  have submit: "SubmitRemoteInput c p f x = (submit_result c p f x, ?c)"
    using new(1,2) p config by (simp add: SubmitRemoteInput_alt not_le [symmetric])
  have noconflict: "submit_result c p f x \<noteq> RIR_ConflictingConfirmedInput"
    using ok new(2) submit by (simp add: sample_ok_def rejects_def)
  have hist': "hist_inv cfg config ?A hw (store_input c p f x)"
    using hist_store [OF hist f x new(4)] p(2) by blast
  have front': "frontier_inv config ?A hw ?store"
    by (rule frontier_submit [OF hist' front p(1)])
  have hw: "hw \<le> unat f + unat (cc_maxRollbackFrames config)"
    using front p(1) new(3) unfolding frontier_inv_def by (meson add_le_mono1 le_trans)
  have grow: "confirmed_count c q \<le> confirmed_count ?c q" for q
    using Advance_frontier(1) [OF hist_sentinel [OF hist', of p]]
    by (cases "q = p") (simp_all add: submit_store_def)
  have "sim_inv config ?A S hw ?c"
  proof (rule sim_submit [OF sim])
    show "rc_rollbackFrame ?c = rc_rollbackFrame c \<or>
      rc_rollbackFrame ?c = f \<and> f \<noteq> INVALID_FRAME \<and> cc_allowPrediction config \<and> unat f < sim_count c \<and>
      hw \<le> unat f + unat (cc_maxRollbackFrames config) \<and>
      (rc_rollbackFrame c = INVALID_FRAME \<or> f < rc_rollbackFrame c)"
    proof (cases "submit_result c p f x = RIR_RollbackRequired")
      case True
      then have "unat f < sim_count c" by (rule submit_result_cases(2) [OF refl f])
      moreover from this sim new(3) p(1) have "cc_allowPrediction config"
        unfolding sim_inv_def by (meson not_le le_trans)
      ultimately show ?thesis using True f hw by (simp add: request_rollback_def)
    qed simp
  next
    assume n: "unat f < sim_count c" and neq: "\<not> input_eq (S (unat f) p) x"
    have "FindUsedSlot c (word_of_nat (unat f)) \<noteq> None"
      using sim n hw M unfolding sim_inv_def by fastforce
    then obtain u where u: "FindUsedSlot c f = Some u" by auto
    with sim f have "used_inputs u = S (unat f)" unfolding sim_inv_def by blast
    with u n neq submit_result_cases(1) [OF refl f, of c u p x] noconflict
    have "submit_result c p f x = RIR_RollbackRequired" by auto
    then show "rc_rollbackFrame ?c \<noteq> INVALID_FRAME \<and> unat (rc_rollbackFrame ?c) \<le> unat f"
      using f by (auto simp: request_rollback_def word_le_nat_alt not_less)
  qed (simp_all add: grow)
  moreover have "hist_inv cfg config ?A hw ?c"
    by (rule hist_slots_only [OF hist']) (simp_all add: submit_store_def)
  moreover have "frontier_inv config ?A hw ?c"
    using front' by (simp add: frontier_inv_def)
  ultimately show ?thesis
    using config True by (simp add: submit driver_inv_def accept_sample_def)
qed

subsection \<open>A packet\<close>

lemma fold_accept_sample:
  "fold (\<lambda>i. accept_sample p (b + i) (X i)) [0..<k] A =
    (\<lambda>q g. case A q g of Some x \<Rightarrow> Some x | None \<Rightarrow>
       if q = p \<and> b \<le> g \<and> g < b + k then Some (X (g - b)) else None)"
proof (induction k)
  case 0
  show ?case by (simp add: fun_eq_iff split: option.split)
next
  case (Suc k)
  have "fold (\<lambda>i. accept_sample p (b + i) (X i)) [0..<Suc k] A q g =
      (case A q g of Some x \<Rightarrow> Some x | None \<Rightarrow>
       if q = p \<and> b \<le> g \<and> g < b + Suc k then Some (X (g - b)) else None)" for q g
    unfolding upt_Suc_append [OF le0] fold_append fold_Cons fold_Nil comp_def Suc.IH
    by (cases "A q g"; cases "q = p \<and> g = b + k") (auto simp: accept_sample_def add_sample_def)
  then show ?case by (simp add: fun_eq_iff)
qed

lemma record_packet_fold:
  assumes "packet_header_ok c packet"
  shows "record_packet packet A = fold (\<lambda>i. accept_sample (ip_senderPlayer packet)
    (unat (packet_frame packet i)) (ip_inputs packet i)) (packet_samples packet) A"
proof -
  have "fold (\<lambda>i. accept_sample (ip_senderPlayer packet) (unat (packet_frame packet i)) (ip_inputs packet i))
      (packet_samples packet) A
    = fold (\<lambda>i. accept_sample (ip_senderPlayer packet) (unat (ip_firstInputFrame packet) + i) (ip_inputs packet i))
      (packet_samples packet) A"
    by (intro fold_cong refl) (simp add: packet_samples_def packet_frame_props(1) [OF assms])
  then show ?thesis
    by (simp add: record_packet_def packet_samples_def fold_accept_sample)
qed

lemma record_ack_inv:
  assumes "driver_inv cfg config A S hw c" "packet_header_ok c packet"
  shows "driver_inv cfg config A S hw (record_ack c packet)"
proof -
  let ?c = "record_ack c packet"
  from assms have config: "rc_config c = config" and hist: "hist_inv cfg config A hw c"
    and front: "frontier_inv config A hw c" and sim: "sim_inv config A S hw c" by (auto simp: driver_inv_def)
  have "frames_through (ip_ackFrame packet) \<le> confirmed_count c (cc_localPlayer config)"
    using packet_header_okD(6) [OF assms(2)] frames_through_le_iff config
    by (cases "ip_ackFrame packet = INVALID_FRAME") auto
  then have "frames_through (rc_peerAckOfLocal ?c q) \<le> confirmed_count c (cc_localPlayer config)" for q
    using front by (auto simp: record_ack_def Let_def frontier_inv_def)
  with front have "frontier_inv config A hw ?c" by (simp add: frontier_inv_def)
  moreover have "hist_inv cfg config A hw ?c" by (rule hist_slots_only [OF hist]) simp_all
  moreover have "sim_inv config A S hw ?c"
    using sim by (simp add: sim_inv_def FindUsedSlot_def)
  ultimately show ?thesis using assms(1) by (simp add: driver_inv_def)
qed

lemma receive_inv:
  assumes inv: "driver_inv cfg config A S hw c" and ok: "accepted_packet cfg c packet"
  shows "driver_inv cfg config (record_packet packet A) S hw
    (fold (submit_sample packet) (packet_samples packet) (record_ack c packet))"
proof -
  from ok have header: "packet_header_ok c packet" by (simp add: accepted_packet_def)
  from inv have config: "rc_config c = config" by (simp add: driver_inv_def)
  note p = packet_header_okD(2,3) [OF header, unfolded config]
  show ?thesis
    unfolding record_packet_fold [OF header]
  proof (rule commit_induct [where P = "\<lambda>A c. driver_inv cfg config A S hw c"])
    fix i assume i: "i \<in> set (packet_samples packet)"
    then show "sample_ok (record_ack c packet) (ip_senderPlayer packet) (packet_frame packet i) (ip_inputs packet i)"
      by (rule accepted_sample_ok [OF ok])
    fix A' c' assume "driver_inv cfg config A' S hw c'"
      and "sample_ok c' (ip_senderPlayer packet) (packet_frame packet i) (ip_inputs packet i)"
    then show "driver_inv cfg config (accept_sample (ip_senderPlayer packet) (unat (packet_frame packet i))
        (ip_inputs packet i) A') S hw (submit_sample packet i c')"
      unfolding submit_sample_def using i p
      by (intro submit_inv accepted_packetD(1) [OF ok] packet_frame_props(2) [OF header])
        (simp_all add: packet_samples_def)
  next
    show "driver_inv cfg config A S hw (record_ack c packet)" by (rule record_ack_inv [OF inv header])
    show "distinct (packet_samples packet)" by (simp add: packet_samples_def)
  qed (rule packet_samples_ring [OF header])
qed

subsection \<open>Local input\<close>

lemma valid_neutral: "IsValidFrameInput cfg FrameInput_default"
  by (simp add: IsValidFrameInput_def ValidInput_def FrameInput_default_def AM_None_def
      f32_isfinite_def f32_exponent_def)

lemma capture_inv:
  assumes inv: "driver_inv cfg config A S hw c" and x: "IsValidFrameInput cfg x"
    and window: "capture_allowed c n" and sched: "ScheduleLocalInput c n x = (True, c')"
  defines "f \<equiv> LocalFrameForCapture c n"
  shows "driver_inv cfg config (add_sample (cc_localPlayer config) (unat f) x A) S hw c'"
proof -
  from inv have hist: "hist_inv cfg config A hw c" and front: "frontier_inv config A hw c"
    and sim: "sim_inv config A S hw c" and config: "rc_configured c" "rc_config c = config" "config_valid config"
    by (auto simp: driver_inv_def)
  let ?p = "cc_localPlayer config" and ?M = "unat (cc_maxRollbackFrames config)"
  note p = config_validD(3) [OF config(3)]
  from sched have f: "f \<noteq> INVALID_FRAME" and c': "c' = submit_store c ?p f x"
    by (auto simp: ScheduleLocalInput_alt Let_def config f_def split: if_splits option.splits)
  from window have target: "sim_count c \<le> unat f" "unat f + ?M < sim_count c + 256"
    by (simp_all add: capture_allowed_def f_def config INPUT_HISTORY_SIZE_def)
  have hw: "sim_count c \<le> hw" "hw \<le> sim_count c + ?M" using sim by (simp_all add: sim_inv_def)
  have hist': "hist_inv cfg config (add_sample ?p (unat f) x A) hw (store_input c ?p f x)"
  proof (rule hist_store [OF hist f x])
    assume present: "slot_present (slot_at c ?p f)" and ne: "slot_frame (slot_at c ?p f) \<noteq> f"
    let ?e = "slot_frame (slot_at c ?p f)"
    note ring = hist_occupantD(1) [OF hist present]
    note bound = hist_localD [OF hist hist_occupantD(2) [OF hist present]]
    have "unat ?e < unat f + 256" using bound target hw by linarith
    with ne ring_eq_near [OF ring [symmetric]] have "unat ?e \<le> unat f" by (metis nat_le_linear)
    moreover from this ne ring_eq_near [OF ring] have "\<not> unat f < unat ?e + 256" by auto
    ultimately show "unat ?e + ?M < hw \<and> unat ?e \<le> unat f" using target hw by linarith
  qed (use target hw in linarith)
  have front': "frontier_inv config (add_sample ?p (unat f) x A) hw c'"
    unfolding c' by (rule frontier_submit [OF hist' front p])
  have "sim_inv config (add_sample ?p (unat f) x A) S hw c'"
  proof (rule sim_submit [OF sim])
    fix q show "confirmed_count c q \<le> confirmed_count c' q"
      using Advance_frontier(1) [OF hist_sentinel [OF hist', of ?p]]
      by (cases "q = ?p") (simp_all add: c' submit_store_def)
  qed (use target in \<open>simp_all add: c'\<close>)
  moreover have "hist_inv cfg config (add_sample ?p (unat f) x A) hw c'"
    by (rule hist_slots_only [OF hist']) (simp_all add: c' submit_store_def)
  ultimately show ?thesis using front' config by (simp add: driver_inv_def c')
qed

lemma SetLocalLeadInInput_True:
  assumes "SetLocalLeadInInput c f x = (True, c')"
  shows "c' = store_input c (cc_localPlayer (rc_config c)) f x" "rc_lastSimulatedFrame c = INVALID_FRAME"
    "FindInputSlot c (cc_localPlayer (rc_config c)) f \<noteq> None"
    "f < ucast (cc_inputDelay (rc_config c))"
proof -
  let ?p = "cc_localPlayer (rc_config c)"
  from assms show "rc_lastSimulatedFrame c = INVALID_FRAME" "f < ucast (cc_inputDelay (rc_config c))"
    by (auto simp: SetLocalLeadInInput_def Let_def split: if_splits)
  from assms have c': "c' = set_slot (GetInputSlot c ?p f) ?p f ((slot_at (GetInputSlot c ?p f) ?p f)\<lparr>slot_input := x\<rparr>)"
    and present: "slot_present (slot_at (GetInputSlot c ?p f) ?p f)"
    by (auto simp: SetLocalLeadInInput_def Let_def split: if_splits)
  from present show found: "FindInputSlot c ?p f \<noteq> None" by (simp add: slot_present_GetInputSlot)
  then obtain s where "FindInputSlot c ?p f = Some s" by auto
  with found_slot [OF this] c' show "c' = store_input c ?p f x"
    by (simp add: FindInputSlot_Some store_input_def) (metis InputSlot.surjective InputSlot.update_convs(2) old.unit.exhaust)
qed

lemma bootstrap_inv:
  assumes inv: "driver_inv cfg config A S hw c" and x: "IsValidFrameInput cfg x"
    and set: "SetLocalLeadInInput c f x = (True, c')"
  shows "driver_inv cfg config (add_sample (cc_localPlayer config) (unat f) x A) S hw c'"
proof -
  from inv have hist: "hist_inv cfg config A hw c" and front: "frontier_inv config A hw c"
    and sim: "sim_inv config A S hw c" and config: "rc_configured c" "rc_config c = config" "config_valid config"
    by (auto simp: driver_inv_def)
  let ?p = "cc_localPlayer config" let ?A = "add_sample ?p (unat f) x A"
  note lead = SetLocalLeadInInput_True [OF set, unfolded config]
  then obtain s where s: "FindInputSlot c ?p f = Some s" by auto
  note known = hist_slotD [OF hist s]
  from front have "A ?p (confirmed_count c ?p) = None" unfolding frontier_inv_def by blast
  with known have ne: "unat f \<noteq> confirmed_count c ?p" by auto
  from hist_sentinel [OF hist, of ?p] s have f: "f \<noteq> INVALID_FRAME" by auto
  have hist': "hist_inv cfg config ?A hw c'"
    unfolding lead(1) using s hist_localD [OF hist known]
    by (intro hist_store [OF hist f x]) (auto simp: FindInputSlot_Some)
  moreover have "frontier_inv config ?A hw c'"
    using front ne unfolding frontier_inv_def lead(1) by (auto simp: add_sample_simp)
  moreover have "sim_inv config ?A S hw c'"
    by (rule sim_submit [OF sim]) (simp_all add: lead(1,2))
  ultimately show ?thesis using config by (simp add: driver_inv_def lead(1))
qed

subsection \<open>Simulation\<close>

lemma next_frame:
  assumes "rc_lastSimulatedFrame c + 1 \<noteq> INVALID_FRAME"
  shows "unat (rc_lastSimulatedFrame c + 1) = sim_count c"
    "frames_through (rc_lastSimulatedFrame c + 1) = sim_count c + 1"
    "rc_lastSimulatedFrame c = INVALID_FRAME \<or> rc_lastSimulatedFrame c + 1 > rc_lastSimulatedFrame c"
proof -
  show unat: "unat (rc_lastSimulatedFrame c + 1) = sim_count c" by (simp add: frames_through_def)
  show "frames_through (rc_lastSimulatedFrame c + 1) = sim_count c + 1"
    using frames_through_valid [OF assms] unat by simp
  show "rc_lastSimulatedFrame c = INVALID_FRAME \<or> rc_lastSimulatedFrame c + 1 > rc_lastSimulatedFrame c"
    using frames_through_valid [of "rc_lastSimulatedFrame c"] unat
    by (cases "rc_lastSimulatedFrame c = INVALID_FRAME") (simp_all add: word_less_nat_alt)
qed

text \<open>The state after simulating frame \<open>f\<close> as the newest one.\<close>

definition simulated :: "RollbackCore \<Rightarrow> u32 \<Rightarrow> FrameDecision \<Rightarrow> RollbackCore" where
  "simulated c f d = c\<lparr>rc_used := (rc_used c)(ring f := \<lparr>used_frame = f, used_inputs = fd_inputs d,
     used_predictedMask = fd_predictedMask d\<rparr>), rc_lastSimulatedFrame := f\<rparr>"

lemma guarded_result:
  "(if a then (False, c) else if b then (False, c) else (True, x)) = (True, c') \<Longrightarrow> \<not> a \<and> \<not> b \<and> c' = x"
  by (auto split: if_splits)

lemma MarkSimulated_True:
  assumes "MarkSimulated c f d = (True, c')" "rc_lastSimulatedFrame c = INVALID_FRAME \<or> f > rc_lastSimulatedFrame c"
  shows "fd_canAdvance d" "c' = simulated c f d"
proof -
  note r = guarded_result [OF assms(1) [unfolded MarkSimulated_def Let_def]]
  then show "fd_canAdvance d" by blast
  from r show "c' = simulated c f d"
    using assms(2) unfolding simulated_def by simp
qed

lemma MarkSimulated_next:
  assumes "MarkSimulated c (rc_lastSimulatedFrame c + 1) (PrepareFrame c (rc_lastSimulatedFrame c + 1)) = (True, c')"
  shows "fd_canAdvance (PrepareFrame c (rc_lastSimulatedFrame c + 1))"
    "rc_lastSimulatedFrame c + 1 \<noteq> INVALID_FRAME"
    "c' = simulated c (rc_lastSimulatedFrame c + 1) (PrepareFrame c (rc_lastSimulatedFrame c + 1))"
proof -
  from guarded_result [OF assms [unfolded MarkSimulated_def Let_def]]
  show can: "fd_canAdvance (PrepareFrame c (rc_lastSimulatedFrame c + 1))" by blast
  then show valid: "rc_lastSimulatedFrame c + 1 \<noteq> INVALID_FRAME" by (simp add: PrepareFrame_canAdvance)
  show "c' = simulated c (rc_lastSimulatedFrame c + 1) (PrepareFrame c (rc_lastSimulatedFrame c + 1))"
    by (rule MarkSimulated_True(2) [OF assms next_frame(3) [OF valid]])
qed

lemma simulated_fields [simp]:
  "rc_config (simulated c f d) = rc_config c" "rc_configured (simulated c f d) = rc_configured c"
  "rc_inputs (simulated c f d) = rc_inputs c" "rc_confirmedThrough (simulated c f d) = rc_confirmedThrough c"
  "rc_peerAckOfLocal (simulated c f d) = rc_peerAckOfLocal c" "rc_rollbackFrame (simulated c f d) = rc_rollbackFrame c"
  "rc_lastSimulatedFrame (simulated c f d) = f"
  by (simp_all add: simulated_def)

lemma FindUsedSlot_simulated:
  "FindUsedSlot (simulated c f d) g = (if ring g = ring f
     then if g = f then Some \<lparr>used_frame = f, used_inputs = fd_inputs d, used_predictedMask = fd_predictedMask d\<rparr>
       else None
     else FindUsedSlot c g)"
proof (cases "ring g = ring f")
  case True
  then show ?thesis by (cases "g = f") (auto simp: FindUsedSlot_def simulated_def)
next
  case False
  then show ?thesis by (simp add: FindUsedSlot_def simulated_def)
qed

lemma seat_input_known:
  assumes "hist_inv cfg config A hw c" "unat f = n" "hw \<le> n + unat (cc_maxRollbackFrames config)" "A p n = Some x"
  shows "seat_input c f p = x"
  using hist_keptD [OF assms(1,4,3)] assms(2) by (auto simp: seat_input_def)

lemma advance_inv:
  assumes inv: "driver_inv cfg config A S hw c" and idle: "\<not> HasRollbackRequest c"
  defines "next \<equiv> rc_lastSimulatedFrame c + 1"
  assumes mark: "MarkSimulated c next (PrepareFrame c next) = (True, c')"
  shows "driver_inv cfg config A (S(sim_count c := fd_inputs (PrepareFrame c next))) (max hw (sim_count c + 1)) c'"
proof -
  from inv have hist: "hist_inv cfg config A hw c" and front: "frontier_inv config A hw c"
    and sim: "sim_inv config A S hw c" and config: "rc_configured c" "rc_config c = config" "config_valid config"
    by (auto simp: driver_inv_def)
  let ?M = "unat (cc_maxRollbackFrames config)" and ?n = "sim_count c" and ?d = "PrepareFrame c next"
  let ?S = "S(?n := fd_inputs ?d)" and ?hw = "max hw (?n + 1)" and ?local = "cc_localPlayer config"
  note M = config_validD(4,5) [OF config(3)]
  note mark = MarkSimulated_next [OF mark [unfolded next_def], folded next_def]
  note num = next_frame [OF mark(2) [unfolded next_def], folded next_def]
  have passes: "seat_passes c next p" if "p < cc_playerCount config" for p
    using mark(1) that by (simp add: PrepareFrame_canAdvance config)
  have inputs: "fd_inputs ?d p = seat_input c next p" if "p < cc_playerCount config" for p
    using PrepareFrame_eq [OF mark(1)] that by (simp add: config)
  have hw: "?n \<le> hw" "hw \<le> ?n + ?M" using sim by (simp_all add: sim_inv_def)
  have n': "sim_count c' = ?n + 1" by (simp add: mark(3) num)
  have local: "?n < confirmed_count c ?local"
  proof -
    from passes [OF config_validD(3) [OF config(3)]] obtain s where "FindInputSlot c ?local next = Some s"
      by (auto simp: seat_passes_def config)
    from hist_slotD [OF hist this] num(1) have "A ?local ?n \<noteq> None" by simp
    moreover from front have "A ?local (confirmed_count c ?local) = None" "?n \<le> confirmed_count c ?local"
      using hw(1) by (auto simp: frontier_inv_def)
    ultimately show ?thesis by (cases "?n = confirmed_count c ?local") auto
  qed
  have "?n + 1 \<le> confirmed_count c p + ?M" if "p < cc_playerCount config" for p
    using passes [OF that] local num(1) by (auto simp: seat_passes_def within_window_def config)
  with local front have "frontier_inv config A ?hw c'"
    by (auto simp: frontier_inv_def mark(3))
  moreover have "hist_inv cfg config A ?hw c'"
    by (rule hist_slots_only [OF hist]) (simp_all add: mark(3))
  moreover have "sim_inv config A ?S ?hw c'"
    unfolding sim_inv_def n'
  proof (intro conjI allI impI)
    show "?n + 1 \<le> ?hw" "?hw \<le> ?n + 1 + ?M" using hw M by auto
  next
    fix f u assume f: "f \<noteq> INVALID_FRAME" "FindUsedSlot c' f = Some u"
    show "unat f < ?n + 1" "used_inputs u = ?S (unat f)"
    proof -
      have "unat f < ?n + 1 \<and> used_inputs u = ?S (unat f)"
      proof (cases "f = next")
        case True
        with f(2) num(1) show ?thesis by (auto simp: mark(3) FindUsedSlot_simulated)
      next
        case False
        with f(2) have "FindUsedSlot c f = Some u" by (auto simp: mark(3) FindUsedSlot_simulated split: if_splits)
        with sim f(1) have "unat f < ?n \<and> used_inputs u = S (unat f)" unfolding sim_inv_def by blast
        then show ?thesis by simp
      qed
      then show "unat f < ?n + 1" "used_inputs u = ?S (unat f)" by simp_all
    qed
  next
    fix f assume f: "f < ?n + 1" "?hw \<le> f + 256"
    show "FindUsedSlot c' (word_of_nat f) \<noteq> None"
    proof (cases "f = ?n")
      case True
      then have "(word_of_nat f :: u32) = next" by (simp add: next_def of_nat_frames_through)
      then show ?thesis by (simp add: mark(3) FindUsedSlot_simulated)
    next
      case False
      with f sim have old: "FindUsedSlot c (word_of_nat f) \<noteq> None" unfolding sim_inv_def by simp
      have uf: "unat (word_of_nat f :: u32) = f"
        using f(1) frames_through_le [of "rc_lastSimulatedFrame c"] by (intro unat_of_nat_frame) simp
      have "ring (word_of_nat f) \<noteq> ring next"
      proof
        assume "ring (word_of_nat f) = ring next"
        from ring_eq_near [OF this] uf num(1) f False have "word_of_nat f = next" by simp
        with uf num(1) False show False by simp
      qed
      with old show ?thesis by (simp add: mark(3) FindUsedSlot_simulated)
    qed
  next
    fix f p x
    assume f: "f < ?n + 1" "p < cc_playerCount config" "A p f = Some x" "\<not> input_eq (?S f p) x"
    have "f \<noteq> ?n"
    proof
      assume "f = ?n"
      with f seat_input_known [OF hist num(1) hw(2), of p x] inputs have "\<not> input_eq x x" by simp
      with IsValid_input_eq_refl [OF hist_sampleD(2) [OF hist f(3)]] show False by simp
    qed
    with f have "f < ?n" "\<not> input_eq (S f p) x" by simp_all
    with f(2,3) sim have "rc_rollbackFrame c \<noteq> INVALID_FRAME" unfolding sim_inv_def by blast
    with idle show "rc_rollbackFrame c' \<noteq> INVALID_FRAME" "unat (rc_rollbackFrame c') \<le> f"
      by (simp_all add: HasRollbackRequest_def)
  next
    assume "rc_rollbackFrame c' \<noteq> INVALID_FRAME"
    with idle show "cc_allowPrediction config" "unat (rc_rollbackFrame c') < ?n + 1"
      "?hw \<le> unat (rc_rollbackFrame c') + ?M"
      by (simp_all add: HasRollbackRequest_def mark(3))
  next
    show "cc_allowPrediction config \<or> (\<forall>p < cc_playerCount config. ?n + 1 \<le> confirmed_count c' p)"
      using passes num(1) by (auto simp: seat_passes_def config mark(3) Suc_le_eq)
  qed
  ultimately show ?thesis using config by (simp add: driver_inv_def mark(3))
qed

lemma rollback_rewindable:
  assumes inv: "driver_inv cfg config A S hw c" and pending: "HasRollbackRequest c"
  shows "rewindable c (rc_rollbackFrame c)"
proof -
  from inv have sim: "sim_inv config A S hw c" and config: "rc_configured c" "rc_config c = config" "config_valid config"
    by (auto simp: driver_inv_def)
  let ?r = "rc_rollbackFrame c"
  from pending have r: "?r \<noteq> INVALID_FRAME" by (simp add: HasRollbackRequest_def)
  with sim have b: "cc_allowPrediction config" "unat ?r < sim_count c"
    "hw \<le> unat ?r + unat (cc_maxRollbackFrames config)" "sim_count c \<le> hw"
    by (simp_all add: sim_inv_def)
  note M = config_validD(5) [OF config(3)]
  have "FindUsedSlot c (word_of_nat f) \<noteq> None" if "unat ?r \<le> f" "f < sim_count c" for f
  proof -
    from that b M have "hw \<le> f + 256" by linarith
    with sim that show ?thesis unfolding sim_inv_def by blast
  qed
  with r b M config show ?thesis by (simp add: rewindable_def)
qed

lemma rollback_inv:
  assumes inv: "driver_inv cfg config A S hw c" and pending: "HasRollbackRequest c"
  shows "driver_inv cfg config A S hw (rewound c (rc_rollbackFrame c))"
proof -
  from inv have hist: "hist_inv cfg config A hw c" and front: "frontier_inv config A hw c"
    and sim: "sim_inv config A S hw c" and config: "rc_configured c" "rc_config c = config" "config_valid config"
    by (auto simp: driver_inv_def)
  let ?r = "rc_rollbackFrame c" let ?c = "rewound c ?r" and ?M = "unat (cc_maxRollbackFrames config)"
  from pending have r: "?r \<noteq> INVALID_FRAME" by (simp add: HasRollbackRequest_def)
  with sim have b: "cc_allowPrediction config" "unat ?r < sim_count c" "hw \<le> unat ?r + ?M" "sim_count c \<le> hw"
    by (simp_all add: sim_inv_def)
  note n' = frames_through_rewound [OF r, of c]
  have less: "f < ?r \<longleftrightarrow> unat f < unat ?r" for f by (simp add: word_less_nat_alt)
  have "unat f < unat ?r \<and> used_inputs u = S (unat f)" if "f \<noteq> INVALID_FRAME" "FindUsedSlot ?c f = Some u" for f u
    using that sim by (auto simp: FindUsedSlot_rewound less sim_inv_def split: if_splits)
  moreover have "FindUsedSlot ?c (word_of_nat f) \<noteq> None" if "f < unat ?r" "hw \<le> f + 256" for f
  proof -
    have "f < 4294967295" using that(1) r by (simp add: frame_neq_INVALID)
    with that b sim show ?thesis
      unfolding FindUsedSlot_rewound [OF of_nat_frame_INVALID [OF \<open>f < 4294967295\<close>]] less
      by (simp add: unat_of_nat_frame sim_inv_def)
  qed
  moreover have "input_eq (S f p) x" if "f < unat ?r" "p < cc_playerCount config" "A p f = Some x" for f p x
  proof (rule ccontr)
    assume "\<not> ?thesis"
    with that b sim have "unat ?r \<le> f" unfolding sim_inv_def by (meson less_trans)
    with that show False by simp
  qed
  ultimately have "sim_inv config A S hw ?c"
    using b n' unfolding sim_inv_def by auto
  moreover have "hist_inv cfg config A hw ?c" by (rule hist_slots_only [OF hist]) simp_all
  moreover have "frontier_inv config A hw ?c" using front by (simp add: frontier_inv_def)
  ultimately show ?thesis using config by (simp add: driver_inv_def)
qed

subsection \<open>The first state\<close>

lemma Core_Reset_state:
  assumes "Core_Reset c0 config = (True, c)"
  shows "config_valid config"
    "c = AdvanceConfirmedThrough (foldl (\<lambda>c frame. store_input c (cc_localPlayer config) frame FrameInput_default)
      ((Core_Clear c0)\<lparr>rc_config := config, rc_configured := True\<rparr>)
      (map word_of_nat [0..<unat (cc_inputDelay config)])) (cc_localPlayer config)"
proof -
  have conf: "foldl (\<lambda>c player. c\<lparr>rc_confirmedThrough := (rc_confirmedThrough c)(player := INVALID_FRAME)\<rparr>) b ps = b"
    if "rc_confirmedThrough b = (\<lambda>_. INVALID_FRAME)" for b :: RollbackCore and ps
  proof (induction ps)
    case (Cons p ps)
    have "b\<lparr>rc_confirmedThrough := (rc_confirmedThrough b)(p := INVALID_FRAME)\<rparr> = b"
      by (cases b) (use that in \<open>simp add: fun_upd_idem\<close>)
    then show ?case unfolding foldl_Cons by (simp only: Cons)
  qed simp
  from assms show "config_valid config" by (auto simp: Core_Reset_def Let_def split: if_splits)
  with assms show "c = AdvanceConfirmedThrough (foldl (\<lambda>c frame. store_input c (cc_localPlayer config) frame FrameInput_default)
      ((Core_Clear c0)\<lparr>rc_config := config, rc_configured := True\<rparr>)
      (map word_of_nat [0..<unat (cc_inputDelay config)])) (cc_localPlayer config)"
    by (simp add: Core_Reset_def Let_def fill_GetInputSlot conf Core_Clear_def)
qed

text \<open>The slots of the lead-in, stored one after the other.\<close>

definition lead_in_upto :: "CoreConfig \<Rightarrow> nat \<Rightarrow> samples" where
  "lead_in_upto config k p f = (if p = cc_localPlayer config \<and> f < k then Some FrameInput_default else None)"

lemma lead_in_hist:
  assumes M: "unat (cc_maxRollbackFrames config) < 128" and "k \<le> 64"
  shows "hist_inv cfg config (lead_in_upto config k) 0
    (foldl (\<lambda>c frame. store_input c (cc_localPlayer config) frame FrameInput_default)
      ((Core_Clear c0)\<lparr>rc_config := config, rc_configured := True\<rparr>) (map word_of_nat [0..<k]))"
  using assms(2)
proof (induction k)
  case 0
  show ?case
    by (simp add: hist_inv_def lead_in_upto_def slot_at_def Core_Clear_def InputSlot_default_def)
next
  case (Suc k)
  let ?p = "cc_localPlayer config" and ?f = "word_of_nat k :: u32"
  let ?c = "foldl (\<lambda>c frame. store_input c ?p frame FrameInput_default)
      ((Core_Clear c0)\<lparr>rc_config := config, rc_configured := True\<rparr>) (map word_of_nat [0..<k])"
  from Suc have hist: "hist_inv cfg config (lead_in_upto config k) 0 ?c" by simp
  have f: "unat ?f = k" "?f \<noteq> INVALID_FRAME"
    using Suc.prems by (simp_all add: unat_of_nat_frame of_nat_frame_INVALID)
  have "hist_inv cfg config (add_sample ?p (unat ?f) FrameInput_default (lead_in_upto config k)) 0
      (store_input ?c ?p ?f FrameInput_default)"
  proof (rule hist_store [OF hist f(2) valid_neutral])
    assume present: "slot_present (slot_at ?c ?p ?f)" and ne: "slot_frame (slot_at ?c ?p ?f) \<noteq> ?f"
    let ?e = "slot_frame (slot_at ?c ?p ?f)"
    from hist_occupantD [OF hist present] have "ring ?e = ring ?f" "unat ?e < k"
      by (auto simp: lead_in_upto_def split: if_splits)
    with ring_eq_near [OF this(1)] f Suc.prems ne show "unat ?e + unat (cc_maxRollbackFrames config) < 0 \<and> unat ?e \<le> unat ?f"
      by simp
  qed (use M f(1) Suc.prems in simp)
  moreover have "add_sample ?p (unat ?f) FrameInput_default (lead_in_upto config k) = lead_in_upto config (Suc k)"
    by (auto simp: fun_eq_iff add_sample_simp lead_in_upto_def f(1))
  ultimately show ?case by simp
qed

lemma store_fold_fields:
  "rc_confirmedThrough (foldl (\<lambda>c frame. store_input c p frame x) c fs) = rc_confirmedThrough c"
  "rc_peerAckOfLocal (foldl (\<lambda>c frame. store_input c p frame x) c fs) = rc_peerAckOfLocal c"
  "rc_lastSimulatedFrame (foldl (\<lambda>c frame. store_input c p frame x) c fs) = rc_lastSimulatedFrame c"
  "rc_rollbackFrame (foldl (\<lambda>c frame. store_input c p frame x) c fs) = rc_rollbackFrame c"
  "rc_config (foldl (\<lambda>c frame. store_input c p frame x) c fs) = rc_config c"
  "rc_configured (foldl (\<lambda>c frame. store_input c p frame x) c fs) = rc_configured c"
  "rc_used (foldl (\<lambda>c frame. store_input c p frame x) c fs) = rc_used c"
  by (induction fs arbitrary: c) simp_all

lemma start_inv:
  assumes "Core_Reset c0 config = (True, c)"
  shows "driver_inv cfg config (lead_in config) S 0 c"
proof -
  note reset = Core_Reset_state [OF assms]
  note M = config_validD [OF reset(1)]
  let ?p = "cc_localPlayer config"
  let ?c = "foldl (\<lambda>c frame. store_input c ?p frame FrameInput_default)
      ((Core_Clear c0)\<lparr>rc_config := config, rc_configured := True\<rparr>) (map word_of_nat [0..<unat (cc_inputDelay config)])"
  have lead: "lead_in config = lead_in_upto config (unat (cc_inputDelay config))"
    by (simp add: fun_eq_iff lead_in_def lead_in_upto_def)
  have hist: "hist_inv cfg config (lead_in config) 0 ?c"
    unfolding lead by (rule lead_in_hist) (use M in simp_all)
  have fields: "rc_confirmedThrough ?c = (\<lambda>_. INVALID_FRAME)" "rc_peerAckOfLocal ?c = (\<lambda>_. INVALID_FRAME)"
    "rc_lastSimulatedFrame ?c = INVALID_FRAME" "rc_rollbackFrame ?c = INVALID_FRAME"
    "rc_config ?c = config" "rc_configured ?c" "rc_used ?c = (\<lambda>_. UsedSlot_default)"
    by (simp_all add: store_fold_fields Core_Clear_def)
  have front: "frontier_inv config (lead_in config) 0 c"
    unfolding reset(2) by (rule frontier_advance [OF hist]) (simp_all add: fields lead_in_def M)
  have "sim_inv config (lead_in config) S 0 c"
    by (simp add: sim_inv_def reset(2) fields FindUsedSlot_def UsedSlot_default_def)
  moreover have "hist_inv cfg config (lead_in config) 0 c"
    by (rule hist_slots_only [OF hist]) (simp_all add: reset(2))
  ultimately show ?thesis
    using front reset(1) by (simp add: driver_inv_def) (simp add: reset(2) fields)
qed

section \<open>Every run keeps the invariant\<close>

lemma driver_run_inv: "driver_run cfg config A S c \<Longrightarrow> \<exists>hw. driver_inv cfg config A S hw c"
proof (induction rule: driver_run.induct)
  case (start c0 c)
  then show ?case using start_inv by blast
next
  case (bootstrap A S c x f c')
  then show ?case using bootstrap_inv by blast
next
  case (capture A S c x n c')
  then show ?case using capture_inv by blast
next
  case (receive A S c packet worst c')
  then obtain hw where inv: "driver_inv cfg config A S hw c" by auto
  have "accepted_packet cfg c packet"
    and "c' = fold (submit_sample packet) (packet_samples packet) (record_ack c packet)"
    using receive(2) Apply_accepts_iff [of cfg c packet] Apply_state [of cfg c packet] by auto
  with receive_inv [OF inv] show ?case by blast
next
  case (advance A S c c')
  then show ?case using advance_inv by blast
next
  case (rollback A S c c')
  then obtain hw where inv: "driver_inv cfg config A S hw c" by auto
  from rollback(2,3) have "c' = rewound c (rc_rollbackFrame c)" by (simp add: Rewind_eq split: if_splits)
  with rollback_inv [OF inv rollback(2)] show ?case by blast
qed

end
