(* ===== verification/CoreSafety.thy ===== *)
theory CoreSafety
  imports CoreDriver
begin

text \<open>
  What the driver may rely on, read off the invariant of \<open>CoreDriver\<close>: the inputs of simulated
  frames, the reach of a rollback, when a frame can be simulated, and what the confirmed stream shows.
\<close>

section \<open>A run with a misprediction\<close>

text \<open>
  Seat 0 captures an input, simulates frame 0 with a neutral guess for seat 1, receives the real
  input of seat 1, rewinds and simulates frame 0 again.
\<close>

definition late_packet :: InputPacket where
  "late_packet = InputPacket_default\<lparr>ip_sessionId := 7, ip_senderPlayer := 1, ip_playerCount := 2,
     ip_firstInputFrame := 0, ip_latestFrame := 0, ip_inputCount := 1,
     ip_inputs := stored_inputs [FrameInput_of_bits 3]\<rparr>"

definition captured_core :: RollbackCore where
  "captured_core = submit_store ready_core 0 0 (FrameInput_of_bits 1)"

definition predicted_core :: RollbackCore where
  "predicted_core = simulated captured_core 0 (PrepareFrame captured_core 0)"

definition mispredicted_core :: RollbackCore where
  "mispredicted_core = request_rollback (submit_store predicted_core 1 0 (FrameInput_of_bits 3)) 0"

definition corrected_core :: RollbackCore where
  "corrected_core = simulated (rewound mispredicted_core 0) 0 (PrepareFrame (rewound mispredicted_core 0) 0)"

lemma bits_valid: "IsValidFrameInput sample_config (FrameInput_of_bits b)"
  by (rule two_sample_valid)

lemma zero_frame [simp]: "0 \<noteq> INVALID_FRAME" "INVALID_FRAME \<noteq> 0"
  by (simp_all add: INVALID_FRAME_def)

lemma captured_slots:
  "FindInputSlot captured_core p 0 = (if p = 0
     then Some \<lparr>slot_frame = 0, slot_input = FrameInput_of_bits 1, slot_present = True\<rparr> else None)"
  by (simp add: captured_core_def FindInputSlot_submit_store FindInputSlot_store_input)

lemma captured_fields [simp]:
  "rc_config captured_core = sample_core_config" "rc_configured captured_core"
  "rc_lastSimulatedFrame captured_core = INVALID_FRAME" "rc_rollbackFrame captured_core = INVALID_FRAME"
  "p \<noteq> 0 \<Longrightarrow> rc_confirmedThrough captured_core p = INVALID_FRAME"
  by (simp_all add: captured_core_def)

lemma sample_core_config_fields [simp]:
  "cc_playerCount sample_core_config = 2" "cc_localPlayer sample_core_config = 0"
  "cc_maxRollbackFrames sample_core_config = 8" "cc_allowPrediction sample_core_config"
  "cc_inputDelay sample_core_config = 0" "cc_sessionId sample_core_config = 7"
  by (simp_all add: sample_core_config_def CoreConfig_default_def)

lemma two_seats: "p < (2 :: u8) \<longleftrightarrow> p = 0 \<or> p = 1"
  using unat_eq_unat_iff [of p 0] unat_eq_unat_iff [of p 1] by (auto simp: word_less_nat_alt)

lemma sample_start: "driver_run sample_config sample_core_config (lead_in sample_core_config) (\<lambda>_ _. FrameInput_default) ready_core"
  by (rule driver_run.start [OF ready_core_reset])

lemma sample_captured:
  "driver_run sample_config sample_core_config
     (add_sample 0 0 (FrameInput_of_bits 1) (lead_in sample_core_config)) (\<lambda>_ _. FrameInput_default) captured_core"
proof -
  have f: "LocalFrameForCapture ready_core 0 = 0"
    by (simp add: LocalFrameForCapture_def INVALID_FRAME_def)
  have "capture_allowed ready_core 0"
    by (simp add: capture_allowed_def f INPUT_HISTORY_SIZE_def)
  moreover have "ScheduleLocalInput ready_core 0 (FrameInput_of_bits 1) = (True, captured_core)"
    by (simp add: ScheduleLocalInput_alt f Let_def captured_core_def)
  ultimately show ?thesis
    using driver_run.capture [OF sample_start bits_valid] by (fastforce simp: f)
qed

lemma captured_decision:
  "PrepareFrame captured_core 0 = \<lparr>fd_canAdvance = True, fd_predictedMask = 2,
     fd_inputs = (\<lambda>p. if p = 0 then FrameInput_of_bits 1 else FrameInput_default)\<rparr>"
proof -
  have "fd_canAdvance (PrepareFrame captured_core 0)"
    by (simp add: PrepareFrame_canAdvance two_seats seat_passes_def within_window_def captured_slots)
  then show ?thesis
    by (simp add: PrepareFrame_eq seats_def upt_conv_Cons predicted_mask_def captured_slots seat_mask_def)
      (auto simp: fun_eq_iff seat_input_def captured_slots PredictInput_def two_seats)
qed

lemma predicted_fields [simp]:
  "rc_config predicted_core = sample_core_config" "rc_configured predicted_core"
  "rc_lastSimulatedFrame predicted_core = 0" "rc_rollbackFrame predicted_core = INVALID_FRAME"
  "slot_at predicted_core p f = slot_at captured_core p f"
  "FindInputSlot predicted_core p f = FindInputSlot captured_core p f"
  by (simp_all add: predicted_core_def slot_at_def FindInputSlot_def)

lemma sample_predicted:
  "driver_run sample_config sample_core_config
     (add_sample 0 0 (FrameInput_of_bits 1) (lead_in sample_core_config))
     ((\<lambda>_ _. FrameInput_default)(0 := fd_inputs (PrepareFrame captured_core 0))) predicted_core"
proof -
  have "MarkSimulated captured_core 0 (PrepareFrame captured_core 0) = (True, predicted_core)"
    by (simp add: MarkSimulated_def predicted_core_def simulated_def captured_decision)
  then have "MarkSimulated captured_core (rc_lastSimulatedFrame captured_core + 1)
      (PrepareFrame captured_core (rc_lastSimulatedFrame captured_core + 1)) = (True, predicted_core)"
    by (simp add: INVALID_FRAME_plus_1)
  from driver_run.advance [OF sample_captured _ this] show ?thesis
    by (simp add: HasRollbackRequest_def INVALID_FRAME_plus_1)
qed

lemma bits_neq_neutral: "\<not> input_eq FrameInput_default (FrameInput_of_bits 3)"
  by (simp add: input_eq_def FrameInput_of_bits_def FrameInput_default_def)

lemma late_packet_fields [simp]:
  "ip_sessionId late_packet = 7" "ip_senderPlayer late_packet = 1" "ip_playerCount late_packet = 2"
  "ip_firstInputFrame late_packet = 0" "ip_latestFrame late_packet = 0" "ip_inputCount late_packet = 1"
  "ip_inputs late_packet 0 = FrameInput_of_bits 3" "ip_ackFrame late_packet = INVALID_FRAME"
  by (simp_all add: late_packet_def InputPacket_default_def stored_inputs_def)

lemma late_packet_accepted:
  "ApplyInputPacket sample_config predicted_core late_packet = (True, RIR_RollbackRequired, mispredicted_core)"
proof -
  have slot: "FindInputSlot predicted_core 1 0 = None" by (simp add: captured_slots)
  have used: "FindUsedSlot predicted_core 0 = Some \<lparr>used_frame = 0,
      used_inputs = (\<lambda>p. if p = 0 then FrameInput_of_bits 1 else FrameInput_default), used_predictedMask = 2\<rparr>"
    by (simp add: predicted_core_def FindUsedSlot_simulated captured_decision)
  have occ: "\<not> slot_present (slot_at predicted_core 1 0)"
    by (simp add: captured_core_def FindInputSlot_submit_store slot_at_store_input InputSlot_default_def)
  have old: "\<not> FrameIsTooOld predicted_core 0" by (simp add: FrameIsTooOld_def INPUT_HISTORY_SIZE_def)
  have result: "submit_result predicted_core 1 0 (FrameInput_of_bits 3) = RIR_RollbackRequired"
    using bits_neq_neutral by (simp add: submit_result_def used seat_mask_def INVALID_FRAME_def)
  have "packet_header_ok predicted_core late_packet"
    by (simp add: packet_header_ok_def MAX_REDUNDANT_INPUTS_def frame_range_ok_def INPUT_HISTORY_SIZE_def)
  moreover have "validate_samples sample_config predicted_core late_packet [0] = None"
    using old occ bits_valid by (simp add: validate_sample_def Let_def captured_slots used seat_mask_def)
  moreover have "SubmitRemoteInput predicted_core 1 0 (FrameInput_of_bits 3) = (RIR_RollbackRequired, mispredicted_core)"
    using old by (simp add: SubmitRemoteInput_alt captured_slots result mispredicted_core_def)
  ultimately show ?thesis
    by (simp add: ApplyInputPacket_def record_ack_def)
qed

lemma sample_mispredicted:
  "driver_run sample_config sample_core_config
     (record_packet late_packet (add_sample 0 0 (FrameInput_of_bits 1) (lead_in sample_core_config)))
     ((\<lambda>_ _. FrameInput_default)(0 := fd_inputs (PrepareFrame captured_core 0))) mispredicted_core"
  by (rule driver_run.receive [OF sample_predicted late_packet_accepted])

lemma mispredicted_request: "HasRollbackRequest mispredicted_core" "rc_rollbackFrame mispredicted_core = 0"
  "rc_lastSimulatedFrame mispredicted_core = 0"
  by (simp_all add: HasRollbackRequest_def mispredicted_core_def request_rollback_def)

lemma sample_corrected:
  "driver_run sample_config sample_core_config
     (record_packet late_packet (add_sample 0 0 (FrameInput_of_bits 1) (lead_in sample_core_config)))
     ((\<lambda>_ _. FrameInput_default)(0 := fd_inputs (PrepareFrame (rewound mispredicted_core 0) 0))) corrected_core"
proof -
  let ?c = "rewound mispredicted_core 0"
  from driver_run_inv [OF sample_mispredicted] obtain hw where inv: "driver_inv sample_config sample_core_config
     (record_packet late_packet (add_sample 0 0 (FrameInput_of_bits 1) (lead_in sample_core_config)))
     ((\<lambda>_ _. FrameInput_default)(0 := fd_inputs (PrepareFrame captured_core 0))) hw mispredicted_core" by blast
  note ready = rollback_rewindable [OF inv mispredicted_request(1), unfolded mispredicted_request(2)]
  have "RewindSimulationTo mispredicted_core (rc_rollbackFrame mispredicted_core) = (True, ?c)"
    unfolding mispredicted_request(2) using ready by (simp add: Rewind_eq)
  note run = driver_run.rollback [OF sample_mispredicted mispredicted_request(1) this]
  have last: "rc_lastSimulatedFrame ?c = INVALID_FRAME" by (simp add: rewound_def)
  have "\<And>p. FindInputSlot mispredicted_core p 0 \<noteq> None \<longleftrightarrow> p = 0 \<or> p = 1"
    by (simp add: mispredicted_core_def FindInputSlot_submit_store FindInputSlot_store_input captured_slots)
  then have can: "fd_canAdvance (PrepareFrame ?c 0)"
    by (simp add: PrepareFrame_canAdvance two_seats seat_passes_def within_window_def mispredicted_core_def)
  have "MarkSimulated ?c 0 (PrepareFrame ?c 0) = (True, corrected_core)"
    using can last by (simp add: MarkSimulated_def corrected_core_def simulated_def mispredicted_core_def)
  then have "MarkSimulated ?c (rc_lastSimulatedFrame ?c + 1) (PrepareFrame ?c (rc_lastSimulatedFrame ?c + 1)) = (True, corrected_core)"
    by (simp add: last INVALID_FRAME_plus_1)
  from driver_run.advance [OF run _ this] show ?thesis
    by (simp add: HasRollbackRequest_def last INVALID_FRAME_plus_1 fun_upd_upd)
qed

lemma sample_accepted:
  "record_packet late_packet (add_sample 0 0 (FrameInput_of_bits 1) (lead_in sample_core_config)) 1 0
    = Some (FrameInput_of_bits 3)"
  by (simp add: record_packet_def add_sample_def lead_in_def)

section \<open>Properties\<close>

lemma no_request_means_consistent_parts:
  assumes "driver_run cfg config A S c" and "\<not> HasRollbackRequest c"
  shows "\<forall>f p x. f < sim_count c \<and> p < cc_playerCount config \<and> A p f = Some x \<longrightarrow> input_eq (S f p) x"
    and "\<forall>f p. f < confirmed_count c p \<longrightarrow> A p f \<noteq> None"
proof -
  from driver_run_inv [OF assms(1)] obtain hw where front: "frontier_inv config A hw c" and sim: "sim_inv config A S hw c"
    by (auto simp: driver_inv_def)
  from sim assms(2) show "\<forall>f p x. f < sim_count c \<and> p < cc_playerCount config \<and> A p f = Some x \<longrightarrow> input_eq (S f p) x"
    unfolding sim_inv_def HasRollbackRequest_def by blast
  from front show "\<forall>f p. f < confirmed_count c p \<longrightarrow> A p f \<noteq> None" unfolding frontier_inv_def by blast
qed

text \<open>
  C2: Rollback safety of the driver, that is of any sequence of reset, lead-in, local capture, packet
  ingestion, simulation and rollback; \<^verbatim>\<open>SubmitEquivalentRemoteInput\<close> and \<^verbatim>\<open>ClearRollbackRequest\<close>, by which a game
  may waive a correction it has made itself, are not part of it. Whenever no rollback is requested, every frame simulated so far, however
  old, was last simulated with the input each seat's history accepted for it: late packets never
  leave a wrong guess behind. Frames that all seats have confirmed have an accepted input for every
  seat, so their inputs are final.
\<close>

theorem no_request_means_consistent:
  assumes "driver_run cfg config A S c" and "\<not> HasRollbackRequest c"
  shows "(\<forall>f p x. f < sim_count c \<and> p < cc_playerCount config \<and> A p f = Some x \<longrightarrow> input_eq (S f p) x) \<and>
    (\<forall>f p. f < confirmed_count c p \<longrightarrow> A p f \<noteq> None)"
  by (intro conjI no_request_means_consistent_parts [OF assms(1) assms(2)])

theorem no_request_means_consistent_witness:
  "input_eq (fd_inputs (PrepareFrame (rewound mispredicted_core 0) 0) 1) (FrameInput_of_bits 3)"
proof -
  have idle: "\<not> HasRollbackRequest corrected_core" "sim_count corrected_core = 1"
    by (simp_all add: HasRollbackRequest_def corrected_core_def frames_through_def)
  from no_request_means_consistent [OF sample_corrected idle(1), THEN conjunct1, rule_format, of 0 1 "FrameInput_of_bits 3"]
  show ?thesis using idle(2) sample_accepted by simp
qed

lemma rollback_is_served_parts:
  assumes "driver_run cfg config A S c" and "HasRollbackRequest c"
  shows "unat (rc_rollbackFrame c) < sim_count c"
    and "sim_count c \<le> unat (rc_rollbackFrame c) + unat (cc_maxRollbackFrames config)"
    and "\<exists>c'. RewindSimulationTo c (rc_rollbackFrame c) = (True, c') \<and>
      sim_count c' = unat (rc_rollbackFrame c) \<and> \<not> HasRollbackRequest c' \<and>
      rc_inputs c' = rc_inputs c \<and> rc_confirmedThrough c' = rc_confirmedThrough c \<and>
      rc_peerAckOfLocal c' = rc_peerAckOfLocal c"
    and "\<exists>c'. RewindSimulationTo c (rc_rollbackFrame c) = (True, c') \<and>
      (\<forall>g. g = INVALID_FRAME \<or> FindUsedSlot c' g = (if g < rc_rollbackFrame c then FindUsedSlot c g else None))"
proof -
  from driver_run_inv [OF assms(1)] obtain hw where inv: "driver_inv cfg config A S hw c" by auto
  from assms(2) have r: "rc_rollbackFrame c \<noteq> INVALID_FRAME" by (simp add: HasRollbackRequest_def)
  with inv show "unat (rc_rollbackFrame c) < sim_count c"
    and "sim_count c \<le> unat (rc_rollbackFrame c) + unat (cc_maxRollbackFrames config)"
    by (auto simp: driver_inv_def sim_inv_def)
  have "RewindSimulationTo c (rc_rollbackFrame c) = (True, rewound c (rc_rollbackFrame c))"
    using rollback_rewindable [OF inv assms(2)] by (simp add: Rewind_eq)
  then show "\<exists>c'. RewindSimulationTo c (rc_rollbackFrame c) = (True, c') \<and>
      (\<forall>g. g = INVALID_FRAME \<or> FindUsedSlot c' g = (if g < rc_rollbackFrame c then FindUsedSlot c g else None))"
    using FindUsedSlot_rewound [of _ c "rc_rollbackFrame c"] by blast
  from rollback_rewindable [OF inv assms(2)] frames_through_rewound [OF r, of c]
  show "\<exists>c'. RewindSimulationTo c (rc_rollbackFrame c) = (True, c') \<and>
      sim_count c' = unat (rc_rollbackFrame c) \<and> \<not> HasRollbackRequest c' \<and>
      rc_inputs c' = rc_inputs c \<and> rc_confirmedThrough c' = rc_confirmedThrough c \<and>
      rc_peerAckOfLocal c' = rc_peerAckOfLocal c"
    by (simp add: Rewind_eq HasRollbackRequest_def)
qed

text \<open>
  C3: A rollback request can always be served. It names a simulated frame at most
  \<^verbatim>\<open>maxRollbackFrames\<close> back, \<^verbatim>\<open>RewindSimulationTo\<close> accepts it, and afterwards exactly the frames
  before it count as simulated, no request is pending, and the input histories, confirmations and
  acknowledgements are what they were. The decision of every earlier frame is kept, that of the frame
  and of every later one is forgotten.
\<close>

theorem rollback_is_served:
  assumes "driver_run cfg config A S c" and "HasRollbackRequest c"
  shows "(unat (rc_rollbackFrame c) < sim_count c) \<and>
    (sim_count c \<le> unat (rc_rollbackFrame c) + unat (cc_maxRollbackFrames config)) \<and>
    (\<exists>c'. RewindSimulationTo c (rc_rollbackFrame c) = (True, c') \<and>
      sim_count c' = unat (rc_rollbackFrame c) \<and> \<not> HasRollbackRequest c' \<and>
      rc_inputs c' = rc_inputs c \<and> rc_confirmedThrough c' = rc_confirmedThrough c \<and>
      rc_peerAckOfLocal c' = rc_peerAckOfLocal c) \<and>
    (\<exists>c'. RewindSimulationTo c (rc_rollbackFrame c) = (True, c') \<and>
      (\<forall>g. g = INVALID_FRAME \<or> FindUsedSlot c' g = (if g < rc_rollbackFrame c then FindUsedSlot c g else None)))"
  by (intro conjI rollback_is_served_parts [OF assms(1) assms(2)])

theorem rollback_is_served_witness:
  "\<exists>c'. RewindSimulationTo mispredicted_core 0 = (True, c') \<and> sim_count c' = 0"
  using rollback_is_served [OF sample_mispredicted mispredicted_request(1)]
  by (auto simp: mispredicted_request(2))

lemma progress_iff:
  assumes "driver_run cfg config A S c"
  shows "fd_canAdvance (PrepareFrame c (rc_lastSimulatedFrame c + 1)) \<longleftrightarrow>
    rc_lastSimulatedFrame c + 1 \<noteq> INVALID_FRAME \<and> A (cc_localPlayer config) (sim_count c) \<noteq> None \<and>
    (\<forall>p \<in> {p. p < cc_playerCount config} - {cc_localPlayer config}.
       sim_count c + 1 \<le> confirmed_count c p +
         (if cc_allowPrediction config then unat (cc_maxRollbackFrames config) else 0))"
proof (cases "rc_lastSimulatedFrame c + 1 = INVALID_FRAME")
  case True
  then show ?thesis by (simp add: PrepareFrame_canAdvance)
next
  case valid: False
  from driver_run_inv [OF assms] obtain hw where inv: "driver_inv cfg config A S hw c" by auto
  then have hist: "hist_inv cfg config A hw c" and front: "frontier_inv config A hw c" and sim: "sim_inv config A S hw c"
    and config: "rc_configured c" "rc_config c = config" "config_valid config" by (auto simp: driver_inv_def)
  let ?next = "rc_lastSimulatedFrame c + 1" and ?n = "sim_count c" and ?M = "unat (cc_maxRollbackFrames config)"
  let ?local = "cc_localPlayer config"
  note num = next_frame(1) [OF valid]
  have succ: "?next = word_of_nat ?n" by (simp add: of_nat_frames_through)
  have hw: "?n \<le> hw" "hw \<le> ?n + ?M" using sim by (simp_all add: sim_inv_def)
  have found: "FindInputSlot c p ?next \<noteq> None \<longleftrightarrow> A p ?n \<noteq> None" for p
    using hist_keptD [OF hist _ hw(2), of p] hist_slotD [OF hist, of p ?next] num
    unfolding succ by (cases "A p ?n"; cases "FindInputSlot c p (word_of_nat ?n)") auto
  have known: "A p ?n \<noteq> None" if "?n < confirmed_count c p" for p
    using front that unfolding frontier_inv_def by blast
  have local: "?n < confirmed_count c ?local" if "A ?local ?n \<noteq> None"
  proof -
    from front hw(1) have "A ?local (confirmed_count c ?local) = None" "?n \<le> confirmed_count c ?local"
      by (auto simp: frontier_inv_def)
    with that show ?thesis by (cases "?n = confirmed_count c ?local") auto
  qed
  have seat: "seat_passes c ?next p \<longleftrightarrow> (if p = ?local then A ?local ?n \<noteq> None
      else ?n + 1 \<le> confirmed_count c p + (if cc_allowPrediction config then ?M else 0))" for p
    using known [of p] local unfolding seat_passes_def within_window_def found num config
    by (cases "p = ?local"; cases "cc_allowPrediction config"; cases "?n < confirmed_count c p"; cases "A p ?n") auto
  show ?thesis
    using valid config config_validD(3) [OF config(3)] unfolding PrepareFrame_canAdvance seat by auto
qed

text \<open>
  C4: A frame can be simulated exactly when it should. In every run, \<^verbatim>\<open>PrepareFrame\<close> of the next
  frame lets the simulation advance if and only if the frame number is not the sentinel, the local
  input of the frame is there, and no remote seat is more than \<^verbatim>\<open>maxRollbackFrames\<close> behind (or, in
  lockstep, behind at all). The branch for a hole inside the confirmed history is never taken.
\<close>

theorem prepare_frame_progress:
  assumes "driver_run cfg config A S c"
  shows "fd_canAdvance (PrepareFrame c (rc_lastSimulatedFrame c + 1)) \<longleftrightarrow>
    rc_lastSimulatedFrame c + 1 \<noteq> INVALID_FRAME \<and> A (cc_localPlayer config) (sim_count c) \<noteq> None \<and>
    (\<forall>p \<in> {p. p < cc_playerCount config} - {cc_localPlayer config}.
       sim_count c + 1 \<le> confirmed_count c p +
         (if cc_allowPrediction config then unat (cc_maxRollbackFrames config) else 0))"
  by (rule progress_iff [OF assms])

theorem prepare_frame_progress_witness:
  "\<not> fd_canAdvance (PrepareFrame ready_core 0) \<and> fd_canAdvance (PrepareFrame captured_core 0)"
proof
  from prepare_frame_progress [OF sample_start] show "\<not> fd_canAdvance (PrepareFrame ready_core 0)"
    by (simp add: INVALID_FRAME_plus_1 lead_in_def)
  from prepare_frame_progress [OF sample_captured] show "fd_canAdvance (PrepareFrame captured_core 0)"
    by (auto simp: INVALID_FRAME_plus_1 two_seats add_sample_def)
qed

lemma frontier_exact:
  assumes "driver_run cfg config A S c"
  shows "f < confirmed_count c p \<longleftrightarrow> (\<forall>g \<le> f. A p g \<noteq> None)"
proof -
  from driver_run_inv [OF assms] obtain hw where front: "frontier_inv config A hw c" by (auto simp: driver_inv_def)
  then have "A p (confirmed_count c p) = None" "\<And>g. g < confirmed_count c p \<Longrightarrow> A p g \<noteq> None"
    unfolding frontier_inv_def by blast+
  then show ?thesis by (metis le_less_trans not_le)
qed

text \<open>
  C8: The confirmation frontier is exact. In every run a frame counts as confirmed for a seat if and
  only if that frame and every earlier one have an accepted sample of the seat: the loop of
  \<^verbatim>\<open>AdvanceConfirmedThrough\<close> neither stops early nor runs past a gap, although it only sees a ring.
\<close>

theorem confirmation_frontier_exact:
  assumes "driver_run cfg config A S c"
  shows "f < confirmed_count c p \<longleftrightarrow> (\<forall>g \<le> f. A p g \<noteq> None)"
  by (rule frontier_exact [OF assms])

theorem confirmation_frontier_exact_witness: "0 < confirmed_count corrected_core 1"
  using confirmation_frontier_exact [OF sample_corrected, of 0 1] sample_accepted by simp

text \<open>What one round of the seat loop of \<^verbatim>\<open>ConfirmedInputs\<close> requires.\<close>

definition seat_confirmed :: "RollbackCore \<Rightarrow> u32 \<Rightarrow> UsedSlot \<Rightarrow> u8 \<Rightarrow> bool" where
  "seat_confirmed c frame used p \<longleftrightarrow> unat frame < confirmed_count c p \<and>
     (\<exists>s. FindInputSlot c p frame = Some s \<and> input_eq (slot_input s) (used_inputs used p))"

lemma confirmed_seats_eq:
  assumes "frame \<noteq> INVALID_FRAME" "distinct ps"
  shows "confirmed_seats c frame used ps candidate =
    (if \<forall>p \<in> set ps. seat_confirmed c frame used p
     then Some (\<lambda>p. if p \<in> set ps then slot_input (the (FindInputSlot c p frame)) else candidate p) else None)"
  using assms(2)
proof (induction ps arbitrary: candidate)
  case (Cons q ps)
  have "rc_confirmedThrough c q = INVALID_FRAME \<or> rc_confirmedThrough c q < frame \<longleftrightarrow> \<not> unat frame < confirmed_count c q"
    using frames_through_gt_iff [OF assms(1), of "rc_confirmedThrough c q"] by auto
  then show ?case
    using Cons by (cases "FindInputSlot c q frame") (auto simp: seat_confirmed_def fun_eq_iff)
qed simp

lemma ConfirmedInputs_eq:
  "ConfirmedInputs c frame =
    (if rc_configured c \<and> frame \<noteq> INVALID_FRAME \<and> unat frame < sim_count c \<and>
        \<not> (rc_rollbackFrame c \<noteq> INVALID_FRAME \<and> rc_rollbackFrame c \<le> frame) \<and>
        (\<exists>used. FindUsedSlot c frame = Some used \<and>
          (\<forall>p < cc_playerCount (rc_config c). seat_confirmed c frame used p))
     then Some (\<lambda>p. if p < cc_playerCount (rc_config c) then slot_input (the (FindInputSlot c p frame))
       else FrameInput_default) else None)"
proof (cases "frame = INVALID_FRAME")
  case True
  then show ?thesis by (simp add: ConfirmedInputs_def)
next
  case False
  have "rc_lastSimulatedFrame c = INVALID_FRAME \<or> frame > rc_lastSimulatedFrame c \<longleftrightarrow> \<not> unat frame < sim_count c"
    using frames_through_gt_iff [OF False, of "rc_lastSimulatedFrame c"] by auto
  then show ?thesis
    using False by (cases "FindUsedSlot c frame") (auto simp: ConfirmedInputs_def confirmed_seats_eq [OF False])
qed

lemma used_agrees:
  assumes inv: "driver_inv cfg config A S hw c" and frame: "frame \<noteq> INVALID_FRAME" "FindUsedSlot c frame = Some used"
    and request: "\<not> HasRollbackRequest c \<or> frame < rc_rollbackFrame c"
    and p: "p < cc_playerCount config" "FindInputSlot c p frame = Some s"
  shows "input_eq (slot_input s) (used_inputs used p)"
proof -
  from inv have hist: "hist_inv cfg config A hw c" and sim: "sim_inv config A S hw c" by (auto simp: driver_inv_def)
  from sim frame have n: "unat frame < sim_count c" "used_inputs used = S (unat frame)"
    unfolding sim_inv_def by blast+
  from hist_slotD [OF hist p(2)] have "A p (unat frame) = Some (slot_input s)" .
  with n p(1) sim request have "input_eq (S (unat frame) p) (slot_input s)"
    unfolding sim_inv_def HasRollbackRequest_def by (metis not_le word_less_nat_alt)
  with n(2) show ?thesis by (simp add: input_eq_sym)
qed

lemma confirmed_inputs_exact_parts:
  assumes run: "driver_run cfg config A S c" and frame: "frame \<noteq> INVALID_FRAME"
  shows "\<forall>out p. ConfirmedInputs c frame = Some out \<and> p < cc_playerCount config \<longrightarrow>
      A p (unat frame) = Some (out p) \<and> input_eq (out p) (S (unat frame) p)"
    and "ConfirmedInputs c frame \<noteq> None \<longleftrightarrow>
      unat frame < sim_count c \<and> FindUsedSlot c frame \<noteq> None \<and>
      (\<not> HasRollbackRequest c \<or> frame < rc_rollbackFrame c) \<and>
      (\<forall>p < cc_playerCount config. unat frame < confirmed_count c p \<and> InputPresent c p frame)"
proof -
  from driver_run_inv [OF run] obtain hw where inv: "driver_inv cfg config A S hw c" by auto
  then have hist: "hist_inv cfg config A hw c" and sim: "sim_inv config A S hw c"
    and config: "rc_configured c" "rc_config c = config" by (auto simp: driver_inv_def)
  note agrees = used_agrees [OF inv frame]
  have request: "\<not> (rc_rollbackFrame c \<noteq> INVALID_FRAME \<and> rc_rollbackFrame c \<le> frame) \<longleftrightarrow>
      \<not> HasRollbackRequest c \<or> frame < rc_rollbackFrame c"
    by (auto simp: HasRollbackRequest_def)
  show "\<forall>out p. ConfirmedInputs c frame = Some out \<and> p < cc_playerCount config \<longrightarrow>
      A p (unat frame) = Some (out p) \<and> input_eq (out p) (S (unat frame) p)"
  proof (intro allI impI, elim conjE)
    fix out p assume "ConfirmedInputs c frame = Some out" and p: "p < cc_playerCount config"
    then obtain used s where used: "FindUsedSlot c frame = Some used" and s: "FindInputSlot c p frame = Some s"
      and "input_eq (slot_input s) (used_inputs used p)" "out p = slot_input s"
      by (auto simp: ConfirmedInputs_eq config seat_confirmed_def split: if_splits)
    moreover from sim frame used have "used_inputs used = S (unat frame)" unfolding sim_inv_def by blast
    ultimately show "A p (unat frame) = Some (out p) \<and> input_eq (out p) (S (unat frame) p)"
      using hist_slotD [OF hist s] by simp
  qed
  show "ConfirmedInputs c frame \<noteq> None \<longleftrightarrow>
      unat frame < sim_count c \<and> FindUsedSlot c frame \<noteq> None \<and>
      (\<not> HasRollbackRequest c \<or> frame < rc_rollbackFrame c) \<and>
      (\<forall>p < cc_playerCount config. unat frame < confirmed_count c p \<and> InputPresent c p frame)"
  proof (cases "\<not> HasRollbackRequest c \<or> frame < rc_rollbackFrame c")
    case True
    have "seat_confirmed c frame used p \<longleftrightarrow> unat frame < confirmed_count c p \<and> InputPresent c p frame"
      if "FindUsedSlot c frame = Some used" "p < cc_playerCount config" for used p
      using agrees [OF that(1) True that(2)] that(2)
      by (cases "FindInputSlot c p frame") (simp_all add: seat_confirmed_def InputPresent_def config)
    with True frame show ?thesis
      unfolding ConfirmedInputs_eq request by (cases "FindUsedSlot c frame") (auto simp: config)
  next
    case False
    then show ?thesis unfolding ConfirmedInputs_eq request by (metis (no_types, lifting))
  qed
qed

text \<open>
  C7: The confirmed stream is what was played. If \<^verbatim>\<open>ConfirmedInputs\<close> reports a frame, it reports for
  every seat the accepted sample, and the frame was simulated with these inputs. It reports a frame
  exactly if the frame is simulated and still held, no pending rollback reaches it, and every seat
  has confirmed and still holds it: its comparison with the simulated inputs never fails.
\<close>

theorem confirmed_inputs_exact:
  assumes run: "driver_run cfg config A S c" and frame: "frame \<noteq> INVALID_FRAME"
  shows "(\<forall>out p. ConfirmedInputs c frame = Some out \<and> p < cc_playerCount config \<longrightarrow>
      A p (unat frame) = Some (out p) \<and> input_eq (out p) (S (unat frame) p)) \<and>
    (ConfirmedInputs c frame \<noteq> None \<longleftrightarrow>
      unat frame < sim_count c \<and> FindUsedSlot c frame \<noteq> None \<and>
      (\<not> HasRollbackRequest c \<or> frame < rc_rollbackFrame c) \<and>
      (\<forall>p < cc_playerCount config. unat frame < confirmed_count c p \<and> InputPresent c p frame))"
  by (intro conjI confirmed_inputs_exact_parts [OF assms(1) assms(2)])

theorem confirmed_inputs_exact_witness:
  "ConfirmedInputs corrected_core 0 \<noteq> None"
proof -
  have "FindInputSlot corrected_core p 0 = FindInputSlot mispredicted_core p 0" for p
    by (simp add: corrected_core_def FindInputSlot_def slot_at_def)
  then have "\<forall>p < 2. InputPresent corrected_core p 0"
    by (simp add: two_seats InputPresent_def mispredicted_core_def FindInputSlot_submit_store
        FindInputSlot_store_input captured_slots corrected_core_def)
  moreover have "\<forall>p < 2. unat 0 < confirmed_count corrected_core p"
    using frontier_exact [OF sample_corrected, of 0] sample_accepted
    by (auto simp: two_seats record_packet_def add_sample_def)
  moreover have "FindUsedSlot corrected_core 0 \<noteq> None" by (simp add: corrected_core_def FindUsedSlot_simulated)
  moreover have "sim_count corrected_core = 1" "\<not> HasRollbackRequest corrected_core"
    by (simp_all add: HasRollbackRequest_def corrected_core_def frames_through_def)
  ultimately show ?thesis
    using confirmed_inputs_exact [OF sample_corrected, of 0] by simp
qed

lemma lockstep_is_exact_parts:
  assumes "driver_run cfg config A S c" and "\<not> cc_allowPrediction config"
  shows "\<not> HasRollbackRequest c"
    and "\<forall>f p. f < sim_count c \<and> p < cc_playerCount config \<longrightarrow> (\<exists>x. A p f = Some x \<and> input_eq (S f p) x)"
proof -
  from driver_run_inv [OF assms(1)] obtain hw where front: "frontier_inv config A hw c" and sim: "sim_inv config A S hw c"
    by (auto simp: driver_inv_def)
  from sim assms(2) show idle: "\<not> HasRollbackRequest c" by (auto simp: sim_inv_def HasRollbackRequest_def)
  show "\<forall>f p. f < sim_count c \<and> p < cc_playerCount config \<longrightarrow> (\<exists>x. A p f = Some x \<and> input_eq (S f p) x)"
  proof (intro allI impI, elim conjE)
    fix f p assume f: "f < sim_count c" and p: "p < cc_playerCount config"
    from sim assms(2) p f have "f < confirmed_count c p" unfolding sim_inv_def by (meson less_le_trans)
    with front obtain x where x: "A p f = Some x" unfolding frontier_inv_def by blast
    with sim idle f p have "input_eq (S f p) x" unfolding sim_inv_def HasRollbackRequest_def by blast
    with x show "\<exists>x. A p f = Some x \<and> input_eq (S f p) x" by blast
  qed
qed

text \<open>
  C9: Lockstep is exact. With prediction disabled no rollback is ever requested, and every frame was
  simulated with an accepted input of every seat.
\<close>

theorem lockstep_is_exact:
  assumes "driver_run cfg config A S c" and "\<not> cc_allowPrediction config"
  shows "(\<not> HasRollbackRequest c) \<and>
    (\<forall>f p. f < sim_count c \<and> p < cc_playerCount config \<longrightarrow> (\<exists>x. A p f = Some x \<and> input_eq (S f p) x))"
  by (intro conjI lockstep_is_exact_parts [OF assms(1) assms(2)])

definition lockstep_config :: CoreConfig where
  "lockstep_config = CoreConfig_default\<lparr>cc_sessionId := 7, cc_inputDelay := 2, cc_allowPrediction := False\<rparr>"

lemma lockstep_reset: "fst (Core_Reset blank_core lockstep_config)"
  by (simp add: Core_Reset_def config_valid_def lockstep_config_def CoreConfig_default_def MAX_PLAYERS_def
      INPUT_HISTORY_SIZE_def Let_def)

theorem lockstep_is_exact_witness:
  "\<not> HasRollbackRequest (snd (Core_Reset blank_core lockstep_config))"
proof (rule lockstep_is_exact [THEN conjunct1])
  show "driver_run sample_config lockstep_config (lead_in lockstep_config) (\<lambda>_ _. FrameInput_default)
      (snd (Core_Reset blank_core lockstep_config))"
    using driver_run.start [of blank_core lockstep_config "snd (Core_Reset blank_core lockstep_config)"] lockstep_reset
    by (simp add: prod_eq_iff)
qed (simp add: lockstep_config_def)

lemma prepare_frame_decision_parts:
  assumes "fd_canAdvance (PrepareFrame c frame)" and "cc_playerCount (rc_config c) \<le> MAX_PLAYERS"
    and "p < cc_playerCount (rc_config c)"
  defines "d \<equiv> PrepareFrame c frame" and "local \<equiv> cc_localPlayer (rc_config c)"
  shows "bit (fd_predictedMask d) (unat p) \<longleftrightarrow> \<not> InputPresent c p frame"
    and "fd_inputs d p = (case FindInputSlot c p frame of Some s \<Rightarrow> slot_input s | None \<Rightarrow> PredictInput c p frame)"
    and "bit (fd_predictedMask d) (unat p) \<longrightarrow>
      p \<noteq> local \<and> cc_allowPrediction (rc_config c) \<and> confirmed_count c p \<le> unat frame"
    and "p = local \<or> unat frame + 1 \<le> confirmed_count c p + unat (cc_maxRollbackFrames (rc_config c))"
proof -
  have small: "\<forall>q \<in> set (seats (cc_playerCount (rc_config c))). q < 8"
    using assms(2) by (auto simp: MAX_PLAYERS_def word_less_nat_alt word_le_nat_alt)
  from assms(1) have conf: "rc_configured c" and pass: "seat_passes c frame p"
    using assms(3) by (simp_all add: PrepareFrame_canAdvance)
  show mask: "bit (fd_predictedMask d) (unat p) \<longleftrightarrow> \<not> InputPresent c p frame"
    using bit_predicted_mask [OF small, of c frame p] assms(3) conf
    by (simp add: d_def PrepareFrame_eq [OF assms(1)] InputPresent_def)
  show "fd_inputs d p = (case FindInputSlot c p frame of Some s \<Rightarrow> slot_input s | None \<Rightarrow> PredictInput c p frame)"
    using assms(3) by (simp add: d_def PrepareFrame_eq [OF assms(1)] seat_input_def)
  show "bit (fd_predictedMask d) (unat p) \<longrightarrow>
      p \<noteq> local \<and> cc_allowPrediction (rc_config c) \<and> confirmed_count c p \<le> unat frame"
    unfolding mask using pass conf assms(3) by (auto simp: seat_passes_def InputPresent_def local_def)
  show "p = local \<or> unat frame + 1 \<le> confirmed_count c p + unat (cc_maxRollbackFrames (rc_config c))"
    using pass by (auto simp: seat_passes_def within_window_def local_def)
qed

text \<open>
  C10: The content of a decision. If \<^verbatim>\<open>PrepareFrame\<close> lets a frame advance, the predicted mask marks
  exactly the seats without a sample of the frame, never the local one, every other seat has its
  exact sample, every remote seat is inside the rollback window, and in lockstep nothing is predicted.
\<close>

theorem prepare_frame_decision:
  assumes "fd_canAdvance (PrepareFrame c frame)" and "cc_playerCount (rc_config c) \<le> MAX_PLAYERS"
    and "p < cc_playerCount (rc_config c)"
  defines "d \<equiv> PrepareFrame c frame" and "local \<equiv> cc_localPlayer (rc_config c)"
  shows "(bit (fd_predictedMask d) (unat p) \<longleftrightarrow> \<not> InputPresent c p frame) \<and>
    (fd_inputs d p = (case FindInputSlot c p frame of Some s \<Rightarrow> slot_input s | None \<Rightarrow> PredictInput c p frame)) \<and>
    (bit (fd_predictedMask d) (unat p) \<longrightarrow>
      p \<noteq> local \<and> cc_allowPrediction (rc_config c) \<and> confirmed_count c p \<le> unat frame) \<and>
    (p = local \<or> unat frame + 1 \<le> confirmed_count c p + unat (cc_maxRollbackFrames (rc_config c)))"
  unfolding d_def local_def
  by (intro conjI prepare_frame_decision_parts [OF assms(1) assms(2) assms(3)])

theorem prepare_frame_decision_witness:
  "bit (fd_predictedMask (PrepareFrame captured_core 0)) (unat (1 :: u8)) \<and>
   \<not> bit (fd_predictedMask (PrepareFrame captured_core 0)) (unat (0 :: u8))"
  using prepare_frame_decision [of captured_core 0 0] prepare_frame_decision [of captured_core 0 1]
  by (simp add: captured_decision MAX_PLAYERS_def InputPresent_def captured_slots)

section \<open>Predictions\<close>

lemma predict_loop_cases:
  "(\<exists>i s. i < length ds \<and> FindInputSlot c p (frame - word_of_nat (ds ! i)) = Some s \<and>
      (\<forall>j < i. FindInputSlot c p (frame - word_of_nat (ds ! j)) = None) \<and>
      predict_loop c p frame ds = predict_from (rc_config c) (ds ! i) (slot_input s)) \<or>
   (\<forall>d \<in> set ds. FindInputSlot c p (frame - word_of_nat d) = None) \<and> predict_loop c p frame ds = FrameInput_default"
proof (induction ds)
  case (Cons d ds)
  show ?case
  proof (cases "FindInputSlot c p (frame - word_of_nat d)")
    case (Some s)
    then show ?thesis by (intro disjI1 exI [of _ 0] exI [of _ s]) simp
  next
    case None
    from Cons.IH show ?thesis
    proof (elim disjE exE conjE)
      fix i s assume "i < length ds" "FindInputSlot c p (frame - word_of_nat (ds ! i)) = Some s"
        "\<forall>j < i. FindInputSlot c p (frame - word_of_nat (ds ! j)) = None"
        "predict_loop c p frame ds = predict_from (rc_config c) (ds ! i) (slot_input s)"
      with None show ?thesis
        by (intro disjI1 exI [of _ "Suc i"] exI [of _ s]) (auto simp: less_Suc_eq_0_disj)
    next
      assume "\<forall>d \<in> set ds. FindInputSlot c p (frame - word_of_nat d) = None" "predict_loop c p frame ds = FrameInput_default"
      with None show ?thesis by simp
    qed
  qed
qed simp

lemma predict_from_shape:
  "touchBomb (predict_from config d x) = False"
  "buttons (predict_from config d x) AND NOT (cc_predictableButtons config) = 0"
  "buttons (predict_from config d x) AND NOT (buttons x) = 0"
  "analogMode (predict_from config d x) = (if analogMode x = AM_DirectTouchBegin then AM_DirectTouchDelta else analogMode x)"
  "axis_x (predict_from config d x) = axis_x x \<or> axis_x (predict_from config d x) = 0"
  "axis_y (predict_from config d x) = axis_y x \<or> axis_y (predict_from config d x) = 0"
  by (auto simp: predict_from_def Let_def AM_DirectTouch_def AM_DirectTouchBegin_def AM_DirectTouchDelta_def
      intro!: bit_word_eqI simp: bit_simps)

lemma predict_from_valid:
  assumes "IsValidFrameInput cfg x"
  shows "IsValidFrameInput cfg (predict_from config d x)"
proof -
  have zero: "f32_isfinite 0" by (simp add: f32_isfinite_def f32_exponent_def)
  from assms have "analogMode x \<le> MaxAnalogMode cfg" "f32_isfinite (axis_x x)" "f32_isfinite (axis_y x)"
    by (simp_all add: IsValidFrameInput_def ValidInput_def)
  moreover have "AM_DirectTouchDelta \<le> AM_DirectTouchBegin"
    by (simp add: AM_DirectTouchDelta_def AM_DirectTouchBegin_def)
  ultimately show ?thesis
    using predict_from_shape(4-6) [of config d x] zero
    by (auto simp: IsValidFrameInput_def ValidInput_def intro: order_trans)
qed

lemma prediction_repeats_newest_parts:
  fixes c :: RollbackCore and p :: u8 and frame :: u32
  defines "x \<equiv> PredictInput c p frame"
  shows "(\<exists>d s. 0 < d \<and> d \<le> unat frame \<and> d \<le> 256 \<and> FindInputSlot c p (frame - word_of_nat d) = Some s \<and>
      (\<forall>e. e = 0 \<or> d \<le> e \<or> FindInputSlot c p (frame - word_of_nat e) = None) \<and>
      x = predict_from (rc_config c) d (slot_input s) \<and> buttons x AND NOT (buttons (slot_input s)) = 0) \<or>
     x = FrameInput_default"
    and "touchBomb x = False" "buttons x AND NOT (cc_predictableButtons (rc_config c)) = 0"
    and "analogMode x \<noteq> AM_DirectTouchBegin"
    and "IsValidFrameInput cfg x \<or> (\<exists>g s. FindInputSlot c p g = Some s \<and> \<not> IsValidFrameInput cfg (slot_input s))"
proof -
  let ?ds = "[1..<min (unat frame) INPUT_HISTORY_SIZE + 1]"
  have cases: "(\<exists>d s. 0 < d \<and> d \<le> unat frame \<and> d \<le> 256 \<and> FindInputSlot c p (frame - word_of_nat d) = Some s \<and>
      (\<forall>e. e = 0 \<or> d \<le> e \<or> FindInputSlot c p (frame - word_of_nat e) = None) \<and>
      x = predict_from (rc_config c) d (slot_input s)) \<or> x = FrameInput_default"
  proof (cases "frame = 0")
    case True
    then show ?thesis by (simp add: x_def PredictInput_def)
  next
    case False
    then have x: "x = predict_loop c p frame ?ds" by (simp add: x_def PredictInput_def)
    have nth: "i < length ?ds \<Longrightarrow> ?ds ! i = Suc i" for i by (simp del: upt_Suc)
    from predict_loop_cases [of ?ds c p frame] show ?thesis
    proof (elim disjE exE conjE)
      fix i s assume i: "i < length ?ds" and s: "FindInputSlot c p (frame - word_of_nat (?ds ! i)) = Some s"
        and before: "\<forall>j < i. FindInputSlot c p (frame - word_of_nat (?ds ! j)) = None"
        and eq: "predict_loop c p frame ?ds = predict_from (rc_config c) (?ds ! i) (slot_input s)"
      have "\<forall>e. e = 0 \<or> Suc i \<le> e \<or> FindInputSlot c p (frame - word_of_nat e) = None"
      proof
        fix e show "e = 0 \<or> Suc i \<le> e \<or> FindInputSlot c p (frame - word_of_nat e) = None"
          using before [rule_format, of "e - 1"] nth [of "e - 1"] i by (cases "0 < e \<and> e \<le> i") auto
      qed
      with i s eq nth [OF i] show ?thesis
        by (intro disjI1 exI [of _ "Suc i"] exI [of _ s]) (auto simp: x INPUT_HISTORY_SIZE_def simp del: upt_Suc)
    qed (simp add: x)
  qed
  from cases show "(\<exists>d s. 0 < d \<and> d \<le> unat frame \<and> d \<le> 256 \<and> FindInputSlot c p (frame - word_of_nat d) = Some s \<and>
      (\<forall>e. e = 0 \<or> d \<le> e \<or> FindInputSlot c p (frame - word_of_nat e) = None) \<and>
      x = predict_from (rc_config c) d (slot_input s) \<and> buttons x AND NOT (buttons (slot_input s)) = 0) \<or>
     x = FrameInput_default" by (metis predict_from_shape(3))
  from cases show "touchBomb x = False" "buttons x AND NOT (cc_predictableButtons (rc_config c)) = 0"
    "analogMode x \<noteq> AM_DirectTouchBegin"
    by (auto simp: predict_from_shape FrameInput_default_def AM_DirectTouchBegin_def AM_DirectTouchDelta_def AM_None_def
        split: if_splits)
  from cases show "IsValidFrameInput cfg x \<or> (\<exists>g s. FindInputSlot c p g = Some s \<and> \<not> IsValidFrameInput cfg (slot_input s))"
    using predict_from_valid valid_neutral by metis
qed

text \<open>
  Predictions repeat the newest known sample and nothing that must not be repeated. The input
  guessed for a missing frame comes from the newest sample of the last 256 frames (neutral if there
  is none); it holds only buttons that sample held and the game declared predictable, never a bomb
  touch and never the start of a gesture, and it is a valid input if the histories are.
\<close>

lemma prediction_repeats_newest:
  fixes c :: RollbackCore and p :: u8 and frame :: u32
  defines "x \<equiv> PredictInput c p frame"
  shows "((\<exists>d s. 0 < d \<and> d \<le> unat frame \<and> d \<le> 256 \<and> FindInputSlot c p (frame - word_of_nat d) = Some s \<and>
      (\<forall>e. e = 0 \<or> d \<le> e \<or> FindInputSlot c p (frame - word_of_nat e) = None) \<and>
      x = predict_from (rc_config c) d (slot_input s) \<and> buttons x AND NOT (buttons (slot_input s)) = 0) \<or>
     x = FrameInput_default) \<and>
    (touchBomb x = False) \<and>
    (buttons x AND NOT (cc_predictableButtons (rc_config c)) = 0) \<and>
    (analogMode x \<noteq> AM_DirectTouchBegin) \<and>
    (IsValidFrameInput cfg x \<or> (\<exists>g s. FindInputSlot c p g = Some s \<and> \<not> IsValidFrameInput cfg (slot_input s)))"
  unfolding x_def
  by (intro conjI prediction_repeats_newest_parts)

end
