(* ===== verification/CoreNetwork.thy ===== *)
theory CoreNetwork
  imports CoreSafety
begin

text \<open>
  Several peers over an unreliable network. Each peer is a driver of its own core; a packet a core
  builds is encoded and put on the wire, and any packet on the wire may be delivered to any peer, in
  any order, any number of times or never. The theorem is the purpose of the core: peers that have
  settled a frame simulated it with the same inputs.
\<close>

section \<open>The packets a core builds\<close>

lemma build_loop_spec:
  assumes "i < length (build_loop c latest n first)"
  shows "\<exists>s. FindInputSlot c (cc_localPlayer (rc_config c)) (first + word_of_nat i) = Some s \<and>
    build_loop c latest n first ! i = slot_input s"
  using assms
proof (induction n arbitrary: first i)
  case (Suc n)
  then obtain s where s: "FindInputSlot c (cc_localPlayer (rc_config c)) first = Some s" and le: "first \<le> latest"
    by (auto split: if_splits option.splits)
  show ?case
  proof (cases i)
    case 0
    with s le show ?thesis by simp
  next
    case (Suc j)
    with Suc.prems s le have "j < length (build_loop c latest n (first + 1))" by simp
    from Suc.IH [OF this] Suc s le show ?thesis by (simp add: add.assoc [symmetric])
  qed
qed simp

lemma length_build_loop: "length (build_loop c latest n first) \<le> n"
  by (induction n arbitrary: first) (auto split: option.split)

lemma build_loop_frames:
  assumes "FindInputSlot c (cc_localPlayer (rc_config c)) INVALID_FRAME = None"
    and "i < length (build_loop c latest n first)"
  shows "unat first + i < 4294967295"
  using assms(2)
proof (induction i)
  case 0
  from build_loop_spec [OF this] assms(1) have "first \<noteq> INVALID_FRAME" by auto
  then show ?case by (simp add: frame_neq_INVALID)
next
  case (Suc i)
  then have "unat first + i < 4294967295" by simp
  then have "unat (first + word_of_nat (Suc i)) = unat first + Suc i" by (intro unat_add_nat) simp
  moreover from build_loop_spec [OF Suc.prems] assms(1) have "first + word_of_nat (Suc i) \<noteq> INVALID_FRAME" by auto
  ultimately show ?case by (simp add: frame_neq_INVALID)
qed

definition loaded_packet :: "RollbackCore \<Rightarrow> u8 \<Rightarrow> InputPacket \<Rightarrow> bool" where
  "loaded_packet c peer packet \<longleftrightarrow>
     ip_sessionId packet = cc_sessionId (rc_config c) \<and> ip_senderPlayer packet = cc_localPlayer (rc_config c) \<and>
     ip_playerCount packet = cc_playerCount (rc_config c) \<and> ip_ackFrame packet = rc_confirmedThrough c peer \<and>
     unat (ip_inputCount packet) \<le> 32 \<and>
     (ip_inputCount packet = 0 \<longrightarrow> ip_firstInputFrame packet = INVALID_FRAME) \<and>
     (ip_inputCount packet \<noteq> 0 \<longrightarrow>
       frames_through (rc_peerAckOfLocal c peer) \<le> unat (ip_firstInputFrame packet) \<and>
       frame_range_ok (ip_firstInputFrame packet) (ip_latestFrame packet) (ip_inputCount packet)) \<and>
     (\<forall>i < unat (ip_inputCount packet). \<exists>s.
       FindInputSlot c (cc_localPlayer (rc_config c)) (packet_frame packet i) = Some s \<and>
       ip_inputs packet i = slot_input s)"

lemma BuildInputPacket_loaded:
  assumes conf: "rc_configured c" and peer: "peer < cc_playerCount (rc_config c)" "peer \<noteq> cc_localPlayer (rc_config c)"
    and sentinel: "FindInputSlot c (cc_localPlayer (rc_config c)) INVALID_FRAME = None"
  shows "loaded_packet c peer (BuildInputPacket c peer latest sequence ackSequence)"
proof -
  let ?ack = "rc_peerAckOfLocal c peer"
  define first where "first = (if ?ack = INVALID_FRAME \<and> latest + 1 > ucast MAX_REDUNDANT_INPUTS
      then latest + 1 - ucast MAX_REDUNDANT_INPUTS else if ?ack = INVALID_FRAME then 0 else ?ack + 1)"
  define L where "L = build_loop c latest (unat MAX_REDUNDANT_INPUTS) first"
  define header where "header = InputPacket_default\<lparr>ip_sessionId := cc_sessionId (rc_config c), ip_sequence := sequence,
      ip_ackSequence := ackSequence, ip_senderPlayer := cc_localPlayer (rc_config c),
      ip_playerCount := cc_playerCount (rc_config c), ip_latestFrame := latest, ip_ackFrame := rc_confirmedThrough c peer\<rparr>"
  have built: "BuildInputPacket c peer latest sequence ackSequence =
    (if first > latest then header\<lparr>ip_firstInputFrame := INVALID_FRAME, ip_inputCount := 0\<rparr>
     else let packet = header\<lparr>ip_firstInputFrame := first, ip_inputCount := word_of_nat (length L), ip_inputs := stored_inputs L\<rparr>
       in if ip_inputCount packet = 0 then packet\<lparr>ip_firstInputFrame := INVALID_FRAME\<rparr>
          else packet\<lparr>ip_latestFrame := ip_firstInputFrame packet + ucast (ip_inputCount packet) - 1\<rparr>)"
    using conf peer unfolding BuildInputPacket_def first_def L_def header_def Let_def by simp
  have len: "length L \<le> 32" using length_build_loop [of c latest 32 first] by (simp add: L_def MAX_REDUNDANT_INPUTS_def)
  then have count: "unat (word_of_nat (length L) :: u8) = length L" by (simp add: unat_of_nat)
  have "frames_through ?ack \<le> unat first"
    using frames_through_valid [of ?ack] unfolding first_def
    by (auto simp: frames_through_def INVALID_FRAME_plus_1)
  moreover have "frame_range_ok first (first + ucast (word_of_nat (length L) :: u8) - 1) (word_of_nat (length L))"
    if "length L \<noteq> 0"
  proof -
    from that build_loop_frames [OF sentinel, of "length L - 1" latest "unat MAX_REDUNDANT_INPUTS" first]
    have "unat first + (length L - 1) < 4294967295" by (simp add: L_def)
    moreover have "(first + ucast (word_of_nat (length L) :: u8) - 1 :: u32) = first + word_of_nat (length L - 1)"
    proof -
      have "(ucast (word_of_nat (length L) :: u8) :: u32) = word_of_nat (length L)"
        using count by (metis of_nat_unat)
      moreover from that have "Suc 0 \<le> length L" by (cases L) simp_all
      ultimately show ?thesis by (simp add: of_nat_diff)
    qed
    ultimately have "unat (first + ucast (word_of_nat (length L) :: u8) - 1) = unat first + (length L - 1)"
      by (simp only: unat_add_nat)
    moreover have "(0 :: u8) < word_of_nat (length L)"
      using that by (simp add: word_less_nat_alt count)
    note frame_range_ok_iff [OF this, unfolded count]
    moreover have "0 < length L" using that by simp
    ultimately show ?thesis using \<open>unat first + (length L - 1) < 4294967295\<close> by simp
  qed
  moreover have "\<exists>s. FindInputSlot c (cc_localPlayer (rc_config c)) (first + word_of_nat i) = Some s \<and>
      stored_inputs L i = slot_input s" if "i < length L" for i
    using build_loop_spec [of i c latest "unat MAX_REDUNDANT_INPUTS" first] that by (simp add: L_def stored_inputs_def)
  moreover have "(word_of_nat (length L) :: u8) = 0 \<longleftrightarrow> length L = 0"
    using count by (metis unat_0 unat_eq_unat_iff)
  ultimately show ?thesis
    using len count by (auto simp: loaded_packet_def built Let_def header_def InputPacket_default_def packet_frame_def)
qed

section \<open>The network\<close>

record peer =
  pr_samples :: samples
  pr_history :: history
  pr_core :: RollbackCore

text \<open>
  The configuration of seat \<open>p\<close> is \<open>config p\<close>; the seats share the session and its size. \<open>wire\<close> holds
  every buffer sent so far with its sender. A peer may replace its lead-in only before it sends.
  \<^verbatim>\<open>SessionChannel\<close> stamps the sender's frame and advantage on a packet after the core built it.
\<close>

definition shared_session :: "(u8 \<Rightarrow> CoreConfig) \<Rightarrow> u8 \<Rightarrow> bool" where
  "shared_session config n \<longleftrightarrow> (\<forall>p. cc_localPlayer (config p) = p \<and> cc_playerCount (config p) = n)"

inductive network_run ::
    "ProtocolConfig \<Rightarrow> (u8 \<Rightarrow> CoreConfig) \<Rightarrow> u8 \<Rightarrow> (u8 \<Rightarrow> peer) \<Rightarrow> (u8 \<times> bytes) set \<Rightarrow> bool"
  for cfg config n where
  net_start: "\<forall>p < n. \<exists>c0. Core_Reset c0 (config p) = (True, pr_core (P p)) \<Longrightarrow>
    \<forall>p < n. pr_samples (P p) = lead_in (config p) \<and> pr_history (P p) = (\<lambda>_ _. FrameInput_default) \<Longrightarrow>
    network_run cfg config n P {}"
| net_bootstrap: "network_run cfg config n P W \<Longrightarrow> p < n \<Longrightarrow> \<forall>b. (p, b) \<notin> W \<Longrightarrow> IsValidFrameInput cfg x \<Longrightarrow>
    SetLocalLeadInInput (pr_core (P p)) f x = (True, c') \<Longrightarrow>
    network_run cfg config n (P(p := (P p)\<lparr>pr_samples := add_sample p (unat f) x (pr_samples (P p)), pr_core := c'\<rparr>)) W"
| net_capture: "network_run cfg config n P W \<Longrightarrow> p < n \<Longrightarrow> IsValidFrameInput cfg x \<Longrightarrow>
    capture_allowed (pr_core (P p)) k \<Longrightarrow> ScheduleLocalInput (pr_core (P p)) k x = (True, c') \<Longrightarrow>
    network_run cfg config n (P(p := (P p)\<lparr>pr_samples :=
      add_sample p (unat (LocalFrameForCapture (pr_core (P p)) k)) x (pr_samples (P p)), pr_core := c'\<rparr>)) W"
| net_advance: "network_run cfg config n P W \<Longrightarrow> p < n \<Longrightarrow> c = pr_core (P p) \<Longrightarrow> \<not> HasRollbackRequest c \<Longrightarrow>
    MarkSimulated c (rc_lastSimulatedFrame c + 1) (PrepareFrame c (rc_lastSimulatedFrame c + 1)) = (True, c') \<Longrightarrow>
    network_run cfg config n (P(p := (P p)\<lparr>pr_history := (pr_history (P p))(sim_count c :=
      fd_inputs (PrepareFrame c (rc_lastSimulatedFrame c + 1))), pr_core := c'\<rparr>)) W"
| net_rollback: "network_run cfg config n P W \<Longrightarrow> p < n \<Longrightarrow> HasRollbackRequest (pr_core (P p)) \<Longrightarrow>
    RewindSimulationTo (pr_core (P p)) (rc_rollbackFrame (pr_core (P p))) = (True, c') \<Longrightarrow>
    network_run cfg config n (P(p := (P p)\<lparr>pr_core := c'\<rparr>)) W"
| net_send: "network_run cfg config n P W \<Longrightarrow> p < n \<Longrightarrow> q < n \<Longrightarrow> p \<noteq> q \<Longrightarrow>
    EncodeInputPacket cfg ((BuildInputPacket (pr_core (P p)) q latest sequence ackSequence)
      \<lparr>ip_senderFrame := now, ip_frameAdvantage := advantage\<rparr>) out = (True, b) \<Longrightarrow>
    network_run cfg config n P (insert (p, b) W)"
| net_deliver: "network_run cfg config n P W \<Longrightarrow> q < n \<Longrightarrow> (p, b) \<in> W \<Longrightarrow>
    DecodeInputPacket cfg b = Some packet \<Longrightarrow>
    ApplyInputPacket cfg (pr_core (P q)) packet = (True, worst, c') \<Longrightarrow>
    network_run cfg config n (P(q := (P q)\<lparr>pr_samples := record_packet packet (pr_samples (P q)), pr_core := c'\<rparr>)) W"

section \<open>What everybody knows about a seat is what the seat captured\<close>

definition peers_inv :: "ProtocolConfig \<Rightarrow> (u8 \<Rightarrow> CoreConfig) \<Rightarrow> u8 \<Rightarrow> (u8 \<Rightarrow> peer) \<Rightarrow> bool" where
  "peers_inv cfg config n P \<longleftrightarrow>
     (\<forall>p < n. driver_run cfg (config p) (pr_samples (P p)) (pr_history (P p)) (pr_core (P p)))"

text \<open>\<open>truthful A p packet\<close>: the packet of seat \<open>p\<close> repeats samples of \<open>p\<close>.\<close>

definition truthful :: "samples \<Rightarrow> u8 \<Rightarrow> InputPacket \<Rightarrow> bool" where
  "truthful A p packet \<longleftrightarrow> ip_senderPlayer packet = p \<and>
     (\<forall>i < unat (ip_inputCount packet). \<exists>x. A p (unat (ip_firstInputFrame packet) + i) = Some x \<and>
       input_eq x (ip_inputs packet i))"

definition wire_inv :: "ProtocolConfig \<Rightarrow> (u8 \<Rightarrow> peer) \<Rightarrow> (u8 \<times> bytes) set \<Rightarrow> bool" where
  "wire_inv cfg P W \<longleftrightarrow> (\<forall>(p, b) \<in> W. \<forall>packet. DecodeInputPacket cfg b = Some packet \<longrightarrow>
     truthful (pr_samples (P p)) p packet)"

definition echo_inv :: "u8 \<Rightarrow> (u8 \<Rightarrow> peer) \<Rightarrow> (u8 \<times> bytes) set \<Rightarrow> bool" where
  "echo_inv n P W \<longleftrightarrow> (\<forall>p q f x. p < n \<longrightarrow> q < n \<longrightarrow> p \<noteq> q \<longrightarrow> pr_samples (P q) p f = Some x \<longrightarrow>
     (\<exists>b. (p, b) \<in> W) \<and> (\<exists>y. pr_samples (P p) p f = Some y \<and> input_eq y x))"

text \<open>A capture replaces a sample only by an equal one.\<close>

lemma capture_repeats:
  assumes run: "driver_run cfg config A S c" and window: "capture_allowed c k"
    and sched: "ScheduleLocalInput c k x = (True, c')"
    and known: "A (cc_localPlayer config) (unat (LocalFrameForCapture c k)) = Some y"
  shows "input_eq y x"
proof -
  from driver_run_inv [OF run] obtain hw where inv: "driver_inv cfg config A S hw c" by auto
  then have hist: "hist_inv cfg config A hw c" and sim: "sim_inv config A S hw c" and config: "rc_config c = config"
    by (auto simp: driver_inv_def)
  let ?f = "LocalFrameForCapture c k"
  have "hw \<le> unat ?f + unat (cc_maxRollbackFrames config)"
    using sim window by (auto simp: sim_inv_def capture_allowed_def)
  from hist_keptD [OF hist known this] obtain s where "FindInputSlot c (cc_localPlayer config) ?f = Some s" "slot_input s = y"
    by auto
  with sched show ?thesis by (auto simp: ScheduleLocalInput_alt Let_def config split: if_splits)
qed

text \<open>Nothing of the invariant but the samples of the seats matters to the wire and the echoes; a
  peer that replaces samples of its own by equal ones, or that others have not heard of, keeps both.\<close>

definition own_update :: "u8 \<Rightarrow> (u8 \<times> bytes) set \<Rightarrow> samples \<Rightarrow> samples \<Rightarrow> bool" where
  "own_update p W A A' \<longleftrightarrow> (\<forall>q f. q \<noteq> p \<longrightarrow> A' q f = A q f) \<and>
     ((\<forall>f y. A p f = Some y \<longrightarrow> (\<exists>x. A' p f = Some x \<and> input_eq x y)) \<or> (\<forall>b. (p, b) \<notin> W))"

lemma own_update_echo:
  assumes "echo_inv n P W" "own_update p W (pr_samples (P p)) (pr_samples Q)"
  shows "echo_inv n (P(p := Q)) W"
  unfolding echo_inv_def
proof (intro allI impI)
  fix r q f x
  assume r: "r < n" "q < n" "r \<noteq> q" and x: "pr_samples ((P(p := Q)) q) r f = Some x"
  from x r(3) assms(2) have "pr_samples (P q) r f = Some x" if "r = p \<or> q \<noteq> p"
    using that by (auto split: if_splits)
  moreover from x assms(2) have "pr_samples (P q) r f = Some x" if "q = p" "r \<noteq> p"
    using that by (simp add: own_update_def)
  ultimately have "pr_samples (P q) r f = Some x" by blast
  with assms(1) r obtain b y where y: "(r, b) \<in> W" "pr_samples (P r) r f = Some y" "input_eq y x"
    unfolding echo_inv_def by blast
  show "(\<exists>b. (r, b) \<in> W) \<and> (\<exists>y. pr_samples ((P(p := Q)) r) r f = Some y \<and> input_eq y x)"
  proof (cases "r = p")
    case True
    with assms(2) y obtain z where "pr_samples Q p f = Some z" "input_eq z y" unfolding own_update_def by blast
    with True y show ?thesis by (auto intro: input_eq_trans)
  next
    case False
    with y show ?thesis by auto
  qed
qed

lemma own_update_wire:
  assumes "wire_inv cfg P W" "own_update p W (pr_samples (P p)) (pr_samples Q)"
  shows "wire_inv cfg (P(p := Q)) W"
  unfolding wire_inv_def
proof (intro ballI, clarify)
  fix r b packet assume b: "(r, b) \<in> W" "DecodeInputPacket cfg b = Some packet"
  with assms(1) have t: "truthful (pr_samples (P r)) r packet" unfolding wire_inv_def by blast
  show "truthful (pr_samples ((P(p := Q)) r)) r packet"
  proof (cases "r = p")
    case True
    with assms(2) b have "\<And>f y. pr_samples (P p) p f = Some y \<Longrightarrow> \<exists>x. pr_samples Q p f = Some x \<and> input_eq x y"
      unfolding own_update_def by blast
    with t True show ?thesis unfolding truthful_def by (metis fun_upd_same input_eq_trans)
  qed (use t in simp)
qed

section \<open>Every run keeps the agreement\<close>

lemma send_truthful:
  assumes run: "driver_run cfg config A S c" and peer: "q < cc_playerCount config" "q \<noteq> cc_localPlayer config"
    and enc: "EncodeInputPacket cfg ((BuildInputPacket c q latest sequence ackSequence)
      \<lparr>ip_senderFrame := now, ip_frameAdvantage := advantage\<rparr>) out = (True, b)"
    and dec: "DecodeInputPacket cfg b = Some packet"
  shows "truthful A (cc_localPlayer config) packet"
proof -
  from driver_run_inv [OF run] obtain hw where inv: "driver_inv cfg config A S hw c" by auto
  then have hist: "hist_inv cfg config A hw c" and config: "rc_configured c" "rc_config c = config"
    by (auto simp: driver_inv_def)
  let ?built = "(BuildInputPacket c q latest sequence ackSequence)\<lparr>ip_senderFrame := now, ip_frameAdvantage := advantage\<rparr>"
  have "loaded_packet c q (BuildInputPacket c q latest sequence ackSequence)"
    using config peer hist_sentinel [OF hist] by (intro BuildInputPacket_loaded) simp_all
  then have loaded: "loaded_packet c q ?built" by (simp add: loaded_packet_def packet_frame_def)
  from enc have ok: "input_packet_ok cfg ?built" using Encode_iff [of cfg ?built out] by simp
  have b: "b = input_packet_bytes cfg ?built" using EncodeInputPacket_ok [OF ok, of out] enc by simp
  have empty: "ip_inputCount ?built = 0 \<Longrightarrow> ip_firstInputFrame ?built = INVALID_FRAME"
    using loaded by (simp add: loaded_packet_def)
  from DecodeInputPacket_bytes [OF ok empty] dec have packet: "packet = transmitted ?built" by (simp add: b)
  have "\<exists>x. A (cc_localPlayer config) (unat (ip_firstInputFrame ?built) + i) = Some x \<and> input_eq x (ip_inputs ?built i)"
    if i: "i < unat (ip_inputCount ?built)" for i
  proof -
    from loaded i obtain s where s: "FindInputSlot c (cc_localPlayer config) (packet_frame ?built i) = Some s"
      "ip_inputs ?built i = slot_input s" unfolding loaded_packet_def config(2) by blast
    note known = hist_slotD [OF hist s(1)]
    have "ip_inputCount ?built \<noteq> 0" using i by auto
    with loaded have "frame_range_ok (ip_firstInputFrame ?built) (ip_latestFrame ?built) (ip_inputCount ?built)"
      by (simp add: loaded_packet_def)
    with i \<open>ip_inputCount ?built \<noteq> 0\<close> have "unat (packet_frame ?built i) = unat (ip_firstInputFrame ?built) + i"
      unfolding packet_frame_def by (intro unat_add_nat) (simp add: frame_range_ok_iff word_gt_0)
    with known s(2) IsValid_input_eq_refl [OF hist_sampleD(2) [OF hist known]] show ?thesis by simp
  qed
  then show ?thesis
    using loaded transmitted_input [of _ ?built]
    by (simp add: packet truthful_def loaded_packet_def config) (simp add: transmitted_def)
qed

lemma record_packet_known: "A q f = Some x \<Longrightarrow> record_packet packet A q f = Some x"
  by (simp add: record_packet_def)

lemma deliver_echo:
  assumes echo: "echo_inv n P W" and truth: "truthful (pr_samples (P p)) p packet" and wire: "(p, b) \<in> W"
    and q: "q < n" "p \<noteq> q"
  shows "echo_inv n (P(q := (P q)\<lparr>pr_samples := record_packet packet (pr_samples (P q)), pr_core := c'\<rparr>)) W"
  unfolding echo_inv_def
proof (intro allI impI)
  let ?P = "P(q := (P q)\<lparr>pr_samples := record_packet packet (pr_samples (P q)), pr_core := c'\<rparr>)"
  fix r s f x assume r: "r < n" "s < n" "r \<noteq> s" and x: "pr_samples (?P s) r f = Some x"
  have sender: "ip_senderPlayer packet = p" using truth by (simp add: truthful_def)
  have own: "pr_samples (?P t) t f = pr_samples (P t) t f" for t
    using sender q(2) by (cases "t = q") (auto simp: record_packet_def split: option.split)
  show "(\<exists>b. (r, b) \<in> W) \<and> (\<exists>y. pr_samples (?P r) r f = Some y \<and> input_eq y x)"
  proof (cases "pr_samples (P s) r f = Some x")
    case True
    with echo r own [of r] show ?thesis unfolding echo_inv_def by metis
  next
    case False
    with x have "s = q" "r = p" and f: "unat (ip_firstInputFrame packet) \<le> f"
      "f < unat (ip_firstInputFrame packet) + unat (ip_inputCount packet)"
      "x = ip_inputs packet (f - unat (ip_firstInputFrame packet))"
      using sender by (auto simp: record_packet_def split: if_splits option.splits)
    with truth have "\<exists>y. pr_samples (P p) p f = Some y \<and> input_eq y x"
      unfolding truthful_def by (metis le_add_diff_inverse less_diff_conv2 add.commute)
    with own [of r] \<open>r = p\<close> wire show ?thesis by auto
  qed
qed

lemma local_step:
  assumes inv: "peers_inv cfg config n P \<and> wire_inv cfg P W \<and> echo_inv n P W" and p: "p < n"
    and run: "driver_run cfg (config p) (pr_samples Q) (pr_history Q) (pr_core Q)"
    and own: "own_update p W (pr_samples (P p)) (pr_samples Q)"
  shows "peers_inv cfg config n (P(p := Q)) \<and> wire_inv cfg (P(p := Q)) W \<and> echo_inv n (P(p := Q)) W"
  using assms own_update_echo own_update_wire by (auto simp: peers_inv_def)

lemma own_update_refl:
  assumes "driver_run cfg config A S c"
  shows "own_update p W A A"
proof -
  from driver_run_inv [OF assms] obtain hw where "hist_inv cfg config A hw c" by (auto simp: driver_inv_def)
  then have "\<And>f y. A p f = Some y \<Longrightarrow> input_eq y y" using hist_sampleD(2) IsValid_input_eq_refl by metis
  then show ?thesis unfolding own_update_def by blast
qed

lemma own_update_add:
  assumes "driver_run cfg config A S c" "\<And>y. A p f = Some y \<Longrightarrow> input_eq x y"
  shows "own_update p W A (add_sample p f x A)"
proof -
  from own_update_refl [OF assms(1), of p "{}"] have "own_update p {(p, [])} A A"
    using own_update_refl [OF assms(1)] by blast
  then have "\<And>g y. A p g = Some y \<Longrightarrow> input_eq y y" unfolding own_update_def by auto
  with assms(2) show ?thesis by (auto simp: own_update_def add_sample_simp)
qed

lemma network_inv:
  assumes "network_run cfg config n P W" and shared: "shared_session config n"
  shows "peers_inv cfg config n P \<and> wire_inv cfg P W \<and> echo_inv n P W"
  using assms(1)
proof (induction rule: network_run.induct)
  case (net_start P)
  have "peers_inv cfg config n P"
    using net_start driver_run.start unfolding peers_inv_def by metis
  moreover have "pr_samples (P q) p f = None" if "p < n" "q < n" "p \<noteq> q" for p q f
    using net_start(2) shared that by (simp add: lead_in_def shared_session_def)
  ultimately show ?case by (simp add: wire_inv_def echo_inv_def)
next
  case (net_bootstrap P W p x f c')
  then have run: "driver_run cfg (config p) (pr_samples (P p)) (pr_history (P p)) (pr_core (P p))"
    by (simp add: peers_inv_def)
  have "cc_localPlayer (config p) = p" using shared by (simp add: shared_session_def)
  with driver_run.bootstrap [OF run net_bootstrap(4,5)] show ?case
    using net_bootstrap(3) by (intro local_step [OF net_bootstrap.IH net_bootstrap(2)])
      (auto simp: own_update_def add_sample_simp)
next
  case (net_capture P W p x k c')
  then have run: "driver_run cfg (config p) (pr_samples (P p)) (pr_history (P p)) (pr_core (P p))"
    by (simp add: peers_inv_def)
  have local: "cc_localPlayer (config p) = p" using shared by (simp add: shared_session_def)
  from capture_repeats [OF run net_capture(4,5), unfolded local]
  have "own_update p W (pr_samples (P p))
      (add_sample p (unat (LocalFrameForCapture (pr_core (P p)) k)) x (pr_samples (P p)))"
    by (intro own_update_add [OF run]) (simp add: input_eq_sym)
  with driver_run.capture [OF run net_capture(3-5)] local show ?case
    by (intro local_step [OF net_capture.IH net_capture(2)]) auto
next
  case (net_advance P W p c c')
  then have run: "driver_run cfg (config p) (pr_samples (P p)) (pr_history (P p)) c"
    by (simp add: peers_inv_def)
  with driver_run.advance [OF run net_advance(4,5)] own_update_refl [OF run] show ?case
    by (intro local_step [OF net_advance.IH net_advance(2)]) simp_all
next
  case (net_rollback P W p c')
  then have run: "driver_run cfg (config p) (pr_samples (P p)) (pr_history (P p)) (pr_core (P p))"
    by (simp add: peers_inv_def)
  with driver_run.rollback [OF run net_rollback(3,4)] own_update_refl [OF run] show ?case
    by (intro local_step [OF net_rollback.IH net_rollback(2)]) simp_all
next
  case (net_send P W p q latest sequence ackSequence now advantage out b)
  then have run: "driver_run cfg (config p) (pr_samples (P p)) (pr_history (P p)) (pr_core (P p))"
    by (simp add: peers_inv_def)
  have "cc_localPlayer (config p) = p" "cc_playerCount (config p) = n" using shared by (simp_all add: shared_session_def)
  with send_truthful [OF run _ _ net_send(5)] net_send(2-4)
  have "\<And>packet. DecodeInputPacket cfg b = Some packet \<Longrightarrow> truthful (pr_samples (P p)) p packet" by simp
  with net_send.IH have "wire_inv cfg P (insert (p, b) W)" by (auto simp: wire_inv_def)
  moreover from net_send.IH have "echo_inv n P (insert (p, b) W)" unfolding echo_inv_def by blast
  ultimately show ?case using net_send.IH by simp
next
  case (net_deliver P W q p b packet worst c')
  let ?P = "P(q := (P q)\<lparr>pr_samples := record_packet packet (pr_samples (P q)), pr_core := c'\<rparr>)"
  from net_deliver have run: "driver_run cfg (config q) (pr_samples (P q)) (pr_history (P q)) (pr_core (P q))"
    by (simp add: peers_inv_def)
  from net_deliver.IH net_deliver(3,4) have truth: "truthful (pr_samples (P p)) p packet" by (auto simp: wire_inv_def)
  have "accepted_packet cfg (pr_core (P q)) packet"
    using net_deliver(5) Apply_accepts_iff [of cfg "pr_core (P q)" packet] by simp
  then have "ip_senderPlayer packet \<noteq> cc_localPlayer (rc_config (pr_core (P q)))"
    by (simp add: accepted_packet_def packet_header_okD(3))
  moreover from driver_run_inv [OF run] have "rc_config (pr_core (P q)) = config q" by (auto simp: driver_inv_def)
  ultimately have ne: "p \<noteq> q" using truth shared by (simp add: truthful_def shared_session_def)
  have "peers_inv cfg config n ?P"
    using net_deliver.IH driver_run.receive [OF run net_deliver(5)] by (auto simp: peers_inv_def)
  moreover have "wire_inv cfg ?P W"
  proof -
    have "pr_samples (?P r) r f = pr_samples (P r) r f" for r f
      using truth ne by (cases "r = q") (auto simp: truthful_def record_packet_def split: option.split)
    with net_deliver.IH show ?thesis unfolding wire_inv_def truthful_def by simp
  qed
  ultimately show ?case
    using deliver_echo [of n P W p packet b q c', OF _ truth net_deliver(3,2) ne] net_deliver.IH by blast
qed

section \<open>Properties\<close>

text \<open>
  C1: Peers agree on every settled frame. Let two to three peers of one session exchange the packets
  their cores build over a network that may lose, repeat, delay and reorder them. Whenever two peers
  have no rollback pending, have both simulated a frame and have both confirmed the input of a seat
  for it, they simulated the frame with the same input of that seat.
\<close>

theorem peers_agree:
  assumes "network_run cfg config n P W" and "shared_session config n"
    and "p < n" "q < n" "r < n"
    and "\<not> HasRollbackRequest (pr_core (P p))" "\<not> HasRollbackRequest (pr_core (P q))"
    and "f < sim_count (pr_core (P p))" "f < sim_count (pr_core (P q))"
    and "f < confirmed_count (pr_core (P p)) r" "f < confirmed_count (pr_core (P q)) r"
  shows "input_eq (pr_history (P p) f r) (pr_history (P q) f r)"
proof -
  from network_inv [OF assms(1,2)] have peers: "peers_inv cfg config n P" and echo: "echo_inv n P W" by auto
  have settled: "\<exists>y. pr_samples (P r) r f = Some y \<and> input_eq y (pr_history (P s) f r)"
    if s: "s < n" "\<not> HasRollbackRequest (pr_core (P s))" "f < sim_count (pr_core (P s))"
      "f < confirmed_count (pr_core (P s)) r" for s
  proof -
    from peers s(1) have run: "driver_run cfg (config s) (pr_samples (P s)) (pr_history (P s)) (pr_core (P s))"
      by (simp add: peers_inv_def)
    from frontier_exact [OF run, of f r] s(4) obtain x where x: "pr_samples (P s) r f = Some x" by auto
    from driver_run_inv [OF run] obtain hw where "sim_inv (config s) (pr_samples (P s)) (pr_history (P s)) hw (pr_core (P s))"
      by (auto simp: driver_inv_def)
    moreover have "r < cc_playerCount (config s)" using assms(2,5) by (simp add: shared_session_def)
    ultimately have eq: "input_eq (pr_history (P s) f r) x"
      using x s(2,3) unfolding sim_inv_def HasRollbackRequest_def by blast
    show ?thesis
    proof (cases "s = r")
      case True
      with x eq show ?thesis by (auto simp: input_eq_sym)
    next
      case False
      with echo x s(1) assms(5) obtain y where "pr_samples (P r) r f = Some y" "input_eq y x"
        unfolding echo_inv_def by blast
      with eq show ?thesis by (metis input_eq_sym input_eq_trans)
    qed
  qed
  from settled [of p] settled [of q] assms obtain y where "input_eq y (pr_history (P p) f r)" "input_eq y (pr_history (P q) f r)"
    by auto
  then show ?thesis by (metis input_eq_sym input_eq_trans)
qed

section \<open>A sample exchange\<close>

text \<open>Seat 1 captures an input and sends it; seat 0 captures its own, receives the packet, and both
  simulate frame 0.\<close>

definition seat_config :: "u8 \<Rightarrow> CoreConfig" where
  "seat_config p = sample_core_config\<lparr>cc_localPlayer := p\<rparr>"

lemma seat_config_fields [simp]:
  "cc_playerCount (seat_config p) = 2" "cc_localPlayer (seat_config p) = p"
  "cc_maxRollbackFrames (seat_config p) = 8" "cc_allowPrediction (seat_config p)"
  "cc_inputDelay (seat_config p) = 0" "cc_sessionId (seat_config p) = 7"
  by (simp_all add: seat_config_def)

definition fresh_peer :: "u8 \<Rightarrow> peer" where
  "fresh_peer p = \<lparr>pr_samples = lead_in (seat_config p), pr_history = (\<lambda>_ _. FrameInput_default),
     pr_core = ready_core\<lparr>rc_config := seat_config p\<rparr>\<rparr>"

definition captured_peer :: "u8 \<Rightarrow> u16 \<Rightarrow> peer" where
  "captured_peer p b = \<lparr>pr_samples = add_sample p 0 (FrameInput_of_bits b) (lead_in (seat_config p)),
     pr_history = (\<lambda>_ _. FrameInput_default),
     pr_core = submit_store (ready_core\<lparr>rc_config := seat_config p\<rparr>) p 0 (FrameInput_of_bits b)\<rparr>"

lemma seat_reset: "p < 2 \<Longrightarrow> Core_Reset blank_core (seat_config p) = (True, ready_core\<lparr>rc_config := seat_config p\<rparr>)"
  by (simp add: not_le [symmetric] Let_def Core_Reset_def Core_Clear_def config_valid_def seat_config_def sample_core_config_def
      CoreConfig_default_def MAX_PLAYERS_def INPUT_HISTORY_SIZE_def seats_def ready_core_def blank_core_def Advance_eq
      advance_loop_absent FindInputSlot_def slot_at_def InputSlot_default_def INVALID_FRAME_def upt_conv_Cons fun_eq_iff)

lemma seat_start: "network_run sample_config seat_config 2 fresh_peer {}"
  by (rule network_run.net_start) (auto simp: fresh_peer_def intro!: exI [of _ blank_core] seat_reset)

lemma seat_absent [simp]: "FindInputSlot (ready_core\<lparr>rc_config := cf\<rparr>) p f = None"
  by (simp add: FindInputSlot_def slot_at_def ready_core_def blank_core_def InputSlot_default_def)

lemma seat_capture:
  assumes "network_run sample_config seat_config 2 P W" "p < 2" "P p = fresh_peer p"
  shows "network_run sample_config seat_config 2 (P(p := captured_peer p b)) W"
proof -
  let ?c = "ready_core\<lparr>rc_config := seat_config p\<rparr>"
  have f: "LocalFrameForCapture ?c 0 = 0" by (simp add: LocalFrameForCapture_def INVALID_FRAME_def)
  have "capture_allowed ?c 0" by (simp add: capture_allowed_def f INPUT_HISTORY_SIZE_def)
  moreover have "ScheduleLocalInput ?c 0 (FrameInput_of_bits b) = (True, submit_store ?c p 0 (FrameInput_of_bits b))"
    by (simp add: ScheduleLocalInput_alt f)
  ultimately show ?thesis
    using network_run.net_capture [OF assms(1,2) bits_valid, of 0 b] assms(3)
    by (simp add: fresh_peer_def captured_peer_def f)
qed

definition sent_packet :: InputPacket where
  "sent_packet = BuildInputPacket (pr_core (captured_peer 1 3)) 0 0 0 0"

lemma build_loop_numeral:
  "build_loop c latest (numeral k) frame =
     (if \<not> frame \<le> latest then []
      else case FindInputSlot c (cc_localPlayer (rc_config c)) frame of None \<Rightarrow> []
        | Some slot \<Rightarrow> slot_input slot # build_loop c latest (pred_numeral k) (frame + 1))"
  by (simp only: numeral_eq_Suc build_loop.simps)

lemma sent_inputs:
  "build_loop (submit_store (ready_core\<lparr>rc_config := seat_config 1\<rparr>) 1 0 (FrameInput_of_bits 3)) 0 32 0
    = [FrameInput_of_bits 3]"
  unfolding build_loop_numeral
  by (simp add: FindInputSlot_submit_store FindInputSlot_store_input build_loop_numeral)

lemma sent_packet_eq: "sent_packet = late_packet"
  by (simp add: sent_packet_def captured_peer_def BuildInputPacket_def late_packet_def InputPacket_default_def
      MAX_REDUNDANT_INPUTS_def Let_def sent_inputs)

lemma seat_0_config: "seat_config 0 = sample_core_config"
  by (simp add: seat_config_def sample_core_config_def CoreConfig_default_def)

lemma captured_0: "pr_core (captured_peer 0 1) = captured_core"
proof -
  have "ready_core\<lparr>rc_config := seat_config 0\<rparr> = ready_core" by (simp add: seat_0_config ready_core_def)
  then show ?thesis by (simp add: captured_peer_def captured_core_def)
qed

definition joined_core :: RollbackCore where
  "joined_core = submit_store captured_core 1 0 (FrameInput_of_bits 3)"

lemma joined_apply: "ApplyInputPacket sample_config captured_core late_packet = (True, RIR_Accepted, joined_core)"
proof -
  have occ: "\<not> slot_present (slot_at captured_core 1 0)"
    by (simp add: captured_core_def FindInputSlot_submit_store slot_at_store_input InputSlot_default_def)
  have young: "\<not> FrameIsTooOld captured_core 0" by (simp add: FrameIsTooOld_def)
  have "packet_header_ok captured_core late_packet"
    by (simp add: packet_header_ok_def MAX_REDUNDANT_INPUTS_def frame_range_ok_def INPUT_HISTORY_SIZE_def)
  moreover have "validate_samples sample_config captured_core late_packet [0] = None"
    using young occ bits_valid by (simp add: validate_sample_def Let_def captured_slots split: option.split)
  moreover have "SubmitRemoteInput captured_core 1 0 (FrameInput_of_bits 3) = (RIR_Accepted, joined_core)"
    using young by (simp add: SubmitRemoteInput_alt captured_slots submit_result_def joined_core_def split: option.split)
  ultimately show ?thesis by (simp add: ApplyInputPacket_def record_ack_def)
qed

definition joined_peer :: peer where
  "joined_peer = \<lparr>pr_samples = record_packet late_packet (pr_samples (captured_peer 0 1)),
     pr_history = (\<lambda>_ _. FrameInput_default), pr_core = joined_core\<rparr>"

definition advanced :: "peer \<Rightarrow> peer" where
  "advanced Q = Q\<lparr>pr_history := (pr_history Q)(0 := fd_inputs (PrepareFrame (pr_core Q) 0)),
     pr_core := simulated (pr_core Q) 0 (PrepareFrame (pr_core Q) 0)\<rparr>"

definition meeting :: "u8 \<Rightarrow> peer" where
  "meeting = fresh_peer(0 := advanced joined_peer, 1 := advanced (captured_peer 1 3))"

lemma first_frame:
  assumes run: "network_run sample_config seat_config 2 P W" and p: "p < 2"
    and idle: "\<not> HasRollbackRequest (pr_core (P p))" "rc_lastSimulatedFrame (pr_core (P p)) = INVALID_FRAME"
    and local: "pr_samples (P p) p 0 \<noteq> None"
  shows "network_run sample_config seat_config 2 (P(p := advanced (P p))) W"
proof -
  let ?c = "pr_core (P p)"
  from network_inv [OF run] p have dr: "driver_run sample_config (seat_config p) (pr_samples (P p)) (pr_history (P p)) ?c"
    by (simp add: shared_session_def peers_inv_def)
  from driver_run_inv [OF dr] have config: "rc_configured ?c" "rc_config ?c = seat_config p" by (auto simp: driver_inv_def)
  have "fd_canAdvance (PrepareFrame ?c 0)"
    using progress_iff [OF dr] local idle(2) by (simp add: INVALID_FRAME_plus_1)
  then have "MarkSimulated ?c 0 (PrepareFrame ?c 0) = (True, simulated ?c 0 (PrepareFrame ?c 0))"
    using config idle(2) by (simp add: MarkSimulated_def simulated_def)
  with network_run.net_advance [OF run p refl idle(1)] show ?thesis
    by (simp add: idle(2) INVALID_FRAME_plus_1 advanced_def)
qed

lemma meeting_run: "\<exists>W. network_run sample_config seat_config 2 meeting W"
proof -
  have run1: "network_run sample_config seat_config 2 (fresh_peer(0 := captured_peer 0 1, 1 := captured_peer 1 3)) {}"
    using seat_capture [OF seat_capture [OF seat_start, of 0 1], of 1 3] by simp
  have stamped: "late_packet\<lparr>ip_senderFrame := INVALID_FRAME, ip_frameAdvantage := 0\<rparr> = late_packet"
    by (simp add: late_packet_def InputPacket_default_def)
  have inputs: "input_list late_packet = [FrameInput_of_bits 3]" by (simp add: input_list_def)
  have ok: "input_packet_ok sample_config late_packet"
    using bits_valid by (simp add: input_packet_ok_def MAX_PLAYERS_def MAX_REDUNDANT_INPUTS_def frame_range_ok_def
        inputs IsValidFrameInput_def)
  let ?b = "input_packet_bytes sample_config late_packet"
  let ?P = "fresh_peer(0 := captured_peer 0 1, 1 := captured_peer 1 3)"
  have run2: "network_run sample_config seat_config 2 ?P {(1, ?b)}"
    using network_run.net_send [OF run1, where p = 1 and q = 0 and latest = 0 and sequence = 0 and ackSequence = 0 and
        now = INVALID_FRAME and advantage = 0 and out = "[]" and b = ?b] EncodeInputPacket_ok [OF ok, of "[]"]
    by (simp add: sent_packet_def [symmetric] sent_packet_eq stamped)
  have "transmitted late_packet = late_packet"
    by (simp add: transmitted_def inputs) (simp add: late_packet_def)
  with DecodeInputPacket_bytes [OF ok] have dec: "DecodeInputPacket sample_config ?b = Some late_packet" by simp
  have "joined_peer = (?P 0)\<lparr>pr_samples := record_packet late_packet (pr_samples (?P 0)), pr_core := joined_core\<rparr>"
    by (simp add: joined_peer_def captured_peer_def)
  then have run3: "network_run sample_config seat_config 2 (?P(0 := joined_peer)) {(1, ?b)}"
    using network_run.net_deliver [OF run2, of 0 1 ?b late_packet RIR_Accepted joined_core] dec joined_apply
    by (simp add: captured_0)
  have joined: "\<not> HasRollbackRequest joined_core" "rc_lastSimulatedFrame joined_core = INVALID_FRAME"
    by (simp_all add: joined_core_def HasRollbackRequest_def)
  have run4: "network_run sample_config seat_config 2 (?P(0 := advanced joined_peer)) {(1, ?b)}"
    using first_frame [OF run3, of 0] joined
    by (simp add: joined_peer_def record_packet_def captured_peer_def add_sample_def)
  have "network_run sample_config seat_config 2 (?P(0 := advanced joined_peer, 1 := advanced (captured_peer 1 3))) {(1, ?b)}"
    using first_frame [OF run4, of 1] by (simp add: captured_peer_def add_sample_def HasRollbackRequest_def)
  then show ?thesis by (auto simp: meeting_def fun_upd_twist)
qed

theorem peers_agree_witness:
  "input_eq (fd_inputs (PrepareFrame joined_core 0) 1) (fd_inputs (PrepareFrame (pr_core (captured_peer 1 3)) 0) 1)"
proof -
  obtain W where run: "network_run sample_config seat_config 2 meeting W" using meeting_run by blast
  have shared: "shared_session seat_config 2" by (simp add: shared_session_def)
  have known: "0 < confirmed_count (pr_core (meeting s)) 1" if "s = 0 \<or> s = 1" for s
  proof -
    from network_inv [OF run shared] that
    have "driver_run sample_config (seat_config s) (pr_samples (meeting s)) (pr_history (meeting s)) (pr_core (meeting s))"
      by (auto simp: peers_inv_def)
    from frontier_exact [OF this, of 0 1] that show ?thesis
      by (auto simp: meeting_def advanced_def joined_peer_def captured_peer_def record_packet_def add_sample_def lead_in_def)
  qed
  have "input_eq (pr_history (meeting 0) 0 1) (pr_history (meeting 1) 0 1)"
    by (rule peers_agree [OF run shared, where f = 0 and r = 1 and p = 0 and q = 1, OF _ _ _ _ _ _ _ known known])
      (simp_all add: meeting_def advanced_def joined_peer_def captured_peer_def joined_core_def HasRollbackRequest_def
        frames_through_def)
  then show ?thesis by (simp add: meeting_def advanced_def joined_peer_def)
qed

end
