(* ===== verification/Journal.thy ===== *)
theory Journal
  imports Prelude
begin

text \<open>
  The rollback journal: \<^verbatim>\<open>RollbackJournal.hpp\<close> and \<^verbatim>\<open>RollbackJournal.cpp\<close>, with every operation in the
  order of the source.

  Game memory is a function from addresses to bytes; an operation that reads or restores it takes it
  as an argument. \<^verbatim>\<open>std::size_t\<close> and \<^verbatim>\<open>std::uintptr_t\<close> are natural numbers: \<open>ptrMax\<close> is the largest
  address, and the guards of the code keep every sum below it. Block indices keep their 32 bits, with
  \<^verbatim>\<open>NO_BLOCK\<close> as the sentinel. The arena of a record is a function from offsets to bytes; what fresh
  heap memory holds is the field \<open>rj_garbage\<close>, arbitrary and never assigned. \<^verbatim>\<open>CopyBytes\<close> and the
  \<^verbatim>\<open>EM_JS\<close> imports are \<^verbatim>\<open>memcpy\<close> in the host's words and modelled as such; \<^verbatim>\<open>batchImports\<close> counts only
  them and stays zero. The address of a captured range never lies in an arena.

  Two parts of the source are left out: \<^verbatim>\<open>AddFloatPairToSnapshots\<close>, and the branch of \<^verbatim>\<open>Touch\<close> under
  \<^verbatim>\<open>#if defined(__wasm__)\<close>, which drains the deferred copies before a copy that would leave the linear
  memory; the memory of the model is total, so no copy traps.
\<close>

section \<open>Data\<close>

type_synonym memory = "nat \<Rightarrow> u8"

text \<open>\<open>memcpy dst to src from n\<close>: the destination after copying.\<close>

definition memcpy :: "memory \<Rightarrow> nat \<Rightarrow> memory \<Rightarrow> nat \<Rightarrow> nat \<Rightarrow> memory" where
  "memcpy dst to src from n = (\<lambda>i. if to \<le> i \<and> i < to + n then src (from + (i - to)) else dst i)"

record RollbackJournalConfig =
  jc_maxFrames :: nat
  jc_maxBytesPerFrame :: nat
  jc_maxBlocksPerFrame :: nat
  jc_fastBulkCopy :: bool
  jc_coalesceRestore :: bool

record RollbackReadOnlyCaptureStats =
  cs_scopes :: u64
  cs_deferredBlocks :: u64
  cs_deferredBytes :: u64
  cs_copiedBlocks :: u64
  cs_copiedBytes :: u64
  cs_flushes :: u64
  cs_batchImports :: u64
  cs_maxBlocksPerFlush :: u64

definition CaptureStats_default :: RollbackReadOnlyCaptureStats where
  "CaptureStats_default = \<lparr>cs_scopes = 0, cs_deferredBlocks = 0, cs_deferredBytes = 0, cs_copiedBlocks = 0,
     cs_copiedBytes = 0, cs_flushes = 0, cs_batchImports = 0, cs_maxBlocksPerFlush = 0\<rparr>"

definition NO_BLOCK :: u32 where "NO_BLOCK = 0xffffffff"

record Block =
  bl_address :: nat
  bl_offset :: nat
  bl_size :: nat
  bl_left :: u32
  bl_right :: u32
  bl_height :: int

record FrameRecord =
  fr_startFrame :: u32
  fr_endFrame :: u32
  fr_bytes :: memory
  fr_byteSize :: nat
  fr_byteCapacity :: nat
  fr_blocks :: "Block list"
  fr_root :: u32

definition FrameRecord_default :: "memory \<Rightarrow> FrameRecord" where
  "FrameRecord_default garbage = \<lparr>fr_startFrame = 0, fr_endFrame = 0, fr_bytes = garbage, fr_byteSize = 0,
     fr_byteCapacity = 0, fr_blocks = [], fr_root = NO_BLOCK\<rparr>"

record RollbackJournal =
  rj_config :: RollbackJournalConfig
  rj_frames :: "FrameRecord list"
  rj_firstFrame :: nat
  rj_frameCount :: nat
  rj_configured :: bool
  rj_frameOpen :: bool
  rj_failed :: bool
  rj_openFrame :: u32
  rj_restoreCopiedBytes :: u64
  rj_restoreSkippedBytes :: u64
  rj_arenaGrowths :: u64
  rj_readOnlyCaptureOpen :: bool
  rj_firstReadOnlyCaptureBlock :: nat
  rj_pendingBlocks :: nat
  rj_pendingBytes :: nat
  rj_stats :: RollbackReadOnlyCaptureStats
  rj_garbage :: memory

text \<open>A journal as its default member initialisers leave it, over arbitrary fresh memory.\<close>

definition Journal_new :: "memory \<Rightarrow> RollbackJournal" where
  "Journal_new garbage = \<lparr>rj_config = \<lparr>jc_maxFrames = 16, jc_maxBytesPerFrame = 8 * 1024 * 1024, jc_maxBlocksPerFrame = 4096,
       jc_fastBulkCopy = False, jc_coalesceRestore = False\<rparr>,
     rj_frames = [], rj_firstFrame = 0, rj_frameCount = 0, rj_configured = False, rj_frameOpen = False,
     rj_failed = False, rj_openFrame = 0, rj_restoreCopiedBytes = 0, rj_restoreSkippedBytes = 0, rj_arenaGrowths = 0,
     rj_readOnlyCaptureOpen = False, rj_firstReadOnlyCaptureBlock = 0, rj_pendingBlocks = 0, rj_pendingBytes = 0,
     rj_stats = CaptureStats_default, rj_garbage = garbage\<rparr>"

section \<open>The ring of records\<close>

text \<open>Slot of the \<open>i\<close>-th live record, counted from the oldest.\<close>

definition record_slot :: "RollbackJournal \<Rightarrow> nat \<Rightarrow> nat" where
  "record_slot j i = (rj_firstFrame j + i) mod length (rj_frames j)"

definition record_at :: "RollbackJournal \<Rightarrow> nat \<Rightarrow> FrameRecord" where
  "record_at j i = rj_frames j ! record_slot j i"

definition BackRecord :: "RollbackJournal \<Rightarrow> FrameRecord" where
  "BackRecord j = record_at j (rj_frameCount j - 1)"

definition set_back :: "RollbackJournal \<Rightarrow> FrameRecord \<Rightarrow> RollbackJournal" where
  "set_back j r = j\<lparr>rj_frames := (rj_frames j)[record_slot j (rj_frameCount j - 1) := r]\<rparr>"

definition CurrentRecord :: "RollbackJournal \<Rightarrow> FrameRecord option" where
  "CurrentRecord j = (if rj_frameOpen j \<and> rj_frameCount j \<noteq> 0 then Some (BackRecord j) else None)"

section \<open>Deferred copies\<close>

text \<open>The copies of the blocks from \<open>first\<close> on, the large ones only.\<close>

definition flush_blocks :: "memory \<Rightarrow> Block list \<Rightarrow> nat \<Rightarrow> memory \<Rightarrow> memory" where
  "flush_blocks mem blocks first bytes = foldl (\<lambda>bytes index.
     let block = blocks ! index in
     if bl_size block \<ge> 1024 then memcpy bytes (bl_offset block) mem (bl_address block) (bl_size block) else bytes)
     bytes [first..<length blocks]"

definition FlushReadOnlyCapture :: "memory \<Rightarrow> RollbackJournal \<Rightarrow> RollbackJournal" where
  "FlushReadOnlyCapture mem j =
     (if rj_pendingBlocks j = 0 then j
      else
        let record = BackRecord j;
            j = set_back j (record\<lparr>fr_bytes :=
              flush_blocks mem (fr_blocks record) (rj_firstReadOnlyCaptureBlock j) (fr_bytes record)\<rparr>);
            stats = rj_stats j
        in j\<lparr>rj_stats := stats\<lparr>cs_flushes := cs_flushes stats + 1,
               cs_copiedBlocks := cs_copiedBlocks stats + word_of_nat (rj_pendingBlocks j),
               cs_copiedBytes := cs_copiedBytes stats + word_of_nat (rj_pendingBytes j),
               cs_maxBlocksPerFlush := max (cs_maxBlocksPerFlush stats) (word_of_nat (rj_pendingBlocks j))\<rparr>,
             rj_firstReadOnlyCaptureBlock := length (fr_blocks record),
             rj_pendingBlocks := 0, rj_pendingBytes := 0\<rparr>)"

definition BeginReadOnlyCapture :: "RollbackJournal \<Rightarrow> bool \<times> RollbackJournal" where
  "BeginReadOnlyCapture j = (case CurrentRecord j of None \<Rightarrow> (False, j)
     | Some record \<Rightarrow>
       if rj_failed j \<or> rj_readOnlyCaptureOpen j then (False, j)
       else (True, j\<lparr>rj_readOnlyCaptureOpen := True, rj_firstReadOnlyCaptureBlock := length (fr_blocks record),
          rj_pendingBlocks := 0, rj_pendingBytes := 0,
          rj_stats := (rj_stats j)\<lparr>cs_scopes := cs_scopes (rj_stats j) + 1\<rparr>\<rparr>))"

definition EndReadOnlyCapture :: "memory \<Rightarrow> RollbackJournal \<Rightarrow> bool \<times> RollbackJournal" where
  "EndReadOnlyCapture mem j =
     (if \<not> rj_readOnlyCaptureOpen j then (False, j)
      else let j = (FlushReadOnlyCapture mem j)\<lparr>rj_readOnlyCaptureOpen := False\<rparr> in (\<not> rj_failed j, j))"

section \<open>Lifecycle\<close>

definition Journal_Clear :: "memory \<Rightarrow> RollbackJournal \<Rightarrow> RollbackJournal" where
  "Journal_Clear mem j =
     (let j = (if rj_readOnlyCaptureOpen j then snd (EndReadOnlyCapture mem j) else j)
      in j\<lparr>rj_frames := [], rj_firstFrame := 0, rj_frameCount := 0, rj_configured := False,
           rj_frameOpen := False, rj_failed := False, rj_openFrame := 0,
           rj_firstReadOnlyCaptureBlock := 0, rj_pendingBlocks := 0, rj_pendingBytes := 0\<rparr>)"

definition Journal_Reset ::
    "memory \<Rightarrow> RollbackJournal \<Rightarrow> RollbackJournalConfig \<Rightarrow> bool \<times> RollbackJournal" where
  "Journal_Reset mem j config =
     (let j = (Journal_Clear mem j)\<lparr>rj_restoreCopiedBytes := 0, rj_restoreSkippedBytes := 0,
            rj_arenaGrowths := 0, rj_stats := CaptureStats_default\<rparr> in
      if jc_maxFrames config = 0 \<or> jc_maxBytesPerFrame config = 0 \<or> jc_maxBlocksPerFrame config = 0 \<or>
         jc_maxBlocksPerFrame config \<ge> unat NO_BLOCK
      then (False, j)
      else (True, j\<lparr>rj_config := config,
        rj_frames := replicate (jc_maxFrames config) (FrameRecord_default (rj_garbage j)),
        rj_configured := True\<rparr>))"

definition BeginFrame :: "RollbackJournal \<Rightarrow> u32 \<Rightarrow> bool \<Rightarrow> bool \<times> RollbackJournal" where
  "BeginFrame j frame extendPrevious =
     (if \<not> rj_configured j \<or> rj_frameOpen j \<or> rj_failed j then (False, j)
      else if extendPrevious then
        (if rj_frameCount j = 0 \<or> fr_endFrame (BackRecord j) = 0xffffffff \<or>
            frame \<noteq> fr_endFrame (BackRecord j) + 1
         then (False, j\<lparr>rj_failed := True\<rparr>)
         else (True, (set_back j ((BackRecord j)\<lparr>fr_endFrame := frame\<rparr>))\<lparr>rj_frameOpen := True, rj_openFrame := frame\<rparr>))
      else if rj_frameCount j \<noteq> 0 \<and> frame \<le> fr_endFrame (BackRecord j)
      then (False, j\<lparr>rj_failed := True\<rparr>)
      else
        let j = (if rj_frameCount j = length (rj_frames j)
               then j\<lparr>rj_firstFrame := (rj_firstFrame j + 1) mod length (rj_frames j)\<rparr>
               else j\<lparr>rj_frameCount := rj_frameCount j + 1\<rparr>);
            j = set_back j ((BackRecord j)\<lparr>fr_startFrame := frame, fr_endFrame := frame, fr_byteSize := 0,
              fr_blocks := [], fr_root := NO_BLOCK\<rparr>)
        in (True, j\<lparr>rj_frameOpen := True, rj_openFrame := frame\<rparr>))"

definition EndFrame :: "RollbackJournal \<Rightarrow> bool \<times> RollbackJournal" where
  "EndFrame j =
     (if \<not> rj_frameOpen j \<or> rj_failed j \<or> rj_readOnlyCaptureOpen j then (False, j)
      else (True, j\<lparr>rj_frameOpen := False\<rparr>))"

section \<open>The address index\<close>

definition Height :: "Block list \<Rightarrow> u32 \<Rightarrow> int" where
  "Height blocks index = (if index = NO_BLOCK then 0 else bl_height (blocks ! unat index))"

definition UpdateHeight :: "Block list \<Rightarrow> u32 \<Rightarrow> Block list" where
  "UpdateHeight blocks index =
     (let block = blocks ! unat index in
      blocks[unat index := block\<lparr>bl_height := 1 + max (Height blocks (bl_left block)) (Height blocks (bl_right block))\<rparr>])"

definition set_left :: "Block list \<Rightarrow> u32 \<Rightarrow> u32 \<Rightarrow> Block list" where
  "set_left blocks index child = blocks[unat index := (blocks ! unat index)\<lparr>bl_left := child\<rparr>]"

definition set_right :: "Block list \<Rightarrow> u32 \<Rightarrow> u32 \<Rightarrow> Block list" where
  "set_right blocks index child = blocks[unat index := (blocks ! unat index)\<lparr>bl_right := child\<rparr>]"

definition RotateLeft :: "Block list \<Rightarrow> u32 \<Rightarrow> Block list \<times> u32" where
  "RotateLeft blocks root =
     (let pivot = bl_right (blocks ! unat root);
          blocks = set_right blocks root (bl_left (blocks ! unat pivot));
          blocks = set_left blocks pivot root;
          blocks = UpdateHeight blocks root;
          blocks = UpdateHeight blocks pivot
      in (blocks, pivot))"

definition RotateRight :: "Block list \<Rightarrow> u32 \<Rightarrow> Block list \<times> u32" where
  "RotateRight blocks root =
     (let pivot = bl_left (blocks ! unat root);
          blocks = set_left blocks root (bl_right (blocks ! unat pivot));
          blocks = set_right blocks pivot root;
          blocks = UpdateHeight blocks root;
          blocks = UpdateHeight blocks pivot
      in (blocks, pivot))"

definition RebalanceBlock :: "Block list \<Rightarrow> u32 \<Rightarrow> Block list \<times> u32" where
  "RebalanceBlock blocks root =
     (let blocks = UpdateHeight blocks root;
          block = blocks ! unat root;
          balance = Height blocks (bl_left block) - Height blocks (bl_right block)
      in if balance > 1 then
           let left = blocks ! unat (bl_left block);
               blocks = (if Height blocks (bl_left left) < Height blocks (bl_right left)
                 then let (blocks, pivot) = RotateLeft blocks (bl_left block) in set_left blocks root pivot
                 else blocks)
           in RotateRight blocks root
         else if balance < -1 then
           let right = blocks ! unat (bl_right block);
               blocks = (if Height blocks (bl_right right) < Height blocks (bl_left right)
                 then let (blocks, pivot) = RotateRight blocks (bl_right block) in set_right blocks root pivot
                 else blocks)
           in RotateLeft blocks root
         else (blocks, root))"

text \<open>
  The search of \<^verbatim>\<open>Touch\<close>: the exact range is known, the range meets another one (or the path is as long
  as the array of ancestors), or the range is free and the ancestors are the path to its place, the
  deepest first. The number counts the free entries of the array.
\<close>

datatype Search = Duplicate_range | Rejected_range | Free_range "u32 list"

fun touch_search :: "nat \<Rightarrow> Block list \<Rightarrow> nat \<Rightarrow> nat \<Rightarrow> u32 \<Rightarrow> u32 list \<Rightarrow> Search" where
  "touch_search n blocks start extent index ancestors =
     (if index = NO_BLOCK then Free_range ancestors
      else
        let block = blocks ! unat index in
        if bl_address block = start \<and> bl_size block = extent then Duplicate_range
        else (case n of 0 \<Rightarrow> Rejected_range | Suc m \<Rightarrow>
          if start < bl_address block
          then (if extent > bl_address block - start then Rejected_range
                else touch_search m blocks start extent (bl_left block) (index # ancestors))
          else (if start - bl_address block < bl_size block then Rejected_range
                else touch_search m blocks start extent (bl_right block) (index # ancestors))))"

declare touch_search.simps [simp del]

text \<open>The rebalancing loop along the ancestors: the blocks and the root of the index.\<close>

fun rebalance_path :: "Block list \<Rightarrow> u32 \<Rightarrow> u32 list \<Rightarrow> Block list \<times> u32" where
  "rebalance_path blocks apex [] = (blocks, apex)"
| "rebalance_path blocks apex (root # ancestors) =
     (let previousHeight = bl_height (blocks ! unat root);
          (blocks, balanced) = RebalanceBlock blocks root;
          (blocks, apex) = (if balanced \<noteq> root
            then (case ancestors of [] \<Rightarrow> (blocks, balanced)
              | parent # _ \<Rightarrow>
                (if bl_left (blocks ! unat parent) = root then set_left blocks parent balanced
                 else set_right blocks parent balanced, apex))
            else (blocks, apex))
      in if bl_height (blocks ! unat balanced) = previousHeight then (blocks, apex)
         else rebalance_path blocks apex ancestors)"

text \<open>The new block linked below the end of the search path, and the path rebalanced.\<close>

definition link_block :: "Block list \<Rightarrow> u32 \<Rightarrow> u32 list \<Rightarrow> Block \<Rightarrow> Block list \<times> u32" where
  "link_block blocks root ancestors block =
     (let inserted = word_of_nat (length blocks);
          blocks = blocks @ [block];
          (blocks, root) = (case ancestors of [] \<Rightarrow> (blocks, inserted)
            | parent # _ \<Rightarrow>
              (if bl_address block < bl_address (blocks ! unat parent) then set_left blocks parent inserted
               else set_right blocks parent inserted, root))
      in rebalance_path blocks root ancestors)"

section \<open>Capture\<close>

text \<open>\<^verbatim>\<open>while (capacity < required)\<close>; \<open>grow_enough\<close> in \<open>JournalCapture\<close> shows that \<open>required\<close> rounds suffice.\<close>

fun grow_capacity :: "nat \<Rightarrow> nat \<Rightarrow> nat \<Rightarrow> nat \<Rightarrow> nat" where
  "grow_capacity 0 limit required capacity = capacity"
| "grow_capacity (Suc n) limit required capacity =
     (if capacity < required
      then grow_capacity n limit required (if capacity \<le> limit div 2 then capacity * 2 else limit)
      else capacity)"

definition EnsureByteCapacity :: "memory \<Rightarrow> RollbackJournal \<Rightarrow> nat \<Rightarrow> bool \<times> RollbackJournal" where
  "EnsureByteCapacity mem j required =
     (let limit = jc_maxBytesPerFrame (rj_config j) in
      if required > limit then (False, FlushReadOnlyCapture mem (j\<lparr>rj_failed := True\<rparr>))
      else if required \<le> fr_byteCapacity (BackRecord j) then (True, j)
      else
        let j = FlushReadOnlyCapture mem j; record = BackRecord j;
            capacity = grow_capacity required limit required
              (if fr_byteCapacity record \<noteq> 0 then fr_byteCapacity record else min limit (256 * 1024));
            bytes = (if fr_byteSize record \<noteq> 0
              then memcpy (rj_garbage j) 0 (fr_bytes record) 0 (fr_byteSize record) else rj_garbage j)
        in (True, (set_back j (record\<lparr>fr_bytes := bytes, fr_byteCapacity := capacity\<rparr>))
              \<lparr>rj_arenaGrowths := rj_arenaGrowths j + 1\<rparr>))"

text \<open>A refused touch marks the journal failed and drains the pending copies.\<close>

definition reject_touch :: "memory \<Rightarrow> RollbackJournal \<Rightarrow> bool \<times> RollbackJournal" where
  "reject_touch mem j = (False, FlushReadOnlyCapture mem (j\<lparr>rj_failed := True\<rparr>))"

definition capture_block :: "memory \<Rightarrow> RollbackJournal \<Rightarrow> nat \<Rightarrow> nat \<Rightarrow> u32 list \<Rightarrow> RollbackJournal" where
  "capture_block mem j start extent ancestors =
     (let record = BackRecord j; offset = fr_byteSize record;
          defer = (rj_readOnlyCaptureOpen j \<and> extent \<ge> 1024);
          bytes = (if \<not> defer then memcpy (fr_bytes record) offset mem start extent else fr_bytes record);
          inserted = length (fr_blocks record);
          (blocks, root) = link_block (fr_blocks record) (fr_root record) ancestors
            \<lparr>bl_address = start, bl_offset = offset, bl_size = extent, bl_left = NO_BLOCK,
             bl_right = NO_BLOCK, bl_height = 1\<rparr>;
          j = set_back j (record\<lparr>fr_bytes := bytes, fr_byteSize := offset + extent, fr_blocks := blocks, fr_root := root\<rparr>)
      in if defer
         then j\<lparr>rj_firstReadOnlyCaptureBlock :=
                  (if rj_pendingBlocks j = 0 then inserted else rj_firstReadOnlyCaptureBlock j),
                rj_pendingBlocks := rj_pendingBlocks j + 1, rj_pendingBytes := rj_pendingBytes j + extent,
                rj_stats := (rj_stats j)\<lparr>cs_deferredBlocks := cs_deferredBlocks (rj_stats j) + 1,
                  cs_deferredBytes := cs_deferredBytes (rj_stats j) + word_of_nat extent\<rparr>\<rparr>
         else j)"

definition Touch :: "nat \<Rightarrow> memory \<Rightarrow> RollbackJournal \<Rightarrow> nat \<Rightarrow> nat \<Rightarrow> bool \<times> RollbackJournal" where
  "Touch ptrMax mem j address extent = (case CurrentRecord j of
       None \<Rightarrow> (False, FlushReadOnlyCapture mem j)
     | Some record \<Rightarrow>
       if rj_failed j \<or> address = 0 \<or> extent = 0 then (False, FlushReadOnlyCapture mem j)
       else if extent > ptrMax - address then reject_touch mem j
       else case touch_search 64 (fr_blocks record) address extent (fr_root record) [] of
           Duplicate_range \<Rightarrow> (True, j)
         | Rejected_range \<Rightarrow> reject_touch mem j
         | Free_range ancestors \<Rightarrow>
           if length (fr_blocks record) \<ge> jc_maxBlocksPerFrame (rj_config j) \<or>
              fr_byteSize record > jc_maxBytesPerFrame (rj_config j) \<or>
              extent > jc_maxBytesPerFrame (rj_config j) - fr_byteSize record
           then reject_touch mem j
           else
             let (ok, j) = EnsureByteCapacity mem j (fr_byteSize record + extent) in
             if \<not> ok then (False, j) else (True, capture_block mem j address extent ancestors))"

section \<open>Restore\<close>

text \<open>The index of the live record that holds \<open>frame\<close>, searched from the oldest.\<close>

definition FindFrame :: "RollbackJournal \<Rightarrow> u32 \<Rightarrow> nat option" where
  "FindFrame j frame = List.find (\<lambda>i. fr_startFrame (record_at j i) \<le> frame \<and> frame \<le> fr_endFrame (record_at j i))
     [0..<rj_frameCount j]"

text \<open>The loop of \<^verbatim>\<open>CoversBlock\<close>; a path of the index visits no block twice, so the number of blocks
  bounds its rounds.\<close>

fun covers_from :: "nat \<Rightarrow> Block list \<Rightarrow> u32 \<Rightarrow> Block \<Rightarrow> bool" where
  "covers_from 0 blocks index block = False"
| "covers_from (Suc n) blocks index block =
     (if index = NO_BLOCK then False
      else
        let candidate = blocks ! unat index in
        if bl_address block < bl_address candidate then covers_from n blocks (bl_left candidate) block
        else if bl_address block - bl_address candidate \<ge> bl_size candidate
        then covers_from n blocks (bl_right candidate) block
        else bl_size block \<le> bl_size candidate - (bl_address block - bl_address candidate))"

definition CoversBlock :: "FrameRecord \<Rightarrow> Block \<Rightarrow> bool" where
  "CoversBlock record block = covers_from (length (fr_blocks record)) (fr_blocks record) (fr_root record) block"

definition overwritten :: "RollbackJournal \<Rightarrow> nat \<Rightarrow> Block \<Rightarrow> bool" where
  "overwritten j targetIndex block \<longleftrightarrow> jc_coalesceRestore (rj_config j) \<and> bl_size block \<ge> 1024 \<and>
     list_ex (\<lambda>earlier. CoversBlock (record_at j earlier) block) [targetIndex..<rj_frameCount j - 1]"

text \<open>The blocks of the newest record, newest first: the memory and the journal's byte counts.\<close>

fun restore_blocks :: "nat \<Rightarrow> FrameRecord \<Rightarrow> Block list \<Rightarrow> memory \<times> RollbackJournal \<Rightarrow> memory \<times> RollbackJournal" where
  "restore_blocks targetIndex record [] (mem, j) = (mem, j)"
| "restore_blocks targetIndex record (block # blocks) (mem, j) =
     restore_blocks targetIndex record blocks
       (if overwritten j targetIndex block
        then (mem, j\<lparr>rj_restoreSkippedBytes := rj_restoreSkippedBytes j + word_of_nat (bl_size block)\<rparr>)
        else (memcpy mem (bl_address block) (fr_bytes record) (bl_offset block) (bl_size block),
              j\<lparr>rj_restoreCopiedBytes := rj_restoreCopiedBytes j + word_of_nat (bl_size block)\<rparr>))"

text \<open>The loop over the records; each round drops the newest one, so their number bounds the rounds.\<close>

fun undo_loop :: "nat \<Rightarrow> nat \<Rightarrow> u32 \<Rightarrow> memory \<times> RollbackJournal \<Rightarrow> memory \<times> RollbackJournal" where
  "undo_loop 0 targetIndex checkpointStart (mem, j) = (mem, j)"
| "undo_loop (Suc n) targetIndex checkpointStart (mem, j) =
     (if rj_frameCount j \<noteq> 0 \<and> fr_endFrame (BackRecord j) \<ge> checkpointStart
      then
        let (mem, j) = restore_blocks targetIndex (BackRecord j) (rev (fr_blocks (BackRecord j))) (mem, j)
        in undo_loop n targetIndex checkpointStart (mem, j\<lparr>rj_frameCount := rj_frameCount j - 1\<rparr>)
      else (mem, j))"

text \<open>The result of \<^verbatim>\<open>UndoTo\<close>: the restored frame if it succeeds, the memory and the journal.\<close>

definition UndoTo :: "memory \<Rightarrow> RollbackJournal \<Rightarrow> u32 \<Rightarrow> u32 option \<times> memory \<times> RollbackJournal" where
  "UndoTo mem j frame = (case FindFrame j frame of
       None \<Rightarrow> (None, mem, j)
     | Some targetIndex \<Rightarrow>
       if \<not> rj_configured j \<or> rj_frameOpen j \<or> rj_failed j then (None, mem, j)
       else
         let checkpointStart = fr_startFrame (record_at j targetIndex) in
         (Some checkpointStart, undo_loop (rj_frameCount j) targetIndex checkpointStart (mem, j)))"

fun discard_loop :: "nat \<Rightarrow> u32 \<Rightarrow> RollbackJournal \<Rightarrow> RollbackJournal" where
  "discard_loop 0 frame j = j"
| "discard_loop (Suc n) frame j =
     (if rj_frameCount j \<noteq> 0 \<and> fr_endFrame (rj_frames j ! rj_firstFrame j) < frame
      then discard_loop n frame (j\<lparr>rj_firstFrame := (rj_firstFrame j + 1) mod length (rj_frames j),
             rj_frameCount := rj_frameCount j - 1\<rparr>)
      else j)"

definition DiscardBefore :: "RollbackJournal \<Rightarrow> u32 \<Rightarrow> RollbackJournal" where
  "DiscardBefore j frame = (if rj_frameOpen j then j else discard_loop (rj_frameCount j) frame j)"

definition BytesForFrame :: "RollbackJournal \<Rightarrow> u32 \<Rightarrow> nat" where
  "BytesForFrame j frame = (case FindFrame j frame of Some i \<Rightarrow> fr_byteSize (record_at j i) | None \<Rightarrow> 0)"

definition BlocksForFrame :: "RollbackJournal \<Rightarrow> u32 \<Rightarrow> nat" where
  "BlocksForFrame j frame = (case FindFrame j frame of Some i \<Rightarrow> length (fr_blocks (record_at j i)) | None \<Rightarrow> 0)"

end
