(* ===== verification/JournalIndex.thy ===== *)
theory JournalIndex
  imports Journal "HOL-Library.Tree"
begin

text \<open>
  The address index of a journal record is an AVL tree threaded through the array of blocks. An
  abstract tree of block indices (\<open>index_tree\<close>) describes it; rotations, rebalancing and linking are
  refined to operations on that tree, the search of \<^verbatim>\<open>Touch\<close> is proved equivalent to a scan of all
  blocks, and the height bound shows that its array of 64 ancestors never runs out.
\<close>

section \<open>The abstract tree\<close>

abbreviation node :: "Block list \<Rightarrow> u32 \<Rightarrow> Block" where
  "node bs i \<equiv> bs ! unat i"

fun index_tree :: "Block list \<Rightarrow> u32 \<Rightarrow> u32 tree \<Rightarrow> bool" where
  "index_tree bs i \<langle>\<rangle> \<longleftrightarrow> i = NO_BLOCK"
| "index_tree bs i \<langle>l, a, r\<rangle> \<longleftrightarrow> i = a \<and> a \<noteq> NO_BLOCK \<and> unat a < length bs \<and>
     bl_height (node bs a) = int (height \<langle>l, a, r\<rangle>) \<and>
     index_tree bs (bl_left (node bs a)) l \<and> index_tree bs (bl_right (node bs a)) r"

fun avl :: "'a tree \<Rightarrow> bool" where
  "avl \<langle>\<rangle> \<longleftrightarrow> True"
| "avl \<langle>l, a, r\<rangle> \<longleftrightarrow> \<bar>int (height l) - int (height r)\<bar> \<le> 1 \<and> avl l \<and> avl r"

lemma Height_index: "index_tree bs i t \<Longrightarrow> Height bs i = int (height t)"
  by (cases t) (simp_all add: Height_def)

lemma index_tree_leaf: "index_tree bs i t \<Longrightarrow> i = NO_BLOCK \<longleftrightarrow> t = \<langle>\<rangle>"
  by (cases t) auto

lemma index_tree_bound: "index_tree bs i t \<Longrightarrow> a \<in> set_tree t \<Longrightarrow> unat a < length bs \<and> a \<noteq> NO_BLOCK"
  by (induction t arbitrary: i) auto

lemma index_tree_frame:
  assumes "index_tree bs i t" "\<And>a. a \<in> set_tree t \<Longrightarrow> node bs' a = node bs a" "length bs \<le> length bs'"
  shows "index_tree bs' i t"
  using assms(1,2)
proof (induction t arbitrary: i)
  case (Node l a r)
  with assms(3) show ?case by simp
qed simp

lemma index_tree_cases:
  assumes "index_tree bs i t" "i \<noteq> NO_BLOCK"
  obtains l r where "t = \<langle>l, i, r\<rangle>" "unat i < length bs" "index_tree bs (bl_left (node bs i)) l"
    "index_tree bs (bl_right (node bs i)) r"
  using assms by (cases t) auto

text \<open>The height of an AVL tree is below twice the logarithm of its size.\<close>

lemma avl_size1: "avl t \<Longrightarrow> 2 ^ (height t div 2) \<le> size1 t"
proof (induction t)
  case (Node l a r)
  from Node have l: "2 ^ (height l div 2) \<le> size1 l" and r: "2 ^ (height r div 2) \<le> size1 r"
    and near: "height l \<le> Suc (height r)" "height r \<le> Suc (height l)" by auto
  let ?m = "min (height l) (height r)" and ?h = "height \<langle>l, a, r\<rangle>"
  have "?h div 2 \<le> Suc (?m div 2)" using near by (auto simp: min_def max_def)
  then have "2 ^ (?h div 2) \<le> (2 :: nat) ^ Suc (?m div 2)" by (rule power_increasing) simp
  also have "\<dots> = 2 ^ (?m div 2) + 2 ^ (?m div 2)" by simp
  also have "\<dots> \<le> size1 l + size1 r"
    by (intro add_mono order_trans [OF power_increasing l] order_trans [OF power_increasing r]) (simp_all add: div_le_mono)
  finally show ?case by simp
qed simp

lemma avl_height_bound:
  assumes "avl t" "size t < 4294967295"
  shows "height t < 64"
proof (rule ccontr)
  assume "\<not> height t < 64"
  then have "32 \<le> height t div 2" by simp
  then have "(2 :: nat) ^ 32 \<le> 2 ^ (height t div 2)" by (rule power_increasing) simp
  also have "\<dots> \<le> size1 t" by (rule avl_size1 [OF assms(1)])
  also have "\<dots> < 2 ^ 32" using assms(2) by (simp add: size1_size)
  finally show False by simp
qed

section \<open>Changes of the array\<close>

text \<open>What an array of blocks stores, as opposed to how it links them.\<close>

definition same_payload :: "Block list \<Rightarrow> Block list \<Rightarrow> bool" where
  "same_payload bs bs' \<longleftrightarrow> length bs' = length bs \<and>
     (\<forall>k. bl_address (bs' ! k) = bl_address (bs ! k) \<and> bl_offset (bs' ! k) = bl_offset (bs ! k) \<and>
        bl_size (bs' ! k) = bl_size (bs ! k))"

lemma same_payload_refl [simp]: "same_payload bs bs"
  by (simp add: same_payload_def)

lemma same_payload_trans: "same_payload a b \<Longrightarrow> same_payload b c \<Longrightarrow> same_payload a c"
  by (simp add: same_payload_def)

lemma same_payload_length: "same_payload bs bs' \<Longrightarrow> length bs' = length bs"
  by (simp add: same_payload_def)

lemma update_payload:
  assumes "bl_address b = bl_address (bs ! k)" "bl_offset b = bl_offset (bs ! k)" "bl_size b = bl_size (bs ! k)"
  shows "same_payload bs (bs[k := b])"
proof -
  have "bl_address (bs[k := b] ! i) = bl_address (bs ! i) \<and> bl_offset (bs[k := b] ! i) = bl_offset (bs ! i) \<and>
      bl_size (bs[k := b] ! i) = bl_size (bs ! i)" for i
    using assms by (cases "i = k"; cases "k < length bs") (simp_all add: list_update_beyond)
  then show ?thesis by (simp add: same_payload_def)
qed

lemma set_left_payload [simp]: "same_payload bs (set_left bs i c)"
  by (simp add: set_left_def update_payload)

lemma set_right_payload [simp]: "same_payload bs (set_right bs i c)"
  by (simp add: set_right_def update_payload)

lemma UpdateHeight_payload [simp]: "same_payload bs (UpdateHeight bs i)"
  by (simp add: UpdateHeight_def Let_def update_payload)

text \<open>One entry changed; \<open>a\<close> and \<open>b\<close> valid positions.\<close>

lemma node_set:
  "unat a < length bs \<Longrightarrow> node (set_left bs a c) b = (if b = a then (node bs a)\<lparr>bl_left := c\<rparr> else node bs b)"
  "unat a < length bs \<Longrightarrow> node (set_right bs a c) b = (if b = a then (node bs a)\<lparr>bl_right := c\<rparr> else node bs b)"
  "length (set_left bs a c) = length bs" "length (set_right bs a c) = length bs"
  by (auto simp: set_left_def set_right_def nth_list_update unat_eq_unat_iff)

lemma node_UpdateHeight:
  "unat a < length bs \<Longrightarrow> node (UpdateHeight bs a) b = (if b = a
     then (node bs a)\<lparr>bl_height := 1 + max (Height bs (bl_left (node bs a))) (Height bs (bl_right (node bs a)))\<rparr>
     else node bs b)"
  "length (UpdateHeight bs a) = length bs"
  by (auto simp: UpdateHeight_def Let_def nth_list_update unat_eq_unat_iff)

lemma index_tree_left_right:
  assumes "index_tree bs i \<langle>l, a, r\<rangle>"
  shows "index_tree bs (bl_left (node bs a)) l" "index_tree bs (bl_right (node bs a)) r"
    "unat a < length bs" "a \<noteq> NO_BLOCK" "i = a"
  using assms by auto

lemma Height_node:
  assumes "index_tree bs i t" "\<And>x. x \<in> set_tree t \<Longrightarrow> node bs' x = node bs x"
  shows "Height bs' i = int (height t)"
  using assms by (cases t) (auto simp: Height_def)

lemma index_node:
  assumes "node bs a = b" "index_tree bs (bl_left b) l" "index_tree bs (bl_right b) r"
    "bl_height b = 1 + max (int (height l)) (int (height r))" "a \<noteq> NO_BLOCK" "unat a < length bs"
  shows "index_tree bs a \<langle>l, a, r\<rangle>"
  using assms by auto

section \<open>Rotations\<close>

text \<open>Two arrays that agree outside a set of positions and store the same ranges.\<close>

definition relinked :: "u32 set \<Rightarrow> Block list \<Rightarrow> Block list \<Rightarrow> bool" where
  "relinked A bs bs' \<longleftrightarrow> same_payload bs bs' \<and> (\<forall>x. x \<notin> A \<longrightarrow> node bs' x = node bs x)"

lemma relinked_refl [simp]: "relinked A bs bs"
  by (simp add: relinked_def)

lemma relinked_trans: "relinked A a b \<Longrightarrow> relinked B b c \<Longrightarrow> A \<subseteq> C \<Longrightarrow> B \<subseteq> C \<Longrightarrow> relinked C a c"
  unfolding relinked_def by (metis same_payload_trans subsetD)

lemma relinked_node: "relinked A bs bs' \<Longrightarrow> x \<notin> A \<Longrightarrow> node bs' x = node bs x"
  by (simp add: relinked_def)

lemma relinked_tree: "relinked A bs bs' \<Longrightarrow> index_tree bs i t \<Longrightarrow> set_tree t \<inter> A = {} \<Longrightarrow> index_tree bs' i t"
  by (erule index_tree_frame) (auto simp: relinked_def same_payload_length)

lemma RotateLeft_index:
  assumes a: "unat a < length bs" "a \<noteq> NO_BLOCK" and l: "index_tree bs (bl_left (node bs a)) l"
    and right: "index_tree bs (bl_right (node bs a)) \<langle>m, p, r\<rangle>" and d: "distinct (inorder \<langle>l, a, \<langle>m, p, r\<rangle>\<rangle>)"
    and R: "RotateLeft bs a = (bs', q)"
  shows "q = p \<and> index_tree bs' p \<langle>\<langle>l, a, m\<rangle>, p, r\<rangle> \<and> relinked {a, p} bs bs'"
proof -
  note p = index_tree_left_right [OF right]
  have out: "a \<noteq> p" "a \<notin> set_tree l" "a \<notin> set_tree m" "a \<notin> set_tree r"
      "p \<notin> set_tree l" "p \<notin> set_tree m" "p \<notin> set_tree r"
    using d by auto
  define bs1 where "bs1 = set_right bs a (bl_left (node bs p))"
  define bs2 where "bs2 = set_left bs1 p a"
  define bs3 where "bs3 = UpdateHeight bs2 a"
  have fin: "bs' = UpdateHeight bs3 p" "q = p"
    using R by (auto simp: RotateLeft_def Let_def bs1_def bs2_def bs3_def p(5))
  have len: "length bs1 = length bs" "length bs2 = length bs" "length bs3 = length bs"
    by (simp_all add: bs1_def bs2_def bs3_def node_set node_UpdateHeight)
  have n2: "node bs2 x = (if x = p then (node bs p)\<lparr>bl_left := a\<rparr>
      else if x = a then (node bs a)\<lparr>bl_right := bl_left (node bs p)\<rparr> else node bs x)" for x
    using a p out(1) by (simp add: bs2_def bs1_def node_set)
  have "Height bs2 (bl_left (node bs a)) = int (height l)" "Height bs2 (bl_left (node bs p)) = int (height m)"
    by (rule Height_node [OF l], use out in \<open>auto simp: n2\<close>) (rule Height_node [OF p(1)], use out in \<open>auto simp: n2\<close>)
  then have n3: "node bs3 x = (if x = a
      then (node bs a)\<lparr>bl_right := bl_left (node bs p), bl_height := 1 + max (int (height l)) (int (height m))\<rparr>
      else node bs2 x)" for x
    using a out(1) len by (simp add: bs3_def node_UpdateHeight n2)
  have "Height bs3 a = 1 + max (int (height l)) (int (height m))"
    using a(2) by (simp add: Height_def n3)
  moreover have "Height bs3 (bl_right (node bs p)) = int (height r)"
    by (rule Height_node [OF p(2)]) (use out in \<open>auto simp: n2 n3\<close>)
  ultimately have n4: "node bs' x = (if x = p then (node bs p)\<lparr>bl_left := a,
      bl_height := 1 + max (1 + max (int (height l)) (int (height m))) (int (height r))\<rparr> else node bs3 x)" for x
    using p out(1) len by (simp add: fin node_UpdateHeight n2 n3)
  have same: "node bs' x = node bs x" if "x \<noteq> a" "x \<noteq> p" for x using that by (simp add: n2 n3 n4)
  have pay: "same_payload bs bs'"
    unfolding fin bs3_def bs2_def bs1_def
    by (meson same_payload_trans set_left_payload set_right_payload UpdateHeight_payload)
  have rel: "relinked {a, p} bs bs'" using same pay by (simp add: relinked_def)
  have len': "length bs' = length bs" using pay by (rule same_payload_length)
  have "index_tree bs' a \<langle>l, a, m\<rangle>"
    by (rule index_node [OF refl]) (use a out len' relinked_tree [OF rel l] relinked_tree [OF rel p(1)] in \<open>auto simp: n4 n3\<close>)
  then have "index_tree bs' p \<langle>\<langle>l, a, m\<rangle>, p, r\<rangle>"
    by (intro index_node [OF refl]) (use p out len' relinked_tree [OF rel p(2)] in \<open>auto simp: n4\<close>)
  with rel fin(2) show ?thesis by simp
qed

lemma RotateRight_index:
  assumes a: "unat a < length bs" "a \<noteq> NO_BLOCK" and r: "index_tree bs (bl_right (node bs a)) r"
    and left: "index_tree bs (bl_left (node bs a)) \<langle>l, p, m\<rangle>" and d: "distinct (inorder \<langle>\<langle>l, p, m\<rangle>, a, r\<rangle>)"
    and R: "RotateRight bs a = (bs', q)"
  shows "q = p \<and> index_tree bs' p \<langle>l, p, \<langle>m, a, r\<rangle>\<rangle> \<and> relinked {a, p} bs bs'"
proof -
  note p = index_tree_left_right [OF left]
  have out: "a \<noteq> p" "a \<notin> set_tree l" "a \<notin> set_tree m" "a \<notin> set_tree r"
      "p \<notin> set_tree l" "p \<notin> set_tree m" "p \<notin> set_tree r"
    using d by auto
  define bs1 where "bs1 = set_left bs a (bl_right (node bs p))"
  define bs2 where "bs2 = set_right bs1 p a"
  define bs3 where "bs3 = UpdateHeight bs2 a"
  have fin: "bs' = UpdateHeight bs3 p" "q = p"
    using R by (auto simp: RotateRight_def Let_def bs1_def bs2_def bs3_def p(5))
  have len: "length bs1 = length bs" "length bs2 = length bs" "length bs3 = length bs"
    by (simp_all add: bs1_def bs2_def bs3_def node_set node_UpdateHeight)
  have n2: "node bs2 x = (if x = p then (node bs p)\<lparr>bl_right := a\<rparr>
      else if x = a then (node bs a)\<lparr>bl_left := bl_right (node bs p)\<rparr> else node bs x)" for x
    using a p out(1) by (simp add: bs2_def bs1_def node_set)
  have "Height bs2 (bl_right (node bs a)) = int (height r)" "Height bs2 (bl_right (node bs p)) = int (height m)"
    by (rule Height_node [OF r], use out in \<open>auto simp: n2\<close>) (rule Height_node [OF p(2)], use out in \<open>auto simp: n2\<close>)
  then have n3: "node bs3 x = (if x = a
      then (node bs a)\<lparr>bl_left := bl_right (node bs p), bl_height := 1 + max (int (height m)) (int (height r))\<rparr>
      else node bs2 x)" for x
    using a out(1) len by (simp add: bs3_def node_UpdateHeight n2)
  have "Height bs3 a = 1 + max (int (height m)) (int (height r))"
    using a(2) by (simp add: Height_def n3)
  moreover have "Height bs3 (bl_left (node bs p)) = int (height l)"
    by (rule Height_node [OF p(1)]) (use out in \<open>auto simp: n2 n3\<close>)
  ultimately have n4: "node bs' x = (if x = p then (node bs p)\<lparr>bl_right := a,
      bl_height := 1 + max (int (height l)) (1 + max (int (height m)) (int (height r)))\<rparr> else node bs3 x)" for x
    using p out(1) len by (simp add: fin node_UpdateHeight n2 n3)
  have same: "node bs' x = node bs x" if "x \<noteq> a" "x \<noteq> p" for x using that by (simp add: n2 n3 n4)
  have pay: "same_payload bs bs'"
    unfolding fin bs3_def bs2_def bs1_def
    by (meson same_payload_trans set_left_payload set_right_payload UpdateHeight_payload)
  have rel: "relinked {a, p} bs bs'" using same pay by (simp add: relinked_def)
  have len': "length bs' = length bs" using pay by (rule same_payload_length)
  have "index_tree bs' a \<langle>m, a, r\<rangle>"
    by (rule index_node [OF refl]) (use a out len' relinked_tree [OF rel r] relinked_tree [OF rel p(2)] in \<open>auto simp: n4 n3\<close>)
  then have "index_tree bs' p \<langle>l, p, \<langle>m, a, r\<rangle>\<rangle>"
    by (intro index_node [OF refl]) (use p out len' relinked_tree [OF rel p(1)] in \<open>auto simp: n4\<close>)
  with rel fin(2) show ?thesis by simp
qed

section \<open>Rebalancing\<close>

lemma relinked_length: "relinked A bs bs' \<Longrightarrow> length bs' = length bs"
  by (simp add: relinked_def same_payload_length)

lemma relinked_mono: "relinked A bs bs' \<Longrightarrow> A \<subseteq> B \<Longrightarrow> relinked B bs bs'"
  by (auto simp: relinked_def)

lemma relinked_set:
  "unat a < length bs \<Longrightarrow> relinked {a} bs (set_left bs a c)"
  "unat a < length bs \<Longrightarrow> relinked {a} bs (set_right bs a c)"
  "unat a < length bs \<Longrightarrow> relinked {a} bs (UpdateHeight bs a)"
  by (simp_all add: relinked_def node_set node_UpdateHeight)

lemma avl_height_cases:
  assumes "avl \<langle>l, a, r\<rangle>"
  shows "height l = Suc (height r) \<or> height l = height r \<or> Suc (height l) = height r"
  using assms by auto

text \<open>The left subtree is two levels higher.\<close>

lemma rebalance_left_heavy:
  assumes a: "unat a < length bs" "a \<noteq> NO_BLOCK" and r: "index_tree bs (bl_right (node bs a)) r"
    and l: "index_tree bs (bl_left (node bs a)) \<langle>ll, p, lr\<rangle>"
    and avl: "avl \<langle>ll, p, lr\<rangle>" "avl r" and heavy: "height \<langle>ll, p, lr\<rangle> = height r + 2"
    and d: "distinct (inorder \<langle>\<langle>ll, p, lr\<rangle>, a, r\<rangle>)"
    and R: "RotateRight (if Height bs (bl_left (node bs p)) < Height bs (bl_right (node bs p))
        then let (bs, pivot) = RotateLeft bs p in set_left bs a pivot else bs) a = (bs', b)"
  shows "\<exists>t. index_tree bs' b t \<and> avl t \<and> inorder t = inorder \<langle>\<langle>ll, p, lr\<rangle>, a, r\<rangle> \<and>
    (height t = height r + 2 \<or> height t = height r + 3) \<and> relinked (set_tree \<langle>\<langle>ll, p, lr\<rangle>, a, r\<rangle>) bs bs'"
proof -
  note p = index_tree_left_right [OF l]
  have H: "Height bs (bl_left (node bs p)) = int (height ll)" "Height bs (bl_right (node bs p)) = int (height lr)"
    by (rule Height_index [OF p(1)], rule Height_index [OF p(2)])
  show ?thesis
  proof (cases "height ll < height lr")
    case False
    have "b = p \<and> index_tree bs' p \<langle>ll, p, \<langle>lr, a, r\<rangle>\<rangle> \<and> relinked {a, p} bs bs'"
      by (rule RotateRight_index [OF a r l d]) (use R False H in simp)
    moreover have "avl \<langle>ll, p, \<langle>lr, a, r\<rangle>\<rangle>" "height \<langle>ll, p, \<langle>lr, a, r\<rangle>\<rangle> = height r + 2 \<or> height \<langle>ll, p, \<langle>lr, a, r\<rangle>\<rangle> = height r + 3"
      using avl heavy False by auto
    ultimately show ?thesis by (intro exI [of _ "\<langle>ll, p, \<langle>lr, a, r\<rangle>\<rangle>"]) (auto elim: relinked_mono)
  next
    case True
    then obtain m1 q m2 where lr: "lr = \<langle>m1, q, m2\<rangle>" by (cases lr) auto
    obtain bs2 q' where rot: "RotateLeft bs p = (bs2, q')" by (cases "RotateLeft bs p")
    from d have d1: "distinct (inorder \<langle>ll, p, \<langle>m1, q, m2\<rangle>\<rangle>)" and
      d3: "distinct (inorder \<langle>\<langle>\<langle>ll, p, m1\<rangle>, q, m2\<rangle>, a, r\<rangle>)"
      by (auto simp: lr)
    have rl: "q' = q \<and> index_tree bs2 q \<langle>\<langle>ll, p, m1\<rangle>, q, m2\<rangle> \<and> relinked {p, q} bs bs2"
      by (rule RotateLeft_index [OF p(3,4) p(1) _ d1 rot]) (use p(2) lr in simp)
    define bs3 where "bs3 = set_left bs2 a q"
    have len2: "unat a < length bs2" using a rl relinked_length by metis
    have rel3: "relinked {a} bs2 bs3" unfolding bs3_def by (rule relinked_set(1) [OF len2])
    have t3: "index_tree bs3 q \<langle>\<langle>ll, p, m1\<rangle>, q, m2\<rangle>"
      by (rule relinked_tree [OF rel3]) (use rl d lr in auto)
    have rel: "relinked {a, p, q} bs bs3"
      by (rule relinked_trans [OF _ rel3]) (use rl in auto)
    have r3: "index_tree bs3 (bl_right (node bs3 a)) r"
    proof -
      have "node bs2 a = node bs a" using rl d lr by (auto intro: relinked_node)
      then have "bl_right (node bs3 a) = bl_right (node bs a)" using len2 by (simp add: bs3_def node_set)
      then show ?thesis using relinked_tree [OF rel r] d lr by auto
    qed
    have left3: "bl_left (node bs3 a) = q" using len2 by (simp add: bs3_def node_set)
    have "b = q \<and> index_tree bs' q \<langle>\<langle>ll, p, m1\<rangle>, q, \<langle>m2, a, r\<rangle>\<rangle> \<and> relinked {a, q} bs3 bs'"
      by (rule RotateRight_index [OF _ a(2) r3 _ d3])
        (use t3 left3 len2 rel3 relinked_length R H True rot rl bs3_def in auto)
    moreover have "avl \<langle>\<langle>ll, p, m1\<rangle>, q, \<langle>m2, a, r\<rangle>\<rangle>" "height \<langle>\<langle>ll, p, m1\<rangle>, q, \<langle>m2, a, r\<rangle>\<rangle> = height r + 2"
      using avl heavy True lr by auto
    moreover have "relinked (set_tree \<langle>\<langle>ll, p, lr\<rangle>, a, r\<rangle>) bs bs'" if "relinked {a, q} bs3 bs'"
      by (rule relinked_trans [OF rel that]) (auto simp: lr)
    moreover have "inorder \<langle>\<langle>ll, p, m1\<rangle>, q, \<langle>m2, a, r\<rangle>\<rangle> = inorder \<langle>\<langle>ll, p, lr\<rangle>, a, r\<rangle>" by (simp add: lr)
    ultimately show ?thesis by blast
  qed
qed

lemma rebalance_right_heavy:
  assumes a: "unat a < length bs" "a \<noteq> NO_BLOCK" and l: "index_tree bs (bl_left (node bs a)) l"
    and r: "index_tree bs (bl_right (node bs a)) \<langle>rl, p, rr\<rangle>"
    and avl: "avl \<langle>rl, p, rr\<rangle>" "avl l" and heavy: "height \<langle>rl, p, rr\<rangle> = height l + 2"
    and d: "distinct (inorder \<langle>l, a, \<langle>rl, p, rr\<rangle>\<rangle>)"
    and R: "RotateLeft (if Height bs (bl_right (node bs p)) < Height bs (bl_left (node bs p))
        then let (bs, pivot) = RotateRight bs p in set_right bs a pivot else bs) a = (bs', b)"
  shows "\<exists>t. index_tree bs' b t \<and> avl t \<and> inorder t = inorder \<langle>l, a, \<langle>rl, p, rr\<rangle>\<rangle> \<and>
    (height t = height l + 2 \<or> height t = height l + 3) \<and> relinked (set_tree \<langle>l, a, \<langle>rl, p, rr\<rangle>\<rangle>) bs bs'"
proof -
  note p = index_tree_left_right [OF r]
  have H: "Height bs (bl_left (node bs p)) = int (height rl)" "Height bs (bl_right (node bs p)) = int (height rr)"
    by (rule Height_index [OF p(1)], rule Height_index [OF p(2)])
  show ?thesis
  proof (cases "height rr < height rl")
    case False
    have "b = p \<and> index_tree bs' p \<langle>\<langle>l, a, rl\<rangle>, p, rr\<rangle> \<and> relinked {a, p} bs bs'"
      by (rule RotateLeft_index [OF a l r d]) (use R False H in simp)
    moreover have "avl \<langle>\<langle>l, a, rl\<rangle>, p, rr\<rangle>" "height \<langle>\<langle>l, a, rl\<rangle>, p, rr\<rangle> = height l + 2 \<or> height \<langle>\<langle>l, a, rl\<rangle>, p, rr\<rangle> = height l + 3"
      using avl heavy False by auto
    ultimately show ?thesis by (intro exI [of _ "\<langle>\<langle>l, a, rl\<rangle>, p, rr\<rangle>"]) (auto elim: relinked_mono)
  next
    case True
    then obtain m1 q m2 where rl: "rl = \<langle>m1, q, m2\<rangle>" by (cases rl) auto
    obtain bs2 q' where rot: "RotateRight bs p = (bs2, q')" by (cases "RotateRight bs p")
    from d have d1: "distinct (inorder \<langle>\<langle>m1, q, m2\<rangle>, p, rr\<rangle>)" and
      d3: "distinct (inorder \<langle>l, a, \<langle>m1, q, \<langle>m2, p, rr\<rangle>\<rangle>\<rangle>)"
      by (auto simp: rl)
    have rot1: "q' = q \<and> index_tree bs2 q \<langle>m1, q, \<langle>m2, p, rr\<rangle>\<rangle> \<and> relinked {p, q} bs bs2"
      by (rule RotateRight_index [OF p(3,4) p(2) _ d1 rot]) (use p(1) rl in simp)
    define bs3 where "bs3 = set_right bs2 a q"
    have len2: "unat a < length bs2" using a rot1 relinked_length by metis
    have rel3: "relinked {a} bs2 bs3" unfolding bs3_def by (rule relinked_set(2) [OF len2])
    have t3: "index_tree bs3 q \<langle>m1, q, \<langle>m2, p, rr\<rangle>\<rangle>"
      by (rule relinked_tree [OF rel3]) (use rot1 d rl in auto)
    have rel: "relinked {a, p, q} bs bs3"
      by (rule relinked_trans [OF _ rel3]) (use rot1 in auto)
    have l3: "index_tree bs3 (bl_left (node bs3 a)) l"
    proof -
      have "node bs2 a = node bs a" using rot1 d rl by (auto intro: relinked_node)
      then have "bl_left (node bs3 a) = bl_left (node bs a)" using len2 by (simp add: bs3_def node_set)
      then show ?thesis using relinked_tree [OF rel l] d rl by auto
    qed
    have right3: "bl_right (node bs3 a) = q" using len2 by (simp add: bs3_def node_set)
    have "b = q \<and> index_tree bs' q \<langle>\<langle>l, a, m1\<rangle>, q, \<langle>m2, p, rr\<rangle>\<rangle> \<and> relinked {a, q} bs3 bs'"
      by (rule RotateLeft_index [OF _ a(2) l3 _ d3])
        (use t3 right3 len2 rel3 relinked_length R H True rot rot1 bs3_def in auto)
    moreover have "avl \<langle>\<langle>l, a, m1\<rangle>, q, \<langle>m2, p, rr\<rangle>\<rangle>" "height \<langle>\<langle>l, a, m1\<rangle>, q, \<langle>m2, p, rr\<rangle>\<rangle> = height l + 2"
      using avl heavy True rl by auto
    moreover have "relinked (set_tree \<langle>l, a, \<langle>rl, p, rr\<rangle>\<rangle>) bs bs'" if "relinked {a, q} bs3 bs'"
      by (rule relinked_trans [OF rel that]) (auto simp: rl)
    moreover have "inorder \<langle>\<langle>l, a, m1\<rangle>, q, \<langle>m2, p, rr\<rangle>\<rangle> = inorder \<langle>l, a, \<langle>rl, p, rr\<rangle>\<rangle>" by (simp add: rl)
    ultimately show ?thesis by blast
  qed
qed

lemma RebalanceBlock_index:
  assumes a: "unat a < length bs" "a \<noteq> NO_BLOCK" and l: "index_tree bs (bl_left (node bs a)) l"
    and r: "index_tree bs (bl_right (node bs a)) r" and avl: "avl l" "avl r"
    and near: "height l \<le> height r + 2" "height r \<le> height l + 2" and d: "distinct (inorder \<langle>l, a, r\<rangle>)"
    and R: "RebalanceBlock bs a = (bs', b)"
  shows "\<exists>t. index_tree bs' b t \<and> avl t \<and> inorder t = inorder \<langle>l, a, r\<rangle> \<and> relinked (set_tree \<langle>l, a, r\<rangle>) bs bs' \<and>
    (height t = max (height l) (height r) \<or> height t = Suc (max (height l) (height r))) \<and>
    (height l \<le> height r + 1 \<longrightarrow> height r \<le> height l + 1 \<longrightarrow> height t = Suc (max (height l) (height r)))"
proof -
  define bs1 where "bs1 = UpdateHeight bs a"
  have rel1: "relinked {a} bs bs1" unfolding bs1_def by (rule relinked_set(3) [OF a(1)])
  have l1: "index_tree bs1 (bl_left (node bs1 a)) l" and r1: "index_tree bs1 (bl_right (node bs1 a)) r"
    using relinked_tree [OF rel1 l] relinked_tree [OF rel1 r] d a by (auto simp: bs1_def node_UpdateHeight)
  have a1: "unat a < length bs1" using a rel1 relinked_length by metis
  have ha: "bl_height (node bs1 a) = 1 + max (int (height l)) (int (height r))"
    using a Height_index [OF l] Height_index [OF r] by (simp add: bs1_def node_UpdateHeight)
  have H: "Height bs1 (bl_left (node bs1 a)) = int (height l)" "Height bs1 (bl_right (node bs1 a)) = int (height r)"
    by (rule Height_index [OF l1], rule Height_index [OF r1])
  consider (left) "height l = height r + 2" | (right) "height r = height l + 2"
    | (even) "height l \<le> height r + 1" "height r \<le> height l + 1"
    using near by linarith
  then show ?thesis
  proof cases
    case left
    then obtain ll p lr where l2: "l = \<langle>ll, p, lr\<rangle>" by (cases l) auto
    note l1' = l1 [unfolded l2]
    have "\<exists>t. index_tree bs' b t \<and> avl t \<and> inorder t = inorder \<langle>\<langle>ll, p, lr\<rangle>, a, r\<rangle> \<and>
      (height t = height r + 2 \<or> height t = height r + 3) \<and> relinked (set_tree \<langle>\<langle>ll, p, lr\<rangle>, a, r\<rangle>) bs1 bs'"
      by (rule rebalance_left_heavy [OF a1 a(2) r1 l1'])
        (use avl left d R H l1' l2 in \<open>auto simp: RebalanceBlock_def Let_def bs1_def\<close>)
    then show ?thesis
      using left l2 relinked_trans [OF rel1] by (fastforce elim!: relinked_trans [OF rel1])
  next
    case right
    then obtain rl p rr where r2: "r = \<langle>rl, p, rr\<rangle>" by (cases r) auto
    note r1' = r1 [unfolded r2]
    have "\<exists>t. index_tree bs' b t \<and> avl t \<and> inorder t = inorder \<langle>l, a, \<langle>rl, p, rr\<rangle>\<rangle> \<and>
      (height t = height l + 2 \<or> height t = height l + 3) \<and> relinked (set_tree \<langle>l, a, \<langle>rl, p, rr\<rangle>\<rangle>) bs1 bs'"
      by (rule rebalance_right_heavy [OF a1 a(2) l1 r1'])
        (use avl right d R H r1' r2 in \<open>auto simp: RebalanceBlock_def Let_def bs1_def\<close>)
    then show ?thesis
      using right r2 by (fastforce elim!: relinked_trans [OF rel1])
  next
    case even
    have "bs' = bs1" "b = a"
      using R even H by (auto simp: RebalanceBlock_def Let_def bs1_def)
    moreover have "index_tree bs1 a \<langle>l, a, r\<rangle>"
      by (rule index_node [OF refl l1 r1 ha a(2) a1])
    ultimately show ?thesis
      using even avl rel1 by (intro exI [of _ "\<langle>l, a, r\<rangle>"]) (auto elim: relinked_mono)
  qed
qed

section \<open>The path of ancestors\<close>

text \<open>
  The place a search reached: for every ancestor, the deepest first, whether the path went left, the
  ancestor, and the subtree on its other side.
\<close>

type_synonym path = "(bool \<times> u32 \<times> u32 tree) list"

fun plug :: "u32 tree \<Rightarrow> path \<Rightarrow> u32 tree" where
  "plug t [] = t"
| "plug t ((toleft, a, s) # c) = plug (if toleft then \<langle>t, a, s\<rangle> else \<langle>s, a, t\<rangle>) c"

definition path_nodes :: "path \<Rightarrow> u32 list" where
  "path_nodes c = map (\<lambda>(toleft, a, s). a) c"

fun path_set :: "path \<Rightarrow> u32 set" where
  "path_set [] = {}"
| "path_set ((toleft, a, s) # c) = insert a (set_tree s \<union> path_set c)"

text \<open>The array stores this path from \<open>apex\<close> to a hole at \<open>i\<close>, with the heights of a hole of height \<open>h\<close>.\<close>

fun path_ok :: "Block list \<Rightarrow> u32 \<Rightarrow> u32 \<Rightarrow> nat \<Rightarrow> path \<Rightarrow> bool" where
  "path_ok bs apex i h [] \<longleftrightarrow> apex = i"
| "path_ok bs apex i h ((toleft, a, s) # c) \<longleftrightarrow> a \<noteq> NO_BLOCK \<and> unat a < length bs \<and>
     (if toleft then bl_left (node bs a) = i \<and> index_tree bs (bl_right (node bs a)) s
      else bl_right (node bs a) = i \<and> index_tree bs (bl_left (node bs a)) s) \<and>
     bl_height (node bs a) = 1 + max (int h) (int (height s)) \<and> h \<le> height s + 1 \<and> height s \<le> h + 1 \<and> avl s \<and>
     path_ok bs apex a (Suc (max h (height s))) c"

lemma path_nodes_simps [simp]:
  "path_nodes [] = []" "path_nodes ((toleft, a, s) # c) = a # path_nodes c"
  by (simp_all add: path_nodes_def)

lemma set_plug: "set_tree (plug t c) = set_tree t \<union> path_set c"
  by (induction t c rule: plug.induct) auto

lemma plug_inorder: "inorder t = inorder u \<Longrightarrow> inorder (plug t c) = inorder (plug u c)"
proof (induction c arbitrary: t u)
  case (Cons n c)
  obtain toleft a s where n: "n = (toleft, a, s)" by (cases n)
  from Cons.prems show ?case unfolding n plug.simps by (intro Cons.IH) simp
qed simp

lemma distinct_plug:
  "distinct (inorder (plug t c)) \<Longrightarrow> distinct (inorder t) \<and> set_tree t \<inter> path_set c = {}"
proof (induction t c rule: plug.induct)
  case (2 t toleft a s c)
  then show ?case by (cases toleft) auto
qed simp

lemma path_frame: "path_ok bs apex i h c \<Longrightarrow> relinked A bs bs' \<Longrightarrow> A \<inter> path_set c = {} \<Longrightarrow> path_ok bs' apex i h c"
proof (induction bs apex i h c rule: path_ok.induct)
  case (2 bs apex i h toleft a s c)
  note ok = 2(2) [unfolded path_ok.simps]
  have a: "node bs' a = node bs a" using 2(3,4) by (auto intro: relinked_node)
  have s: "index_tree bs' x s" if "index_tree bs x s" for x
    using relinked_tree [OF 2(3) that] 2(4) by auto
  have c: "path_ok bs' apex a (Suc (max h (height s))) c"
    by (rule 2(1) [OF _ 2(3)]) (use ok 2(4) in auto)
  show ?case
    unfolding path_ok.simps a relinked_length [OF 2(3)] using ok c s by presburger
qed simp

lemma plug_index:
  "path_ok bs apex i (height t) c \<Longrightarrow> index_tree bs i t \<Longrightarrow> avl t \<Longrightarrow>
    index_tree bs apex (plug t c) \<and> avl (plug t c)"
proof (induction t c arbitrary: i rule: plug.induct)
  case (2 t toleft a s c)
  show ?case
  proof (cases toleft)
    case True
    with 2(2,3) have "index_tree bs a \<langle>t, a, s\<rangle>" by (intro index_node [OF refl]) auto
    moreover have "avl \<langle>t, a, s\<rangle>" using 2(2,4) True by auto
    ultimately show ?thesis using 2(1) [of a] 2(2) True by simp
  next
    case False
    with 2(2,3) have "index_tree bs a \<langle>s, a, t\<rangle>" by (intro index_node [OF refl]) (auto simp: max.commute)
    moreover have "avl \<langle>s, a, t\<rangle>" using 2(2,4) False by auto
    ultimately show ?thesis using 2(1) [of a] 2(2) False by (simp add: max.commute)
  qed
qed simp

lemma unplug_index:
  "index_tree bs apex (plug t c) \<Longrightarrow> avl (plug t c) \<Longrightarrow>
    \<exists>i. index_tree bs i t \<and> avl t \<and> path_ok bs apex i (height t) c"
proof (induction t c rule: plug.induct)
  case (2 t toleft a s c)
  then obtain i where i: "index_tree bs i (if toleft then \<langle>t, a, s\<rangle> else \<langle>s, a, t\<rangle>)"
    "avl (if toleft then \<langle>t, a, s\<rangle> else \<langle>s, a, t\<rangle>)"
    "path_ok bs apex i (height (if toleft then \<langle>t, a, s\<rangle> else \<langle>s, a, t\<rangle>)) c"
    by auto
  then show ?case
    by (cases toleft) (auto simp: max.commute intro!: exI)
qed auto

text \<open>The parent of the rebalanced subtree points to its new root.\<close>

definition redirect :: "Block list \<Rightarrow> u32 \<Rightarrow> u32 \<Rightarrow> u32 \<Rightarrow> Block list" where
  "redirect bs p a b = (if bl_left (node bs p) = a then set_left bs p b else set_right bs p b)"

lemma redirect_path:
  assumes "path_ok bs apex a h ((toleft, p, s) # c)" "a \<noteq> NO_BLOCK" "a \<notin> path_set ((toleft, p, s) # c)"
    "distinct (inorder (plug t ((toleft, p, s) # c)))"
  shows "path_ok (redirect bs p a b) apex b h ((toleft, p, s) # c)" "relinked {p} bs (redirect bs p a b)"
proof -
  have p: "unat p < length bs" "p \<notin> set_tree s" "p \<notin> path_set c"
    using assms(1) distinct_plug [of "if toleft then \<langle>t, p, s\<rangle> else \<langle>s, p, t\<rangle>" c] assms(4)
    by (cases toleft; auto)+
  show rel: "relinked {p} bs (redirect bs p a b)"
    using p by (simp add: redirect_def relinked_set)
  have s: "index_tree (redirect bs p a b) x s" if "index_tree bs x s" for x
    using relinked_tree [OF rel that] p by simp
  have c: "path_ok (redirect bs p a b) apex p h' c" if "path_ok bs apex p h' c" for h'
    using path_frame [OF that rel] p by simp
  have "bl_left (node bs p) \<noteq> a" if "\<not> toleft"
  proof
    assume "bl_left (node bs p) = a"
    with assms(1) that have "index_tree bs a s" by simp
    with assms(2,3) show False by (cases s) auto
  qed
  then show "path_ok (redirect bs p a b) apex b h ((toleft, p, s) # c)"
    using assms(1) p s c relinked_length [OF rel]
    by (cases toleft) (auto simp: redirect_def node_set)
qed

lemma rebalance_path_index:
  "rebalance_path bs apex (path_nodes c) = (bs', apex') \<Longrightarrow> index_tree bs i u \<Longrightarrow> avl u \<Longrightarrow>
    path_ok bs apex i h c \<Longrightarrow> height u = Suc h \<Longrightarrow> distinct (inorder (plug u c)) \<Longrightarrow>
    \<exists>t. index_tree bs' apex' t \<and> avl t \<and> inorder t = inorder (plug u c) \<and> relinked (set_tree (plug u c)) bs bs'"
proof (induction c arbitrary: bs apex i u h)
  case (Cons n c)
  obtain toleft a s where n: "n = (toleft, a, s)" by (cases n)
  define l r where "l = (if toleft then u else s)" and "r = (if toleft then s else u)"
  obtain bs1 b where R: "RebalanceBlock bs a = (bs1, b)" by (cases "RebalanceBlock bs a")
  note ok = Cons.prems(4) [unfolded n path_ok.simps]
  have plug: "plug u (n # c) = plug \<langle>l, a, r\<rangle> c" by (simp add: n l_def r_def)
  have d: "distinct (inorder (plug \<langle>l, a, r\<rangle> c))" using Cons.prems(6) plug by simp
  have out: "set_tree \<langle>l, a, r\<rangle> \<inter> path_set c = {}" "distinct (inorder \<langle>l, a, r\<rangle>)"
    using distinct_plug [OF d] by auto
  have lr: "index_tree bs (bl_left (node bs a)) l" "index_tree bs (bl_right (node bs a)) r" "avl l" "avl r"
      "height l \<le> height r + 2" "height r \<le> height l + 2"
    using ok Cons.prems(2,3,5) by (auto simp: l_def r_def)
  obtain t where t: "index_tree bs1 b t" "avl t" "inorder t = inorder \<langle>l, a, r\<rangle>"
      and rel: "relinked (set_tree \<langle>l, a, r\<rangle>) bs bs1"
      and ht: "height t = max (height l) (height r) \<or> height t = Suc (max (height l) (height r))"
      "height l \<le> height r + 1 \<longrightarrow> height r \<le> height l + 1 \<longrightarrow> height t = Suc (max (height l) (height r))"
    using RebalanceBlock_index [OF _ _ lr out(2) R] ok by blast
  define h' where "h' = Suc (max h (height s))"
  have h: "height t = h' \<or> height t = Suc h'"
    using ht ok Cons.prems(5) by (cases toleft) (auto simp: h'_def l_def r_def max_def split: if_splits)
  have set_t: "set_tree t = set_tree \<langle>l, a, r\<rangle>" using t(3) by (metis set_inorder)
  have nonempty: "t \<noteq> \<langle>\<rangle>" using set_t by auto
  have path1: "path_ok bs1 apex a h' c" using path_frame [OF _ rel] ok out(1) by (auto simp: h'_def)
  have d': "distinct (inorder (plug t c))" using d plug_inorder [OF t(3)] by metis
  obtain bs2 apex2 where step: "(if b \<noteq> a then case path_nodes c of [] \<Rightarrow> (bs1, b)
      | p # _ \<Rightarrow> (redirect bs1 p a b, apex) else (bs1, apex)) = (bs2, apex2)"
    by (metis surj_pair)
  have after: "index_tree bs2 b t \<and> path_ok bs2 apex2 b h' c \<and> relinked (set_tree (plug u (n # c))) bs bs2"
  proof -
    have big: "relinked (set_tree (plug u (n # c))) bs bs1"
      by (rule relinked_mono [OF rel]) (auto simp: plug set_plug)
    show ?thesis
    proof (cases "b = a")
      case True
      with step path1 t(1) big show ?thesis by simp
    next
      case neq: False
      show ?thesis
      proof (cases c)
        case Nil
        with step neq t(1) big show ?thesis by simp
      next
        case (Cons m c'')
        obtain toleft' p s' where m: "m = (toleft', p, s')" by (cases m)
        have fin: "bs2 = redirect bs1 p a b" "apex2 = apex" using step neq Cons m by auto
        have a: "a \<noteq> NO_BLOCK" "a \<notin> path_set ((toleft', p, s') # c'')" using ok out(1) Cons m by auto
        note path1' = path1 [unfolded Cons m] and d'' = d' [unfolded Cons m]
        note re = redirect_path [OF path1' a d'', of b]
        have "index_tree bs2 b t"
          unfolding fin by (rule relinked_tree [OF re(2) t(1)]) (use set_t out(1) Cons m in auto)
        moreover have "relinked (set_tree (plug u (n # c))) bs bs2"
          unfolding fin by (rule relinked_trans [OF big re(2)]) (auto simp: set_plug Cons m n)
        ultimately show ?thesis using re(1) fin Cons m by simp
      qed
    qed
  qed
  have pl: "inorder (plug t c) = inorder (plug u (n # c))" "set_tree (plug t c) = set_tree (plug u (n # c))"
    using plug plug_inorder [OF t(3), of c] set_t by (auto simp: set_plug)
  have top: "bl_height (node bs2 b) = int (height t)" using after nonempty by (cases t) auto
  have prev: "bl_height (node bs a) = int h'" using ok by (simp add: h'_def)
  have run: "(if bl_height (node bs2 b) = int h' then (bs2, apex2) else rebalance_path bs2 apex2 (path_nodes c)) = (bs', apex')"
    using Cons.prems(1) step [unfolded redirect_def] prev R by (simp add: n Let_def)
  show ?case
  proof (cases "height t = h'")
    case True
    with run top have "bs' = bs2" "apex' = apex2" by auto
    moreover have "index_tree bs2 apex2 (plug t c) \<and> avl (plug t c)"
      using plug_index [of bs2 apex2 b t c] after t(2) True by simp
    ultimately show ?thesis using after pl by blast
  next
    case False
    with run top have "rebalance_path bs2 apex2 (path_nodes c) = (bs', apex')" by simp
    from Cons.IH [OF this _ t(2) _ _ d', of b h'] after h False obtain t' where
      "index_tree bs' apex' t'" "avl t'" "inorder t' = inorder (plug t c)" "relinked (set_tree (plug t c)) bs2 bs'"
      by auto
    with after pl show ?thesis by (metis relinked_trans subset_refl)
  qed
qed auto

section \<open>Linking a new block\<close>

lemma plug_append: "plug t (c @ d) = plug (plug t c) d"
  by (induction t c rule: plug.induct) auto

lemma path_nodes_append [simp]: "path_nodes (c @ d) = path_nodes c @ path_nodes d"
  by (simp add: path_nodes_def)

fun path_before :: "path \<Rightarrow> u32 list" where
  "path_before [] = []"
| "path_before ((toleft, a, s) # c) = path_before c @ (if toleft then [] else inorder s @ [a])"

fun path_after :: "path \<Rightarrow> u32 list" where
  "path_after [] = []"
| "path_after ((toleft, a, s) # c) = (if toleft then a # inorder s else []) @ path_after c"

lemma inorder_plug: "inorder (plug t c) = path_before c @ inorder t @ path_after c"
proof (induction t c rule: plug.induct)
  case (2 t toleft a s c)
  then show ?case by (cases toleft) auto
qed simp

lemma path_before_append: "path_before (c @ d) = path_before d @ path_before c"
  by (induction c) auto

lemma path_after_append: "path_after (c @ d) = path_after c @ path_after d"
  by (induction c) auto

lemma index_tree_grow: "index_tree bs i t \<Longrightarrow> index_tree (bs @ [b]) i t"
proof (induction t arbitrary: i)
  case (Node l a r)
  then show ?case by (auto simp: nth_append)
qed simp

lemma path_grow: "path_ok bs apex i h c \<Longrightarrow> path_ok (bs @ [b]) apex i h c"
proof (induction bs apex i h c rule: path_ok.induct)
  case (2 bs apex i h toleft a s c)
  then show ?case by (cases toleft) (auto simp: nth_append index_tree_grow)
qed simp

lemma link_block_index:
  assumes tree: "index_tree bs root (plug \<langle>\<rangle> c)" "avl (plug \<langle>\<rangle> c)" "distinct (inorder (plug \<langle>\<rangle> c))"
    and len: "length bs < 4294967295"
    and turns: "\<And>toleft a s. (toleft, a, s) \<in> set c \<Longrightarrow> toleft \<longleftrightarrow> bl_address block < bl_address (node bs a)"
    and fresh: "bl_left block = NO_BLOCK" "bl_right block = NO_BLOCK" "bl_height block = 1"
    and L: "link_block bs root (path_nodes c) block = (bs', root')"
  shows "\<exists>t. index_tree bs' root' t \<and> avl t \<and> same_payload (bs @ [block]) bs' \<and>
    inorder t = path_before c @ [word_of_nat (length bs)] @ path_after c"
proof -
  define ins :: u32 where "ins = word_of_nat (length bs)"
  have ins: "unat ins = length bs" "ins \<noteq> NO_BLOCK"
  proof -
    show "unat ins = length bs" using len by (simp add: ins_def unsigned_of_nat take_bit_nat_eq_self)
    moreover have "unat NO_BLOCK = 4294967295" by (simp add: NO_BLOCK_def)
    ultimately show "ins \<noteq> NO_BLOCK" using len by auto
  qed
  let ?leaf = "\<langle>\<langle>\<rangle>, ins, \<langle>\<rangle>\<rangle>"
  have path: "path_ok (bs @ [block]) root NO_BLOCK 0 c"
  proof -
    obtain i where "index_tree bs i \<langle>\<rangle>" "path_ok bs root i (height (\<langle>\<rangle> :: u32 tree)) c"
      using unplug_index [OF tree(1,2)] by blast
    then have "path_ok bs root NO_BLOCK 0 c" by simp
    then show ?thesis by (rule path_grow)
  qed
  have out: "ins \<notin> path_set c"
  proof
    assume "ins \<in> path_set c"
    then have "ins \<in> set_tree (plug \<langle>\<rangle> c)" by (simp add: set_plug)
    from index_tree_bound [OF tree(1) this] ins show False by simp
  qed
  have leaf: "index_tree (bs @ [block]) ins ?leaf"
    using ins fresh by (simp add: nth_append)
  have d: "distinct (inorder (plug ?leaf c))"
  proof -
    have "set (path_before c) \<union> set (path_after c) = path_set c"
      using set_plug [of "\<langle>\<rangle>" c] by (simp add: inorder_plug flip: set_inorder)
    then show ?thesis using tree(3) out by (auto simp: inorder_plug)
  qed
  obtain bs1 root1 where step: "(case path_nodes c of [] \<Rightarrow> (bs @ [block], ins)
      | p # _ \<Rightarrow> (if bl_address block < bl_address (node (bs @ [block]) p) then set_left (bs @ [block]) p ins
          else set_right (bs @ [block]) p ins, root)) = (bs1, root1)"
    by (rule prod.exhaust)
  have linked: "index_tree bs1 ins ?leaf \<and> path_ok bs1 root1 ins 0 c \<and> same_payload (bs @ [block]) bs1"
  proof (cases c)
    case Nil
    with step leaf show ?thesis by auto
  next
    case (Cons m c')
    obtain toleft p s where m: "m = (toleft, p, s)" by (cases m)
    note ok = path [unfolded Cons m path_ok.simps]
    have p: "unat p < length bs"
      using index_tree_bound [OF tree(1), of p] by (simp add: set_plug Cons m)
    have turn: "toleft \<longleftrightarrow> bl_address block < bl_address (node (bs @ [block]) p)"
      using turns [of toleft p s] p by (simp add: Cons m nth_append)
    have bs1: "bs1 = (if toleft then set_left (bs @ [block]) p ins else set_right (bs @ [block]) p ins)" "root1 = root"
      using step turn by (auto simp: Cons m)
    have rel: "relinked {p} (bs @ [block]) bs1"
      using p by (simp add: bs1 relinked_set)
    have dp: "p \<notin> set_tree s" "p \<notin> path_set c'" "p \<noteq> ins"
      using distinct_plug [of "if toleft then \<langle>?leaf, p, s\<rangle> else \<langle>s, p, ?leaf\<rangle>" c'] d
      by (cases toleft; simp add: Cons m; blast)+
    have s: "index_tree bs1 x s" if "index_tree (bs @ [block]) x s" for x
      by (rule relinked_tree [OF rel that]) (use dp in simp)
    have c': "path_ok bs1 root p (Suc (max 0 (height s))) c'"
      by (rule path_frame [OF _ rel]) (use ok dp in auto)
    have "path_ok bs1 root1 ins 0 c"
      unfolding Cons m path_ok.simps using ok s c' p relinked_length [OF rel]
      by (cases toleft) (simp_all add: bs1 node_set)
    moreover have "index_tree bs1 ins ?leaf"
      by (rule relinked_tree [OF rel leaf]) (use dp in auto)
    ultimately show ?thesis using rel by (simp add: relinked_def)
  qed
  have "rebalance_path bs1 root1 (path_nodes c) = (bs', root')"
    using L step by (simp add: link_block_def ins_def [symmetric] Let_def)
  then have "\<exists>t. index_tree bs' root' t \<and> avl t \<and> inorder t = inorder (plug ?leaf c) \<and>
      relinked (set_tree (plug ?leaf c)) bs1 bs'"
    by (rule rebalance_path_index [where i = ins and h = 0]) (use linked d in simp_all)
  then obtain t where
    "index_tree bs' root' t" "avl t" "inorder t = inorder (plug ?leaf c)" "relinked (set_tree (plug ?leaf c)) bs1 bs'"
    by blast
  moreover from this have "same_payload (bs @ [block]) bs'"
    using linked same_payload_trans unfolding relinked_def by blast
  ultimately show ?thesis
    by (intro exI [of _ t]) (simp add: inorder_plug ins_def)
qed

section \<open>The search\<close>

definition block_end :: "Block \<Rightarrow> nat" where
  "block_end b = bl_address b + bl_size b"

text \<open>The ranges of the tree, in order: not empty, and each one ends before the next begins.\<close>

definition ordered :: "Block list \<Rightarrow> u32 list \<Rightarrow> bool" where
  "ordered bs xs \<longleftrightarrow> sorted_wrt (\<lambda>x y. block_end (node bs x) \<le> bl_address (node bs y)) xs \<and>
     (\<forall>x \<in> set xs. 0 < bl_size (node bs x))"

definition exact :: "Block \<Rightarrow> nat \<Rightarrow> nat \<Rightarrow> bool" where
  "exact b start extent \<longleftrightarrow> bl_address b = start \<and> bl_size b = extent"

definition overlaps :: "Block \<Rightarrow> nat \<Rightarrow> nat \<Rightarrow> bool" where
  "overlaps b start extent \<longleftrightarrow> bl_address b < start + extent \<and> start < block_end b"

fun search_spec :: "Block list \<Rightarrow> u32 tree \<Rightarrow> nat \<Rightarrow> nat \<Rightarrow> u32 list \<Rightarrow> Search \<Rightarrow> bool" where
  "search_spec bs t start extent ancestors Duplicate_range \<longleftrightarrow> (\<exists>x \<in> set_tree t. exact (node bs x) start extent)"
| "search_spec bs t start extent ancestors Rejected_range \<longleftrightarrow>
     (\<exists>x \<in> set_tree t. overlaps (node bs x) start extent) \<and> (\<forall>x \<in> set_tree t. \<not> exact (node bs x) start extent)"
| "search_spec bs t start extent ancestors (Free_range path) \<longleftrightarrow>
     (\<exists>c. path = path_nodes c @ ancestors \<and> t = plug \<langle>\<rangle> c \<and>
        (\<forall>x \<in> set (path_before c). block_end (node bs x) \<le> start) \<and>
        (\<forall>x \<in> set (path_after c). start + extent \<le> bl_address (node bs x)) \<and>
        (\<forall>(toleft, a, s) \<in> set c. toleft \<longleftrightarrow> start < bl_address (node bs a)))"

lemma ordered_Node:
  assumes "ordered bs (inorder \<langle>l, a, r\<rangle>)"
  shows "ordered bs (inorder l)" "ordered bs (inorder r)" "0 < bl_size (node bs a)"
    "\<And>x. x \<in> set_tree l \<Longrightarrow> block_end (node bs x) \<le> bl_address (node bs a) \<and> 0 < bl_size (node bs x)"
    "\<And>x. x \<in> set_tree r \<Longrightarrow> block_end (node bs a) \<le> bl_address (node bs x) \<and> 0 < bl_size (node bs x)"
  using assms by (auto simp: ordered_def sorted_wrt_append)

lemma search_spec_left:
  assumes "search_spec bs l start extent (a # ancestors) res" "ordered bs (inorder \<langle>l, a, r\<rangle>)"
    "start + extent \<le> bl_address (node bs a)" "0 < extent"
  shows "search_spec bs \<langle>l, a, r\<rangle> start extent ancestors res"
proof -
  note o = ordered_Node [OF assms(2)]
  have far: "\<not> exact (node bs x) start extent \<and> start + extent \<le> bl_address (node bs x)" if "x = a \<or> x \<in> set_tree r" for x
    using that assms(3,4) o(5) [of x] o(3) by (auto simp: exact_def block_end_def)
  show ?thesis
  proof (cases res)
    case (Free_range path)
    with assms(1) obtain c where c: "path = path_nodes c @ a # ancestors" "l = plug \<langle>\<rangle> c"
      "\<forall>x \<in> set (path_before c). block_end (node bs x) \<le> start"
      "\<forall>x \<in> set (path_after c). start + extent \<le> bl_address (node bs x)"
      "\<forall>(toleft, a, s) \<in> set c. toleft \<longleftrightarrow> start < bl_address (node bs a)"
      by auto
    show ?thesis unfolding Free_range search_spec.simps
      by (rule exI [of _ "c @ [(True, a, r)]"])
        (use c far assms(3,4) in \<open>auto 0 4 simp: plug_append path_before_append path_after_append intro: less_le_trans [of _ "start + extent"]\<close>)
  qed (use assms(1) far in auto)
qed

lemma search_spec_right:
  assumes "search_spec bs r start extent (a # ancestors) res" "ordered bs (inorder \<langle>l, a, r\<rangle>)"
    "block_end (node bs a) \<le> start" "0 < extent"
  shows "search_spec bs \<langle>l, a, r\<rangle> start extent ancestors res"
proof -
  note o = ordered_Node [OF assms(2)]
  have far: "\<not> exact (node bs x) start extent \<and> block_end (node bs x) \<le> start" if "x = a \<or> x \<in> set_tree l" for x
    using that assms(3,4) o(4) [of x] o(3) by (auto simp: exact_def block_end_def)
  show ?thesis
  proof (cases res)
    case (Free_range path)
    with assms(1) obtain c where c: "path = path_nodes c @ a # ancestors" "r = plug \<langle>\<rangle> c"
      "\<forall>x \<in> set (path_before c). block_end (node bs x) \<le> start"
      "\<forall>x \<in> set (path_after c). start + extent \<le> bl_address (node bs x)"
      "\<forall>(toleft, a, s) \<in> set c. toleft \<longleftrightarrow> start < bl_address (node bs a)"
      by auto
    have "bl_address (node bs a) \<le> start" using assms(3) by (simp add: block_end_def)
    then show ?thesis unfolding Free_range search_spec.simps
      by (intro exI [of _ "c @ [(False, a, l)]"])
        (use c far assms(3,4) in \<open>auto simp: plug_append path_before_append path_after_append\<close>)
  qed (use assms(1) far in auto)
qed

lemma touch_search_spec:
  "index_tree bs i t \<Longrightarrow> ordered bs (inorder t) \<Longrightarrow> height t \<le> n \<Longrightarrow> 0 < extent \<Longrightarrow>
    search_spec bs t start extent ancestors (touch_search n bs start extent i ancestors)"
proof (induction t arbitrary: i n ancestors)
  case Leaf
  then have "touch_search n bs start extent i ancestors = Free_range ancestors"
    by (subst touch_search.simps) simp
  then show ?case by (auto intro: exI [of _ "[]"])
next
  case (Node l a r)
  note tree = index_tree_left_right [OF Node.prems(1)] and o = ordered_Node [OF Node.prems(2)]
  obtain m where n: "n = Suc m" "height l \<le> m" "height r \<le> m" using Node.prems(3) by (cases n) auto
  let ?b = "node bs a"
  note unfold = touch_search.simps [of "Suc m" bs start extent a ancestors]
  consider (dup) "exact ?b start extent"
    | (left) "\<not> exact ?b start extent" "start < bl_address ?b" "extent \<le> bl_address ?b - start"
    | (right) "\<not> exact ?b start extent" "\<not> start < bl_address ?b" "bl_size ?b \<le> start - bl_address ?b"
    | (meet) "\<not> exact ?b start extent" "start < bl_address ?b \<and> bl_address ?b - start < extent \<or>
        \<not> start < bl_address ?b \<and> start - bl_address ?b < bl_size ?b"
    by linarith
  then show ?case
  proof cases
    case dup
    with tree n show ?thesis by (simp add: unfold exact_def)
  next
    case left
    have "search_spec bs \<langle>l, a, r\<rangle> start extent ancestors (touch_search m bs start extent (bl_left ?b) (a # ancestors))"
      by (rule search_spec_left [OF Node.IH(1) Node.prems(2)]) (use left tree o n Node.prems(4) in auto)
    with left tree n show ?thesis by (auto simp: unfold exact_def Let_def)
  next
    case right
    have "search_spec bs \<langle>l, a, r\<rangle> start extent ancestors (touch_search m bs start extent (bl_right ?b) (a # ancestors))"
      by (rule search_spec_right [OF Node.IH(2) Node.prems(2)])
        (use right tree o n Node.prems(4) in \<open>auto simp: block_end_def\<close>)
    with right tree n show ?thesis by (auto simp: unfold exact_def Let_def)
  next
    case meet
    then have at: "overlaps ?b start extent" using Node.prems(4) by (auto simp: overlaps_def block_end_def)
    have "\<not> exact (node bs x) start extent" if "x \<in> set_tree l" for x
      using o(4) [OF that] at by (auto simp: exact_def overlaps_def block_end_def)
    moreover have "\<not> exact (node bs x) start extent" if "x \<in> set_tree r" for x
      using o(5) [OF that] at by (auto simp: exact_def overlaps_def block_end_def)
    moreover have "touch_search n bs start extent i ancestors = Rejected_range"
      using meet tree n by (auto simp: unfold exact_def Let_def)
    ultimately show ?thesis using meet at by auto
  qed
qed

lemma covers_from_spec:
  "index_tree bs i t \<Longrightarrow> ordered bs (inorder t) \<Longrightarrow> height t \<le> n \<Longrightarrow> 0 < bl_size b \<Longrightarrow>
    covers_from n bs i b \<longleftrightarrow>
      (\<exists>x \<in> set_tree t. bl_address (node bs x) \<le> bl_address b \<and> block_end b \<le> block_end (node bs x))"
proof (induction t arbitrary: i n)
  case Leaf
  then show ?case by (cases n) auto
next
  case (Node l a r)
  note tree = index_tree_left_right [OF Node.prems(1)] and o = ordered_Node [OF Node.prems(2)]
  obtain m where n: "n = Suc m" "height l \<le> m" "height r \<le> m" using Node.prems(3) by (cases n) auto
  let ?c = "node bs a"
  have l: "\<not> block_end b \<le> block_end (node bs x)" if "x \<in> set_tree l" "bl_address ?c \<le> bl_address b" for x
    using o(4) [OF that(1)] that(2) Node.prems(4) by (auto simp: block_end_def)
  have r: "\<not> bl_address (node bs x) \<le> bl_address b" if "x \<in> set_tree r" "bl_address b < block_end ?c" for x
    using o(5) [OF that(1)] that(2) by (auto simp: block_end_def)
  consider (left) "bl_address b < bl_address ?c" | (right) "bl_address ?c \<le> bl_address b" "block_end ?c \<le> bl_address b"
    | (here) "bl_address ?c \<le> bl_address b" "bl_address b < block_end ?c"
    by linarith
  then show ?case
  proof cases
    case left
    with Node.IH(1) [OF tree(1) o(1) n(2) Node.prems(4)] tree n r o(3) show ?thesis
      by (auto simp: block_end_def)
  next
    case right
    with Node.IH(2) [OF tree(2) o(2) n(3) Node.prems(4)] tree n l o(3) show ?thesis
      using Node.prems(4) by (auto simp: block_end_def Let_def)
  next
    case here
    with tree n l r show ?thesis by (auto simp: block_end_def Let_def)
  qed
qed

end
