(* ===== verification/JournalRecords.thy ===== *)
theory JournalRecords
  imports JournalIndex
begin

text \<open>
  Well-formed records and the live part of the ring. A record is well formed when its AVL index holds
  every block once, in address order, and the copies of its blocks lie one after another inside its
  arena; a search then decides on all blocks, and linking a block keeps the record well formed. The
  ring of reused slots is abstracted to the list \<open>live\<close> of its records, the oldest first.
\<close>

section \<open>Well-formed records\<close>

definition record_index :: "FrameRecord \<Rightarrow> u32 tree \<Rightarrow> bool" where
  "record_index r t \<longleftrightarrow> index_tree (fr_blocks r) (fr_root r) t \<and> avl t \<and> distinct (inorder t) \<and>
     ordered (fr_blocks r) (inorder t) \<and> set_tree t = {x. unat x < length (fr_blocks r)} \<and>
     length (fr_blocks r) < 4294967296"

definition arena_ok :: "FrameRecord \<Rightarrow> bool" where
  "arena_ok r \<longleftrightarrow> sorted_wrt (\<lambda>b c. bl_offset b + bl_size b \<le> bl_offset c) (fr_blocks r) \<and>
     (\<forall>b \<in> set (fr_blocks r). bl_offset b + bl_size b \<le> fr_byteSize r) \<and> fr_byteSize r \<le> fr_byteCapacity r"

definition record_ok :: "FrameRecord \<Rightarrow> bool" where
  "record_ok r \<longleftrightarrow> (\<exists>t. record_index r t) \<and> arena_ok r"

lemma unat_word_of_nat_small: "k < 4294967296 \<Longrightarrow> unat (word_of_nat k :: u32) = k"
  by (simp add: unsigned_of_nat take_bit_nat_eq_self)

lemma index_ex:
  assumes "record_index r t"
  shows "(\<exists>x \<in> set_tree t. P (node (fr_blocks r) x)) \<longleftrightarrow> (\<exists>b \<in> set (fr_blocks r). P b)"
proof
  assume "\<exists>b \<in> set (fr_blocks r). P b"
  then obtain k where k: "k < length (fr_blocks r)" "P (fr_blocks r ! k)" by (auto simp: in_set_conv_nth)
  then have "unat (word_of_nat k :: u32) = k"
    using assms by (intro unat_word_of_nat_small) (simp add: record_index_def)
  with k assms show "\<exists>x \<in> set_tree t. P (node (fr_blocks r) x)"
    by (intro bexI [of _ "word_of_nat k"]) (auto simp: record_index_def)
qed (use assms in \<open>auto simp: record_index_def\<close>)

lemma index_all:
  assumes "record_index r t"
  shows "(\<forall>x \<in> set_tree t. P (node (fr_blocks r) x)) \<longleftrightarrow> (\<forall>b \<in> set (fr_blocks r). P b)"
  using index_ex [OF assms, of "\<lambda>b. \<not> P b"] by blast

lemma index_size:
  assumes "record_index r t"
  shows "size t = length (fr_blocks r)"
proof -
  let ?n = "length (fr_blocks r)"
  have n: "?n < 4294967296" using assms by (simp add: record_index_def)
  have "set_tree t = word_of_nat ` {..<?n}"
  proof (intro set_eqI iffI)
    fix x assume "x \<in> set_tree t"
    then have "unat x < ?n" using assms by (simp add: record_index_def)
    then show "x \<in> word_of_nat ` {..<?n}" by (intro image_eqI [of _ _ "unat x"]) simp_all
  next
    fix x :: u32 assume "x \<in> word_of_nat ` {..<?n}"
    then obtain k where k: "k < ?n" "x = word_of_nat k" by blast
    then have "unat x = k" using n by (simp add: unat_word_of_nat_small)
    with k assms show "x \<in> set_tree t" by (simp add: record_index_def)
  qed
  moreover have "inj_on (word_of_nat :: nat \<Rightarrow> u32) {..<?n}"
    using n by (intro inj_on_inverseI [of _ unat]) (simp add: unat_word_of_nat_small)
  ultimately have "card (set_tree t) = ?n" by (simp add: card_image)
  moreover have "card (set (inorder t)) = length (inorder t)"
    using assms by (intro distinct_card) (simp add: record_index_def)
  ultimately show ?thesis by simp
qed

lemma index_height: "record_index r t \<Longrightarrow> length (fr_blocks r) < 4294967295 \<Longrightarrow> height t < 64"
  using avl_height_bound [of t] index_size [of r t] by (simp add: record_index_def)

lemma record_search:
  assumes "record_index r t" "length (fr_blocks r) < 4294967295" "0 < extent"
  shows "search_spec (fr_blocks r) t start extent [] (touch_search 64 (fr_blocks r) start extent (fr_root r) [])"
  using touch_search_spec [of "fr_blocks r" "fr_root r" t 64 extent start "[]"] index_height [OF assms(1,2)] assms
  by (simp add: record_index_def)

text \<open>The verdicts of the search, over all blocks.\<close>

lemma search_verdicts:
  fixes start :: nat
  assumes "record_ok r" "length (fr_blocks r) < 4294967295" "0 < extent"
  defines "res \<equiv> touch_search 64 (fr_blocks r) start extent (fr_root r) []"
  shows "res = Duplicate_range \<longleftrightarrow> (\<exists>b \<in> set (fr_blocks r). exact b start extent)"
    "res = Rejected_range \<longleftrightarrow> (\<exists>b \<in> set (fr_blocks r). overlaps b start extent) \<and>
       \<not> (\<exists>b \<in> set (fr_blocks r). exact b start extent)"
    "(\<exists>ancestors. res = Free_range ancestors) \<longleftrightarrow> \<not> (\<exists>b \<in> set (fr_blocks r). overlaps b start extent)"
proof -
  obtain t where t: "record_index r t" using assms(1) by (auto simp: record_ok_def)
  have spec: "search_spec (fr_blocks r) t start extent [] res"
    unfolding res_def by (rule record_search [OF t assms(2,3)])
  have meets: "overlaps b start extent" if "exact b start extent" for b
    using that assms(3) by (simp add: exact_def overlaps_def block_end_def)
  have free: "\<not> overlaps (node (fr_blocks r) x) start extent" if "res = Free_range ancestors" "x \<in> set_tree t" for ancestors x
  proof -
    from spec that(1) obtain c where c: "t = plug \<langle>\<rangle> c"
      "\<forall>x \<in> set (path_before c). block_end (node (fr_blocks r) x) \<le> start"
      "\<forall>x \<in> set (path_after c). start + extent \<le> bl_address (node (fr_blocks r) x)"
      by auto
    have "x \<in> set (path_before c) \<union> set (path_after c)"
      using that(2) c(1) inorder_plug [of "\<langle>\<rangle>" c] by (metis append_Nil inorder.simps(1) set_append set_inorder)
    with c show ?thesis by (auto simp: overlaps_def)
  qed
  note all = index_ex [OF t, of "\<lambda>b. exact b start extent"] index_ex [OF t, of "\<lambda>b. overlaps b start extent"]
  show "res = Duplicate_range \<longleftrightarrow> (\<exists>b \<in> set (fr_blocks r). exact b start extent)"
    "res = Rejected_range \<longleftrightarrow> (\<exists>b \<in> set (fr_blocks r). overlaps b start extent) \<and>
       \<not> (\<exists>b \<in> set (fr_blocks r). exact b start extent)"
    "(\<exists>ancestors. res = Free_range ancestors) \<longleftrightarrow> \<not> (\<exists>b \<in> set (fr_blocks r). overlaps b start extent)"
    unfolding all [symmetric] using spec free meets by (cases res; auto)+
qed

lemma CoversBlock_iff:
  assumes "record_ok r" "0 < bl_size b"
  shows "CoversBlock r b \<longleftrightarrow> (\<exists>c \<in> set (fr_blocks r). bl_address c \<le> bl_address b \<and> block_end b \<le> block_end c)"
proof -
  obtain t where t: "record_index r t" using assms(1) by (auto simp: record_ok_def)
  have "height t \<le> length (fr_blocks r)" using index_size [OF t] height_le_size_tree [of t] by simp
  with t have "CoversBlock r b \<longleftrightarrow> (\<exists>x \<in> set_tree t. bl_address (node (fr_blocks r) x) \<le> bl_address b \<and>
      block_end b \<le> block_end (node (fr_blocks r) x))"
    unfolding CoversBlock_def by (intro covers_from_spec) (simp_all add: record_index_def assms(2))
  then show ?thesis using index_ex [OF t, of "\<lambda>c. bl_address c \<le> bl_address b \<and> block_end b \<le> block_end c"] by simp
qed

text \<open>The ranges of a well-formed record: not empty, and two of them never meet.\<close>

lemma record_sizes: "record_ok r \<Longrightarrow> b \<in> set (fr_blocks r) \<Longrightarrow> 0 < bl_size b"
proof -
  assume "record_ok r" "b \<in> set (fr_blocks r)"
  then obtain t where t: "record_index r t" by (auto simp: record_ok_def)
  then have "\<forall>x \<in> set_tree t. 0 < bl_size (node (fr_blocks r) x)" by (simp add: record_index_def ordered_def)
  with index_all [OF t, of "\<lambda>b. 0 < bl_size b"] \<open>b \<in> set (fr_blocks r)\<close> show ?thesis by blast
qed

lemma sorted_wrt_pair:
  assumes "sorted_wrt P xs" "x \<in> set xs" "y \<in> set xs" "x \<noteq> y"
  shows "P x y \<or> P y x"
  using assms
proof (induction xs)
  case (Cons a xs)
  then show ?case by auto
qed simp

lemma record_disjoint:
  assumes "record_ok r" "k < length (fr_blocks r)" "m < length (fr_blocks r)" "k \<noteq> m"
  shows "block_end (fr_blocks r ! k) \<le> bl_address (fr_blocks r ! m) \<or>
    block_end (fr_blocks r ! m) \<le> bl_address (fr_blocks r ! k)"
proof -
  obtain t where t: "record_index r t" using assms(1) by (auto simp: record_ok_def)
  let ?k = "word_of_nat k :: u32" and ?m = "word_of_nat m :: u32"
  have u: "unat ?k = k" "unat ?m = m"
    using t assms(2,3) by (auto intro!: unat_word_of_nat_small simp: record_index_def)
  then have "?k \<in> set_tree t" "?m \<in> set_tree t" "?k \<noteq> ?m"
    using t assms(2-4) by (auto simp: record_index_def)
  moreover have "sorted_wrt (\<lambda>x y. block_end (node (fr_blocks r) x) \<le> bl_address (node (fr_blocks r) y)) (inorder t)"
    using t by (simp add: record_index_def ordered_def)
  from sorted_wrt_pair [OF this, of ?k ?m] calculation show ?thesis by (simp add: u)
qed

lemma arena_disjoint:
  assumes "arena_ok r" "k < m" "m < length (fr_blocks r)"
  shows "bl_offset (fr_blocks r ! k) + bl_size (fr_blocks r ! k) \<le> bl_offset (fr_blocks r ! m)"
  using assms sorted_wrt_nth_less unfolding arena_ok_def by blast

lemma arena_inside: "arena_ok r \<Longrightarrow> k < length (fr_blocks r) \<Longrightarrow>
    bl_offset (fr_blocks r ! k) + bl_size (fr_blocks r ! k) \<le> fr_byteSize r"
  by (simp add: arena_ok_def)

lemma record_ok_empty [simp]: "record_ok (r\<lparr>fr_byteSize := 0, fr_blocks := [], fr_root := NO_BLOCK\<rparr>)"
  unfolding record_ok_def
  by (intro conjI exI [of _ "\<langle>\<rangle>"]) (simp_all add: record_index_def ordered_def arena_ok_def)

section \<open>A new block in a record\<close>

definition plain_block :: "nat \<Rightarrow> nat \<Rightarrow> nat \<Rightarrow> Block" where
  "plain_block start offset extent = \<lparr>bl_address = start, bl_offset = offset, bl_size = extent, bl_left = NO_BLOCK,
     bl_right = NO_BLOCK, bl_height = 1\<rparr>"

lemma plain_block_simps [simp]:
  "bl_address (plain_block s off e) = s" "bl_offset (plain_block s off e) = off" "bl_size (plain_block s off e) = e"
  "bl_left (plain_block s off e) = NO_BLOCK" "bl_right (plain_block s off e) = NO_BLOCK"
  "bl_height (plain_block s off e) = 1"
  by (simp_all add: plain_block_def)

lemma same_payload_nth:
  "same_payload bs bs' \<Longrightarrow> bl_address (bs' ! k) = bl_address (bs ! k) \<and> bl_offset (bs' ! k) = bl_offset (bs ! k) \<and>
    bl_size (bs' ! k) = bl_size (bs ! k) \<and> block_end (bs' ! k) = block_end (bs ! k)"
  by (simp add: same_payload_def block_end_def)

lemma ordered_same:
  assumes "ordered bs xs" "\<And>x. x \<in> set xs \<Longrightarrow> bl_address (node bs' x) = bl_address (node bs x) \<and>
    bl_size (node bs' x) = bl_size (node bs x)"
  shows "ordered bs' xs"
proof -
  have "sorted_wrt (\<lambda>x y. block_end (node bs x) \<le> bl_address (node bs y)) xs" using assms(1) by (simp add: ordered_def)
  then have "sorted_wrt (\<lambda>x y. block_end (node bs' x) \<le> bl_address (node bs' y)) xs"
    by (rule sorted_wrt_mono_rel [rotated]) (simp add: assms(2) block_end_def)
  with assms show ?thesis by (simp add: ordered_def)
qed

lemma ordered_insert:
  assumes "ordered bs (xs @ ys)" "0 < bl_size (node bs i)" "\<forall>x \<in> set xs. block_end (node bs x) \<le> bl_address (node bs i)"
    "\<forall>y \<in> set ys. block_end (node bs i) \<le> bl_address (node bs y)"
  shows "ordered bs (xs @ [i] @ ys)"
  using assms by (auto simp: ordered_def sorted_wrt_append)

text \<open>Linking a range that the search found free.\<close>

lemma link_record_index:
  assumes t: "record_index r t" and len: "length (fr_blocks r) < 4294967295" and extent: "0 < extent"
    and free: "touch_search 64 (fr_blocks r) start extent (fr_root r) [] = Free_range ancestors"
    and link: "link_block (fr_blocks r) (fr_root r) ancestors (plain_block start offset extent) = (bs', root')"
    and r': "fr_blocks r' = bs'" "fr_root r' = root'"
  shows "(\<exists>t'. record_index r' t') \<and> same_payload (fr_blocks r @ [plain_block start offset extent]) bs'"
proof -
  let ?bs = "fr_blocks r" and ?b = "plain_block start offset extent"
  let ?ins = "word_of_nat (length ?bs) :: u32"
  have ins: "unat ?ins = length ?bs" using len by (intro unat_word_of_nat_small) simp
  from record_search [OF t len extent, of start] obtain c where c: "ancestors = path_nodes c" "t = plug \<langle>\<rangle> c"
    "\<forall>x \<in> set (path_before c). block_end (node ?bs x) \<le> start"
    "\<forall>x \<in> set (path_after c). start + extent \<le> bl_address (node ?bs x)"
    "\<forall>(toleft, a, s) \<in> set c. toleft \<longleftrightarrow> start < bl_address (node ?bs a)"
    by (auto simp: free)
  have "\<exists>t'. index_tree bs' root' t' \<and> avl t' \<and> same_payload (?bs @ [?b]) bs' \<and>
      inorder t' = path_before c @ [?ins] @ path_after c"
    by (rule link_block_index) (use t len c link in \<open>auto simp: record_index_def\<close>)
  then obtain t' where t': "index_tree bs' root' t'" "avl t'" "same_payload (?bs @ [?b]) bs'"
    "inorder t' = path_before c @ [?ins] @ path_after c" by blast
  have io: "inorder t = path_before c @ path_after c" using c(2) by (simp add: inorder_plug)
  have set_t: "set (path_before c) \<union> set (path_after c) = {x. unat x < length ?bs}"
    using t io by (metis record_index_def set_append set_inorder)
  have old: "node bs' x = node bs' x \<and> bl_address (node bs' x) = bl_address (node ?bs x) \<and>
      bl_size (node bs' x) = bl_size (node ?bs x) \<and> block_end (node bs' x) = block_end (node ?bs x)"
    if "x \<in> set (path_before c) \<union> set (path_after c)" for x
    using same_payload_nth [OF t'(3), of "unat x"] that set_t by (auto simp: nth_append)
  have new: "bl_address (node bs' ?ins) = start" "bl_size (node bs' ?ins) = extent" "block_end (node bs' ?ins) = start + extent"
    using same_payload_nth [OF t'(3), of "unat ?ins"] by (simp_all add: ins block_end_def)
  have sorted: "ordered ?bs (path_before c @ path_after c)" using t io by (simp add: record_index_def)
  have "ordered bs' (path_before c @ [?ins] @ path_after c)"
    by (intro ordered_insert ordered_same [OF sorted]) (use c(3,4) extent old new in auto)
  moreover have "distinct (path_before c @ [?ins] @ path_after c)"
  proof -
    have "?ins \<notin> set (path_before c) \<union> set (path_after c)" using ins unfolding set_t by simp
    then show ?thesis using t io by (auto simp: record_index_def)
  qed
  moreover have "set_tree t' = {x. unat x < length bs'}"
  proof -
    have "set_tree t' = insert ?ins {x. unat x < length ?bs}"
      using t'(4) set_t by (metis Un_insert_right append_Cons append_Nil list.set(2) set_append set_inorder)
    also have "\<dots> = {x. unat x < Suc (length ?bs)}"
      using ins unat_eq_unat_iff [of _ ?ins] by (auto simp: less_Suc_eq)
    finally show ?thesis using same_payload_length [OF t'(3)] by simp
  qed
  ultimately have "record_index r' t'"
    using t' len same_payload_length [OF t'(3)] by (simp add: record_index_def r')
  with t'(3) show ?thesis by blast
qed

section \<open>The live records\<close>

text \<open>The ring of slots as the list of its live records, the oldest first.\<close>

definition live :: "RollbackJournal \<Rightarrow> FrameRecord list" where
  "live j = map (record_at j) [0..<rj_frameCount j]"

definition ring_ok :: "RollbackJournal \<Rightarrow> bool" where
  "ring_ok j \<longleftrightarrow> rj_frameCount j \<le> length (rj_frames j) \<and> (rj_frames j \<noteq> [] \<longrightarrow> rj_firstFrame j < length (rj_frames j))"

lemma length_live [simp]: "length (live j) = rj_frameCount j"
  by (simp add: live_def)

lemma live_nth [simp]: "i < rj_frameCount j \<Longrightarrow> live j ! i = record_at j i"
  by (simp add: live_def)

lemma live_empty_iff: "live j = [] \<longleftrightarrow> rj_frameCount j = 0"
  by (simp add: live_def)

lemma live_eqI: "rj_frames k = rj_frames j \<Longrightarrow> rj_firstFrame k = rj_firstFrame j \<Longrightarrow> rj_frameCount k = rj_frameCount j \<Longrightarrow>
    live k = live j"
  by (simp add: live_def record_at_def record_slot_def)

lemma ring_ok_eqI: "rj_frames k = rj_frames j \<Longrightarrow> rj_firstFrame k = rj_firstFrame j \<Longrightarrow> rj_frameCount k = rj_frameCount j \<Longrightarrow>
    ring_ok k = ring_ok j"
  by (simp add: ring_ok_def)

lemma slot_less: "ring_ok j \<Longrightarrow> i < rj_frameCount j \<Longrightarrow> record_slot j i < length (rj_frames j)"
  unfolding ring_ok_def record_slot_def by (rule mod_less_divisor) linarith

lemma slot_inj:
  assumes "ring_ok j" "i < rj_frameCount j" "k < rj_frameCount j" "record_slot j i = record_slot j k"
  shows "i = k"
proof -
  have *: "a = b" if "a \<le> b" "b < rj_frameCount j" "record_slot j a = record_slot j b" for a b
  proof -
    have "(rj_firstFrame j + b) mod length (rj_frames j) = (rj_firstFrame j + a) mod length (rj_frames j)"
      using that by (simp add: record_slot_def)
    then have "length (rj_frames j) dvd (rj_firstFrame j + b) - (rj_firstFrame j + a)"
      using that(1) by (subst (asm) mod_eq_dvd_iff_nat) simp_all
    then have "length (rj_frames j) dvd b - a" by simp
    moreover have "b - a < length (rj_frames j)" using that assms(1) unfolding ring_ok_def by linarith
    ultimately have "b - a = 0" using nat_dvd_not_less by blast
    with that(1) show "a = b" by simp
  qed
  from assms * [of i k] * [of k i] show ?thesis by (metis nat_le_linear)
qed

lemma BackRecord_live: "rj_frameCount j \<noteq> 0 \<Longrightarrow> BackRecord j = last (live j)"
  by (simp add: BackRecord_def last_conv_nth live_empty_iff)

lemma live_split: "rj_frameCount j \<noteq> 0 \<Longrightarrow> live j = butlast (live j) @ [BackRecord j]"
  by (simp add: BackRecord_live live_empty_iff)

lemma set_back_fields [simp]:
  "rj_config (set_back j r) = rj_config j" "rj_firstFrame (set_back j r) = rj_firstFrame j"
  "rj_frameCount (set_back j r) = rj_frameCount j" "rj_configured (set_back j r) = rj_configured j"
  "rj_frameOpen (set_back j r) = rj_frameOpen j" "rj_failed (set_back j r) = rj_failed j"
  "rj_openFrame (set_back j r) = rj_openFrame j" "rj_readOnlyCaptureOpen (set_back j r) = rj_readOnlyCaptureOpen j"
  "rj_firstReadOnlyCaptureBlock (set_back j r) = rj_firstReadOnlyCaptureBlock j"
  "rj_pendingBlocks (set_back j r) = rj_pendingBlocks j" "rj_pendingBytes (set_back j r) = rj_pendingBytes j"
  "rj_stats (set_back j r) = rj_stats j" "rj_garbage (set_back j r) = rj_garbage j"
  "rj_arenaGrowths (set_back j r) = rj_arenaGrowths j"
  "length (rj_frames (set_back j r)) = length (rj_frames j)"
  by (simp_all add: set_back_def)

lemma set_back_frames: "set (rj_frames (set_back j r)) \<subseteq> insert r (set (rj_frames j))"
  by (simp add: set_back_def set_update_subset_insert)

lemma set_back_ring [simp]: "ring_ok (set_back j r) \<longleftrightarrow> ring_ok j"
proof -
  have "rj_frames (set_back j r) = [] \<longleftrightarrow> rj_frames j = []" by (simp add: set_back_def)
  then show ?thesis by (simp add: ring_ok_def)
qed

lemma live_set_back:
  assumes "ring_ok j" "rj_frameCount j \<noteq> 0"
  shows "live (set_back j r) = butlast (live j) @ [r]"
proof (rule nth_equalityI)
  fix i assume i: "i < length (live (set_back j r))"
  let ?n = "rj_frameCount j - 1"
  have n: "?n < rj_frameCount j" using assms(2) by simp
  have slot: "record_slot (set_back j r) k = record_slot j k" for k by (simp add: record_slot_def)
  have frames: "rj_frames (set_back j r) = (rj_frames j)[record_slot j ?n := r]" by (simp add: set_back_def)
  show "live (set_back j r) ! i = (butlast (live j) @ [r]) ! i"
  proof (cases "i = ?n")
    case True
    then show ?thesis
      using i slot_less [OF assms(1) n]
      by (simp add: nth_append record_at_def slot frames)
  next
    case False
    with i have less: "i < ?n" "i < rj_frameCount j" by simp_all
    with slot_inj [OF assms(1) less(2) n] have "record_slot j i \<noteq> record_slot j ?n" by auto
    with less show ?thesis
      by (simp add: nth_append nth_butlast record_at_def slot frames)
  qed
qed (use assms(2) in simp)

lemma BackRecord_set_back:
  assumes "ring_ok j" "rj_frameCount j \<noteq> 0"
  shows "BackRecord (set_back j r) = r"
  using BackRecord_live [of "set_back j r"] live_set_back [OF assms] assms(2) by simp

lemma butlast_set_back:
  assumes "ring_ok j" "rj_frameCount j \<noteq> 0"
  shows "butlast (live (set_back j r)) = butlast (live j)"
  by (simp add: live_set_back [OF assms])

text \<open>Dropping the newest record and the oldest one.\<close>

lemma live_pop: "live (j\<lparr>rj_frameCount := rj_frameCount j - 1\<rparr>) = butlast (live j)"
  by (rule nth_equalityI) (simp_all add: nth_butlast record_at_def record_slot_def)

lemma ring_ok_pop: "ring_ok j \<Longrightarrow> ring_ok (j\<lparr>rj_frameCount := rj_frameCount j - 1\<rparr>)"
  by (auto simp: ring_ok_def)

definition discard_one :: "RollbackJournal \<Rightarrow> RollbackJournal" where
  "discard_one j = j\<lparr>rj_firstFrame := (rj_firstFrame j + 1) mod length (rj_frames j), rj_frameCount := rj_frameCount j - 1\<rparr>"

lemma live_discard_one: "live (discard_one j) = tl (live j)"
proof (rule nth_equalityI)
  fix i assume i: "i < length (live (discard_one j))"
  have "(Suc (rj_firstFrame j) mod length (rj_frames j) + i) mod length (rj_frames j)
      = (rj_firstFrame j + Suc i) mod length (rj_frames j)"
    by (simp add: mod_add_left_eq)
  with i show "live (discard_one j) ! i = tl (live j) ! i"
    by (simp add: discard_one_def nth_tl record_at_def record_slot_def)
qed (simp add: discard_one_def)

lemma ring_ok_discard_one: "ring_ok j \<Longrightarrow> ring_ok (discard_one j)"
  by (auto simp: ring_ok_def discard_one_def)

text \<open>The slot of a fresh record: a free one, or that of the oldest record when the ring is full.\<close>

definition claim_slot :: "RollbackJournal \<Rightarrow> RollbackJournal" where
  "claim_slot j = (if rj_frameCount j = length (rj_frames j)
     then j\<lparr>rj_firstFrame := (rj_firstFrame j + 1) mod length (rj_frames j)\<rparr>
     else j\<lparr>rj_frameCount := rj_frameCount j + 1\<rparr>)"

lemma ring_ok_claim_slot: "ring_ok j \<Longrightarrow> rj_frames j \<noteq> [] \<Longrightarrow> ring_ok (claim_slot j) \<and> rj_frameCount (claim_slot j) \<noteq> 0"
  by (auto simp: ring_ok_def claim_slot_def)

lemma butlast_claim_slot:
  assumes "ring_ok j" "rj_frames j \<noteq> []"
  shows "butlast (live (claim_slot j)) = (if rj_frameCount j = length (rj_frames j) then tl (live j) else live j)"
proof (cases "rj_frameCount j = length (rj_frames j)")
  case True
  then have "claim_slot j = (discard_one j)\<lparr>rj_frameCount := rj_frameCount j\<rparr>"
    by (simp add: claim_slot_def discard_one_def)
  moreover have "live (discard_one j) = butlast (live ((discard_one j)\<lparr>rj_frameCount := rj_frameCount j\<rparr>))"
    unfolding live_pop [symmetric] by (rule live_eqI) (simp_all add: discard_one_def)
  ultimately show ?thesis using True live_discard_one [of j] by simp
next
  case False
  then have c: "claim_slot j = j\<lparr>rj_frameCount := rj_frameCount j + 1\<rparr>" by (simp add: claim_slot_def)
  have "live j = butlast (live (claim_slot j))"
    unfolding live_pop [symmetric] by (rule live_eqI) (simp_all add: c)
  with False show ?thesis by simp
qed

end
