(* ===== verification/JournalCapture.thy ===== *)
theory JournalCapture
  imports JournalRecords
begin

text \<open>
  What the copies of a record are worth. \<open>kept r D mem s\<close> says that record \<open>r\<close> holds the bytes of the
  memory \<open>s\<close> for every range it covers, where the blocks in \<open>D\<close> are deferred: their bytes are still in
  the running memory \<open>mem\<close>. Draining the deferred copies, growing the arena and capturing a block keep
  it; \<open>journal_ok\<close> collects what every operation maintains of the journal itself.
\<close>

section \<open>Ranges and copies\<close>

lemma ex_set_nth: "(\<exists>b \<in> set xs. P b) \<longleftrightarrow> (\<exists>i < length xs. P (xs ! i))"
  by (metis in_set_conv_nth)

definition covers :: "FrameRecord \<Rightarrow> nat \<Rightarrow> bool" where
  "covers r x \<longleftrightarrow> (\<exists>b \<in> set (fr_blocks r). bl_address b \<le> x \<and> x < block_end b)"

definition kept :: "FrameRecord \<Rightarrow> nat set \<Rightarrow> memory \<Rightarrow> memory \<Rightarrow> bool" where
  "kept r D mem s \<longleftrightarrow> (\<forall>k < length (fr_blocks r). \<forall>d < bl_size (fr_blocks r ! k).
     (if k \<in> D then mem (bl_address (fr_blocks r ! k) + d) else fr_bytes r (bl_offset (fr_blocks r ! k) + d))
       = s (bl_address (fr_blocks r ! k) + d))"

text \<open>The blocks of the open record whose copies are pending.\<close>

definition deferred :: "RollbackJournal \<Rightarrow> nat set" where
  "deferred j = (if rj_pendingBlocks j = 0 then {}
     else {k. rj_firstReadOnlyCaptureBlock j \<le> k \<and> k < length (fr_blocks (BackRecord j)) \<and>
            1024 \<le> bl_size (fr_blocks (BackRecord j) ! k)})"

lemma memcpy_at: "i < n \<Longrightarrow> memcpy dst to src from n (to + i) = src (from + i)"
  by (simp add: memcpy_def)

lemma memcpy_outside: "i < to \<or> to + n \<le> i \<Longrightarrow> memcpy dst to src from n i = dst i"
  by (auto simp: memcpy_def)

text \<open>The drain: the deferred blocks get the bytes of the running memory, the others keep theirs.\<close>

lemma flush_blocks_nth:
  assumes "arena_ok r" "k < length (fr_blocks r)" "d < bl_size (fr_blocks r ! k)"
  shows "flush_blocks mem (fr_blocks r) first bytes (bl_offset (fr_blocks r ! k) + d) =
    (if first \<le> k \<and> 1024 \<le> bl_size (fr_blocks r ! k) then mem (bl_address (fr_blocks r ! k) + d)
     else bytes (bl_offset (fr_blocks r ! k) + d))"
proof -
  let ?b = "\<lambda>i. fr_blocks r ! i" and ?x = "bl_offset (fr_blocks r ! k) + d"
  define step where "step = (\<lambda>bytes index. if 1024 \<le> bl_size (?b index)
    then memcpy bytes (bl_offset (?b index)) mem (bl_address (?b index)) (bl_size (?b index)) else bytes)"
  have other: "step acc i ?x = acc ?x" if "i < length (fr_blocks r)" "i \<noteq> k" for acc i
  proof (cases "i < k")
    case True
    with arena_disjoint [OF assms(1) True assms(2)] show ?thesis by (simp add: step_def memcpy_outside)
  next
    case False
    with that have "k < i" by simp
    from arena_disjoint [OF assms(1) this that(1)] assms(3) show ?thesis by (simp add: step_def memcpy_outside)
  qed
  have self: "step acc k ?x = (if 1024 \<le> bl_size (?b k) then mem (bl_address (?b k) + d) else acc ?x)" for acc
    using assms(3) by (simp add: step_def memcpy_at)
  have "foldl step bytes [first..<n] ?x =
      (if first \<le> k \<and> k < n \<and> 1024 \<le> bl_size (?b k) then mem (bl_address (?b k) + d) else bytes ?x)"
    if "n \<le> length (fr_blocks r)" for n
    using that
  proof (induction n)
    case (Suc n)
    show ?case
    proof (cases "first \<le> n")
      case True
      with Suc other [of n] self show ?thesis by (cases "n = k") (auto simp: upt_Suc_append)
    next
      case False
      then show ?thesis by auto
    qed
  qed simp
  from this [of "length (fr_blocks r)"] assms(2) show ?thesis
    by (simp add: flush_blocks_def step_def Let_def)
qed

lemma kept_flush:
  assumes "arena_ok r"
  shows "kept (r\<lparr>fr_bytes := flush_blocks mem (fr_blocks r) first (fr_bytes r)\<rparr>) {} mem s \<longleftrightarrow>
    kept r {k. first \<le> k \<and> k < length (fr_blocks r) \<and> 1024 \<le> bl_size (fr_blocks r ! k)} mem s"
  using flush_blocks_nth [OF assms] by (auto simp: kept_def)

text \<open>A record with more room, or with the bytes beyond its size replaced.\<close>

lemma kept_bytes:
  assumes "arena_ok r" "\<And>i. i < fr_byteSize r \<Longrightarrow> bytes i = fr_bytes r i"
  shows "kept (r\<lparr>fr_bytes := bytes, fr_byteCapacity := c\<rparr>) D mem s \<longleftrightarrow> kept r D mem s"
proof -
  have "bytes (bl_offset (fr_blocks r ! k) + d) = fr_bytes r (bl_offset (fr_blocks r ! k) + d)"
    if "k < length (fr_blocks r)" "d < bl_size (fr_blocks r ! k)" for k d
    using arena_inside [OF assms(1) that(1)] that(2) by (intro assms(2)) simp
  then show ?thesis by (auto simp: kept_def)
qed

lemma kept_memory:
  assumes "kept r D mem s" "\<And>x. covers r x \<Longrightarrow> x \<in> (\<Union>k \<in> D. {bl_address (fr_blocks r ! k)..<block_end (fr_blocks r ! k)}) \<Longrightarrow> mem' x = mem x"
  shows "kept r D mem' s"
  unfolding kept_def
proof (intro allI impI)
  fix k d assume k: "k < length (fr_blocks r)" "d < bl_size (fr_blocks r ! k)"
  have "mem' (bl_address (fr_blocks r ! k) + d) = mem (bl_address (fr_blocks r ! k) + d)" if "k \<in> D"
    by (rule assms(2)) (use k that in \<open>auto simp: covers_def block_end_def intro!: bexI [of _ k] bexI [of _ "fr_blocks r ! k"]\<close>)
  with assms(1) k show "(if k \<in> D then mem' (bl_address (fr_blocks r ! k) + d)
      else fr_bytes r (bl_offset (fr_blocks r ! k) + d)) = s (bl_address (fr_blocks r ! k) + d)"
    by (auto simp: kept_def)
qed

section \<open>Room in the arena\<close>

text \<open>The growth loop reaches the required size, at most the limit, in as many rounds as bytes are required.\<close>

lemma grow_enough:
  assumes "required \<le> limit" "0 < capacity" "capacity \<le> limit" "required \<le> capacity + n"
  shows "required \<le> grow_capacity n limit required capacity \<and> grow_capacity n limit required capacity \<le> limit"
  using assms
proof (induction n arbitrary: capacity)
  case (Suc n)
  show ?case
  proof (cases "capacity < required")
    case True
    let ?c = "if capacity \<le> limit div 2 then capacity * 2 else limit"
    have "?c \<le> limit" by auto
    moreover have "0 < ?c" "required \<le> ?c + n" using Suc.prems by (auto split: if_splits)
    ultimately show ?thesis using Suc.IH [OF Suc.prems(1), of ?c] True by simp
  qed (use Suc.prems in simp)
qed simp

lemma Flush_none [simp]: "rj_pendingBlocks j = 0 \<Longrightarrow> FlushReadOnlyCapture mem j = j"
  by (simp add: FlushReadOnlyCapture_def)

lemma Flush_fields [simp]:
  "rj_config (FlushReadOnlyCapture mem j) = rj_config j" "rj_firstFrame (FlushReadOnlyCapture mem j) = rj_firstFrame j"
  "rj_frameCount (FlushReadOnlyCapture mem j) = rj_frameCount j"
  "rj_configured (FlushReadOnlyCapture mem j) = rj_configured j"
  "rj_frameOpen (FlushReadOnlyCapture mem j) = rj_frameOpen j" "rj_failed (FlushReadOnlyCapture mem j) = rj_failed j"
  "rj_openFrame (FlushReadOnlyCapture mem j) = rj_openFrame j" "rj_garbage (FlushReadOnlyCapture mem j) = rj_garbage j"
  "rj_readOnlyCaptureOpen (FlushReadOnlyCapture mem j) = rj_readOnlyCaptureOpen j"
  "rj_pendingBlocks (FlushReadOnlyCapture mem j) = 0"
  "rj_arenaGrowths (FlushReadOnlyCapture mem j) = rj_arenaGrowths j"
  "length (rj_frames (FlushReadOnlyCapture mem j)) = length (rj_frames j)"
  by (simp_all add: FlushReadOnlyCapture_def Let_def)

definition drained :: "memory \<Rightarrow> RollbackJournal \<Rightarrow> FrameRecord" where
  "drained mem j = (if rj_pendingBlocks j = 0 then BackRecord j
     else (BackRecord j)\<lparr>fr_bytes := flush_blocks mem (fr_blocks (BackRecord j)) (rj_firstReadOnlyCaptureBlock j) (fr_bytes (BackRecord j))\<rparr>)"

lemma Flush_live:
  assumes "ring_ok j" "rj_frameCount j \<noteq> 0"
  shows "ring_ok (FlushReadOnlyCapture mem j)" "live (FlushReadOnlyCapture mem j) = butlast (live j) @ [drained mem j]"
    "BackRecord (FlushReadOnlyCapture mem j) = drained mem j"
proof -
  show ring: "ring_ok (FlushReadOnlyCapture mem j)"
  proof -
    have "rj_frames (FlushReadOnlyCapture mem j) = [] \<longleftrightarrow> rj_frames j = []"
      using Flush_fields(12) by (metis length_0_conv)
    with assms(1) show ?thesis by (simp add: ring_ok_def)
  qed
  show l: "live (FlushReadOnlyCapture mem j) = butlast (live j) @ [drained mem j]"
  proof (cases "rj_pendingBlocks j = 0")
    case True
    then show ?thesis using live_split [OF assms(2)] by (simp add: drained_def)
  next
    case False
    then have "live (FlushReadOnlyCapture mem j) = live (set_back j (drained mem j))"
      by (intro live_eqI) (simp_all add: FlushReadOnlyCapture_def drained_def Let_def)
    then show ?thesis by (simp add: live_set_back [OF assms])
  qed
  show "BackRecord (FlushReadOnlyCapture mem j) = drained mem j"
    using BackRecord_live [of "FlushReadOnlyCapture mem j"] assms(2) l by simp
qed

lemma drained_fields [simp]:
  "fr_blocks (drained mem j) = fr_blocks (BackRecord j)" "fr_root (drained mem j) = fr_root (BackRecord j)"
  "fr_byteSize (drained mem j) = fr_byteSize (BackRecord j)"
  "fr_byteCapacity (drained mem j) = fr_byteCapacity (BackRecord j)"
  "fr_startFrame (drained mem j) = fr_startFrame (BackRecord j)" "fr_endFrame (drained mem j) = fr_endFrame (BackRecord j)"
  by (simp_all add: drained_def)

lemma Flush_deferred [simp]: "deferred (FlushReadOnlyCapture mem j) = {}"
  by (simp add: deferred_def)

lemma Flush_frames: "set (rj_frames (FlushReadOnlyCapture mem j)) \<subseteq> insert (drained mem j) (set (rj_frames j))"
  using set_back_frames [of j "drained mem j"] by (auto simp: FlushReadOnlyCapture_def drained_def Let_def)

lemma kept_drained: "arena_ok (BackRecord j) \<Longrightarrow> kept (drained mem j) {} mem s \<longleftrightarrow> kept (BackRecord j) (deferred j) mem s"
  by (simp add: drained_def deferred_def kept_flush)

section \<open>The state of the journal\<close>

definition spans_ok :: "FrameRecord list \<Rightarrow> bool" where
  "spans_ok rs \<longleftrightarrow> sorted_wrt (\<lambda>r s. fr_endFrame r < fr_startFrame s) rs \<and> (\<forall>r \<in> set rs. fr_startFrame r \<le> fr_endFrame r)"

definition journal_ok :: "RollbackJournal \<Rightarrow> bool" where
  "journal_ok j \<longleftrightarrow> ring_ok j \<and>
     (\<forall>r \<in> set (live j). record_ok r \<and> length (fr_blocks r) \<le> jc_maxBlocksPerFrame (rj_config j)) \<and>
     (\<forall>r \<in> set (rj_frames j). fr_byteCapacity r \<le> jc_maxBytesPerFrame (rj_config j)) \<and> spans_ok (live j) \<and>
     (rj_frameCount j \<noteq> 0 \<longrightarrow> rj_configured j) \<and>
     (rj_configured j \<longrightarrow> rj_frames j \<noteq> [] \<and> jc_maxBlocksPerFrame (rj_config j) < 4294967295 \<and>
        length (rj_frames j) = jc_maxFrames (rj_config j)) \<and>
     (rj_frameOpen j \<longrightarrow> rj_frameCount j \<noteq> 0) \<and> (rj_readOnlyCaptureOpen j \<longrightarrow> rj_frameOpen j) \<and>
     (rj_pendingBlocks j \<noteq> 0 \<longrightarrow> rj_readOnlyCaptureOpen j \<and>
        rj_firstReadOnlyCaptureBlock j \<le> length (fr_blocks (BackRecord j)))"

text \<open>
  Record \<open>i\<close> turns memory \<open>S ! Suc i\<close> (the last one: \<open>m\<close>) back into \<open>S ! i\<close>: it holds the bytes of \<open>S ! i\<close>
  where it covers them, and elsewhere the two agree.
\<close>

definition chain :: "FrameRecord list \<Rightarrow> memory list \<Rightarrow> memory \<Rightarrow> bool" where
  "chain rs S m \<longleftrightarrow> length S = length rs \<and> (\<forall>i < length rs. kept (rs ! i) {} (S ! i) (S ! i) \<and>
     (\<forall>x. \<not> covers (rs ! i) x \<longrightarrow> (S ! i) x = ((S @ [m]) ! Suc i) x))"

text \<open>The snapshots \<open>S\<close> are what the live records restore, the deferred copies read from \<open>mem\<close>.\<close>

definition recorded :: "RollbackJournal \<Rightarrow> memory \<Rightarrow> memory list \<Rightarrow> bool" where
  "recorded j mem S \<longleftrightarrow> (if rj_frameCount j = 0 then S = []
     else S \<noteq> [] \<and> chain (butlast (live j)) (butlast S) (last S) \<and> kept (BackRecord j) (deferred j) mem (last S) \<and>
       (\<forall>x. \<not> covers (BackRecord j) x \<longrightarrow> last S x = mem x))"

lemma kept_none: "kept r {} m s = kept r {} s s"
  by (simp add: kept_def)

lemma chain_Nil [simp]: "chain [] S m \<longleftrightarrow> S = []"
  by (simp add: chain_def)

lemma chain_snoc:
  "chain (rs @ [r]) (S @ [s]) m \<longleftrightarrow> chain rs S s \<and> kept r {} s s \<and> (\<forall>x. \<not> covers r x \<longrightarrow> s x = m x)"
  by (auto simp: chain_def nth_append less_Suc_eq all_conj_distrib)

lemma chain_butlast:
  assumes "rs \<noteq> []"
  shows "chain rs S m \<longleftrightarrow> S \<noteq> [] \<and> chain (butlast rs) (butlast S) (last S) \<and> kept (last rs) {} (last S) (last S) \<and>
    (\<forall>x. \<not> covers (last rs) x \<longrightarrow> last S x = m x)"
proof (cases "S = []")
  case True
  with assms show ?thesis by (simp add: chain_def)
next
  case False
  with chain_snoc [of "butlast rs" "last rs" "butlast S" "last S" m] assms show ?thesis by simp
qed

lemma chain_tl: "chain rs S m \<Longrightarrow> chain (tl rs) (tl S) m"
  by (cases rs; cases S) (fastforce simp: chain_def)+

lemma recorded_chain:
  assumes "rj_pendingBlocks j = 0"
  shows "recorded j mem S \<longleftrightarrow> chain (live j) S mem"
proof (cases "rj_frameCount j = 0")
  case True
  then show ?thesis using live_empty_iff [of j] by (simp add: recorded_def del: live_empty_iff)
next
  case False
  with assms show ?thesis
    by (simp add: recorded_def chain_butlast BackRecord_live live_empty_iff deferred_def kept_none [of _ mem])
qed

lemma recorded_length: "recorded j mem S \<Longrightarrow> length S = rj_frameCount j"
proof -
  assume r: "recorded j mem S"
  show ?thesis
  proof (cases "rj_frameCount j = 0")
    case False
    with r have "length (butlast S) = length (butlast (live j))" "S \<noteq> []" by (simp_all add: recorded_def chain_def)
    with False show ?thesis by (cases S rule: rev_cases) simp_all
  qed (use r in \<open>simp add: recorded_def\<close>)
qed

lemma BackRecord_in: "rj_frameCount j \<noteq> 0 \<Longrightarrow> BackRecord j \<in> set (live j)"
  using live_split [of j] by (metis in_set_conv_decomp)

lemma live_subset: "ring_ok j \<Longrightarrow> set (live j) \<subseteq> set (rj_frames j)"
  using slot_less [of j] by (auto simp: live_def record_at_def)

lemma journal_ok_back:
  assumes "journal_ok j" "rj_frameCount j \<noteq> 0"
  shows "record_ok (BackRecord j)" "arena_ok (BackRecord j)" "ring_ok j"
    "length (fr_blocks (BackRecord j)) \<le> jc_maxBlocksPerFrame (rj_config j)"
    "jc_maxBlocksPerFrame (rj_config j) < 4294967295"
    "fr_byteCapacity (BackRecord j) \<le> jc_maxBytesPerFrame (rj_config j)"
    "fr_byteSize (BackRecord j) \<le> fr_byteCapacity (BackRecord j)"
proof -
  have "BackRecord j \<in> set (live j)" by (rule BackRecord_in [OF assms(2)])
  moreover from this have "BackRecord j \<in> set (rj_frames j)"
    using live_subset [of j] assms(1) by (auto simp: journal_ok_def)
  ultimately show "record_ok (BackRecord j)" "arena_ok (BackRecord j)" "ring_ok j"
    "length (fr_blocks (BackRecord j)) \<le> jc_maxBlocksPerFrame (rj_config j)"
    "jc_maxBlocksPerFrame (rj_config j) < 4294967295"
    "fr_byteCapacity (BackRecord j) \<le> jc_maxBytesPerFrame (rj_config j)"
    "fr_byteSize (BackRecord j) \<le> fr_byteCapacity (BackRecord j)"
    using assms by (auto simp: journal_ok_def record_ok_def arena_ok_def)
qed

text \<open>An operation that replaces the newest record, keeping its frames.\<close>

lemma journal_ok_newest:
  assumes j: "journal_ok j" "rj_frameCount j \<noteq> 0"
    and r: "record_ok r" "length (fr_blocks r) \<le> jc_maxBlocksPerFrame (rj_config j)"
      "fr_byteCapacity r \<le> jc_maxBytesPerFrame (rj_config j)"
      "fr_startFrame r = fr_startFrame (BackRecord j)" "fr_endFrame (BackRecord j) \<le> fr_endFrame r"
    and k: "ring_ok k" "live k = butlast (live j) @ [r]" "set (rj_frames k) \<subseteq> insert r (set (rj_frames j))"
      "length (rj_frames k) = length (rj_frames j)" "rj_config k = rj_config j" "rj_configured k = rj_configured j"
      "rj_readOnlyCaptureOpen k \<longrightarrow> rj_frameOpen k"
      "rj_pendingBlocks k \<noteq> 0 \<longrightarrow> rj_readOnlyCaptureOpen k \<and> rj_firstReadOnlyCaptureBlock k \<le> length (fr_blocks r)"
  shows "journal_ok k"
proof -
  have split: "live j = butlast (live j) @ [BackRecord j]" by (rule live_split [OF j(2)])
  have "spans_ok (butlast (live j) @ [BackRecord j])" using j(1) split by (simp add: journal_ok_def)
  then have "spans_ok (live k)" using r(4,5) k(2) by (auto simp: spans_ok_def sorted_wrt_append)
  moreover have "\<forall>x \<in> set (live k). record_ok x \<and> length (fr_blocks x) \<le> jc_maxBlocksPerFrame (rj_config k)"
    using j(1) r k(2,5) by (auto simp: journal_ok_def dest: in_set_butlastD)
  moreover have n: "rj_frameCount k \<noteq> 0" using k(2) live_empty_iff [of k] by force
  moreover have "BackRecord k = r" using BackRecord_live [OF n] k(2) by simp
  moreover have "rj_frames k \<noteq> []" using k(4) j by (auto simp: journal_ok_def)
  moreover have "\<forall>x \<in> set (rj_frames k). fr_byteCapacity x \<le> jc_maxBytesPerFrame (rj_config k)"
    using j(1) r(3) k(3,5) by (auto simp: journal_ok_def)
  ultimately show ?thesis
    using j k by (simp add: journal_ok_def)
qed

lemma recorded_newest:
  assumes "recorded j mem S" "rj_frameCount j \<noteq> 0" "live k = butlast (live j) @ [r]"
    "kept r (deferred k) mem (last S)" "\<And>x. covers (BackRecord j) x \<Longrightarrow> covers r x"
  shows "recorded k mem S"
proof -
  have n: "rj_frameCount k \<noteq> 0" using assms(3) live_empty_iff [of k] by force
  have "butlast (live k) = butlast (live j)" "BackRecord k = r"
    using BackRecord_live [OF n] assms(3) by simp_all
  with assms n show ?thesis by (auto simp: recorded_def)
qed

lemma covers_blocks: "fr_blocks r = fr_blocks s \<Longrightarrow> covers r x = covers s x"
  by (simp add: covers_def)

lemma record_ok_arena: "record_ok r \<Longrightarrow> fr_blocks s = fr_blocks r \<Longrightarrow> fr_root s = fr_root r \<Longrightarrow> fr_byteSize s = fr_byteSize r \<Longrightarrow>
    fr_byteSize s \<le> fr_byteCapacity s \<Longrightarrow> record_ok s"
  by (simp add: record_ok_def record_index_def arena_ok_def)

lemma Flush_ok:
  assumes "journal_ok j" "recorded j mem S"
  shows "journal_ok (FlushReadOnlyCapture mem j)" "recorded (FlushReadOnlyCapture mem j) mem S"
proof -
  let ?k = "FlushReadOnlyCapture mem j"
  have "journal_ok ?k \<and> recorded ?k mem S"
  proof (cases "rj_pendingBlocks j = 0")
    case True
    with assms show ?thesis by simp
  next
    case False
    then have n: "rj_frameCount j \<noteq> 0" using assms(1) by (auto simp: journal_ok_def)
    note b = journal_ok_back [OF assms(1) n] and l = Flush_live [OF journal_ok_back(3) [OF assms(1) n] n, of mem]
    have "journal_ok ?k"
      by (rule journal_ok_newest [OF assms(1) n _ _ _ _ _ l(1,2) Flush_frames])
        (use b assms(1) in \<open>auto simp: journal_ok_def intro: record_ok_arena [OF b(1)]\<close>)
    moreover have "recorded ?k mem S"
      by (rule recorded_newest [OF assms(2) n l(2)])
        (use assms(2) n b(2) in \<open>auto simp: kept_drained recorded_def covers_def\<close>)
    ultimately show ?thesis by blast
  qed
  then show "journal_ok ?k" "recorded ?k mem S" by auto
qed

lemma BackRecord_eqI: "rj_frames k = rj_frames j \<Longrightarrow> rj_firstFrame k = rj_firstFrame j \<Longrightarrow> rj_frameCount k = rj_frameCount j \<Longrightarrow>
    BackRecord k = BackRecord j"
  by (simp add: BackRecord_def record_at_def record_slot_def)

text \<open>Updates of fields that neither invariant reads.\<close>

lemma journal_ok_other:
  assumes "rj_config k = rj_config j" "rj_frames k = rj_frames j" "rj_firstFrame k = rj_firstFrame j"
    "rj_frameCount k = rj_frameCount j" "rj_configured k = rj_configured j" "rj_frameOpen k = rj_frameOpen j"
    "rj_readOnlyCaptureOpen k = rj_readOnlyCaptureOpen j" "rj_pendingBlocks k = rj_pendingBlocks j"
    "rj_firstReadOnlyCaptureBlock k = rj_firstReadOnlyCaptureBlock j"
  shows "journal_ok k \<longleftrightarrow> journal_ok j"
  using assms live_eqI [of k j] ring_ok_eqI [of k j] BackRecord_eqI [of k j] by (simp add: journal_ok_def)

lemma same_ring:
  assumes "rj_frames k = rj_frames j" "rj_firstFrame k = rj_firstFrame j" "rj_frameCount k = rj_frameCount j"
  shows "live k = live j \<and> ring_ok k = ring_ok j \<and> BackRecord k = BackRecord j"
  using live_eqI [OF assms] ring_ok_eqI [OF assms] BackRecord_eqI [OF assms] by simp

lemma recorded_other:
  assumes "rj_frames k = rj_frames j" "rj_firstFrame k = rj_firstFrame j" "rj_frameCount k = rj_frameCount j"
    "deferred k = deferred j"
  shows "recorded k mem S \<longleftrightarrow> recorded j mem S"
  using assms live_eqI [of k j] BackRecord_eqI [of k j] by (simp add: recorded_def)

section \<open>Growing the arena\<close>

text \<open>What a successful request for room guarantees.\<close>

definition room_made :: "RollbackJournal \<Rightarrow> nat \<Rightarrow> RollbackJournal \<Rightarrow> bool" where
  "room_made j required k \<longleftrightarrow> rj_frameCount k = rj_frameCount j \<and> rj_config k = rj_config j \<and>
     rj_failed k = rj_failed j \<and> rj_frameOpen k = rj_frameOpen j \<and>
     rj_readOnlyCaptureOpen k = rj_readOnlyCaptureOpen j \<and> required \<le> fr_byteCapacity (BackRecord k) \<and>
     fr_blocks (BackRecord k) = fr_blocks (BackRecord j) \<and> fr_root (BackRecord k) = fr_root (BackRecord j) \<and>
     fr_byteSize (BackRecord k) = fr_byteSize (BackRecord j) \<and>
     fr_startFrame (BackRecord k) = fr_startFrame (BackRecord j) \<and> fr_endFrame (BackRecord k) = fr_endFrame (BackRecord j)"

lemma EnsureByteCapacity_ok:
  assumes j: "journal_ok j" "rj_frameCount j \<noteq> 0" "recorded j mem S"
    and required: "fr_byteSize (BackRecord j) < required" "required \<le> jc_maxBytesPerFrame (rj_config j)"
    and E: "EnsureByteCapacity mem j required = (ok, k)"
  shows "ok \<and> journal_ok k \<and> recorded k mem S \<and> room_made j required k"
proof (cases "required \<le> fr_byteCapacity (BackRecord j)")
  case True
  with E required j show ?thesis by (auto simp: EnsureByteCapacity_def Let_def room_made_def)
next
  case False
  let ?f = "FlushReadOnlyCapture mem j" and ?limit = "jc_maxBytesPerFrame (rj_config j)"
  note b = journal_ok_back [OF j(1,2)] and f = Flush_live [OF journal_ok_back(3) [OF j(1,2)] j(2), of mem]
  have nf: "rj_frameCount ?f \<noteq> 0" using j(2) by simp
  define capacity where "capacity = grow_capacity required ?limit required
    (if fr_byteCapacity (BackRecord j) \<noteq> 0 then fr_byteCapacity (BackRecord j) else min ?limit (256 * 1024))"
  define bytes where "bytes = (if fr_byteSize (BackRecord j) \<noteq> 0
    then memcpy (rj_garbage j) 0 (fr_bytes (drained mem j)) 0 (fr_byteSize (BackRecord j)) else rj_garbage j)"
  define r where "r = (drained mem j)\<lparr>fr_bytes := bytes, fr_byteCapacity := capacity\<rparr>"
  have k: "ok" "k = (set_back ?f r)\<lparr>rj_arenaGrowths := rj_arenaGrowths j + 1\<rparr>"
    using E False required(2) by (auto simp: EnsureByteCapacity_def Let_def f(3) r_def bytes_def capacity_def)
  have cap: "required \<le> capacity" "capacity \<le> ?limit"
    using grow_enough [of required ?limit "if fr_byteCapacity (BackRecord j) \<noteq> 0 then fr_byteCapacity (BackRecord j) else min ?limit (256 * 1024)" required]
      required b(6) by (auto simp: capacity_def)
  have bytes: "bytes i = fr_bytes (drained mem j) i" if "i < fr_byteSize (drained mem j)" for i
    using that by (auto simp: bytes_def memcpy_def)
  have arena: "arena_ok (drained mem j)" using b(2) by (simp add: arena_ok_def)
  have lk: "live k = butlast (live j) @ [r]"
  proof -
    have "live k = live (set_back ?f r)" by (rule live_eqI) (simp_all add: k(2))
    then show ?thesis by (simp add: live_set_back [OF f(1) nf] f(2))
  qed
  have ok_r: "record_ok r" unfolding r_def by (rule record_ok_arena [OF b(1)]) (use required cap in simp_all)
  have frames: "set (rj_frames k) \<subseteq> insert r (insert (drained mem j) (set (rj_frames j)))"
    using set_back_frames [of ?f r] Flush_frames [of mem j] by (auto simp: k(2))
  have ring: "ring_ok k"
  proof -
    have "ring_ok k = ring_ok (set_back ?f r)" by (rule ring_ok_eqI) (simp_all add: k(2))
    with f(1) show ?thesis by simp
  qed
  have jf: "journal_ok ?f" "recorded ?f mem S" using Flush_ok [OF j(1,3)] by auto
  have "journal_ok k"
    by (rule journal_ok_newest [OF jf(1) nf ok_r _ _ _ _ ring])
      (use lk f b cap jf(1) set_back_frames [of ?f r] in \<open>auto simp: r_def k(2) journal_ok_def\<close>)
  moreover have "kept r (deferred k) mem (last S)"
  proof -
    have "kept (drained mem j) {} mem (last S)"
      using jf(2) nf by (simp add: recorded_def f(3))
    moreover have "deferred k = {}" by (simp add: deferred_def k(2))
    moreover have "kept r {} mem (last S) = kept (drained mem j) {} mem (last S)"
      unfolding r_def by (rule kept_bytes [OF arena]) (rule bytes)
    ultimately show ?thesis by simp
  qed
  then have "recorded k mem S"
    by (rule recorded_newest [OF j(3,2) lk]) (simp add: r_def covers_def)
  moreover have "BackRecord k = r"
    using BackRecord_live [of k] lk j(2) by (simp add: k(2))
  ultimately show ?thesis using cap by (simp add: k room_made_def r_def)
qed

section \<open>Capturing a block\<close>

lemma capture_block_ok:
  assumes j: "journal_ok j" "rj_frameCount j \<noteq> 0" "recorded j mem S" "rj_frameOpen j"
    and extent: "0 < extent"
    and free: "touch_search 64 (fr_blocks (BackRecord j)) start extent (fr_root (BackRecord j)) [] = Free_range ancestors"
    and room: "length (fr_blocks (BackRecord j)) < jc_maxBlocksPerFrame (rj_config j)"
      "fr_byteSize (BackRecord j) + extent \<le> fr_byteCapacity (BackRecord j)"
    and K: "k = capture_block mem j start extent ancestors"
  shows "journal_ok k \<and> recorded k mem S \<and> rj_failed k = rj_failed j \<and> rj_frameOpen k = rj_frameOpen j \<and>
    (\<forall>x. covers (BackRecord k) x \<longleftrightarrow> covers (BackRecord j) x \<or> start \<le> x \<and> x < start + extent) \<and>
    map (\<lambda>b. (bl_address b, bl_size b)) (fr_blocks (BackRecord k)) =
      map (\<lambda>b. (bl_address b, bl_size b)) (fr_blocks (BackRecord j)) @ [(start, extent)]"
proof -
  let ?r = "BackRecord j"
  note b = journal_ok_back [OF j(1,2)]
  have uncovered: "\<not> covers ?r x" if "start \<le> x" "x < start + extent" for x
  proof
    assume "covers ?r x"
    then obtain c where "c \<in> set (fr_blocks ?r)" "bl_address c \<le> x" "x < block_end c"
      by (auto simp: covers_def)
    moreover from this that have "overlaps c start extent" by (simp add: overlaps_def)
    ultimately show False using search_verdicts(3) [OF b(1) _ extent, of start] free b(4,5) by auto
  qed
  define n where "n = length (fr_blocks ?r)"
  define offset where "offset = fr_byteSize ?r"
  define deferring where "deferring \<longleftrightarrow> rj_readOnlyCaptureOpen j \<and> 1024 \<le> extent"
  define bytes where "bytes = (if deferring then fr_bytes ?r else memcpy (fr_bytes ?r) offset mem start extent)"
  obtain bs root where link: "link_block (fr_blocks ?r) (fr_root ?r) ancestors (plain_block start offset extent) = (bs, root)"
    by (cases "link_block (fr_blocks ?r) (fr_root ?r) ancestors (plain_block start offset extent)")
  define r where "r = ?r\<lparr>fr_bytes := bytes, fr_byteSize := offset + extent, fr_blocks := bs, fr_root := root\<rparr>"
  obtain t where t: "record_index ?r t" using b(1) by (auto simp: record_ok_def)
  have len: "n < 4294967295" using room(1) b(5) by (simp add: n_def)
  have idx: "\<exists>t'. record_index r t'" and pay: "same_payload (fr_blocks ?r @ [plain_block start offset extent]) bs"
    using link_record_index [OF t _ extent free link, of r] len by (auto simp: r_def n_def)
  have length_bs: "length bs = Suc n" using same_payload_length [OF pay] by (simp add: n_def)
  have old: "bl_address (bs ! i) = bl_address (fr_blocks ?r ! i) \<and> bl_offset (bs ! i) = bl_offset (fr_blocks ?r ! i) \<and>
      bl_size (bs ! i) = bl_size (fr_blocks ?r ! i) \<and> block_end (bs ! i) = block_end (fr_blocks ?r ! i)" if "i < n" for i
    using same_payload_nth [OF pay, of i] that by (simp add: nth_append n_def)
  have new: "bl_address (bs ! n) = start" "bl_offset (bs ! n) = offset" "bl_size (bs ! n) = extent"
      "block_end (bs ! n) = start + extent"
    using same_payload_nth [OF pay, of n] by (simp_all add: nth_append n_def block_end_def)
  have arena: "arena_ok r"
    unfolding arena_ok_def sorted_wrt_iff_nth_less
  proof (intro conjI allI impI ballI)
    fix i m assume "i < m" "m < length (fr_blocks r)"
    then show "bl_offset (fr_blocks r ! i) + bl_size (fr_blocks r ! i) \<le> bl_offset (fr_blocks r ! m)"
      using old [of i] old [of m] new arena_disjoint [OF b(2), of i m] arena_inside [OF b(2), of i] length_bs
      by (cases "m = n") (auto simp: r_def n_def offset_def)
  next
    fix c assume "c \<in> set (fr_blocks r)"
    then obtain i where "i \<le> n" "c = bs ! i" by (auto simp: r_def in_set_conv_nth length_bs less_Suc_eq_le)
    then show "bl_offset c + bl_size c \<le> fr_byteSize r"
      using old [of i] new arena_inside [OF b(2), of i] by (cases "i = n") (auto simp: r_def n_def offset_def)
  qed (use room(2) in \<open>simp add: r_def offset_def\<close>)
  have ok_r: "record_ok r" using idx arena by (simp add: record_ok_def)
  have K': "k = (if deferring then (set_back j r)\<lparr>rj_firstReadOnlyCaptureBlock :=
                  (if rj_pendingBlocks j = 0 then n else rj_firstReadOnlyCaptureBlock j),
                rj_pendingBlocks := rj_pendingBlocks j + 1, rj_pendingBytes := rj_pendingBytes j + extent,
                rj_stats := (rj_stats j)\<lparr>cs_deferredBlocks := cs_deferredBlocks (rj_stats j) + 1,
                  cs_deferredBytes := cs_deferredBytes (rj_stats j) + word_of_nat extent\<rparr>\<rparr> else set_back j r)"
    unfolding K capture_block_def Let_def plain_block_def [symmetric] offset_def [symmetric] link
    by (simp add: deferring_def r_def bytes_def n_def)
  have lk: "live k = butlast (live j) @ [r]"
    using live_set_back [OF b(3) j(2), of r] live_eqI [of k "set_back j r"] by (simp add: K')
  have back_k: "BackRecord k = r" using BackRecord_live [of k] lk j(2) by (simp add: K')
  have "journal_ok k"
    by (rule journal_ok_newest [OF j(1,2) ok_r _ _ _ _ _ lk])
      (use b j(1) room(1) set_back_frames [of j r] ring_ok_eqI [of k "set_back j r"] j(4) in
        \<open>auto simp: K' r_def length_bs n_def journal_ok_def deferring_def\<close>)
  moreover have cov: "covers r x \<longleftrightarrow> covers ?r x \<or> start \<le> x \<and> x < start + extent" for x
  proof -
    have "covers r x \<longleftrightarrow> (\<exists>i < Suc n. bl_address (bs ! i) \<le> x \<and> x < block_end (bs ! i))"
      by (simp add: covers_def ex_set_nth r_def length_bs)
    also have "\<dots> \<longleftrightarrow> (\<exists>i < n. bl_address (bs ! i) \<le> x \<and> x < block_end (bs ! i)) \<or> start \<le> x \<and> x < start + extent"
      by (auto simp: less_Suc_eq new)
    also have "(\<exists>i < n. bl_address (bs ! i) \<le> x \<and> x < block_end (bs ! i)) \<longleftrightarrow> covers ?r x"
      by (auto simp: covers_def ex_set_nth old n_def)
    finally show ?thesis .
  qed
  moreover have dk: "deferred k = (if deferring then insert n (deferred j) else deferred j)"
  proof (cases "rj_pendingBlocks j = 0")
    case True
    then show ?thesis
      using new(3) by (auto simp: deferred_def K' BackRecord_set_back [OF b(3) j(2)] BackRecord_eqI [of _ "set_back j r"] r_def length_bs deferring_def)
  next
    case False
    then have "rj_readOnlyCaptureOpen j" "rj_firstReadOnlyCaptureBlock j \<le> n"
      using j(1) by (simp_all add: journal_ok_def n_def)
    with False show ?thesis
      using new(3) old by (auto simp: deferred_def back_k r_def length_bs deferring_def less_Suc_eq n_def [symmetric]) (auto simp: K' deferring_def split: if_splits)
  qed
  have D: "n \<notin> deferred j" by (simp add: deferred_def n_def)
  have "kept r (deferred k) mem (last S)"
    unfolding kept_def
  proof (intro allI impI)
    fix i d assume i: "i < length (fr_blocks r)" and d: "d < bl_size (fr_blocks r ! i)"
    show "(if i \<in> deferred k then mem (bl_address (fr_blocks r ! i) + d) else fr_bytes r (bl_offset (fr_blocks r ! i) + d))
        = last S (bl_address (fr_blocks r ! i) + d)"
    proof (cases "i = n")
      case True
      then have "\<not> covers ?r (start + d)"
        using uncovered d new by (simp add: r_def)
      then have "last S (start + d) = mem (start + d)" using j(2,3) by (simp add: recorded_def)
      with True d new dk D show ?thesis by (auto simp: r_def bytes_def memcpy_at)
    next
      case False
      with i have "i < n" by (simp add: r_def length_bs)
      moreover from this have "bytes (bl_offset (fr_blocks ?r ! i) + d) = fr_bytes ?r (bl_offset (fr_blocks ?r ! i) + d)"
        using arena_inside [OF b(2), of i] d old [of i] by (simp add: bytes_def memcpy_outside r_def n_def offset_def)
      moreover have "kept ?r (deferred j) mem (last S)" using j(2,3) by (simp add: recorded_def)
      ultimately show ?thesis using False d old [of i] dk by (auto simp: kept_def r_def n_def)
    qed
  qed
  then have "recorded k mem S"
    by (rule recorded_newest [OF j(3,2) lk]) (use cov in simp)
  moreover have "map (\<lambda>b. (bl_address b, bl_size b)) (fr_blocks r) =
      map (\<lambda>b. (bl_address b, bl_size b)) (fr_blocks ?r) @ [(start, extent)]"
    by (rule nth_equalityI) (use old new in \<open>auto simp: r_def length_bs nth_append n_def less_Suc_eq\<close>)
  ultimately show ?thesis by (simp add: back_k cov) (simp add: K')
qed

end
