(* ===== verification/JournalUndo.thy ===== *)
theory JournalUndo
  imports JournalCapture
begin

text \<open>
  Runs of the journal with the game that uses it, and what \<^verbatim>\<open>UndoTo\<close> restores. A run interleaves the
  operations of the journal with writes of the game, which touch only memory the open record covers
  and never happen inside a read-only capture; it remembers the memory at the start of every live
  record. \<open>UndoTo\<close> gives exactly that memory back, with or without coalescing.
\<close>

section \<open>Touch\<close>

lemma failed_ok:
  assumes "journal_ok j" "recorded j mem S"
  shows "journal_ok (j\<lparr>rj_failed := True\<rparr>)" "recorded (j\<lparr>rj_failed := True\<rparr>) mem S"
proof -
  let ?f = "j\<lparr>rj_failed := True\<rparr>"
  show "journal_ok ?f" using assms(1) journal_ok_other [of ?f j] by simp
  have "deferred ?f = deferred j"
    by (simp add: deferred_def BackRecord_eqI [of ?f j])
  then show "recorded ?f mem S" using assms(2) recorded_other [of ?f j] by simp
qed

lemma reject_touch_ok:
  assumes "journal_ok j" "recorded j mem S" "reject_touch mem j = (ok, k)"
  shows "\<not> ok \<and> journal_ok k \<and> recorded k mem S \<and> rj_failed k \<and> rj_frameOpen k = rj_frameOpen j"
  using Flush_ok [OF failed_ok [OF assms(1,2)]] assms(3) by (auto simp: reject_touch_def)

lemma CurrentRecord_open: "journal_ok j \<Longrightarrow> CurrentRecord j = (if rj_frameOpen j then Some (BackRecord j) else None)"
  by (auto simp: CurrentRecord_def journal_ok_def)

text \<open>A touch that is not refused: what it decides, and the state it leaves.\<close>

lemma Touch_ok:
  assumes j: "journal_ok j" "recorded j mem S" and T: "Touch ptrMax mem j start extent = (ok, k)"
  shows "journal_ok k \<and> recorded k mem S \<and> rj_frameOpen k = rj_frameOpen j \<and>
    (rj_frameOpen j \<and> \<not> rj_failed j \<and> 0 < start \<and> 0 < extent \<and> start + extent \<le> ptrMax \<longrightarrow>
      ok = ((\<exists>b \<in> set (fr_blocks (BackRecord j)). exact b start extent) \<or>
        (\<forall>b \<in> set (fr_blocks (BackRecord j)). \<not> overlaps b start extent) \<and>
        length (fr_blocks (BackRecord j)) < jc_maxBlocksPerFrame (rj_config j) \<and>
        fr_byteSize (BackRecord j) + extent \<le> jc_maxBytesPerFrame (rj_config j)) \<and>
      rj_failed k = (\<not> ok) \<and>
      (ok \<longrightarrow> (\<forall>x. covers (BackRecord k) x \<longleftrightarrow> covers (BackRecord j) x \<or> start \<le> x \<and> x < start + extent)))"
proof (cases "rj_frameOpen j \<and> \<not> rj_failed j \<and> 0 < start \<and> 0 < extent")
  case False
  then have "k = FlushReadOnlyCapture mem j"
    using T by (auto simp: Touch_def CurrentRecord_open [OF j(1)] split: if_splits)
  with Flush_ok [OF j] False show ?thesis by auto
next
  case True
  then have n: "rj_frameCount j \<noteq> 0" using j(1) by (simp add: journal_ok_def)
  note b = journal_ok_back [OF j(1) n] and rej = reject_touch_ok [OF j]
  let ?r = "BackRecord j"
  let ?res = "touch_search 64 (fr_blocks ?r) start extent (fr_root ?r) []"
  have len: "length (fr_blocks ?r) < 4294967295" using b(4,5) by simp
  have "0 < extent" using True by simp
  note v = search_verdicts [OF b(1) len this, of start]
  have T': "Touch ptrMax mem j start extent = (if extent > ptrMax - start then reject_touch mem j
      else case ?res of Duplicate_range \<Rightarrow> (True, j) | Rejected_range \<Rightarrow> reject_touch mem j
       | Free_range ancestors \<Rightarrow>
         if length (fr_blocks ?r) \<ge> jc_maxBlocksPerFrame (rj_config j) \<or>
            fr_byteSize ?r > jc_maxBytesPerFrame (rj_config j) \<or>
            extent > jc_maxBytesPerFrame (rj_config j) - fr_byteSize ?r
         then reject_touch mem j
         else let (ok, j) = EnsureByteCapacity mem j (fr_byteSize ?r + extent) in
           if \<not> ok then (False, j) else (True, capture_block mem j start extent ancestors))"
    using True by (simp add: Touch_def CurrentRecord_open [OF j(1)])
  show ?thesis
  proof (cases "extent > ptrMax - start")
    case far: True
    with T T' rej [of ok k] True show ?thesis by auto
  next
    case near: False
    show ?thesis
    proof (cases ?res)
      case Duplicate_range
      with v(1) obtain c where c: "c \<in> set (fr_blocks ?r)" "exact c start extent" by blast
      have "ok" "k = j" using T T' near Duplicate_range by auto
      moreover have "covers ?r x" if "start \<le> x" "x < start + extent" for x
        using c that by (auto simp: covers_def exact_def block_end_def)
      ultimately show ?thesis using j True c by auto
    next
      case Rejected_range
      then have "reject_touch mem j = (ok, k)" using T T' near by simp
      with rej [of ok k] v(2) Rejected_range True show ?thesis by auto
    next
      case (Free_range ancestors)
      then have free: "\<forall>c \<in> set (fr_blocks ?r). \<not> overlaps c start extent"
          "\<not> (\<exists>c \<in> set (fr_blocks ?r). exact c start extent)"
        using v by auto
      show ?thesis
      proof (cases "length (fr_blocks ?r) < jc_maxBlocksPerFrame (rj_config j) \<and>
          fr_byteSize ?r + extent \<le> jc_maxBytesPerFrame (rj_config j)")
        case False
        then have "reject_touch mem j = (ok, k)" using T T' near Free_range b(6,7) by (auto split: if_splits)
        with rej [of ok k] free False True show ?thesis by auto
      next
        case fits: True
        obtain ok1 j1 where E: "EnsureByteCapacity mem j (fr_byteSize ?r + extent) = (ok1, j1)"
          by (cases "EnsureByteCapacity mem j (fr_byteSize ?r + extent)")
        have made: "ok1 \<and> journal_ok j1 \<and> recorded j1 mem S \<and> room_made j (fr_byteSize ?r + extent) j1"
          by (rule EnsureByteCapacity_ok [OF j(1) n j(2) _ _ E]) (use fits True in simp_all)
        moreover have "\<not> jc_maxBytesPerFrame (rj_config j) - fr_byteSize ?r < extent" using fits by arith
        ultimately have k: "ok" "k = capture_block mem j1 start extent ancestors"
          using T T' near Free_range fits E by (auto simp: not_le)
        have "journal_ok k \<and> recorded k mem S \<and> rj_failed k = rj_failed j1 \<and> rj_frameOpen k = rj_frameOpen j1 \<and>
          (\<forall>x. covers (BackRecord k) x \<longleftrightarrow> covers (BackRecord j1) x \<or> start \<le> x \<and> x < start + extent) \<and>
          map (\<lambda>b. (bl_address b, bl_size b)) (fr_blocks (BackRecord k)) =
            map (\<lambda>b. (bl_address b, bl_size b)) (fr_blocks (BackRecord j1)) @ [(start, extent)]"
          by (rule capture_block_ok [OF _ _ _ _ _ _ _ _ k(2)])
            (use made n True fits Free_range in \<open>auto simp: room_made_def\<close>)
        moreover have "covers (BackRecord j1) x = covers ?r x" for x
          using made by (intro covers_blocks) (simp add: room_made_def)
        ultimately show ?thesis using k(1) made free fits True by (simp add: room_made_def)
      qed
    qed
  qed
qed

section \<open>Opening and closing frames\<close>

lemma EndFrame_ok:
  assumes "journal_ok j" "recorded j mem S" "EndFrame j = (ok, k)"
  shows "journal_ok k \<and> recorded k mem S"
proof (cases ok)
  case True
  with assms(3) have k: "k = j\<lparr>rj_frameOpen := False\<rparr>" "\<not> rj_readOnlyCaptureOpen j"
    by (auto simp: EndFrame_def split: if_splits)
  have "live k = live j \<and> ring_ok k = ring_ok j \<and> BackRecord k = BackRecord j"
    by (rule same_ring) (simp_all add: k)
  moreover from this have "deferred k = deferred j" by (simp add: deferred_def k)
  ultimately show ?thesis using assms(1,2) k by (simp add: journal_ok_def recorded_def)
next
  case False
  with assms show ?thesis by (auto simp: EndFrame_def split: if_splits)
qed

lemma BeginReadOnlyCapture_ok:
  assumes "journal_ok j" "recorded j mem S" "BeginReadOnlyCapture j = (ok, k)"
  shows "journal_ok k \<and> recorded k mem S"
proof (cases "k = j")
  case False
  with assms have opened: "rj_frameOpen j" "\<not> rj_readOnlyCaptureOpen j" and
    k: "k = j\<lparr>rj_readOnlyCaptureOpen := True, rj_firstReadOnlyCaptureBlock := length (fr_blocks (BackRecord j)),
      rj_pendingBlocks := 0, rj_pendingBytes := 0, rj_stats := (rj_stats j)\<lparr>cs_scopes := cs_scopes (rj_stats j) + 1\<rparr>\<rparr>"
    by (auto simp: BeginReadOnlyCapture_def CurrentRecord_open split: if_splits)
  have "live k = live j \<and> ring_ok k = ring_ok j \<and> BackRecord k = BackRecord j"
    by (rule same_ring) (simp_all add: k)
  moreover have "deferred k = deferred j" using assms(1) opened by (auto simp: deferred_def k journal_ok_def)
  ultimately show ?thesis using assms(1,2) opened k by (simp add: journal_ok_def recorded_def)
qed (use assms in simp)

lemma EndReadOnlyCapture_ok:
  assumes "journal_ok j" "recorded j mem S" "EndReadOnlyCapture mem j = (ok, k)"
  shows "journal_ok k \<and> recorded k mem S"
proof (cases "rj_readOnlyCaptureOpen j")
  case True
  let ?f = "FlushReadOnlyCapture mem j"
  have k: "k = ?f\<lparr>rj_readOnlyCaptureOpen := False\<rparr>" using assms(3) True by (auto simp: EndReadOnlyCapture_def Let_def)
  have "live k = live ?f \<and> ring_ok k = ring_ok ?f \<and> BackRecord k = BackRecord ?f"
    by (rule same_ring) (simp_all add: k)
  moreover have "deferred k = deferred ?f" by (simp add: deferred_def k)
  ultimately show ?thesis using Flush_ok [OF assms(1,2)] k
    by (cases "rj_frameCount j = 0") (simp_all add: journal_ok_def recorded_def)
next
  case False
  with assms show ?thesis by (simp add: EndReadOnlyCapture_def)
qed

lemma closed_pending: "journal_ok j \<Longrightarrow> \<not> rj_frameOpen j \<Longrightarrow> rj_pendingBlocks j = 0 \<and> \<not> rj_readOnlyCaptureOpen j"
  by (auto simp: journal_ok_def)

lemma word_succ_greater: "(x :: u32) \<noteq> 0xffffffff \<Longrightarrow> x < x + 1"
proof -
  assume "x \<noteq> 0xffffffff"
  then have "unat x \<noteq> 4294967295" by (simp add: word_unat_eq_iff)
  moreover have "unat x < 2 ^ LENGTH(32)" by (rule unsigned_less)
  ultimately have "unat (x + 1) = unat x + 1" by (simp add: unat_word_ariths)
  then show ?thesis by (simp add: word_less_nat_alt)
qed

lemma BeginFrame_extend_ok:
  assumes j: "journal_ok j" "recorded j mem S" and B: "BeginFrame j f True = (ok, k)"
  shows "journal_ok k \<and> recorded k mem S"
proof (cases ok)
  case True
  let ?r = "(BackRecord j)\<lparr>fr_endFrame := f\<rparr>"
  from B True have g: "rj_configured j" "\<not> rj_frameOpen j" "rj_frameCount j \<noteq> 0" "fr_endFrame (BackRecord j) \<noteq> 0xffffffff"
    "f = fr_endFrame (BackRecord j) + 1" and
    k: "k = (set_back j ?r)\<lparr>rj_frameOpen := True, rj_openFrame := f\<rparr>"
    by (auto simp: BeginFrame_def split: if_splits)
  note b = journal_ok_back [OF j(1) g(3)] and p = closed_pending [OF j(1) g(2)]
  have l: "live k = live (set_back j ?r) \<and> ring_ok k = ring_ok (set_back j ?r) \<and> BackRecord k = BackRecord (set_back j ?r)"
    by (rule same_ring) (simp_all add: k)
  have lk: "live k = butlast (live j) @ [?r]" using l live_set_back [OF b(3) g(3)] by simp
  have rk: "ring_ok k" using l b(3) by simp
  have "record_ok ?r" by (rule record_ok_arena [OF b(1)]) (use b(7) in simp_all)
  then have "journal_ok k"
    by (rule journal_ok_newest [OF j(1) g(3) _ _ _ _ _ rk lk])
      (use b g p j(1) set_back_frames [of j ?r] word_succ_greater [OF g(4)] in \<open>auto simp: k journal_ok_def\<close>)
  moreover have "recorded k mem S"
  proof (rule recorded_newest [OF j(2) g(3) lk])
    have "kept (BackRecord j) {} mem (last S)" using j(2) g(3) p by (simp add: recorded_def deferred_def)
    then show "kept ?r (deferred k) mem (last S)" using p by (simp add: kept_def deferred_def k)
  qed (simp add: covers_def)
  ultimately show ?thesis by blast
next
  case False
  with B have "k = j \<or> k = j\<lparr>rj_failed := True\<rparr>" by (auto simp: BeginFrame_def split: if_splits)
  then show ?thesis using failed_ok [OF j] j by auto
qed

lemma spans_tl: "spans_ok rs \<Longrightarrow> spans_ok (tl rs)"
  by (cases rs) (auto simp: spans_ok_def)

lemma BeginFrame_new_ok:
  assumes j: "journal_ok j" "recorded j mem S" and B: "BeginFrame j f False = (True, k)"
  shows "journal_ok k \<and> recorded k mem ((if rj_frameCount j = length (rj_frames j) then tl S else S) @ [mem]) \<and>
    live k = (if rj_frameCount j = length (rj_frames j) then tl (live j) else live j) @ [BackRecord k] \<and>
    fr_startFrame (BackRecord k) = f \<and> fr_endFrame (BackRecord k) = f \<and> fr_blocks (BackRecord k) = []"
proof -
  let ?c = "claim_slot j"
  let ?r = "(BackRecord ?c)\<lparr>fr_startFrame := f, fr_endFrame := f, fr_byteSize := 0, fr_blocks := [], fr_root := NO_BLOCK\<rparr>"
  let ?old = "if rj_frameCount j = length (rj_frames j) then tl (live j) else live j"
  let ?oldS = "if rj_frameCount j = length (rj_frames j) then tl S else S"
  from B have g: "rj_configured j" "\<not> rj_frameOpen j" "rj_frameCount j \<noteq> 0 \<longrightarrow> fr_endFrame (BackRecord j) < f" and
    k: "k = (set_back ?c ?r)\<lparr>rj_frameOpen := True, rj_openFrame := f\<rparr>"
    by (auto simp: BeginFrame_def claim_slot_def Let_def split: if_splits)
  note p = closed_pending [OF j(1) g(2)]
  have ne: "rj_frames j \<noteq> []" and ring: "ring_ok j" using j(1) g(1) by (auto simp: journal_ok_def)
  note c = ring_ok_claim_slot [OF ring ne]
  have fields: "rj_config ?c = rj_config j" "rj_configured ?c = rj_configured j" "rj_frames ?c = rj_frames j"
    "rj_readOnlyCaptureOpen ?c = rj_readOnlyCaptureOpen j" "rj_pendingBlocks ?c = rj_pendingBlocks j"
    by (simp_all add: claim_slot_def)
  have "live k = live (set_back ?c ?r)" by (rule live_eqI) (simp_all add: k)
  then have lk: "live k = ?old @ [?r]"
    using c live_set_back [of ?c ?r] butlast_claim_slot [OF ring ne] by simp
  have nk: "rj_frameCount k \<noteq> 0" using c by (simp add: k)
  have newest: "BackRecord k = ?r" using BackRecord_live [OF nk] lk by simp
  have ring_k: "ring_ok k"
  proof -
    have "ring_ok k = ring_ok (set_back ?c ?r)" by (rule ring_ok_eqI) (simp_all add: k)
    with c show ?thesis by simp
  qed
  have sub: "set ?old \<subseteq> set (live j)" using list.set_sel(2) [of "live j"] by (cases "live j = []") (auto simp del: live_empty_iff)
  have spans: "spans_ok (live k)"
  proof -
    have "spans_ok (live j)" using j(1) by (simp add: journal_ok_def)
    then have "spans_ok ?old" using spans_tl by auto
    moreover have "fr_endFrame x < f" if "x \<in> set (live j)" for x
    proof -
      have n: "rj_frameCount j \<noteq> 0" using that by (metis empty_iff list.set(1) live_empty_iff)
      have "x = BackRecord j \<or> x \<in> set (butlast (live j))" using that live_split [OF n] by (metis Un_iff empty_iff insert_iff list.set set_append)
      moreover have "spans_ok (butlast (live j) @ [BackRecord j])" using \<open>spans_ok (live j)\<close> live_split [OF n] by simp
      ultimately have "fr_endFrame x \<le> fr_endFrame (BackRecord j)"
        by (fastforce simp: spans_ok_def sorted_wrt_append)
      with g(3) n show ?thesis by simp
    qed
    ultimately show ?thesis using sub unfolding lk by (auto simp: spans_ok_def sorted_wrt_append)
  qed
  have cap: "fr_byteCapacity ?r \<le> jc_maxBytesPerFrame (rj_config j)"
  proof -
    have "BackRecord ?c \<in> set (rj_frames j)"
      using slot_less [of ?c "rj_frameCount ?c - 1"] c by (simp add: BackRecord_def record_at_def fields)
    then show ?thesis using j(1) by (simp add: journal_ok_def)
  qed
  have "journal_ok k"
    unfolding journal_ok_def
  proof (intro conjI)
    show "\<forall>r \<in> set (live k). record_ok r \<and> length (fr_blocks r) \<le> jc_maxBlocksPerFrame (rj_config k)"
      using j(1) sub record_ok_empty [of "(BackRecord ?c)\<lparr>fr_startFrame := f, fr_endFrame := f\<rparr>"]
      unfolding lk by (auto simp: journal_ok_def k fields)
    show "\<forall>r \<in> set (rj_frames k). fr_byteCapacity r \<le> jc_maxBytesPerFrame (rj_config k)"
      using j(1) cap set_back_frames [of ?c ?r] by (auto simp: journal_ok_def k fields)
    show "rj_configured k \<longrightarrow> rj_frames k \<noteq> [] \<and> jc_maxBlocksPerFrame (rj_config k) < 4294967295 \<and>
        length (rj_frames k) = jc_maxFrames (rj_config k)"
      using j(1) g(1) by (auto simp: journal_ok_def k fields set_back_def)
  qed (use ring_k spans nk g p in \<open>auto simp: k fields\<close>)
  moreover have "recorded k mem (?oldS @ [mem])"
  proof -
    have "chain (live j) S mem" using recorded_chain [of j mem S] p j(2) by simp
    then have "chain ?old ?oldS mem" using chain_tl by auto
    then have "chain (live k) (?oldS @ [mem]) mem"
      unfolding lk chain_snoc by (simp add: kept_def)
    then show ?thesis using recorded_chain [of k mem] p by (simp add: k fields)
  qed
  ultimately show ?thesis using lk newest by simp
qed

section \<open>Restoring\<close>

definition disjoint_blocks :: "Block list \<Rightarrow> bool" where
  "disjoint_blocks bs \<longleftrightarrow> sorted_wrt (\<lambda>b c. block_end b \<le> bl_address c \<or> block_end c \<le> bl_address b) bs"

lemma record_disjoint_blocks:
  assumes "record_ok r"
  shows "disjoint_blocks (rev (fr_blocks r))"
proof -
  have "disjoint_blocks (fr_blocks r)"
    unfolding disjoint_blocks_def sorted_wrt_iff_nth_less using record_disjoint [OF assms] by auto
  then show ?thesis
    unfolding disjoint_blocks_def sorted_wrt_rev by (rule sorted_wrt_mono_rel [rotated]) auto
qed

text \<open>Restoring a record changes the journal in its counters only.\<close>

definition counted :: "RollbackJournal \<Rightarrow> RollbackJournal \<Rightarrow> bool" where
  "counted j k \<longleftrightarrow> k = j\<lparr>rj_restoreCopiedBytes := rj_restoreCopiedBytes k, rj_restoreSkippedBytes := rj_restoreSkippedBytes k\<rparr>"

lemma overwritten_counted: "counted j k \<Longrightarrow> overwritten k i b = overwritten j i b"
  unfolding counted_def by (erule ssubst) (simp add: overwritten_def record_at_def record_slot_def)

lemma counted_refl [simp]: "counted j j"
  by (simp add: counted_def)

lemma counted_trans: "counted j k \<Longrightarrow> counted k l \<Longrightarrow> counted j l"
  by (cases j; cases k; cases l) (simp add: counted_def)

lemma restore_blocks_result:
  "restore_blocks i r bs (mem, j) = (mem', k) \<Longrightarrow> disjoint_blocks bs \<Longrightarrow> counted j k \<and>
    (\<forall>b \<in> set bs. \<not> overwritten j i b \<longrightarrow> (\<forall>d < bl_size b. mem' (bl_address b + d) = fr_bytes r (bl_offset b + d))) \<and>
    (\<forall>x. (\<forall>b \<in> set bs. \<not> overwritten j i b \<longrightarrow> \<not> (bl_address b \<le> x \<and> x < block_end b)) \<longrightarrow> mem' x = mem x)"
proof (induction bs arbitrary: mem j)
  case (Cons b bs)
  define m1 where "m1 = (if overwritten j i b then mem else memcpy mem (bl_address b) (fr_bytes r) (bl_offset b) (bl_size b))"
  define j1 where "j1 = (if overwritten j i b
    then j\<lparr>rj_restoreSkippedBytes := rj_restoreSkippedBytes j + word_of_nat (bl_size b)\<rparr>
    else j\<lparr>rj_restoreCopiedBytes := rj_restoreCopiedBytes j + word_of_nat (bl_size b)\<rparr>)"
  have step: "restore_blocks i r bs (m1, j1) = (mem', k)"
    using Cons.prems(1) by (cases "overwritten j i b") (simp_all add: m1_def j1_def)
  have c1: "counted j j1" by (simp add: counted_def j1_def)
  have away: "block_end b \<le> bl_address c \<or> block_end c \<le> bl_address b" if "c \<in> set bs" for c
    using Cons.prems(2) that by (simp add: disjoint_blocks_def)
  have "disjoint_blocks bs" using Cons.prems(2) by (simp add: disjoint_blocks_def)
  note ih = Cons.IH [OF step this] and ow = overwritten_counted [OF c1]
  have here: "m1 (bl_address b + d) = fr_bytes r (bl_offset b + d)" if "\<not> overwritten j i b" "d < bl_size b" for d
    using that by (simp add: m1_def memcpy_at)
  have outside: "mem' x = m1 x" if "\<forall>c \<in> set bs. \<not> (bl_address c \<le> x \<and> x < block_end c)" for x
    using ih that by blast
  have "mem' (bl_address b + d) = m1 (bl_address b + d)" if "d < bl_size b" for d
    by (rule outside) (use away that in \<open>force simp: block_end_def\<close>)
  with here have first: "\<forall>d < bl_size b. mem' (bl_address b + d) = fr_bytes r (bl_offset b + d)" if "\<not> overwritten j i b"
    using that by simp
  have same: "m1 x = mem x" if "\<not> overwritten j i b \<longrightarrow> \<not> (bl_address b \<le> x \<and> x < block_end b)" for x
    using that by (auto simp: m1_def block_end_def memcpy_outside)
  show ?case
  proof (intro conjI ballI allI impI)
    show "counted j k" using counted_trans [OF c1] ih by blast
  next
    fix c d assume "c \<in> set (b # bs)" "\<not> overwritten j i c" "d < bl_size c"
    then show "mem' (bl_address c + d) = fr_bytes r (bl_offset c + d)" using first ih ow by auto
  next
    fix x assume x: "\<forall>c \<in> set (b # bs). \<not> overwritten j i c \<longrightarrow> \<not> (bl_address c \<le> x \<and> x < block_end c)"
    then have "mem' x = m1 x" using ih ow by simp
    also have "m1 x = mem x" using x by (intro same) simp
    finally show "mem' x = mem x" .
  qed
qed simp

text \<open>A block is skipped only if an older record that will be restored covers all of it.\<close>

lemma overwritten_covered:
  assumes "overwritten j i b" "0 < bl_size b" "\<forall>r \<in> set (live j). record_ok r" "bl_address b \<le> x" "x < block_end b"
  shows "\<exists>e. i \<le> e \<and> e < rj_frameCount j - 1 \<and> covers (live j ! e) x"
proof -
  obtain e where e: "i \<le> e" "e < rj_frameCount j - 1" "CoversBlock (record_at j e) b"
    using assms(1) by (auto simp: overwritten_def list_ex_iff)
  then have "live j ! e \<in> set (live j)" by (intro nth_mem) simp
  with assms(3) have "record_ok (live j ! e)" by blast
  moreover have "live j ! e = record_at j e" using e(2) by simp
  ultimately have "\<exists>c \<in> set (fr_blocks (live j ! e)). bl_address c \<le> bl_address b \<and> block_end b \<le> block_end c"
    using e(3) CoversBlock_iff [of "live j ! e" b] assms(2) by metis
  then obtain c where "c \<in> set (fr_blocks (live j ! e))" "bl_address c \<le> bl_address b" "block_end b \<le> block_end c" by blast
  moreover from this have "bl_address c \<le> x" "x < block_end c" using assms(4,5) by simp_all
  ultimately have "covers (live j ! e) x" by (auto simp: covers_def)
  with e show ?thesis by blast
qed

text \<open>What the loop of \<^verbatim>\<open>UndoTo\<close> leaves of the journal besides its counters.\<close>

definition popped :: "nat \<Rightarrow> RollbackJournal \<Rightarrow> RollbackJournal \<Rightarrow> bool" where
  "popped n j k \<longleftrightarrow> counted (j\<lparr>rj_frameCount := n\<rparr>) k"

lemma counted_fields:
  assumes "counted j k"
  shows "rj_config k = rj_config j" "rj_frames k = rj_frames j" "rj_firstFrame k = rj_firstFrame j"
    "rj_frameCount k = rj_frameCount j" "rj_configured k = rj_configured j" "rj_frameOpen k = rj_frameOpen j"
    "rj_failed k = rj_failed j" "rj_readOnlyCaptureOpen k = rj_readOnlyCaptureOpen j"
    "rj_pendingBlocks k = rj_pendingBlocks j"
  using assms by (cases j; cases k; simp add: counted_def)+


lemma last_take_nth: "0 < c \<Longrightarrow> c \<le> length L \<Longrightarrow> last (take c L) = L ! (c - 1)"
  by (cases "L = []") (simp_all add: last_conv_nth min_def)

lemma undo_loop_restores:
  assumes L: "\<forall>r \<in> set L. record_ok r" "chain L S m0" "i < length L" "spans_ok L"
  shows "undo_loop n i (fr_startFrame (L ! i)) (mem, j) = (mem', k) \<Longrightarrow> live j = take c L \<Longrightarrow> rj_frameCount j = c \<Longrightarrow>
    c \<le> length L \<Longrightarrow> i \<le> c \<Longrightarrow> c \<le> n \<Longrightarrow>
    \<forall>x. (\<forall>e. i \<le> e \<and> e < c \<longrightarrow> \<not> covers (L ! e) x) \<longrightarrow> mem x = ((S @ [m0]) ! c) x \<Longrightarrow>
    mem' = S ! i \<and> popped i j k"
proof (induction n arbitrary: mem j c)
  case 0
  then have "c = 0" "i = 0" by auto
  with 0 show ?case using L(2,3) by (auto simp: popped_def counted_def chain_def nth_append)
next
  case (Suc n)
  show ?case
  proof (cases "c = i")
    case True
    have "\<not> (rj_frameCount j \<noteq> 0 \<and> fr_startFrame (L ! i) \<le> fr_endFrame (BackRecord j))"
    proof (cases "c = 0")
      case False
      then have "BackRecord j = L ! (c - 1)"
        using BackRecord_live [of j] Suc.prems(2-4) by (simp add: last_take_nth)
      moreover have "fr_endFrame (L ! (c - 1)) < fr_startFrame (L ! i)"
        using L(3,4) False True by (auto simp: spans_ok_def sorted_wrt_iff_nth_less)
      ultimately show ?thesis using leD by metis
    qed (use Suc.prems in simp)
    then have "mem' = mem" "k = j" using Suc.prems(1) by (auto split: if_splits)
    moreover have "mem x = ((S @ [m0]) ! i) x" for x using Suc.prems(7) True leD by blast
    then have "mem = S ! i" using L(2,3) by (auto simp: chain_def nth_append)
    ultimately show ?thesis using Suc.prems(3) True by (simp add: popped_def counted_def)
  next
    case False
    with Suc.prems have c: "i < c" "c - 1 < length L" "rj_frameCount j \<noteq> 0" by auto
    let ?r = "BackRecord j"
    have r: "?r = L ! (c - 1)"
      using BackRecord_live [of j] Suc.prems(2-4) c by (simp add: last_take_nth)
    have ok: "record_ok ?r" using L(1) c(2) r by simp
    have "fr_startFrame (L ! i) \<le> fr_startFrame ?r"
    proof (cases "i = c - 1")
      case False
      with L(4) c have "fr_endFrame (L ! i) < fr_startFrame (L ! (c - 1))" "fr_startFrame (L ! i) \<le> fr_endFrame (L ! i)"
        by (auto simp: spans_ok_def sorted_wrt_iff_nth_less)
      with r show ?thesis by simp
    qed (use r in simp)
    moreover have "fr_startFrame ?r \<le> fr_endFrame ?r" using L(4) c(2) r by (simp add: spans_ok_def)
    ultimately have ge: "fr_startFrame (L ! i) \<le> fr_endFrame ?r" by simp
    obtain m1 j1 where R: "restore_blocks i ?r (rev (fr_blocks ?r)) (mem, j) = (m1, j1)" by force
    let ?j2 = "j1\<lparr>rj_frameCount := rj_frameCount j1 - 1\<rparr>"
    have run: "undo_loop n i (fr_startFrame (L ! i)) (m1, ?j2) = (mem', k)"
      using Suc.prems(1) c(3) ge R by simp
    note res = restore_blocks_result [OF R record_disjoint_blocks [OF ok]]
    then have cnt: "counted j j1" by blast
    note f = counted_fields [OF cnt]
    have live1: "live j1 = live j" by (rule live_eqI) (simp_all add: f)
    have live2: "live ?j2 = take (c - 1) L"
      unfolding live_pop live1 using Suc.prems(2,4) by (simp add: butlast_take)
    have chain: "kept ?r {} (S ! (c - 1)) (S ! (c - 1))"
        "\<forall>x. \<not> covers ?r x \<longrightarrow> (S ! (c - 1)) x = ((S @ [m0]) ! c) x"
      using L(2) c r by (auto simp: chain_def)
    have len: "length S = length L" using L(2) by (simp add: chain_def)
    have "m1 x = (S ! (c - 1)) x" if x: "\<forall>e. i \<le> e \<and> e < c - 1 \<longrightarrow> \<not> covers (L ! e) x" for x
    proof (cases "covers ?r x")
      case True
      then obtain b where b: "b \<in> set (fr_blocks ?r)" "bl_address b \<le> x" "x < block_end b" by (auto simp: covers_def)
      have "\<not> overwritten j i b"
      proof
        assume ow: "overwritten j i b"
        have "\<forall>r \<in> set (live j). record_ok r" using L(1) Suc.prems(2) by (metis in_set_takeD)
        from overwritten_covered [OF ow record_sizes [OF ok b(1)] this b(2,3)] obtain e where
          "i \<le> e" "e < c - 1" "covers (live j ! e) x"
          using Suc.prems(3) by blast
        with x Suc.prems(2) show False by simp
      qed
      moreover have "x - bl_address b < bl_size b" using b(2,3) by (simp add: block_end_def)
      ultimately have "m1 (bl_address b + (x - bl_address b)) = fr_bytes ?r (bl_offset b + (x - bl_address b))"
        using res b(1) by simp
      also obtain q where "q < length (fr_blocks ?r)" "b = fr_blocks ?r ! q" using b(1) by (auto simp: in_set_conv_nth)
      then have "fr_bytes ?r (bl_offset b + (x - bl_address b)) = (S ! (c - 1)) (bl_address b + (x - bl_address b))"
        using chain(1) \<open>x - bl_address b < bl_size b\<close> by (auto simp: kept_def)
      finally show ?thesis using b(2) by simp
    next
      case False
      then have "m1 x = mem x" using res by (auto simp: covers_def)
      also have "mem x = ((S @ [m0]) ! c) x"
      proof -
        have "\<not> covers (L ! e) x" if "i \<le> e" "e < c" for e
          using x that False r by (cases "e = c - 1") auto
        then show ?thesis using Suc.prems(7) by blast
      qed
      also have "\<dots> = (S ! (c - 1)) x" using chain(2) False by simp
      finally show ?thesis .
    qed
    then have "\<forall>x. (\<forall>e. i \<le> e \<and> e < c - 1 \<longrightarrow> \<not> covers (L ! e) x) \<longrightarrow> m1 x = ((S @ [m0]) ! (c - 1)) x"
      using c(2) len by (simp add: nth_append)
    from Suc.IH [OF run live2 _ _ _ _ this] have "mem' = S ! i \<and> popped i ?j2 k"
      using f Suc.prems c by simp
    moreover from this have "popped i j k"
      using cnt by (cases j; cases j1; cases k) (auto simp: popped_def counted_def)
    ultimately show ?thesis by blast
  qed
qed

end
