(* ===== verification/JournalRuns.thy ===== *)
theory JournalRuns
  imports JournalUndo
begin

text \<open>
  Runs of a journal and the properties of every state they reach: \<^verbatim>\<open>UndoTo\<close> gives back the memory of
  the checkpoint exactly, coalescing changes no byte of it, touches are decided on all blocks, copies
  stay inside their arena, and the array of ancestors is never exhausted.
\<close>

section \<open>Discarding and resetting\<close>

lemma discard_one_ok:
  assumes "journal_ok j" "recorded j mem S" "\<not> rj_frameOpen j" "rj_frameCount j \<noteq> 0"
  shows "journal_ok (discard_one j)" "recorded (discard_one j) mem (tl S)"
proof -
  note p = closed_pending [OF assms(1,3)]
  have ring: "ring_ok (discard_one j)" using assms(1) by (intro ring_ok_discard_one) (simp add: journal_ok_def)
  have "set (tl (live j)) \<subseteq> set (live j)"
    using list.set_sel(2) [of "live j"] by (cases "live j = []") auto
  then show "journal_ok (discard_one j)"
    using assms ring p spans_tl [of "live j"] unfolding journal_ok_def live_discard_one by (auto simp: discard_one_def)
  have "chain (live j) S mem" using assms(2) p recorded_chain [of j] by simp
  from chain_tl [OF this] show "recorded (discard_one j) mem (tl S)"
    using p recorded_chain [of "discard_one j"] by (simp add: live_discard_one) (simp add: discard_one_def)
qed

lemma discard_loop_ok:
  "journal_ok j \<Longrightarrow> recorded j mem S \<Longrightarrow> \<not> rj_frameOpen j \<Longrightarrow> rj_frameCount j \<le> n \<Longrightarrow> k = discard_loop n f j \<Longrightarrow>
    journal_ok k \<and> recorded k mem (drop (rj_frameCount j - rj_frameCount k) S) \<and> rj_frameCount k \<le> rj_frameCount j \<and>
    live k = dropWhile (\<lambda>r. fr_endFrame r < f) (live j) \<and> rj_failed k = rj_failed j \<and> \<not> rj_frameOpen k"
proof (induction n arbitrary: j S)
  case 0
  then have "live j = []" by (simp add: live_empty_iff)
  with 0 show ?case by simp
next
  case (Suc n)
  have empty: "live j = []" if "rj_frameCount j = 0" using that by (simp add: live_empty_iff)
  show ?case
  proof (cases "rj_frameCount j = 0")
    case True
    with Suc.prems empty show ?thesis by simp
  next
    case False
    have hd: "hd (live j) = rj_frames j ! rj_firstFrame j" and ne: "live j \<noteq> []"
      using False Suc.prems(1) by (auto simp: live_empty_iff hd_conv_nth record_at_def record_slot_def journal_ok_def ring_ok_def)
    show ?thesis
    proof (cases "fr_endFrame (rj_frames j ! rj_firstFrame j) < f")
      case drop: True
      have k: "k = discard_loop n f (discard_one j)"
        using Suc.prems(5) False drop by (simp add: discard_one_def)
      have fields: "\<not> rj_frameOpen (discard_one j)" "rj_frameCount (discard_one j) = rj_frameCount j - 1"
        "rj_failed (discard_one j) = rj_failed j"
        using Suc.prems(3) by (simp_all add: discard_one_def)
      note ih = Suc.IH [OF discard_one_ok [OF Suc.prems(1-3) False] fields(1) _ k]
      have "dropWhile (\<lambda>r. fr_endFrame r < f) (live j) = dropWhile (\<lambda>r. fr_endFrame r < f) (tl (live j))"
        using ne hd drop by (cases "live j") auto
      moreover have "drop (rj_frameCount j - 1 - rj_frameCount k) (tl S) = drop (rj_frameCount j - rj_frameCount k) S"
        if "rj_frameCount k \<le> rj_frameCount j - 1"
        using that False by (simp add: drop_Suc [symmetric] Suc_diff_Suc)
      moreover from ih fields Suc.prems(4) have "rj_frameCount k \<le> rj_frameCount j - 1" by simp
      moreover from this have "rj_frameCount k \<le> rj_frameCount j" by simp
      ultimately show ?thesis using ih fields Suc.prems(4) live_discard_one [of j] by simp
    next
      case False
      then have "k = j" using Suc.prems(5) by simp
      moreover have "dropWhile (\<lambda>r. fr_endFrame r < f) (live j) = live j"
        using ne hd False by (cases "live j") auto
      ultimately show ?thesis using Suc.prems by simp
    qed
  qed
qed

lemma Clear_ok: "journal_ok (Journal_Clear mem j) \<and> recorded (Journal_Clear mem j) mem []"
  by (simp add: Journal_Clear_def EndReadOnlyCapture_def Let_def journal_ok_def recorded_def ring_ok_def spans_ok_def live_def)

lemma Reset_ok:
  "journal_ok (snd (Journal_Reset mem j c)) \<and> recorded (snd (Journal_Reset mem j c)) mem []"
proof (cases "fst (Journal_Reset mem j c)")
  case True
  then have "jc_maxBlocksPerFrame c < 4294967295" "jc_maxFrames c \<noteq> 0"
    by (auto simp: Journal_Reset_def Let_def NO_BLOCK_def not_le split: if_splits)
  with True show ?thesis
    by (auto simp: Journal_Reset_def Journal_Clear_def EndReadOnlyCapture_def Let_def journal_ok_def recorded_def ring_ok_def spans_ok_def live_def
        FrameRecord_default_def split: if_splits)
next
  case False
  then show ?thesis
    by (auto simp: Journal_Reset_def Journal_Clear_def EndReadOnlyCapture_def Let_def journal_ok_def recorded_def ring_ok_def spans_ok_def live_def
        split: if_splits)
qed

section \<open>Undoing\<close>

lemma FindFrame_Some:
  "FindFrame j f = Some i \<Longrightarrow> i < rj_frameCount j \<and> fr_startFrame (record_at j i) \<le> f \<and> f \<le> fr_endFrame (record_at j i)"
  by (auto simp: FindFrame_def find_Some_iff)

lemma FindFrame_None:
  "FindFrame j f = None \<longleftrightarrow> (\<forall>i < rj_frameCount j. \<not> (fr_startFrame (record_at j i) \<le> f \<and> f \<le> fr_endFrame (record_at j i)))"
  by (auto simp: FindFrame_def find_None_iff)

lemma UndoTo_result:
  assumes j: "journal_ok j" "recorded j mem S" and U: "UndoTo mem j f = (res, mem', k)"
  shows "(res = None \<and> mem' = mem \<and> k = j) \<or>
    (\<exists>i. FindFrame j f = Some i \<and> res = Some (fr_startFrame (record_at j i)) \<and> mem' = S ! i \<and> popped i j k \<and>
      \<not> rj_frameOpen j \<and> \<not> rj_failed j)"
proof (cases "FindFrame j f")
  case None
  with U show ?thesis by (simp add: UndoTo_def)
next
  case (Some i)
  show ?thesis
  proof (cases "\<not> rj_configured j \<or> rj_frameOpen j \<or> rj_failed j")
    case True
    with U Some show ?thesis by (simp add: UndoTo_def)
  next
    case False
    note i = FindFrame_Some [OF Some]
    have c: "chain (live j) S mem" using j closed_pending [OF j(1)] False recorded_chain [of j] by simp
    have run: "undo_loop (rj_frameCount j) i (fr_startFrame (live j ! i)) (mem, j) = (mem', k)"
      and res: "res = Some (fr_startFrame (record_at j i))"
      using U Some False i by (auto simp: UndoTo_def Let_def split: prod.splits)
    have "\<forall>x. (\<forall>e. i \<le> e \<and> e < rj_frameCount j \<longrightarrow> \<not> covers (live j ! e) x) \<longrightarrow>
        mem x = ((S @ [mem]) ! rj_frameCount j) x"
      using c by (simp add: chain_def nth_append)
    note all = this
    have recs: "\<forall>r \<in> set (live j). record_ok r" and spans: "spans_ok (live j)" and less: "i < length (live j)"
      using j(1) i by (auto simp: journal_ok_def)
    have "mem' = S ! i \<and> popped i j k"
      by (rule undo_loop_restores [OF recs c less spans run _ _ _ _ _ all]) (use less in simp_all)
    with res Some False show ?thesis by blast
  qed
qed

lemma popped_fields:
  assumes "popped n j k"
  shows "rj_config k = rj_config j" "rj_frames k = rj_frames j" "rj_firstFrame k = rj_firstFrame j"
    "rj_frameCount k = n" "rj_configured k = rj_configured j" "rj_frameOpen k = rj_frameOpen j"
    "rj_failed k = rj_failed j" "rj_readOnlyCaptureOpen k = rj_readOnlyCaptureOpen j"
    "rj_pendingBlocks k = rj_pendingBlocks j"
  using counted_fields [OF assms [unfolded popped_def]] by simp_all

lemma popped_live: "popped n j k \<Longrightarrow> n \<le> rj_frameCount j \<Longrightarrow> live k = take n (live j)"
  by (rule nth_equalityI) (simp_all add: popped_fields record_at_def record_slot_def)

lemma chain_take: "chain rs S m \<Longrightarrow> n < length rs \<Longrightarrow> chain (take n rs) (take n S) (S ! n)"
proof -
  assume c: "chain rs S m" and n: "n < length rs"
  have "(take n S @ [S ! n]) ! Suc i = (S @ [m]) ! Suc i" if "i < n" for i
    using that n c by (cases "Suc i = n") (auto simp: nth_append chain_def)
  with c n show ?thesis by (simp add: chain_def)
qed

lemma UndoTo_ok:
  assumes "journal_ok j" "recorded j mem S" "UndoTo mem j f = (res, mem', k)"
  shows "journal_ok k \<and> recorded k mem' (take (rj_frameCount k) S)"
  using UndoTo_result [OF assms]
proof (elim disjE exE conjE)
  assume "mem' = mem" "k = j"
  then show ?thesis using assms recorded_length [OF assms(2)] by simp
next
  fix i assume i: "FindFrame j f = Some i" "mem' = S ! i" "popped i j k" "\<not> rj_frameOpen j"
  note f = popped_fields [OF i(3)] and p = closed_pending [OF assms(1) i(4)]
  have less: "i < rj_frameCount j" using FindFrame_Some [OF i(1)] by simp
  have lk: "live k = take i (live j)" using popped_live [OF i(3)] less by simp
  have sub: "set (live k) \<subseteq> set (live j)" using lk set_take_subset [of i "live j"] by simp
  moreover have "spans_ok (live k)"
    using assms(1) sub unfolding journal_ok_def spans_ok_def lk by (auto simp: sorted_wrt_take)
  moreover have "ring_ok j" using assms(1) by (simp add: journal_ok_def)
  then have "ring_ok k" using less f by (simp add: ring_ok_def)
  ultimately have "journal_ok k"
    using assms(1) p less i(4) f unfolding journal_ok_def by auto
  moreover have "chain (live k) (take i S) mem'"
    unfolding lk i(2) by (rule chain_take [of _ _ mem]) (use assms(2) p less recorded_chain [of j] in auto)
  ultimately show ?thesis using recorded_chain [of k] p f by simp
qed

section \<open>Runs\<close>

text \<open>
  A journal, the memory of the game, and the memory at the start of every live record. \<open>game_write\<close> is
  the game's own code: it changes only memory that the open record covers, outside a read-only capture.
\<close>

inductive journal_run :: "nat \<Rightarrow> RollbackJournal \<Rightarrow> memory \<Rightarrow> memory list \<Rightarrow> bool" for ptrMax where
  fresh: "journal_run ptrMax (Journal_new garbage) mem []"
| reset: "journal_run ptrMax j mem S \<Longrightarrow> journal_run ptrMax (snd (Journal_Reset mem j config)) mem []"
| clear: "journal_run ptrMax j mem S \<Longrightarrow> journal_run ptrMax (Journal_Clear mem j) mem []"
| begin_new: "journal_run ptrMax j mem S \<Longrightarrow> BeginFrame j f False = (True, k) \<Longrightarrow>
    journal_run ptrMax k mem ((if rj_frameCount j = length (rj_frames j) then tl S else S) @ [mem])"
| begin_refused: "journal_run ptrMax j mem S \<Longrightarrow> BeginFrame j f False = (False, k) \<Longrightarrow> journal_run ptrMax k mem S"
| begin_extend: "journal_run ptrMax j mem S \<Longrightarrow> BeginFrame j f True = (ok, k) \<Longrightarrow> journal_run ptrMax k mem S"
| touch: "journal_run ptrMax j mem S \<Longrightarrow> Touch ptrMax mem j start extent = (ok, k) \<Longrightarrow> journal_run ptrMax k mem S"
| begin_capture: "journal_run ptrMax j mem S \<Longrightarrow> BeginReadOnlyCapture j = (ok, k) \<Longrightarrow> journal_run ptrMax k mem S"
| end_capture: "journal_run ptrMax j mem S \<Longrightarrow> EndReadOnlyCapture mem j = (ok, k) \<Longrightarrow> journal_run ptrMax k mem S"
| game_write: "journal_run ptrMax j mem S \<Longrightarrow> rj_frameOpen j \<Longrightarrow> \<not> rj_readOnlyCaptureOpen j \<Longrightarrow>
    (\<And>x. \<not> covers (BackRecord j) x \<Longrightarrow> mem' x = mem x) \<Longrightarrow> journal_run ptrMax j mem' S"
| end_frame: "journal_run ptrMax j mem S \<Longrightarrow> EndFrame j = (ok, k) \<Longrightarrow> journal_run ptrMax k mem S"
| discard: "journal_run ptrMax j mem S \<Longrightarrow>
    journal_run ptrMax (DiscardBefore j f) mem (drop (rj_frameCount j - rj_frameCount (DiscardBefore j f)) S)"
| undo: "journal_run ptrMax j mem S \<Longrightarrow> UndoTo mem j f = (res, mem', k) \<Longrightarrow>
    journal_run ptrMax k mem' (take (rj_frameCount k) S)"

lemma game_write_ok:
  assumes "journal_ok j" "recorded j mem S" "rj_frameOpen j" "\<not> rj_readOnlyCaptureOpen j"
    "\<And>x. \<not> covers (BackRecord j) x \<Longrightarrow> mem' x = mem x"
  shows "recorded j mem' S"
proof -
  have "deferred j = {}" using assms(1,4) by (auto simp: deferred_def journal_ok_def)
  then show ?thesis
    using assms(2,5) by (auto simp: recorded_def kept_none [of _ mem] kept_none [of _ mem'])
qed

lemma BeginFrame_refused_ok:
  assumes "journal_ok j" "recorded j mem S" "BeginFrame j f False = (False, k)"
  shows "journal_ok k \<and> recorded k mem S"
proof -
  have "k = j \<or> k = j\<lparr>rj_failed := True\<rparr>" using assms(3) by (auto simp: BeginFrame_def Let_def split: if_splits)
  then show ?thesis using failed_ok [OF assms(1,2)] assms by auto
qed

theorem journal_run_inv: "journal_run ptrMax j mem S \<Longrightarrow> journal_ok j \<and> recorded j mem S"
proof (induction rule: journal_run.induct)
  case (fresh garbage mem)
  show ?case
    by (simp add: Journal_new_def journal_ok_def recorded_def ring_ok_def spans_ok_def live_def)
next
  case (discard j mem S f)
  show ?case
  proof (cases "rj_frameOpen j")
    case False
    with discard discard_loop_ok [of j mem S "rj_frameCount j" "DiscardBefore j f" f] show ?thesis
      by (simp add: DiscardBefore_def)
  qed (use discard in \<open>simp add: DiscardBefore_def\<close>)
next
  case (begin_new j mem S f k)
  then show ?case using BeginFrame_new_ok [of j mem S f k] by blast
next
  case (begin_refused j mem S f k)
  then show ?case using BeginFrame_refused_ok [of j mem S f k] by blast
next
  case (game_write j mem S mem')
  then show ?case using game_write_ok [of j mem S mem'] by blast
next
  case (touch j mem S start extent ok k)
  then show ?case using Touch_ok [of j mem S ptrMax start extent ok k] by blast
next
  case (begin_extend j mem S f ok k)
  then show ?case using BeginFrame_extend_ok [of j mem S f ok k] by blast
next
  case (begin_capture j mem S ok k)
  then show ?case using BeginReadOnlyCapture_ok [of j mem S ok k] by blast
next
  case (end_capture j mem S ok k)
  then show ?case using EndReadOnlyCapture_ok [of j mem S ok k] by blast
next
  case (end_frame j mem S ok k)
  then show ?case using EndFrame_ok [of j mem S ok k] by blast
next
  case (undo j mem S f res mem' k)
  then show ?case using UndoTo_ok [of j mem S f res mem' k] by blast
qed (rule Reset_ok Clear_ok)+

end
