(* ===== verification/JournalProps.thy ===== *)
theory JournalProps
  imports JournalRuns
begin

text \<open>
  The properties of the journal, for every state of a run. The abstract journal is a list of
  checkpoints: the frames of a record and the memory at its start.
\<close>

section \<open>The abstract journal\<close>

definition checkpoints :: "RollbackJournal \<Rightarrow> memory list \<Rightarrow> (u32 \<times> u32 \<times> memory) list" where
  "checkpoints j S = map2 (\<lambda>r s. (fr_startFrame r, fr_endFrame r, s)) (live j) S"

text \<open>Going back to \<open>f\<close>: the start of the checkpoint that holds it, and its memory.\<close>

definition go_back :: "(u32 \<times> u32 \<times> memory) list \<Rightarrow> memory \<Rightarrow> u32 \<Rightarrow> u32 option \<times> memory" where
  "go_back cs mem f = (case List.find (\<lambda>(a, b, s). a \<le> f \<and> f \<le> b) cs of
     None \<Rightarrow> (None, mem) | Some (a, b, s) \<Rightarrow> (Some a, s))"

definition undo_outcome :: "memory \<Rightarrow> RollbackJournal \<Rightarrow> u32 \<Rightarrow> u32 option \<times> memory" where
  "undo_outcome mem j f = (let (res, mem', k) = UndoTo mem j f in (res, mem'))"

lemma find_map: "List.find P (map h xs) = map_option h (List.find (P \<circ> h) xs)"
  by (induction xs) auto

lemma find_map2:
  assumes "length S = length L"
  shows "List.find P (map2 g L S) = map_option (\<lambda>i. g (L ! i) (S ! i)) (List.find (\<lambda>i. P (g (L ! i) (S ! i))) [0..<length L])"
proof -
  have "map2 g L S = map (\<lambda>i. g (L ! i) (S ! i)) [0..<length L]"
    by (rule nth_equalityI) (use assms in simp_all)
  then show ?thesis by (simp add: find_map comp_def)
qed

lemma find_cong_upt: "(\<And>i. i < n \<Longrightarrow> P i = Q i) \<Longrightarrow> List.find P [0..<n] = List.find Q [0..<n]"
  by (rule find_cong) auto

lemma go_back_checkpoints:
  assumes "length S = rj_frameCount j"
  shows "go_back (checkpoints j S) mem f = (case FindFrame j f of None \<Rightarrow> (None, mem)
    | Some i \<Rightarrow> (Some (fr_startFrame (record_at j i)), S ! i))"
proof -
  have "List.find (\<lambda>(a, b, s). a \<le> f \<and> f \<le> b) (checkpoints j S) =
      map_option (\<lambda>i. (fr_startFrame (live j ! i), fr_endFrame (live j ! i), S ! i)) (FindFrame j f)"
    unfolding checkpoints_def FindFrame_def using assms
    by (subst find_map2) (auto intro!: arg_cong [where f = "map_option _"] find_cong_upt)
  then show ?thesis
    using FindFrame_Some [of j f] by (auto simp: go_back_def split: option.splits)
qed

lemma undo_outcome_eq:
  assumes "journal_ok j" "recorded j mem S"
  shows "undo_outcome mem j f = (if rj_frameOpen j \<or> rj_failed j then (None, mem) else go_back (checkpoints j S) mem f)"
proof -
  obtain res mem' k where U: "UndoTo mem j f = (res, mem', k)" by (cases "UndoTo mem j f") auto
  note go = go_back_checkpoints [OF recorded_length [OF assms(2)], of mem f]
  show ?thesis
  proof (cases "rj_frameOpen j \<or> rj_failed j")
    case True
    then show ?thesis by (auto simp: undo_outcome_def UndoTo_def split: option.splits)
  next
    case False
    show ?thesis
    proof (cases "FindFrame j f")
      case None
      with False go show ?thesis by (simp add: undo_outcome_def UndoTo_def)
    next
      case (Some i)
      then have "rj_configured j" using FindFrame_Some [OF Some] assms(1) by (auto simp: journal_ok_def)
      with U Some False have "res \<noteq> None" by (auto simp: UndoTo_def Let_def split: prod.splits)
      with UndoTo_result [OF assms U] Some False go U show ?thesis by (auto simp: undo_outcome_def)
    qed
  qed
qed

section \<open>Undo\<close>

text \<open>
  C19: UndoTo refines going back on the list of checkpoints: in every reachable state with no open frame
  and no failure, it answers the start of the checkpoint that holds the frame and leaves exactly the
  memory of that moment, and it refuses, leaving the memory alone, if no live checkpoint holds the frame.
\<close>

theorem undo_restores_checkpoint:
  assumes "journal_run ptrMax j mem S"
  shows "undo_outcome mem j f = (if rj_frameOpen j \<or> rj_failed j then (None, mem) else go_back (checkpoints j S) mem f)"
  using undo_outcome_eq journal_run_inv [OF assms] by blast

text \<open>
  C20: coalescing the restores changes neither the answer nor any byte of the restored memory.
\<close>

theorem coalescing_is_invisible:
  assumes "journal_run ptrMax j mem S"
  shows "undo_outcome mem (j\<lparr>rj_config := (rj_config j)\<lparr>jc_coalesceRestore := b\<rparr>\<rparr>) f = undo_outcome mem j f"
proof -
  let ?k = "j\<lparr>rj_config := (rj_config j)\<lparr>jc_coalesceRestore := b\<rparr>\<rparr>"
  have j: "journal_ok j" "recorded j mem S" using journal_run_inv [OF assms] by auto
  have same: "live ?k = live j \<and> ring_ok ?k = ring_ok j \<and> BackRecord ?k = BackRecord j"
    by (rule same_ring) simp_all
  have "journal_ok ?k" using j(1) same by (simp add: journal_ok_def)
  moreover have "deferred ?k = deferred j" using same by (simp add: deferred_def)
  then have "recorded ?k mem S" using j(2) recorded_other [of ?k j] by simp
  ultimately show ?thesis using j same by (simp add: undo_outcome_eq checkpoints_def)
qed

lemma find_drop: "\<forall>x \<in> set (take n xs). \<not> P x \<Longrightarrow> List.find P (drop n xs) = List.find P xs"
  by (induction n arbitrary: xs) (auto simp: drop_Suc take_Suc split: list.splits, case_tac xs, auto)

lemma dropWhile_sorted: "spans_ok rs \<Longrightarrow> dropWhile (\<lambda>r. fr_endFrame r < f) rs = filter (\<lambda>r. f \<le> fr_endFrame r) rs"
proof (induction rs)
  case (Cons r rs)
  have "spans_ok rs" using Cons.prems by (simp add: spans_ok_def)
  show ?case
  proof (cases "fr_endFrame r < f")
    case True
    with Cons.IH \<open>spans_ok rs\<close> show ?thesis by simp
  next
    case False
    then have "f \<le> fr_endFrame s" if "s \<in> set rs" for s
      using Cons.prems that by (fastforce simp: spans_ok_def not_less)
    with False show ?thesis by (simp add: not_less)
  qed
qed simp

text \<open>
  C21: DiscardBefore drops exactly the checkpoints that end before the frame, and an undo to that frame
  or a later one has the same outcome before and after it.
\<close>

theorem discard_keeps_later_undos:
  assumes "journal_run ptrMax j mem S" "\<not> rj_frameOpen j" "f \<le> f'"
  shows "live (DiscardBefore j f) = filter (\<lambda>r. f \<le> fr_endFrame r) (live j) \<and>
    undo_outcome mem (DiscardBefore j f) f' = undo_outcome mem j f'"
proof -
  have j: "journal_ok j" "recorded j mem S" using journal_run_inv [OF assms(1)] by auto
  define k where "k = DiscardBefore j f"
  define n where "n = rj_frameCount j - rj_frameCount k"
  have k: "journal_ok k" "recorded k mem (drop n S)" "rj_frameCount k \<le> rj_frameCount j"
    "live k = dropWhile (\<lambda>r. fr_endFrame r < f) (live j)" "rj_failed k = rj_failed j" "\<not> rj_frameOpen k"
    using discard_loop_ok [OF j assms(2), of "rj_frameCount j" k f] assms(2) by (simp_all add: k_def n_def DiscardBefore_def)
  have drop: "live k = drop n (live j)"
  proof -
    have "takeWhile (\<lambda>r. fr_endFrame r < f) (live j) @ live k = live j" using k(4) by simp
    then have "live k = drop (length (takeWhile (\<lambda>r. fr_endFrame r < f) (live j))) (live j)"
      by (metis append_eq_conv_conj)
    moreover have "length (takeWhile (\<lambda>r. fr_endFrame r < f) (live j)) = n"
      using \<open>_ @ live k = live j\<close> by (metis add_diff_cancel_right' length_append length_live n_def)
    ultimately show ?thesis by simp
  qed
  have gone: "fr_endFrame r < f" if "r \<in> set (take n (live j))" for r
  proof -
    have "take n (live j) = takeWhile (\<lambda>r. fr_endFrame r < f) (live j)"
      using drop k(4) by (metis append_same_eq append_take_drop_id takeWhile_dropWhile_id)
    with that show ?thesis by (auto dest: set_takeWhileD)
  qed
  have "List.find (\<lambda>(a, b, s). a \<le> f' \<and> f' \<le> b) (drop n (checkpoints j S)) =
      List.find (\<lambda>(a, b, s). a \<le> f' \<and> f' \<le> b) (checkpoints j S)"
  proof (rule find_drop, rule ballI)
    fix c assume "c \<in> set (take n (checkpoints j S))"
    then have "fst (snd c) < f"
      using gone by (auto simp: checkpoints_def take_map take_zip dest!: set_zip_leftD)
    with assms(3) show "\<not> (case c of (a, b, s) \<Rightarrow> a \<le> f' \<and> f' \<le> b)" by (cases c) auto
  qed
  moreover have "checkpoints k (drop n S) = drop n (checkpoints j S)"
    by (simp add: checkpoints_def drop drop_map drop_zip)
  ultimately have "undo_outcome mem k f' = undo_outcome mem j f'"
    using undo_outcome_eq [OF k(1,2)] undo_outcome_eq [OF j] assms(2) k(5,6) by (simp add: go_back_def)
  moreover have "spans_ok (live j)" using j(1) by (simp add: journal_ok_def)
  ultimately show ?thesis using k(4) dropWhile_sorted by (simp add: k_def)
qed

section \<open>Touch\<close>

text \<open>
  C22: with a frame open and no failure, Touch accepts a range exactly if the record already has that
  very range, or no block of it meets the range and the block and byte limits leave room; accepted, the
  record covers what it covered and the range, and refused, the journal has failed.
\<close>

theorem touch_decision:
  assumes "journal_run ptrMax j mem S" "rj_frameOpen j" "\<not> rj_failed j" "0 < start" "0 < extent" "start + extent \<le> ptrMax"
    and "Touch ptrMax mem j start extent = (ok, k)"
  shows "ok = ((\<exists>b \<in> set (fr_blocks (BackRecord j)). exact b start extent) \<or>
        (\<forall>b \<in> set (fr_blocks (BackRecord j)). \<not> overlaps b start extent) \<and>
        length (fr_blocks (BackRecord j)) < jc_maxBlocksPerFrame (rj_config j) \<and>
        fr_byteSize (BackRecord j) + extent \<le> jc_maxBytesPerFrame (rj_config j)) \<and>
      rj_failed k = (\<not> ok) \<and>
      (ok \<longrightarrow> (\<forall>x. covers (BackRecord k) x \<longleftrightarrow> covers (BackRecord j) x \<or> start \<le> x \<and> x < start + extent))"
  using Touch_ok [of j mem S ptrMax start extent ok k] journal_run_inv [OF assms(1)] assms(2-) by blast

text \<open>
  C23: every live record is inside its bounds. The arena is inside the configured limit and the blocks
  are at most the configured number; the copy of every block, of a sole block too, lies inside the used
  part of the arena; the copies of two blocks lie one after another and their ranges never meet.
\<close>

theorem journal_copies_in_bounds:
  assumes "journal_run ptrMax j mem S" "i < rj_frameCount j"
  shows "fr_byteSize (record_at j i) \<le> fr_byteCapacity (record_at j i) \<and>
    fr_byteCapacity (record_at j i) \<le> jc_maxBytesPerFrame (rj_config j) \<and>
    length (fr_blocks (record_at j i)) \<le> jc_maxBlocksPerFrame (rj_config j) \<and>
    (\<forall>m < length (fr_blocks (record_at j i)).
       bl_offset (fr_blocks (record_at j i) ! m) + bl_size (fr_blocks (record_at j i) ! m)
         \<le> fr_byteSize (record_at j i)) \<and>
    (\<forall>m < length (fr_blocks (record_at j i)). \<forall>n < m.
       bl_offset (fr_blocks (record_at j i) ! n) + bl_size (fr_blocks (record_at j i) ! n)
         \<le> bl_offset (fr_blocks (record_at j i) ! m) \<and>
       (block_end (fr_blocks (record_at j i) ! n) \<le> bl_address (fr_blocks (record_at j i) ! m) \<or>
        block_end (fr_blocks (record_at j i) ! m) \<le> bl_address (fr_blocks (record_at j i) ! n)))"
proof -
  let ?r = "record_at j i"
  have j: "journal_ok j" using journal_run_inv [OF assms(1)] by simp
  have "?r = live j ! i" using assms(2) by simp
  then have mem: "?r \<in> set (live j)" using assms(2) by (metis length_live nth_mem)
  then have "?r \<in> set (rj_frames j)" using j live_subset [of j] by (auto simp: journal_ok_def)
  moreover have ok: "record_ok ?r" "length (fr_blocks ?r) \<le> jc_maxBlocksPerFrame (rj_config j)"
    using j mem by (auto simp: journal_ok_def)
  moreover have arena: "arena_ok ?r" using ok by (simp add: record_ok_def)
  ultimately show ?thesis
    using j record_disjoint [OF ok(1)] arena_disjoint [OF arena] arena_inside [OF arena]
    by (intro conjI allI impI) (auto simp: journal_ok_def arena_ok_def)
qed

lemma touch_search_fuel:
  "index_tree bs i t \<Longrightarrow> height t \<le> n \<Longrightarrow> height t \<le> m \<Longrightarrow>
    touch_search n bs start extent i ancestors = touch_search m bs start extent i ancestors"
proof (induction t arbitrary: i n m ancestors)
  case Leaf
  have "touch_search x bs start extent NO_BLOCK ancestors = Free_range ancestors" for x
    by (subst touch_search.simps) simp
  with Leaf show ?case by simp
next
  case (Node l a r)
  obtain n' m' where nm: "n = Suc n'" "m = Suc m'" "height l \<le> n'" "height r \<le> n'" "height l \<le> m'" "height r \<le> m'"
    using Node.prems(2,3) by (cases n; cases m) auto
  note tree = index_tree_left_right [OF Node.prems(1)]
  show ?case
    unfolding nm(1,2) tree(5) touch_search.simps [of "Suc n'"] touch_search.simps [of "Suc m'"]
    by (simp add: Let_def Node.IH(1) [OF tree(1) nm(3,5)] Node.IH(2) [OF tree(2) nm(4,6)])
qed

text \<open>
  C29: the array of 64 ancestors is long enough: on every live record the search gives the same answer
  with any longer array, so its depth guard never refuses a range.
\<close>

theorem search_depth_suffices:
  assumes "journal_run ptrMax j mem S" "i < rj_frameCount j" "64 \<le> n"
  shows "touch_search n (fr_blocks (record_at j i)) start extent (fr_root (record_at j i)) [] =
    touch_search 64 (fr_blocks (record_at j i)) start extent (fr_root (record_at j i)) []"
proof -
  let ?r = "record_at j i"
  have j: "journal_ok j" using journal_run_inv [OF assms(1)] by simp
  have "?r = live j ! i" using assms(2) by simp
  then have mem: "?r \<in> set (live j)" using assms(2) by (metis length_live nth_mem)
  then obtain t where t: "record_index ?r t" using j by (auto simp: journal_ok_def record_ok_def)
  have "length (fr_blocks ?r) < 4294967295" using j mem assms(2) by (fastforce simp: journal_ok_def)
  then have "height t < 64" by (rule index_height [OF t])
  with t assms(3) show ?thesis by (intro touch_search_fuel) (auto simp: record_index_def)
qed

section \<open>A concrete run\<close>

text \<open>
  A journal of two frames: frame 5 is opened over zeroed memory, four bytes at 100 are touched, the game
  writes 101, and the frame is closed.
\<close>

definition zeroed :: memory where
  "zeroed = (\<lambda>x. 0)"

definition written :: memory where
  "written = (\<lambda>x. if x = 101 then 7 else 0)"

definition demo_config :: RollbackJournalConfig where
  "demo_config = \<lparr>jc_maxFrames = 2, jc_maxBytesPerFrame = 4096, jc_maxBlocksPerFrame = 4,
     jc_fastBulkCopy = False, jc_coalesceRestore = True\<rparr>"

definition demo_reset :: RollbackJournal where
  "demo_reset = snd (Journal_Reset zeroed (Journal_new zeroed) demo_config)"

definition demo_begun :: RollbackJournal where
  "demo_begun = snd (BeginFrame demo_reset 5 False)"

definition demo_touched :: RollbackJournal where
  "demo_touched = snd (Touch 1000 zeroed demo_begun 100 4)"

definition demo_ended :: RollbackJournal where
  "demo_ended = snd (EndFrame demo_touched)"

definition demo_block :: Block where
  "demo_block = plain_block 100 0 4"

lemma replicate_2: "replicate 2 x = [x, x]"
  by (simp add: numeral_2_eq_2)

lemma demo_reset_eq: "demo_reset = (Journal_new zeroed)\<lparr>rj_config := demo_config,
    rj_frames := [FrameRecord_default zeroed, FrameRecord_default zeroed], rj_configured := True\<rparr>"
  by (simp add: demo_reset_def Journal_Reset_def Journal_Clear_def Journal_new_def demo_config_def NO_BLOCK_def replicate_2 Let_def)

lemma demo_begun_eq: "BeginFrame demo_reset 5 False = (True, demo_begun)"
    "demo_begun = demo_reset\<lparr>rj_frameCount := 1, rj_frameOpen := True, rj_openFrame := 5,
       rj_frames := [(FrameRecord_default zeroed)\<lparr>fr_startFrame := 5, fr_endFrame := 5\<rparr>, FrameRecord_default zeroed]\<rparr>"
  by (simp_all add: demo_begun_def BeginFrame_def demo_reset_eq Journal_new_def Let_def set_back_def BackRecord_def
      record_at_def record_slot_def FrameRecord_default_def)

lemma demo_back: "BackRecord demo_begun = (FrameRecord_default zeroed)\<lparr>fr_startFrame := 5, fr_endFrame := 5\<rparr>"
  by (simp add: demo_begun_eq(2) demo_reset_eq Journal_new_def BackRecord_def record_at_def record_slot_def)

lemma demo_grow: "grow_capacity 4 4096 4 4096 = 4096"
  by (simp add: numeral_eq_Suc)

lemma demo_search: "touch_search 64 [] 100 4 NO_BLOCK [] = Free_range []"
  by (subst touch_search.simps) simp

lemma zeroed_copy: "memcpy zeroed n zeroed m k = zeroed"
  by (auto simp: memcpy_def zeroed_def)

lemma demo_fields: "rj_frameOpen demo_begun" "rj_frameCount demo_begun = 1" "\<not> rj_failed demo_begun"
    "rj_config demo_begun = demo_config" "rj_pendingBlocks demo_begun = 0" "\<not> rj_readOnlyCaptureOpen demo_begun"
    "rj_firstFrame demo_begun = 0" "rj_arenaGrowths demo_begun = 0" "rj_garbage demo_begun = zeroed"
    "rj_frames demo_begun = [(FrameRecord_default zeroed)\<lparr>fr_startFrame := 5, fr_endFrame := 5\<rparr>, FrameRecord_default zeroed]"
  by (simp_all add: demo_begun_eq(2) demo_reset_eq Journal_new_def)

definition demo_record :: FrameRecord where
  "demo_record = \<lparr>fr_startFrame = 5, fr_endFrame = 5, fr_bytes = zeroed, fr_byteSize = 4, fr_byteCapacity = 4096,
     fr_blocks = [demo_block], fr_root = 0\<rparr>"

lemma demo_touched_eq: "Touch 1000 zeroed demo_begun 100 4 = (True, demo_touched)"
    "demo_touched = demo_begun\<lparr>rj_frames := [demo_record, FrameRecord_default zeroed], rj_arenaGrowths := 1\<rparr>"
proof -
  let ?k = "demo_begun\<lparr>rj_frames := [demo_record, FrameRecord_default zeroed], rj_arenaGrowths := 1\<rparr>"
  have "Touch 1000 zeroed demo_begun 100 4 = (True, ?k)"
    by (simp add: Touch_def CurrentRecord_def demo_back demo_fields demo_search FrameRecord_default_def demo_config_def
        EnsureByteCapacity_def Let_def set_back_def record_slot_def demo_grow)
      (simp add: capture_block_def BackRecord_def record_at_def record_slot_def demo_fields set_back_def link_block_def
        Let_def zeroed_copy demo_record_def demo_block_def plain_block_def FrameRecord_default_def)
  then show "Touch 1000 zeroed demo_begun 100 4 = (True, demo_touched)" "demo_touched = ?k"
    by (simp_all add: demo_touched_def)
qed

lemma demo_ended_eq: "EndFrame demo_touched = (True, demo_ended)" "demo_ended = demo_touched\<lparr>rj_frameOpen := False\<rparr>"
  by (simp_all add: demo_ended_def EndFrame_def demo_touched_eq(2) demo_fields)

lemma demo_back_touched: "BackRecord demo_touched = demo_record"
  by (simp add: demo_touched_eq(2) BackRecord_def record_at_def record_slot_def demo_fields)

lemma demo_run_touched: "journal_run 1000 demo_touched zeroed [zeroed]"
proof -
  have "journal_run 1000 demo_reset zeroed []" unfolding demo_reset_def by (rule journal_run.reset [OF journal_run.fresh])
  from journal_run.begin_new [OF this demo_begun_eq(1)] have "journal_run 1000 demo_begun zeroed [zeroed]"
    by (simp only: list.sel if_cancel append_Nil)
  from journal_run.touch [OF this demo_touched_eq(1)] show ?thesis .
qed

lemma demo_run: "journal_run 1000 demo_ended written [zeroed]"
proof -
  have "covers (BackRecord demo_touched) 101"
    by (simp add: demo_back_touched demo_record_def demo_block_def covers_def block_end_def)
  then have "journal_run 1000 demo_touched written [zeroed]"
    by (intro journal_run.game_write [OF demo_run_touched]) (auto simp: demo_touched_eq(2) demo_fields written_def zeroed_def)
  from journal_run.end_frame [OF this demo_ended_eq(1)] show ?thesis .
qed

lemma demo_live: "live demo_ended = [demo_record]" "live demo_touched = [demo_record]"
  by (simp_all add: live_def demo_ended_eq(2) demo_touched_eq(2) demo_fields record_at_def record_slot_def)

lemma demo_closed: "\<not> rj_frameOpen demo_ended" "\<not> rj_failed demo_ended"
  by (simp_all add: demo_ended_eq(2) demo_touched_eq(2) demo_fields)

theorem undo_restores_checkpoint_witness: "undo_outcome written demo_ended 5 = (Some 5, zeroed)"
  using undo_restores_checkpoint [OF demo_run, of 5]
  by (simp add: demo_closed checkpoints_def go_back_def demo_live demo_record_def)

theorem coalescing_is_invisible_witness:
  "undo_outcome written (demo_ended\<lparr>rj_config := (rj_config demo_ended)\<lparr>jc_coalesceRestore := False\<rparr>\<rparr>) 5
    = undo_outcome written demo_ended 5"
  by (rule coalescing_is_invisible [OF demo_run])

theorem discard_keeps_later_undos_witness:
  "undo_outcome written (DiscardBefore demo_ended 5) 5 = undo_outcome written demo_ended 5"
  using discard_keeps_later_undos [OF demo_run, of 5 5] by (simp add: demo_ended_eq(2))

theorem touch_decision_witness: "fst (Touch 1000 zeroed demo_touched 102 4) = False"
proof -
  obtain ok k where T: "Touch 1000 zeroed demo_touched 102 4 = (ok, k)" by (cases "Touch 1000 zeroed demo_touched 102 4")
  from touch_decision [OF demo_run_touched _ _ _ _ _ T] have "\<not> ok"
    by (simp add: demo_back_touched) (simp add: demo_touched_eq(2) demo_fields demo_record_def demo_block_def exact_def
      overlaps_def block_end_def)
  with T show ?thesis by simp
qed

text \<open>A record of two blocks: eight bytes at 200 are touched after the four at 100.\<close>

definition demo_twice :: RollbackJournal where
  "demo_twice = snd (Touch 1000 zeroed demo_touched 200 8)"

definition demo_twice_record :: FrameRecord where
  "demo_twice_record = demo_record\<lparr>fr_byteSize := 12,
     fr_blocks := [demo_block\<lparr>bl_right := 1, bl_height := 2\<rparr>, plain_block 200 4 8]\<rparr>"

lemma demo_search_right: "touch_search 64 [demo_block] 200 8 0 [] = Free_range [0]"
proof -
  have "touch_search (Suc 63) [demo_block] 200 8 0 [] = Free_range [0]"
    by (subst touch_search.simps, subst touch_search.simps) (simp add: demo_block_def plain_block_def NO_BLOCK_def)
  then show ?thesis by simp
qed

lemma demo_link_right:
  "link_block [demo_block] 0 [0] (plain_block 200 4 8) =
    ([demo_block\<lparr>bl_right := 1, bl_height := 2\<rparr>, plain_block 200 4 8], 0)"
  by (simp add: link_block_def RebalanceBlock_def Let_def Height_def UpdateHeight_def set_left_def set_right_def
      demo_block_def plain_block_def NO_BLOCK_def)

lemma demo_twice_eq: "Touch 1000 zeroed demo_touched 200 8 = (True, demo_twice)"
    "demo_twice = demo_touched\<lparr>rj_frames := [demo_twice_record, FrameRecord_default zeroed]\<rparr>"
proof -
  let ?k = "demo_touched\<lparr>rj_frames := [demo_twice_record, FrameRecord_default zeroed]\<rparr>"
  have blocks: "fr_blocks demo_record = [demo_block]" "fr_root demo_record = 0" "fr_byteSize demo_record = 4"
    "fr_byteCapacity demo_record = 4096" "fr_bytes demo_record = zeroed"
    by (simp_all add: demo_record_def)
  have "Touch 1000 zeroed demo_touched 200 8 = (True, ?k)"
    by (simp add: Touch_def CurrentRecord_def demo_back_touched blocks demo_search_right EnsureByteCapacity_def
        Let_def capture_block_def plain_block_def [symmetric] demo_link_right)
      (simp add: demo_touched_eq(2) demo_fields demo_config_def capture_block_def set_back_def record_slot_def
        demo_twice_record_def zeroed_copy blocks)
  then show "Touch 1000 zeroed demo_touched 200 8 = (True, demo_twice)" "demo_twice = ?k"
    by (simp_all add: demo_twice_def)
qed

theorem journal_copies_in_bounds_witness:
  "fr_byteSize (record_at demo_twice 0) \<le> 4096 \<and>
   bl_offset (fr_blocks (record_at demo_twice 0) ! 1) + 8 \<le> fr_byteSize (record_at demo_twice 0) \<and>
   bl_offset (fr_blocks (record_at demo_twice 0) ! 0) + 4 \<le> bl_offset (fr_blocks (record_at demo_twice 0) ! 1)"
proof -
  have at: "record_at demo_twice 0 = demo_twice_record" and count: "rj_frameCount demo_twice = 1"
    and config: "rj_config demo_twice = demo_config"
    by (simp_all add: demo_twice_eq(2) demo_touched_eq(2) demo_fields record_at_def record_slot_def)
  have len: "length (fr_blocks demo_twice_record) = 2" and sizes: "bl_size (fr_blocks demo_twice_record ! 0) = 4"
    "bl_size (fr_blocks demo_twice_record ! 1) = 8"
    by (simp_all add: demo_twice_record_def demo_block_def plain_block_def)
  note bounds = journal_copies_in_bounds [OF journal_run.touch [OF demo_run_touched demo_twice_eq(1)], of 0,
      unfolded at count config len]
  from bounds have "fr_byteSize demo_twice_record \<le> 4096" by (simp add: demo_config_def)
  moreover from bounds [THEN conjunct2, THEN conjunct2, THEN conjunct2, THEN conjunct1, THEN spec, of 1]
  have "bl_offset (fr_blocks demo_twice_record ! 1) + 8 \<le> fr_byteSize demo_twice_record" using sizes(2) by force
  moreover from bounds [THEN conjunct2, THEN conjunct2, THEN conjunct2, THEN conjunct2, THEN spec, of 1]
  have "bl_offset (fr_blocks demo_twice_record ! 0) + 4 \<le> bl_offset (fr_blocks demo_twice_record ! 1)"
    using sizes(1) by force
  ultimately show ?thesis unfolding at by blast
qed

theorem search_depth_suffices_witness:
  "touch_search 1000 (fr_blocks (record_at demo_ended 0)) 300 8 (fr_root (record_at demo_ended 0)) [] =
    touch_search 64 (fr_blocks (record_at demo_ended 0)) 300 8 (fr_root (record_at demo_ended 0)) []"
  by (rule search_depth_suffices [OF demo_run]) (simp_all add: demo_ended_eq(2) demo_touched_eq(2) demo_fields)

end
