(* ===== verification/Replay.thy ===== *)
theory Replay
  imports Wire
begin

text \<open>
  The all-seat input recording: \<^verbatim>\<open>InputReplay.hpp\<close> and \<^verbatim>\<open>InputReplay.cpp\<close>.

  \<^verbatim>\<open>Frame[n]\<close> is a function of frame and seat, the 64 chapters a function of the index; \<open>ir_frames\<close> is
  \<open>None\<close> for a null owner. \<^verbatim>\<open>new (std::nothrow)\<close> may fail: its outcome is the argument \<open>allocated\<close>. Sizes
  are natural numbers; the bounds on counts are checked before any product, which stays below 2^24, so the
  64-bit sums of the code do not wrap. Pointers are not null, and \<^verbatim>\<open>Inspect\<close> writes its result only on
  success, so it is an option.
\<close>

section \<open>Data\<close>

record InputReplayConfig =
  rc_gameId :: u32
  rc_gameplayAbi :: u32
  rc_playerCount :: u8
  rc_recordedPlayer :: u8
  rc_description :: bytes

record InputReplayChapter =
  ch_label :: u32
  ch_firstFrame :: u32

record InputReplayInfo =
  ri_config :: InputReplayConfig
  ri_frameCount :: u32
  ri_chapterCount :: u32
  ri_chapters :: "nat \<Rightarrow> InputReplayChapter"

record InputReplay =
  ir_info :: InputReplayInfo
  ir_frames :: "(nat \<Rightarrow> nat \<Rightarrow> FrameInput) option"
  ir_recording :: bool
  ir_loaded :: bool

definition InputReplayConfig_default :: InputReplayConfig where
  "InputReplayConfig_default = \<lparr>rc_gameId = 0, rc_gameplayAbi = 0, rc_playerCount = 0, rc_recordedPlayer = 0, rc_description = []\<rparr>"

definition InputReplayChapter_default :: InputReplayChapter where
  "InputReplayChapter_default = \<lparr>ch_label = 0, ch_firstFrame = 0\<rparr>"

definition InputReplayInfo_default :: InputReplayInfo where
  "InputReplayInfo_default = \<lparr>ri_config = InputReplayConfig_default, ri_frameCount = 0, ri_chapterCount = 0,
     ri_chapters = (\<lambda>_. InputReplayChapter_default)\<rparr>"

definition InputReplay_default :: InputReplay where
  "InputReplay_default = \<lparr>ir_info = InputReplayInfo_default, ir_frames = None, ir_recording = False, ir_loaded = False\<rparr>"

definition MaxFrames :: u32 where "MaxFrames = 250000"
definition MaxBytes :: nat where "MaxBytes = 16 * 1024 * 1024"
definition MaxDescriptionBytes :: nat where "MaxDescriptionBytes = 16 * 1024"
definition HeaderBytes :: nat where "HeaderBytes = 40"
definition SampleBytes :: nat where "SampleBytes = 12"
definition MaxChapters :: nat where "MaxChapters = 64"

section \<open>Bytes\<close>

definition Signature :: bytes where
  "Signature = [0x45, 0x41, 0x47, 0x4C, 0x52, 0x50, 0x59, 0x31]"

definition replay_word :: "bytes \<Rightarrow> nat \<Rightarrow> u32" where
  "replay_word data at = ucast (data ! at) OR push_bit 8 (ucast (data ! (at + 1))) OR
     push_bit 16 (ucast (data ! (at + 2))) OR push_bit 24 (ucast (data ! (at + 3)))"

definition replay_put :: "bytes \<Rightarrow> u32 \<Rightarrow> bytes" where
  "replay_put bytes value = foldl (\<lambda>bytes shift. bytes @ [ucast (drop_bit shift value)]) bytes [0, 8, 16, 24]"

definition put_float :: "bytes \<Rightarrow> f32 \<Rightarrow> bytes" where
  "put_float bytes value = replay_put bytes value"

definition checksum_step :: "bytes \<Rightarrow> u32 \<Rightarrow> nat \<Rightarrow> u32" where
  "checksum_step data hash i = (if i < 36 \<or> i \<ge> 40 then (hash XOR ucast (data ! i)) * 16777619 else hash)"

definition checksum :: "bytes \<Rightarrow> u32" where
  "checksum data = foldl (checksum_step data) 2166136261 [0..<length data]"

definition valid_config :: "InputReplayConfig \<Rightarrow> bool" where
  "valid_config config \<longleftrightarrow> rc_gameId config \<noteq> 0 \<and> rc_gameplayAbi config \<noteq> 0 \<and> rc_playerCount config \<ge> 2 \<and>
     rc_playerCount config \<le> MAX_PLAYERS \<and> rc_recordedPlayer config < rc_playerCount config \<and>
     length (rc_description config) \<le> MaxDescriptionBytes"

definition valid_sample :: "FrameInput \<Rightarrow> bool" where
  "valid_sample input \<longleftrightarrow> analogMode input \<le> AM_DirectTouchBegin \<and>
     f32_isfinite (axis_x input) \<and> f32_isfinite (axis_y input)"

definition replay_sample :: "bytes \<Rightarrow> nat \<Rightarrow> (FrameInput \<times> nat) option" where
  "replay_sample data at =
     (let flags = data ! (at + 3);
          input = \<lparr>buttons = ucast (data ! at) OR push_bit 8 (ucast (data ! (at + 1))), analogMode = data ! (at + 2),
            axis_x = replay_word data (at + 4), axis_y = replay_word data (at + 8),
            unlimited = (flags AND 1 \<noteq> 0), touchUsed = (flags AND 2 \<noteq> 0), touchBomb = (flags AND 4 \<noteq> 0)\<rparr>
      in if flags AND NOT 7 = 0 \<and> valid_sample input then Some (input, at + SampleBytes) else None)"

section \<open>Recording\<close>

definition Replay_Clear :: "InputReplay \<Rightarrow> InputReplay" where
  "Replay_Clear r = r\<lparr>ir_info := InputReplayInfo_default, ir_frames := None, ir_recording := False, ir_loaded := False\<rparr>"

definition Replay_Begin :: "bool \<Rightarrow> InputReplay \<Rightarrow> InputReplayConfig \<Rightarrow> bool \<times> InputReplay" where
  "Replay_Begin allocated r config =
     (if \<not> valid_config config then (False, r)
      else if \<not> allocated then (False, r)
      else (True, InputReplay_default\<lparr>ir_info := InputReplayInfo_default\<lparr>ri_config := config\<rparr>,
             ir_frames := Some (\<lambda>_ _. FrameInput_default), ir_recording := True\<rparr>))"

definition new_chapter :: "InputReplayInfo \<Rightarrow> u32 \<Rightarrow> bool" where
  "new_chapter info chapter \<longleftrightarrow> ri_chapterCount info = 0 \<or>
     chapter \<noteq> ch_label (ri_chapters info (unat (ri_chapterCount info) - 1))"

definition chapter_refused :: "InputReplayInfo \<Rightarrow> u32 \<Rightarrow> bool" where
  "chapter_refused info chapter \<longleftrightarrow> unat (ri_chapterCount info) \<ge> MaxChapters \<or>
     list_ex (\<lambda>i. ch_label (ri_chapters info i) = chapter) [0..<unat (ri_chapterCount info)]"

definition Replay_Append :: "InputReplay \<Rightarrow> u32 \<Rightarrow> u32 \<Rightarrow> FrameInput list \<Rightarrow> bool \<times> InputReplay" where
  "Replay_Append r frame chapter inputs = (case ir_frames r of None \<Rightarrow> (False, r)
     | Some frames \<Rightarrow>
       let info = ir_info r in
       if \<not> ir_recording r \<or> length inputs \<noteq> unat (rc_playerCount (ri_config info)) \<or>
          frame \<noteq> ri_frameCount info \<or> frame \<ge> MaxFrames \<or> chapter = 0
       then (False, r)
       else if \<not> list_all valid_sample inputs then (False, r)
       else if new_chapter info chapter \<and> chapter_refused info chapter then (False, r)
       else
         let info = (if new_chapter info chapter
               then info\<lparr>ri_chapters := (ri_chapters info)(unat (ri_chapterCount info) :=
                      \<lparr>ch_label = chapter, ch_firstFrame = frame\<rparr>),
                    ri_chapterCount := ri_chapterCount info + 1\<rparr>
               else info);
             frames = frames(unat frame := stored_inputs inputs)
         in (True, r\<lparr>ir_frames := Some frames, ir_info := info\<lparr>ri_frameCount := ri_frameCount info + 1\<rparr>\<rparr>))"

definition FrameAt :: "InputReplay \<Rightarrow> u32 \<Rightarrow> (nat \<Rightarrow> FrameInput) option" where
  "FrameAt r frame = (case ir_frames r of None \<Rightarrow> None
     | Some frames \<Rightarrow> if frame < ri_frameCount (ir_info r) then Some (frames (unat frame)) else None)"

section \<open>Reading a file\<close>

definition HasSignature :: "bytes \<Rightarrow> bool" where
  "HasSignature data \<longleftrightarrow> length data \<ge> 8 \<and> take 8 data = Signature"

text \<open>The loop over the chapters; \<open>chapters\<close> are the ones read so far.\<close>

fun read_chapters :: "bytes \<Rightarrow> u32 \<Rightarrow> nat \<Rightarrow> nat \<Rightarrow> InputReplayChapter list \<Rightarrow> InputReplayChapter list option" where
  "read_chapters data frameCount 0 at chapters = Some chapters"
| "read_chapters data frameCount (Suc n) at chapters =
     (let chapter = \<lparr>ch_label = replay_word data at, ch_firstFrame = replay_word data (at + 4)\<rparr> in
      if ch_label chapter = 0 \<or> ch_firstFrame chapter \<ge> frameCount \<or>
         (chapters = [] \<and> ch_firstFrame chapter \<noteq> 0) \<or>
         (chapters \<noteq> [] \<and> ch_firstFrame chapter \<le> ch_firstFrame (last chapters)) \<or>
         list_ex (\<lambda>c. ch_label c = ch_label chapter) chapters
      then None
      else read_chapters data frameCount n (at + 8) (chapters @ [chapter]))"

text \<open>The nested loop over frames and seats.\<close>

definition read_rows :: "bytes \<Rightarrow> nat \<Rightarrow> nat \<Rightarrow> nat \<Rightarrow> (FrameInput list list \<times> nat) option" where
  "read_rows data frames players = get_many (get_many replay_sample players) frames data"

definition stored_chapters :: "InputReplayChapter list \<Rightarrow> nat \<Rightarrow> InputReplayChapter" where
  "stored_chapters cs i = (if i < length cs then cs ! i else InputReplayChapter_default)"

definition Inspect :: "bytes \<Rightarrow> InputReplayInfo option" where
  "Inspect data =
     (if \<not> HasSignature data \<or> length data < HeaderBytes \<or> length data > MaxBytes \<or>
         replay_word data 8 \<noteq> 1 \<or> data ! 22 \<noteq> 0 \<or> data ! 23 \<noteq> 0
      then None
      else
        let config = \<lparr>rc_gameId = replay_word data 12, rc_gameplayAbi = replay_word data 16,
              rc_playerCount = data ! 20, rc_recordedPlayer = data ! 21, rc_description = []\<rparr>;
            descriptionBytes = unat (replay_word data 24);
            chapterCount = replay_word data 28;
            frameCount = replay_word data 32
        in if \<not> valid_config config \<or> descriptionBytes > MaxDescriptionBytes \<or>
              chapterCount = 0 \<or> unat chapterCount > MaxChapters \<or> frameCount = 0 \<or> frameCount > MaxFrames
           then None
           else
             let prefix = HeaderBytes + descriptionBytes + unat chapterCount * 8;
                 expected = prefix + unat frameCount * unat (rc_playerCount config) * SampleBytes
             in if expected \<noteq> length data \<or> replay_word data 36 \<noteq> checksum data then None
                else
                  let config = config\<lparr>rc_description := take descriptionBytes (drop HeaderBytes data)\<rparr> in
                  case read_chapters data frameCount (unat chapterCount) (HeaderBytes + descriptionBytes) [] of
                    None \<Rightarrow> None
                  | Some chapters \<Rightarrow>
                    (case read_rows data (unat frameCount) (unat (rc_playerCount config)) prefix of
                       None \<Rightarrow> None
                     | Some rows \<Rightarrow> Some \<lparr>ri_config = config, ri_frameCount = frameCount,
                         ri_chapterCount = chapterCount, ri_chapters = stored_chapters chapters\<rparr>))"

definition stored_rows :: "FrameInput list list \<Rightarrow> nat \<Rightarrow> nat \<Rightarrow> FrameInput" where
  "stored_rows rows frame = (if frame < length rows then stored_inputs (rows ! frame) else (\<lambda>_. FrameInput_default))"

definition Replay_Decode :: "bool \<Rightarrow> InputReplay \<Rightarrow> bytes \<Rightarrow> bool \<times> InputReplay" where
  "Replay_Decode allocated r data = (case Inspect data of None \<Rightarrow> (False, r)
     | Some info \<Rightarrow>
       if \<not> allocated then (False, r)
       else (case read_rows data (unat (ri_frameCount info)) (unat (rc_playerCount (ri_config info)))
               (HeaderBytes + length (rc_description (ri_config info)) + unat (ri_chapterCount info) * 8) of
           None \<Rightarrow> (False, r)
         | Some (rows, _) \<Rightarrow> (True, InputReplay_default\<lparr>ir_info := info, ir_frames := Some (stored_rows rows), ir_loaded := True\<rparr>)))"

section \<open>Writing a file\<close>

text \<open>\<^verbatim>\<open>while (chapterCount < n && chapters[chapterCount].firstFrame < frameCount)\<close>; the fuel is the number of chapters left.\<close>

fun count_chapters :: "nat \<Rightarrow> (nat \<Rightarrow> InputReplayChapter) \<Rightarrow> u32 \<Rightarrow> nat \<Rightarrow> nat" where
  "count_chapters 0 chapters frameCount k = k"
| "count_chapters (Suc n) chapters frameCount k =
     (if ch_firstFrame (chapters k) < frameCount then count_chapters n chapters frameCount (k + 1) else k)"

definition put_sample :: "bytes \<Rightarrow> FrameInput \<Rightarrow> bytes" where
  "put_sample bytes input =
     (let flags = (if unlimited input then 1 else 0) OR (if touchUsed input then 2 else 0) OR (if touchBomb input then 4 else 0) in
      put_float (put_float (bytes @ [ucast (buttons input)] @ [ucast (drop_bit 8 (buttons input))] @ [analogMode input] @ [flags])
        (axis_x input)) (axis_y input))"

definition put_chapter :: "bytes \<Rightarrow> InputReplayChapter \<Rightarrow> bytes" where
  "put_chapter bytes chapter = replay_put (replay_put bytes (ch_label chapter)) (ch_firstFrame chapter)"

definition put_row :: "nat \<Rightarrow> bytes \<Rightarrow> (nat \<Rightarrow> FrameInput) \<Rightarrow> bytes" where
  "put_row players bytes row = foldl put_sample bytes (map row [0..<players])"

definition put_header :: "InputReplayConfig \<Rightarrow> nat \<Rightarrow> nat \<Rightarrow> u32 \<Rightarrow> bytes" where
  "put_header config descriptionBytes chapterCount frameCount =
     (let candidate = replay_put (replay_put (replay_put Signature 1) (rc_gameId config)) (rc_gameplayAbi config);
          candidate = candidate @ [rc_playerCount config] @ [rc_recordedPlayer config] @ [0] @ [0];
          candidate = replay_put candidate (word_of_nat descriptionBytes);
          candidate = replay_put (replay_put candidate (word_of_nat chapterCount)) frameCount
      in replay_put candidate 0)"

text \<open>The four bytes of the checksum stored at offset 36.\<close>

definition store_checksum :: "bytes \<Rightarrow> bytes" where
  "store_checksum candidate =
     (let hash = checksum candidate
      in foldl (\<lambda>c i. c[36 + i := ucast (drop_bit (8 * i) hash)]) candidate [0..<4])"

definition Replay_Encode :: "InputReplay \<Rightarrow> bytes option \<Rightarrow> u32 \<Rightarrow> bytes option" where
  "Replay_Encode r descriptionOverride frameCount =
     (let config = ri_config (ir_info r);
          description = (case descriptionOverride of None \<Rightarrow> rc_description config | Some d \<Rightarrow> d);
          frameCount = (if frameCount = INVALID_FRAME then ri_frameCount (ir_info r) else frameCount)
      in case ir_frames r of None \<Rightarrow> None
       | Some frames \<Rightarrow>
         if frameCount = 0 \<or> frameCount > ri_frameCount (ir_info r) \<or> \<not> valid_config config \<or>
            length description > MaxDescriptionBytes
         then None
         else
           let chapters = ri_chapters (ir_info r);
               chapterCount = count_chapters (unat (ri_chapterCount (ir_info r))) chapters frameCount 0;
               players = unat (rc_playerCount config);
               bytes = HeaderBytes + length description + chapterCount * 8 + unat frameCount * players * SampleBytes
           in if bytes > MaxBytes then None
              else
                let candidate = put_header config (length description) chapterCount frameCount @ description;
                    candidate = foldl put_chapter candidate (map chapters [0..<chapterCount]);
                    candidate = foldl (put_row players) candidate (map frames [0..<unat frameCount])
                in Some (store_checksum candidate))"

end
