(* ===== verification/ReplayCodec.thy ===== *)
theory ReplayCodec
  imports Replay
begin

text \<open>
  The layout of a recording on disk. \<open>replay_bytes\<close> lists the bytes of a file from its configuration,
  chapters and rows; the reader accepts exactly these files (\<open>Inspect_exact\<close>), the writer produces them
  (\<open>Encode_bytes\<close>), and the checksum changes with every single byte it covers.
\<close>

section \<open>Words and samples\<close>

text \<open>The samples of a recording are those of a packet whose title admits every analog mode.\<close>

definition replay_cfg :: ProtocolConfig where
  "replay_cfg = \<lparr>MagicGame = 0, MaxAnalogMode = AM_DirectTouchBegin\<rparr>"

lemma valid_sample_iff: "valid_sample i \<longleftrightarrow> ValidInput replay_cfg i"
  by (simp add: valid_sample_def ValidInput_def replay_cfg_def)

lemma replay_put_le: "replay_put bytes v = bytes @ le_bytes 4 v"
  using PutU32_le [of bytes v] by (simp add: replay_put_def PutU32_def)

lemma replay_word_put: "drop at data = le_bytes 4 v @ rest \<Longrightarrow> replay_word data at = v"
  using u32.get_put_total [of at data v rest] by (simp add: PutU32_le GetU32_def replay_word_def split: if_splits)

lemma replay_word_read: "at + 4 \<le> length data \<Longrightarrow> drop at data = le_bytes 4 (replay_word data at) @ drop (at + 4) data"
  using u32.get_sound [of data at "replay_word data at" "at + 4"] by (simp add: PutU32_le GetU32_def replay_word_def)

lemma put_sample_eq: "put_sample bytes i = PutInput bytes i"
  by (simp add: put_sample_def PutInput_def PutU16_def put_float_def PutFloat_def replay_put_le PutU32_le input_flags_def Let_def)

lemma GetU32_word: "at + 4 \<le> length data \<Longrightarrow> GetU32 data at = Some (replay_word data at, at + 4)"
  by (simp add: GetU32_def replay_word_def)

lemma replay_sample_get: "at + 12 \<le> length data \<Longrightarrow> replay_sample data at = GetInput replay_cfg data at"
  by (simp add: replay_sample_def GetInput_def GetU16_def GetFloat_def GetU32_word Let_def SampleBytes_def valid_sample_iff
      ValidInput_def add.commute del: add_2_eq_Suc add_2_eq_Suc')

lemma get_many_cong:
  assumes "\<And>at. at + w \<le> length data \<Longrightarrow> f data at = g data at"
    and "\<And>at v at'. g data at = Some (v, at') \<Longrightarrow> at' = at + w"
  shows "at + n * w \<le> length data \<Longrightarrow> get_many f n data at = get_many g n data at"
proof (induction n arbitrary: at)
  case (Suc n)
  then have "f data at = g data at" by (intro assms(1)) simp
  moreover have "get_many f n data (at + w) = get_many g n data (at + w)"
    using Suc.prems by (intro Suc.IH) (simp add: algebra_simps)
  ultimately show ?case using assms(2) by (auto split: option.splits)
qed simp

section \<open>Rows\<close>

definition row_bytes :: "nat \<Rightarrow> FrameInput list \<Rightarrow> bytes" where
  "row_bytes p row = concat (map (PutInput []) (map (stored_inputs row) [0..<p]))"

definition row_ok :: "nat \<Rightarrow> FrameInput list \<Rightarrow> bool" where
  "row_ok p row \<longleftrightarrow> length row = p \<and> list_all valid_sample row"

lemma map_stored: "map (stored_inputs row) [0..<length row] = row"
  by (rule nth_equalityI) (simp_all add: stored_inputs_def)

interpretation row: field_codec "row_bytes p" "get_many (GetInput replay_cfg) p" "p * 12" "row_ok p" for p
proof
  have valid: "list_all valid_sample vs = list_all (ValidInput replay_cfg) vs" for vs
    using valid_sample_iff by (simp add: list_all_iff)
  show "length (row_bytes p v) = p * 12" for v
    unfolding row_bytes_def input.length_concat_put by simp
  show "get_many (GetInput replay_cfg) p data at = Some (v, at + p * 12)"
    if "row_ok p v" "drop at data = row_bytes p v @ rest" for data at v rest
  proof -
    from that have v: "length v = p" "list_all (ValidInput replay_cfg) v" by (simp_all add: row_ok_def valid)
    then have "drop at data = concat (map (PutInput []) v) @ rest"
      using that(2) map_stored [of v] by (simp add: row_bytes_def del: map_map)
    from input.get_many_put [OF v(2) this] v(1) show ?thesis by simp
  qed
  show "row_ok p v \<and> at' = at + p * 12 \<and> drop at data = row_bytes p v @ drop (at + p * 12) data"
    if "get_many (GetInput replay_cfg) p data at = Some (v, at')" for data at v at'
    using input.get_many_sound [OF that] map_stored [of v] by (auto simp: row_ok_def row_bytes_def valid simp del: map_map)
qed

lemma read_rows_get:
  assumes "at + frames * (players * 12) \<le> length data"
  shows "read_rows data frames players at = get_many (get_many (GetInput replay_cfg) players) frames data at"
  unfolding read_rows_def
proof (rule get_many_cong [OF _ _ assms])
  show "get_many replay_sample players data a = get_many (GetInput replay_cfg) players data a"
    if "a + players * 12 \<le> length data" for a
    by (rule get_many_cong [OF replay_sample_get _ that]) (auto dest: input.get_sound)
qed (auto dest: row.get_sound)

section \<open>Chapters\<close>

definition chapters_ok :: "u32 \<Rightarrow> InputReplayChapter list \<Rightarrow> bool" where
  "chapters_ok n cs \<longleftrightarrow> (\<forall>c \<in> set cs. ch_label c \<noteq> 0 \<and> ch_firstFrame c < n) \<and>
     sorted_wrt (<) (map ch_firstFrame cs) \<and> distinct (map ch_label cs) \<and> (cs \<noteq> [] \<longrightarrow> ch_firstFrame (hd cs) = 0)"

definition chapter_bytes :: "InputReplayChapter \<Rightarrow> bytes" where
  "chapter_bytes c = le_bytes 4 (ch_label c) @ le_bytes 4 (ch_firstFrame c)"

definition chapter_at :: "bytes \<Rightarrow> nat \<Rightarrow> InputReplayChapter" where
  "chapter_at data at = \<lparr>ch_label = replay_word data at, ch_firstFrame = replay_word data (at + 4)\<rparr>"

definition chapters_at :: "bytes \<Rightarrow> nat \<Rightarrow> nat \<Rightarrow> InputReplayChapter list" where
  "chapters_at data n at = map (\<lambda>i. chapter_at data (at + 8 * i)) [0..<n]"

lemma length_chapter_bytes [simp]: "length (chapter_bytes c) = 8"
  by (simp add: chapter_bytes_def)

lemma length_chapters_at [simp]: "length (chapters_at data n at) = n"
  by (simp add: chapters_at_def)

lemma chapters_at_Suc: "chapters_at data (Suc n) at = chapter_at data at # chapters_at data n (at + 8)"
proof -
  have "[0..<Suc n] = 0 # map Suc [0..<n]" by (simp add: upt_conv_Cons map_Suc_upt del: upt_Suc)
  then show ?thesis by (simp add: chapters_at_def comp_def algebra_simps del: upt_Suc)
qed

lemma sorted_snoc:
  "sorted_wrt (<) (map f (xs @ [x])) \<longleftrightarrow> sorted_wrt (<) (map f xs) \<and> (xs = [] \<or> f (last xs) < (f x :: 'a::linorder))"
proof (induction xs)
  case (Cons y ys)
  then show ?case by (cases ys rule: rev_cases) (auto simp: sorted_wrt_append)
qed simp

lemma chapters_ok_snoc:
  "chapters_ok n (cs @ [c]) \<longleftrightarrow> chapters_ok n cs \<and> ch_label c \<noteq> 0 \<and> ch_firstFrame c < n \<and>
     (cs = [] \<longrightarrow> ch_firstFrame c = 0) \<and> (cs \<noteq> [] \<longrightarrow> ch_firstFrame (last cs) < ch_firstFrame c) \<and>
     ch_label c \<notin> ch_label ` set cs"
proof -
  have s: "sorted_wrt (<) (map ch_firstFrame (cs @ [c])) \<longleftrightarrow>
      sorted_wrt (<) (map ch_firstFrame cs) \<and> (cs = [] \<or> ch_firstFrame (last cs) < ch_firstFrame c)"
    by (rule sorted_snoc)
  have h: "hd (cs @ [c]) = (if cs = [] then c else hd cs)" by simp
  show ?thesis unfolding chapters_ok_def s h by auto
qed

lemma chapters_ok_prefix: "chapters_ok n (cs @ ds) \<Longrightarrow> chapters_ok n cs"
  by (cases cs) (auto simp: chapters_ok_def sorted_wrt_append)

lemma read_chapters_eq:
  "chapters_ok n cs \<Longrightarrow> read_chapters data n k at cs =
     (if chapters_ok n (cs @ chapters_at data k at) then Some (cs @ chapters_at data k at) else None)"
proof (induction k arbitrary: at cs)
  case 0
  then show ?case by (simp add: chapters_at_def)
next
  case (Suc k)
  let ?c = "chapter_at data at"
  have c: "ch_label ?c = replay_word data at" "ch_firstFrame ?c = replay_word data (at + 4)"
    by (simp_all add: chapter_at_def)
  have label: "list_ex (\<lambda>d. ch_label d = ch_label ?c) cs \<longleftrightarrow> ch_label ?c \<in> ch_label ` set cs"
    by (simp add: list_ex_iff image_iff) metis
  have step: "read_chapters data n (Suc k) at cs =
      (if chapters_ok n (cs @ [?c]) then read_chapters data n k (at + 8) (cs @ [?c]) else None)"
    using Suc.prems label
    by (auto simp: chapters_ok_snoc Let_def c not_le not_less simp flip: chapter_at_def)
  show ?case
  proof (cases "chapters_ok n (cs @ [?c])")
    case True
    with Suc.IH [OF True, of "at + 8"] step show ?thesis by (simp add: chapters_at_Suc)
  next
    case False
    then have "\<not> chapters_ok n (cs @ chapters_at data (Suc k) at)"
      using chapters_ok_prefix [of n "cs @ [?c]" "chapters_at data k (at + 8)"] by (auto simp: chapters_at_Suc)
    with False step show ?thesis by simp
  qed
qed

lemma chapters_at_bytes:
  "at + n * 8 \<le> length data \<Longrightarrow> drop at data = concat (map chapter_bytes (chapters_at data n at)) @ drop (at + n * 8) data"
proof (induction n arbitrary: at)
  case (Suc n)
  have "drop at data = le_bytes 4 (replay_word data at) @ le_bytes 4 (replay_word data (at + 4)) @ drop (at + 8) data"
    using replay_word_read [of at data] replay_word_read [of "at + 4" data] Suc.prems by (simp add: add.commute)
  with Suc.IH [of "at + 8"] Suc.prems show ?case
    by (simp add: chapters_at_Suc chapter_bytes_def chapter_at_def algebra_simps)
qed (simp add: chapters_at_def)

lemma chapters_at_put:
  "drop at data = concat (map chapter_bytes cs) @ rest \<Longrightarrow> chapters_at data (length cs) at = cs"
proof (induction cs arbitrary: at)
  case (Cons c cs)
  have "drop at data = le_bytes 4 (ch_label c) @ le_bytes 4 (ch_firstFrame c) @ concat (map chapter_bytes cs) @ rest"
    using Cons.prems chapter_bytes_def [of c] by simp
  moreover from this have "drop (at + 4) data = le_bytes 4 (ch_firstFrame c) @ concat (map chapter_bytes cs) @ rest"
    by (metis (no_types, lifting) add.commute append_eq_conv_conj drop_drop length_le_bytes)
  moreover from this have "drop (at + 8) data = concat (map chapter_bytes cs) @ rest"
    by (metis (no_types, lifting) add.commute add.assoc append_eq_conv_conj drop_drop length_le_bytes numeral_Bit0)
  ultimately show ?case
    using Cons.IH [of "at + 8"] by (simp add: chapters_at_Suc chapter_at_def replay_word_put)
qed (simp add: chapters_at_def)

section \<open>The checksum\<close>

text \<open>A step of the hash is injective: the exclusive or and the odd multiplier can be undone.\<close>

lemma fnv_inverse: "(16777619 :: u32) * 899433627 = 1"
  by simp

lemma fnv_mult_inj: "(x :: u32) * 16777619 = y * 16777619 \<longleftrightarrow> x = y"
proof -
  have "(z * 16777619) * 899433627 = z" for z :: u32
    by (simp only: mult.assoc fnv_inverse mult_1_right)
  then show ?thesis by metis
qed

lemma xor_inj: "(z :: 'a::len word) XOR x = z XOR y \<longleftrightarrow> x = y"
  by (metis xor.assoc xor.left_neutral xor_self_eq)

lemma ucast_byte_inj: "(ucast (b :: u8) :: u32) = ucast c \<Longrightarrow> b = c"
proof (rule bit_word_eqI)
  fix n assume eq: "(ucast b :: u32) = ucast c" and "n < LENGTH(8)"
  then have "bit (ucast b :: u32) n = bit (ucast c :: u32) n" by simp
  with \<open>n < LENGTH(8)\<close> show "bit b n = bit c n" by (simp add: bit_simps)
qed

lemma checksum_step_inj: "checksum_step data h i = checksum_step data k i \<longleftrightarrow> h = k"
  using xor_inj [of "ucast (data ! i)" h k] by (simp add: checksum_step_def fnv_mult_inj xor.commute)

lemma foldl_checksum_inj: "foldl (checksum_step data) h is = foldl (checksum_step data) k is \<longleftrightarrow> h = k"
  by (induction "is" arbitrary: h k) (simp_all add: checksum_step_inj)

lemma foldl_checksum_cong:
  "(\<And>i. i \<in> set is \<Longrightarrow> data ! i = data' ! i \<or> 36 \<le> i \<and> i < 40) \<Longrightarrow>
    foldl (checksum_step data) h is = foldl (checksum_step data') h is"
proof (induction "is" arbitrary: h)
  case (Cons i js)
  have "checksum_step data h i = checksum_step data' h i"
    using Cons.prems [of i] by (auto simp: checksum_step_def)
  with Cons show ?case by simp
qed simp

lemma checksum_cong:
  assumes "length data' = length data" "\<And>i. i < length data \<Longrightarrow> data ! i = data' ! i \<or> 36 \<le> i \<and> i < 40"
  shows "checksum data' = checksum data"
  unfolding checksum_def assms(1) by (rule sym, rule foldl_checksum_cong) (use assms(2) in simp)

text \<open>One changed byte outside the checksum word changes the checksum.\<close>

lemma checksum_one_byte:
  assumes "i < length data" "i < 36 \<or> 40 \<le> i" "b \<noteq> data ! i"
  shows "checksum (data[i := b]) \<noteq> checksum data"
proof -
  let ?d = "data[i := b]" and ?n = "length data"
  have split: "[0..<?n] = [0..<i] @ i # [Suc i..<?n]"
    using assms(1) upt_add_eq_append [of 0 i "?n - i"] upt_conv_Cons [of i ?n] by simp
  define h where "h = foldl (checksum_step data) 2166136261 [0..<i]"
  have before: "foldl (checksum_step ?d) 2166136261 [0..<i] = h"
    unfolding h_def by (rule foldl_checksum_cong) simp
  have "(h XOR ucast b :: u32) \<noteq> h XOR ucast (data ! i)"
  proof
    assume "(h XOR ucast b :: u32) = h XOR ucast (data ! i)"
    then have "(ucast b :: u32) = ucast (data ! i)" by (simp add: xor_inj)
    then have "b = data ! i" by (rule ucast_byte_inj)
    with assms(3) show False by simp
  qed
  then have "checksum_step ?d h i \<noteq> checksum_step data h i"
    using assms(1,2) by (auto simp: checksum_step_def fnv_mult_inj)
  moreover have "foldl (checksum_step ?d) k [Suc i..<?n] = foldl (checksum_step data) k [Suc i..<?n]" for k
    by (rule foldl_checksum_cong) simp
  ultimately show ?thesis
    by (simp add: checksum_def split before foldl_checksum_inj h_def [symmetric])
qed

end
