(* ===== verification/ReplayFile.thy ===== *)
theory ReplayFile
  imports ReplayCodec
begin

text \<open>
  The files of a recording: \<open>replay_bytes\<close> lists them from a configuration, the chapters, the rows and
  the checksum word. \<open>Inspect_exact\<close> says that the reader accepts exactly these, and \<open>Encode_bytes\<close> that
  the writer writes them.
\<close>

section \<open>Layout\<close>

definition header_bytes :: "InputReplayConfig \<Rightarrow> u32 \<Rightarrow> u32 \<Rightarrow> u32 \<Rightarrow> bytes" where
  "header_bytes config chapterCount frameCount hash = Signature @ le_bytes 4 (1 :: u32) @ le_bytes 4 (rc_gameId config) @
     le_bytes 4 (rc_gameplayAbi config) @ [rc_playerCount config, rc_recordedPlayer config, 0, 0] @
     le_bytes 4 (word_of_nat (length (rc_description config)) :: u32) @ le_bytes 4 chapterCount @ le_bytes 4 frameCount @
     le_bytes 4 hash"

definition replay_bytes :: "InputReplayConfig \<Rightarrow> InputReplayChapter list \<Rightarrow> FrameInput list list \<Rightarrow> u32 \<Rightarrow> u32 \<Rightarrow> bytes" where
  "replay_bytes config chapters rows frameCount hash =
     header_bytes config (word_of_nat (length chapters)) frameCount hash @ rc_description config @
     concat (map chapter_bytes chapters) @ concat (map (row_bytes (unat (rc_playerCount config))) rows)"

lemma length_Signature [simp]: "length Signature = 8"
  by (simp add: Signature_def)

lemma length_header_bytes [simp]: "length (header_bytes config c n h) = 40"
  by (simp add: header_bytes_def)

lemma length_chapters_bytes [simp]: "length (concat (map chapter_bytes cs)) = length cs * 8"
  by (induction cs) simp_all

lemma length_replay_bytes: "length (replay_bytes config cs rows n h) =
    40 + length (rc_description config) + length cs * 8 + length rows * (unat (rc_playerCount config) * 12)"
  by (simp add: replay_bytes_def row.length_concat_put)

lemma header_read:
  assumes "data = header_bytes config c n h @ tail"
  shows "HasSignature data" "replay_word data 8 = 1" "replay_word data 12 = rc_gameId config"
    "replay_word data 16 = rc_gameplayAbi config" "data ! 20 = rc_playerCount config"
    "data ! 21 = rc_recordedPlayer config" "data ! 22 = 0" "data ! 23 = 0"
    "replay_word data 24 = word_of_nat (length (rc_description config))" "replay_word data 28 = c"
    "replay_word data 32 = n" "replay_word data 36 = h" "drop 40 data = tail"
proof -
  have d: "drop 8 data = le_bytes 4 (1 :: u32) @ drop 12 data" "drop 12 data = le_bytes 4 (rc_gameId config) @ drop 16 data"
    "drop 16 data = le_bytes 4 (rc_gameplayAbi config) @ drop 20 data"
    "drop 20 data = [rc_playerCount config, rc_recordedPlayer config, 0, 0] @ drop 24 data"
    "drop 24 data = le_bytes 4 (word_of_nat (length (rc_description config)) :: u32) @ drop 28 data"
    "drop 28 data = le_bytes 4 c @ drop 32 data" "drop 32 data = le_bytes 4 n @ drop 36 data"
    "drop 36 data = le_bytes 4 h @ drop 40 data" and tail: "drop 40 data = tail"
    by (simp_all add: assms header_bytes_def)
  show "replay_word data 8 = 1" "replay_word data 12 = rc_gameId config"
    "replay_word data 16 = rc_gameplayAbi config"
    "replay_word data 24 = word_of_nat (length (rc_description config))" "replay_word data 28 = c"
    "replay_word data 32 = n" "replay_word data 36 = h"
    using d by (auto intro: replay_word_put)
  show "HasSignature data" by (simp add: HasSignature_def assms header_bytes_def)
  have "data ! (20 + k) = ([rc_playerCount config, rc_recordedPlayer config, 0, 0] @ drop 24 data) ! k" for k
  proof -
    have "data ! (20 + k) = drop 20 data ! k" by (rule nth_drop [symmetric]) (simp add: assms)
    then show ?thesis by (simp only: d(4))
  qed
  from this [of 0] this [of 1] this [of 2] this [of 3]
  show "data ! 20 = rc_playerCount config" "data ! 21 = rc_recordedPlayer config" "data ! 22 = 0" "data ! 23 = 0"
    by simp_all
  show "drop 40 data = tail" by (rule tail)
qed

lemma header_parse:
  assumes "HasSignature data" "40 \<le> length data" "replay_word data 8 = 1" "data ! 22 = 0" "data ! 23 = 0"
    and "rc_gameId config = replay_word data 12" "rc_gameplayAbi config = replay_word data 16"
    "rc_playerCount config = data ! 20" "rc_recordedPlayer config = data ! 21"
    "word_of_nat (length (rc_description config)) = replay_word data 24"
  shows "data = header_bytes config (replay_word data 28) (replay_word data 32) (replay_word data 36) @ drop 40 data"
proof -
  have w: "drop at data = le_bytes 4 (replay_word data at) @ drop (at + 4) data" if "at + 4 \<le> 40" for at
    using that assms(2) by (intro replay_word_read) simp
  have b: "drop at data = data ! at # drop (at + 1) data" if "at < 40" for at
    using that assms(2) by (simp add: Cons_nth_drop_Suc)
  have "data = Signature @ drop 8 data"
    using assms(1) append_take_drop_id [of 8 data] by (simp add: HasSignature_def)
  also have "drop 8 data = le_bytes 4 (1 :: u32) @ drop 12 data" using w [of 8] assms(3) by simp
  also have "drop 12 data = le_bytes 4 (rc_gameId config) @ drop 16 data" using w [of 12] assms(6) by simp
  also have "drop 16 data = le_bytes 4 (rc_gameplayAbi config) @ drop 20 data" using w [of 16] assms(7) by simp
  also have "drop 20 data = [rc_playerCount config, rc_recordedPlayer config, 0, 0] @ drop 24 data"
    using b [of 20] b [of 21] b [of 22] b [of 23] assms(4,5,8,9) by simp
  also have "drop 24 data = le_bytes 4 (replay_word data 24) @ drop 28 data" using w [of 24] by simp
  also have "drop 28 data = le_bytes 4 (replay_word data 28) @ drop 32 data" using w [of 28] by simp
  also have "drop 32 data = le_bytes 4 (replay_word data 32) @ drop 36 data" using w [of 32] by simp
  also have "drop 36 data = le_bytes 4 (replay_word data 36) @ drop 40 data" using w [of 36] by simp
  finally show ?thesis by (simp add: header_bytes_def assms(10))
qed

section \<open>Reading\<close>

definition file_ok :: "InputReplayInfo \<Rightarrow> InputReplayChapter list \<Rightarrow> FrameInput list list \<Rightarrow> bool" where
  "file_ok info cs rows \<longleftrightarrow> valid_config (ri_config info) \<and> ri_frameCount info \<noteq> 0 \<and> ri_frameCount info \<le> MaxFrames \<and>
     length rows = unat (ri_frameCount info) \<and> list_all (row_ok (unat (rc_playerCount (ri_config info)))) rows \<and>
     cs \<noteq> [] \<and> length cs \<le> MaxChapters \<and> chapters_ok (ri_frameCount info) cs \<and>
     ri_chapterCount info = word_of_nat (length cs) \<and> ri_chapters info = stored_chapters cs"

lemma word_of_nat_length: "n < 4294967296 \<Longrightarrow> unat (word_of_nat n :: u32) = n"
  by (simp add: unsigned_of_nat take_bit_nat_eq_self)

lemma Inspect_sound:
  assumes "Inspect data = Some info"
  shows "\<exists>cs rows. data = replay_bytes (ri_config info) cs rows (ri_frameCount info) (checksum data) \<and> file_ok info cs rows"
proof -
  define D where "D = unat (replay_word data 24)"
  define C where "C = unat (replay_word data 28)"
  define N where "N = replay_word data 32"
  define p where "p = unat (data ! 20)"
  define config where "config = \<lparr>rc_gameId = replay_word data 12, rc_gameplayAbi = replay_word data 16,
    rc_playerCount = data ! 20, rc_recordedPlayer = data ! 21, rc_description = take D (drop 40 data)\<rparr>"
  from assms obtain cs where top: "HasSignature data" "40 \<le> length data" "replay_word data 8 = 1" "data ! 22 = 0" "data ! 23 = 0"
    and config: "valid_config (config\<lparr>rc_description := []\<rparr>)" "D \<le> MaxDescriptionBytes"
    and counts: "C \<noteq> 0" "C \<le> MaxChapters" "N \<noteq> 0" "N \<le> MaxFrames"
    and size: "40 + D + C * 8 + unat N * p * 12 = length data" and hash: "replay_word data 36 = checksum data"
    and cs: "read_chapters data N C (40 + D) [] = Some cs"
    and read: "read_rows data (unat N) p (40 + D + C * 8) \<noteq> None"
    and info: "info = \<lparr>ri_config = config, ri_frameCount = N, ri_chapterCount = replay_word data 28, ri_chapters = stored_chapters cs\<rparr>"
    by (auto simp: Inspect_def Let_def HeaderBytes_def SampleBytes_def D_def C_def N_def p_def config_def not_less unat_eq_0
        split: if_splits option.splits)
  have "chapters_ok N []" by (simp add: chapters_ok_def)
  from read_chapters_eq [OF this, of data C "40 + D"] cs have cs': "cs = chapters_at data C (40 + D)" "chapters_ok N cs"
    by (auto split: if_splits)
  obtain rows end' where rows: "get_many (get_many (GetInput replay_cfg) p) (unat N) data (40 + D + C * 8) = Some (rows, end')"
    using read read_rows_get [of "40 + D + C * 8" "unat N" p data] size by (auto simp: algebra_simps)
  note r = row.get_many_sound [OF rows]
  have len: "length (rc_description config) = D" using size by (simp add: config_def)
  have "data = header_bytes config (replay_word data 28) (replay_word data 32) (replay_word data 36) @ drop 40 data"
    by (rule header_parse [OF top]) (simp_all add: len, simp_all add: config_def D_def)
  then have "data = header_bytes config (replay_word data 28) N (checksum data) @ drop 40 data"
    by (simp add: hash N_def)
  also have "drop 40 data = rc_description config @ drop (40 + D) data"
    by (simp add: config_def) (metis add.commute append_take_drop_id drop_drop)
  also have "drop (40 + D) data = concat (map chapter_bytes cs) @ drop (40 + D + C * 8) data"
    unfolding cs'(1) by (rule chapters_at_bytes) (use size in simp)
  also have "drop (40 + D + C * 8) data = concat (map (row_bytes p) rows)"
    using r size by (simp add: algebra_simps)
  finally have "data = replay_bytes config cs rows N (checksum data)"
    using cs'(1) by (simp add: replay_bytes_def config_def p_def C_def)
  moreover have n: "length cs = C" using cs'(1) by simp
  moreover have "cs \<noteq> []" using n counts(1) by auto
  ultimately have "file_ok info cs rows \<and> data = replay_bytes config cs rows N (checksum data)"
    using config counts cs'(2) r size len unfolding file_ok_def
    by (auto simp: info valid_config_def config_def p_def C_def)
  then show ?thesis by (auto simp: info)
qed

lemma file_sizes:
  assumes "file_ok info cs rows"
  defines "config \<equiv> ri_config info"
  shows "unat (rc_playerCount config) \<le> 3" "length (rc_description config) \<le> 16384" "length cs \<le> 64"
    "length rows \<le> 250000" "length rows * (unat (rc_playerCount config) * 12) \<le> 9000000"
proof -
  have p: "rc_playerCount config \<le> 3" using assms by (simp add: file_ok_def valid_config_def MAX_PLAYERS_def)
  then show p': "unat (rc_playerCount config) \<le> 3" by (simp add: word_le_nat_alt)
  show "length (rc_description config) \<le> 16384" "length cs \<le> 64"
    using assms by (auto simp: file_ok_def valid_config_def MaxDescriptionBytes_def MaxChapters_def)
  have "length rows = unat (ri_frameCount info)" "ri_frameCount info \<le> 250000"
    using assms by (auto simp: file_ok_def MaxFrames_def)
  then show r: "length rows \<le> 250000" by (simp add: word_le_nat_alt)
  have "length rows * (unat (rc_playerCount config) * 12) \<le> 250000 * (3 * 12)"
    using r p' by (intro mult_le_mono) simp_all
  then show "length rows * (unat (rc_playerCount config) * 12) \<le> 9000000" by simp
qed

lemma file_read:
  assumes ok: "file_ok info cs rows"
    and data: "data = replay_bytes (ri_config info) cs rows (ri_frameCount info) (checksum data)"
  shows "Inspect data = Some info"
    "read_rows data (unat (ri_frameCount info)) (unat (rc_playerCount (ri_config info)))
       (HeaderBytes + length (rc_description (ri_config info)) + unat (ri_chapterCount info) * 8) = Some (rows, length data)"
proof -
  define config where "config = ri_config info"
  define D where "D = length (rc_description config)"
  define p where "p = unat (rc_playerCount config)"
  note s = file_sizes [OF ok, folded config_def]
  have h: "data = header_bytes config (word_of_nat (length cs)) (ri_frameCount info) (checksum data) @
      (rc_description config @ concat (map chapter_bytes cs) @ concat (map (row_bytes p) rows))"
    using data by (simp add: replay_bytes_def config_def p_def)
  note head = header_read [OF h]
  have words: "unat (word_of_nat D :: u32) = D" "unat (word_of_nat (length cs) :: u32) = length cs"
    using s by (simp_all add: word_of_nat_length D_def)
  have len: "length data = 40 + D + length cs * 8 + length rows * (p * 12)"
    using length_replay_bytes data by (metis D_def config_def p_def)
  have desc: "take D (drop 40 data) = rc_description config"
    using head(13) by (simp add: D_def)
  have at_chapters: "drop (40 + D) data = concat (map chapter_bytes cs) @ concat (map (row_bytes p) rows)"
  proof -
    have "drop (40 + D) data = drop D (drop 40 data)" by (simp add: add.commute)
    with head(13) show ?thesis by (simp add: D_def)
  qed
  have at_rows: "drop (40 + D + length cs * 8) data = concat (map (row_bytes p) rows) @ []"
  proof -
    have "drop (40 + D + length cs * 8) data = drop (length cs * 8) (drop (40 + D) data)" by (simp add: add.commute add.left_commute)
    with at_chapters show ?thesis by simp
  qed
  have N: "unat (ri_frameCount info) = length rows" using ok by (simp add: file_ok_def)
  have rows: "read_rows data (length rows) p (40 + D + length cs * 8) = Some (rows, length data)"
  proof -
    have "list_all (row_ok p) rows" using ok by (simp add: file_ok_def p_def config_def)
    from row.get_many_put [OF this at_rows] show ?thesis
      using len by (subst read_rows_get) simp_all
  qed
  have chapters: "read_chapters data (ri_frameCount info) (length cs) (40 + D) [] = Some cs"
  proof -
    have "chapters_at data (length cs) (40 + D) = cs" by (rule chapters_at_put [OF at_chapters])
    moreover have "chapters_ok (ri_frameCount info) []" by (simp add: chapters_ok_def)
    ultimately show ?thesis using read_chapters_eq ok by (simp add: file_ok_def)
  qed
  have C: "ri_chapterCount info = word_of_nat (length cs)" using ok by (simp add: file_ok_def)
  show "read_rows data (unat (ri_frameCount info)) (unat (rc_playerCount (ri_config info)))
       (HeaderBytes + length (rc_description (ri_config info)) + unat (ri_chapterCount info) * 8) = Some (rows, length data)"
    using rows N C words by (simp add: HeaderBytes_def D_def p_def config_def)
  have cfg: "\<lparr>rc_gameId = rc_gameId config, rc_gameplayAbi = rc_gameplayAbi config, rc_playerCount = rc_playerCount config,
      rc_recordedPlayer = rc_recordedPlayer config, rc_description = []\<rparr>\<lparr>rc_description := take D (drop 40 data)\<rparr> = config"
    unfolding desc by (cases config) simp
  have valid: "valid_config \<lparr>rc_gameId = rc_gameId config, rc_gameplayAbi = rc_gameplayAbi config,
      rc_playerCount = rc_playerCount config, rc_recordedPlayer = rc_recordedPlayer config, rc_description = []\<rparr>"
    using ok by (simp add: file_ok_def valid_config_def config_def)
  have sizes: "40 \<le> length data" "length data \<le> 16777216" using len s by (simp_all add: D_def p_def)
  have bounds: "D \<le> MaxDescriptionBytes" "length cs \<le> MaxChapters" "cs \<noteq> []" "ri_frameCount info \<noteq> 0"
    "ri_frameCount info \<le> MaxFrames"
    using ok s by (auto simp: file_ok_def D_def MaxDescriptionBytes_def)
  have C0: "(word_of_nat (length cs) :: u32) \<noteq> 0" using words(2) bounds(3) by (metis length_0_conv unsigned_0)
  have "Inspect data = Some \<lparr>ri_config = config, ri_frameCount = ri_frameCount info, ri_chapterCount = word_of_nat (length cs),
      ri_chapters = stored_chapters cs\<rparr>"
    unfolding Inspect_def Let_def head(2-12) words D_def [symmetric] InputReplayConfig.simps N p_def [symmetric]
    using head(1) sizes valid bounds C0 rows chapters len cfg
    by (simp add: HeaderBytes_def MaxBytes_def SampleBytes_def not_less mult.assoc)
  also have "\<dots> = Some info" using ok C by (cases info) (simp add: file_ok_def config_def)
  finally show "Inspect data = Some info" .
qed

section \<open>Writing\<close>

lemma checksum_header:
  "checksum (header_bytes config c n h @ tail) = checksum (header_bytes config c n h' @ tail)"
proof (rule checksum_cong)
  fix i assume "i < length (header_bytes config c n h' @ tail)"
  let ?front = "Signature @ le_bytes 4 (1 :: u32) @ le_bytes 4 (rc_gameId config) @
     le_bytes 4 (rc_gameplayAbi config) @ [rc_playerCount config, rc_recordedPlayer config, 0, 0] @
     le_bytes 4 (word_of_nat (length (rc_description config)) :: u32) @ le_bytes 4 c @ le_bytes 4 n"
  have split: "header_bytes config c n x @ tail = ?front @ le_bytes 4 x @ tail" for x
    by (simp add: header_bytes_def)
  have len: "length ?front = 36" by simp
  show "(header_bytes config c n h' @ tail) ! i = (header_bytes config c n h @ tail) ! i \<or> 36 \<le> i \<and> i < 40"
    unfolding split nth_append [of ?front] len by (simp add: nth_append) linarith
qed simp

lemma replay_bytes_split: "replay_bytes config cs rows n h =
    header_bytes config (word_of_nat (length cs)) n h @ (rc_description config @ concat (map chapter_bytes cs) @
      concat (map (row_bytes (unat (rc_playerCount config))) rows))"
  by (simp add: replay_bytes_def)

lemma checksum_replay: "checksum (replay_bytes config cs rows n h) = checksum (replay_bytes config cs rows n 0)"
  unfolding replay_bytes_split by (rule checksum_header)

text \<open>The file of a recording.\<close>

definition replay_file :: "InputReplayConfig \<Rightarrow> InputReplayChapter list \<Rightarrow> FrameInput list list \<Rightarrow> u32 \<Rightarrow> bytes" where
  "replay_file config cs rows n = replay_bytes config cs rows n (checksum (replay_bytes config cs rows n 0))"

lemma replay_file_iff: "data = replay_bytes config cs rows n (checksum data) \<longleftrightarrow> data = replay_file config cs rows n"
  unfolding replay_file_def by (metis checksum_replay)

lemma le_bytes_4: "le_bytes 4 (h :: u32) = [ucast h, ucast (drop_bit 8 h), ucast (drop_bit 16 h), ucast (drop_bit 24 h)]"
  by (simp add: le_bytes_def upt_rec)

lemma store_checksum_header:
  "store_checksum (header_bytes config c n 0 @ tail) =
    header_bytes config c n (checksum (header_bytes config c n 0 @ tail)) @ tail"
proof -
  let ?front = "Signature @ le_bytes 4 (1 :: u32) @ le_bytes 4 (rc_gameId config) @
     le_bytes 4 (rc_gameplayAbi config) @ [rc_playerCount config, rc_recordedPlayer config, 0, 0] @
     le_bytes 4 (word_of_nat (length (rc_description config)) :: u32) @ le_bytes 4 c @ le_bytes 4 n"
  define front where "front = ?front"
  have len: "length front = 36" by (simp add: front_def)
  have split: "header_bytes config c n x = front @ le_bytes 4 x" for x
    by (simp add: header_bytes_def front_def)
  have store: "foldl (\<lambda>c i. c[36 + i := ucast (drop_bit (8 * i) h)]) (front @ le_bytes 4 (0 :: u32) @ tail) [0..<4]
      = front @ le_bytes 4 h @ tail" for h :: u32
    using len by (simp add: le_bytes_4 upt_rec list_update_append)
  show ?thesis
    unfolding store_checksum_def Let_def split append_assoc
    by (rule store)
qed

lemma put_header_eq: "n = length (rc_description config) \<Longrightarrow>
    put_header config' n k frameCount = header_bytes (config'\<lparr>rc_description := rc_description config\<rparr>) (word_of_nat k) frameCount 0"
  by (simp add: put_header_def header_bytes_def replay_put_le Let_def)

lemma foldl_put_chapter: "foldl put_chapter bs cs = bs @ concat (map chapter_bytes cs)"
  by (induction cs arbitrary: bs) (simp_all add: put_chapter_def chapter_bytes_def replay_put_le)

lemma row_bytes_map: "row_bytes p (map row [0..<p]) = concat (map (PutInput []) (map row [0..<p]))"
proof -
  have "map (stored_inputs (map row [0..<p])) [0..<p] = map row [0..<p]"
    using map_stored [of "map row [0..<p]"] by simp
  then show ?thesis by (simp only: row_bytes_def)
qed

lemma put_row_eq: "put_row p bs row = bs @ row_bytes p (map row [0..<p])"
proof -
  have "put_row p bs row = foldl (\<lambda>b i. PutInput b (id i)) bs (map row [0..<p])"
    unfolding put_row_def by (rule arg_cong [where f = "\<lambda>f. foldl f bs (map row [0..<p])"]) (intro ext, simp add: put_sample_eq)
  also have "\<dots> = bs @ concat (map (PutInput []) (map row [0..<p]))"
    using foldl_PutInput [of id bs "map row [0..<p]"] by simp
  finally show ?thesis by (simp only: row_bytes_map)
qed

lemma foldl_put_row: "foldl (put_row p) bs frames = bs @ concat (map (row_bytes p) (map (\<lambda>row. map row [0..<p]) frames))"
  by (induction frames arbitrary: bs) (simp_all add: put_row_eq)

lemma count_chapters_eq:
  "count_chapters n chapters frameCount k = k + length (takeWhile (\<lambda>i. ch_firstFrame (chapters i) < frameCount) [k..<k + n])"
proof (induction n arbitrary: k)
  case (Suc n)
  have "[k..<k + Suc n] = k # [Suc k..<Suc k + n]" by (simp add: upt_conv_Cons del: upt_Suc)
  with Suc [of "k + 1"] show ?case by (simp del: upt_Suc)
qed simp

definition chapter_list :: "InputReplayInfo \<Rightarrow> InputReplayChapter list" where
  "chapter_list info = map (ri_chapters info) [0..<unat (ri_chapterCount info)]"

text \<open>The chapters that begin before a frame, and the rows before it.\<close>

definition kept_chapters :: "InputReplayInfo \<Rightarrow> u32 \<Rightarrow> InputReplayChapter list" where
  "kept_chapters info n = takeWhile (\<lambda>c. ch_firstFrame c < n) (chapter_list info)"

definition kept_rows :: "InputReplayInfo \<Rightarrow> (nat \<Rightarrow> nat \<Rightarrow> FrameInput) \<Rightarrow> u32 \<Rightarrow> FrameInput list list" where
  "kept_rows info frames n = map (\<lambda>f. map (frames f) [0..<unat (rc_playerCount (ri_config info))]) [0..<unat n]"

lemma kept_chapters_map:
  "map (ri_chapters info) [0..<count_chapters (unat (ri_chapterCount info)) (ri_chapters info) n 0] = kept_chapters info n"
proof -
  let ?P = "\<lambda>i. ch_firstFrame (ri_chapters info i) < n" and ?xs = "[0..<unat (ri_chapterCount info)]"
  have "kept_chapters info n = map (ri_chapters info) (takeWhile ?P ?xs)"
    by (simp add: kept_chapters_def chapter_list_def takeWhile_map comp_def)
  also have "takeWhile ?P ?xs = take (length (takeWhile ?P ?xs)) ?xs" by (rule takeWhile_eq_take)
  also have "\<dots> = [0..<length (takeWhile ?P ?xs)]"
    using length_takeWhile_le [of ?P ?xs] by (simp add: take_upt)
  finally show ?thesis by (simp add: count_chapters_eq)
qed

lemma Encode_bytes:
  assumes frames: "ir_frames r = Some frames"
    and n: "n = (if m = INVALID_FRAME then ri_frameCount (ir_info r) else m)"
    and desc: "description = (case override of None \<Rightarrow> rc_description (ri_config (ir_info r)) | Some d \<Rightarrow> d)"
    and ok: "n \<noteq> 0" "n \<le> ri_frameCount (ir_info r)" "valid_config (ri_config (ir_info r))"
      "length description \<le> MaxDescriptionBytes"
    and small: "length (kept_chapters (ir_info r) n) \<le> 64" "n \<le> MaxFrames"
  shows "Replay_Encode r override m = Some (replay_file (ri_config (ir_info r)\<lparr>rc_description := description\<rparr>)
    (kept_chapters (ir_info r) n) (kept_rows (ir_info r) frames n) n)"
proof -
  let ?info = "ir_info r"
  let ?config = "ri_config ?info\<lparr>rc_description := description\<rparr>"
  let ?p = "unat (rc_playerCount (ri_config ?info))"
  let ?k = "count_chapters (unat (ri_chapterCount ?info)) (ri_chapters ?info) n 0"
  have k: "?k = length (kept_chapters ?info n)"
    using arg_cong [OF kept_chapters_map [of ?info n], of length] by simp
  have size: "HeaderBytes + length description + ?k * 8 + unat n * ?p * SampleBytes \<le> MaxBytes"
  proof -
    have "rc_playerCount (ri_config ?info) \<le> 3" using ok(3) by (simp add: valid_config_def MAX_PLAYERS_def)
    then have "?p \<le> 3" by (simp add: word_le_nat_alt)
    moreover have "unat n \<le> 250000" using small(2) by (simp add: MaxFrames_def word_le_nat_alt)
    ultimately have "unat n * ?p \<le> 250000 * 3" by (intro mult_le_mono)
    then show ?thesis
      using ok(4) small(1) by (simp add: k HeaderBytes_def SampleBytes_def MaxBytes_def MaxDescriptionBytes_def)
  qed
  have rows: "map (\<lambda>row. map row [0..<?p]) (map frames [0..<unat n]) = kept_rows ?info frames n"
    by (simp add: kept_rows_def)
  have header: "put_header (ri_config ?info) (length description) ?k n = header_bytes ?config (word_of_nat ?k) n 0"
    using put_header_eq [of "length description" ?config "ri_config ?info" ?k n] by simp
  have bytes: "foldl (put_row ?p) (foldl put_chapter (put_header (ri_config ?info) (length description) ?k n @ description)
      (map (ri_chapters ?info) [0..<?k])) (map frames [0..<unat n]) =
    replay_bytes ?config (kept_chapters ?info n) (kept_rows ?info frames n) n 0"
    unfolding foldl_put_chapter foldl_put_row rows kept_chapters_map header by (simp add: replay_bytes_def k)
  have "Replay_Encode r override m = Some (store_checksum (replay_bytes ?config (kept_chapters ?info n) (kept_rows ?info frames n) n 0))"
    unfolding bytes [symmetric] Replay_Encode_def Let_def n [symmetric] desc [symmetric] frames
    using ok size by (simp add: not_less)
  also have "store_checksum (replay_bytes ?config (kept_chapters ?info n) (kept_rows ?info frames n) n 0) =
      replay_file ?config (kept_chapters ?info n) (kept_rows ?info frames n) n"
    unfolding replay_file_def replay_bytes_split by (rule store_checksum_header)
  finally show ?thesis .
qed

lemma Encode_Some:
  assumes "Replay_Encode r override m = Some data"
  obtains frames n where "ir_frames r = Some frames" "n = (if m = INVALID_FRAME then ri_frameCount (ir_info r) else m)"
    "n \<noteq> 0" "n \<le> ri_frameCount (ir_info r)" "valid_config (ri_config (ir_info r))"
    "length (case override of None \<Rightarrow> rc_description (ri_config (ir_info r)) | Some d \<Rightarrow> d) \<le> MaxDescriptionBytes"
  using assms by (auto simp: Replay_Encode_def Let_def not_less split: option.splits if_splits)

end
