(* ===== verification/ReplayProps.thy ===== *)
theory ReplayProps
  imports ReplayFile
begin

text \<open>
  Properties of the recorder: every recording reached by its operations is well formed, a written file
  reads back as the recording, a file that is read is written back byte for byte, and no single changed
  byte of a file goes undetected.
\<close>

section \<open>Well-formed recordings\<close>

definition replay_ok :: "InputReplay \<Rightarrow> bool" where
  "replay_ok r \<longleftrightarrow> (case ir_frames r of None \<Rightarrow> \<not> ir_recording r \<and> \<not> ir_loaded r
     | Some frames \<Rightarrow>
       let info = ir_info r in
       valid_config (ri_config info) \<and> ri_frameCount info \<le> MaxFrames \<and>
       unat (ri_chapterCount info) \<le> MaxChapters \<and> chapters_ok (ri_frameCount info) (chapter_list info) \<and>
       (ri_frameCount info \<noteq> 0 \<longrightarrow> chapter_list info \<noteq> []) \<and>
       (\<forall>f < unat (ri_frameCount info). \<forall>s < unat (rc_playerCount (ri_config info)). valid_sample (frames f s)))"

text \<open>Recordings as their operations build them.\<close>

inductive replay_run :: "InputReplay \<Rightarrow> bool" where
  fresh: "replay_run InputReplay_default"
| cleared: "replay_run r \<Longrightarrow> replay_run (Replay_Clear r)"
| begun: "replay_run r \<Longrightarrow> replay_run (snd (Replay_Begin allocated r config))"
| appended: "replay_run r \<Longrightarrow> replay_run (snd (Replay_Append r frame chapter inputs))"
| decoded: "replay_run r \<Longrightarrow> replay_run (snd (Replay_Decode allocated r data))"

lemma replay_ok_default: "replay_ok InputReplay_default"
  by (simp add: replay_ok_def InputReplay_default_def)

lemma replay_ok_Clear: "replay_ok (Replay_Clear r)"
  by (simp add: replay_ok_def Replay_Clear_def)

lemma replay_ok_Begin: "replay_ok r \<Longrightarrow> replay_ok (snd (Replay_Begin allocated r config))"
  by (simp add: Replay_Begin_def)
    (simp add: replay_ok_def InputReplayInfo_default_def chapter_list_def chapters_ok_def MaxFrames_def)

lemma chapters_ok_mono: "chapters_ok n cs \<Longrightarrow> n \<le> m \<Longrightarrow> chapters_ok m cs"
  by (fastforce simp: chapters_ok_def)

lemma chapter_list_snoc:
  assumes "unat (ri_chapterCount info) < 64"
  shows "chapter_list (info\<lparr>ri_chapters := (ri_chapters info)(unat (ri_chapterCount info) := c),
      ri_chapterCount := ri_chapterCount info + 1\<rparr>) = chapter_list info @ [c]"
proof -
  have "unat (ri_chapterCount info + 1) = Suc (unat (ri_chapterCount info))"
    using assms by (simp add: unat_word_ariths)
  then show ?thesis by (simp add: chapter_list_def)
qed

lemma frame_succ:
  assumes "(n :: u32) < MaxFrames"
  shows "unat (n + 1) = Suc (unat n)" "n < n + 1" "n + 1 \<le> MaxFrames"
proof -
  have "unat n < 250000" using assms by (simp add: MaxFrames_def word_less_nat_alt)
  then show *: "unat (n + 1) = Suc (unat n)" by (simp add: unat_word_ariths)
  then show "n < n + 1" "n + 1 \<le> MaxFrames"
    using assms by (simp_all add: word_less_nat_alt word_le_nat_alt MaxFrames_def)
qed

lemma replay_ok_Append:
  assumes "replay_ok r"
  shows "replay_ok (snd (Replay_Append r frame chapter inputs))"
proof (cases "fst (Replay_Append r frame chapter inputs)")
  case False
  with assms show ?thesis by (auto simp: Replay_Append_def Let_def split: option.splits if_splits)
next
  case True
  let ?info = "ir_info r" and ?n = "unat (ri_chapterCount (ir_info r))"
  let ?c = "\<lparr>ch_label = chapter, ch_firstFrame = frame\<rparr>"
  define info where "info = (if new_chapter ?info chapter
    then ?info\<lparr>ri_chapters := (ri_chapters ?info)(?n := ?c), ri_chapterCount := ri_chapterCount ?info + 1\<rparr> else ?info)"
  from True obtain frames where frames: "ir_frames r = Some frames" and
    g: "length inputs = unat (rc_playerCount (ri_config ?info))" "frame = ri_frameCount ?info" "frame < MaxFrames" "chapter \<noteq> 0"
    "list_all valid_sample inputs" "new_chapter ?info chapter \<Longrightarrow> \<not> chapter_refused ?info chapter" and
    r': "snd (Replay_Append r frame chapter inputs) = r\<lparr>ir_frames := Some (frames(unat frame := stored_inputs inputs)),
      ir_info := info\<lparr>ri_frameCount := ri_frameCount info + 1\<rparr>\<rparr>"
    by (auto simp: Replay_Append_def Let_def info_def not_le split: option.splits if_splits)
  note ok = assms [unfolded replay_ok_def frames option.case Let_def]
  have fields: "ri_config info = ri_config ?info" "ri_frameCount info = ri_frameCount ?info"
    by (simp_all add: info_def)
  note succ = frame_succ [OF g(3)]
  have labels: "set (chapter_list ?info) = ri_chapters ?info ` {0..<?n}" by (simp add: chapter_list_def)
  have old: "chapters_ok frame (chapter_list ?info)" "?n \<le> MaxChapters" "frame \<noteq> 0 \<Longrightarrow> chapter_list ?info \<noteq> []"
    using ok by (simp_all add: g(2))
  have grown: "chapters_ok (frame + 1) (chapter_list ?info)"
    by (rule chapters_ok_mono [OF old(1)]) (rule less_imp_le [OF succ(2)])
  have "unat (ri_chapterCount info) \<le> MaxChapters \<and> chapters_ok (frame + 1) (chapter_list info) \<and> chapter_list info \<noteq> []"
  proof (cases "new_chapter ?info chapter")
    case new: True
    from g(6) [OF new] have room: "?n < 64" and other: "\<forall>i < ?n. ch_label (ri_chapters ?info i) \<noteq> chapter"
      by (auto simp: chapter_refused_def MaxChapters_def list_ex_iff)
    have l: "chapter_list info = chapter_list ?info @ [?c]" using chapter_list_snoc [OF room] new by (simp add: info_def)
    have "ch_firstFrame (last (chapter_list ?info)) < frame" if "chapter_list ?info \<noteq> []"
      using old(1) last_in_set [OF that] by (simp add: chapters_ok_def)
    moreover have "frame = 0" if "chapter_list ?info = []" using old(3) that by blast
    moreover have "chapter \<notin> ch_label ` set (chapter_list ?info)" unfolding labels using other by auto
    ultimately have "chapters_ok (frame + 1) (chapter_list info)"
      unfolding l chapters_ok_snoc using grown g(4) succ(2) by simp
    moreover have "unat (ri_chapterCount info) \<le> MaxChapters"
      using room new by (simp add: info_def unat_word_ariths MaxChapters_def)
    ultimately show ?thesis using l by simp
  next
    case False
    then have "info = ?info" "?n \<noteq> 0" by (auto simp: info_def new_chapter_def unat_eq_0)
    moreover from this have "chapter_list ?info \<noteq> []" by (simp add: chapter_list_def)
    ultimately show ?thesis using old(2) grown by simp
  qed
  moreover have "valid_sample ((frames(unat frame := stored_inputs inputs)) f s)"
    if "f < Suc (unat frame)" "s < unat (rc_playerCount (ri_config ?info))" for f s
    using that ok g(1,2,5) by (cases "f = unat frame") (auto simp: stored_inputs_def list_all_length)
  moreover have "chapter_list (info\<lparr>ri_frameCount := x\<rparr>) = chapter_list info" for x by (simp add: chapter_list_def)
  ultimately show ?thesis
    using ok g(2) succ fields unfolding r' by (simp add: replay_ok_def Let_def)
qed

lemma chapter_list_stored: "length cs \<le> 64 \<Longrightarrow>
    chapter_list \<lparr>ri_config = config, ri_frameCount = n, ri_chapterCount = word_of_nat (length cs), ri_chapters = stored_chapters cs\<rparr> = cs"
  by (rule nth_equalityI) (simp_all add: chapter_list_def word_of_nat_length stored_chapters_def)

lemma file_chapter_list: "file_ok info cs rows \<Longrightarrow> chapter_list info = cs"
  using chapter_list_stored [of cs "ri_config info" "ri_frameCount info"]
  by (cases info) (simp add: file_ok_def MaxChapters_def)

lemma stored_rows_nth:
  assumes "list_all (row_ok p) rows" "f < length rows" "s < p"
  shows "stored_rows rows f s = rows ! f ! s" "valid_sample (rows ! f ! s)"
proof -
  have "row_ok p (rows ! f)" using assms(1,2) by (simp add: list_all_length)
  then show "stored_rows rows f s = rows ! f ! s" "valid_sample (rows ! f ! s)"
    using assms(2,3) by (auto simp: stored_rows_def stored_inputs_def row_ok_def list_all_length)
qed

lemma Decode_Some:
  assumes "Inspect data = Some info"
  obtains cs rows where "file_ok info cs rows" "data = replay_file (ri_config info) cs rows (ri_frameCount info)"
    "Replay_Decode True r data = (True, InputReplay_default\<lparr>ir_info := info, ir_frames := Some (stored_rows rows), ir_loaded := True\<rparr>)"
proof -
  from Inspect_sound [OF assms] obtain cs rows where f: "file_ok info cs rows"
    and d: "data = replay_bytes (ri_config info) cs rows (ri_frameCount info) (checksum data)" by blast
  have "Replay_Decode True r data = (True, InputReplay_default\<lparr>ir_info := info, ir_frames := Some (stored_rows rows), ir_loaded := True\<rparr>)"
    using file_read [OF f d] by (simp add: Replay_Decode_def)
  with f d that show ?thesis using replay_file_iff by blast
qed

lemma replay_ok_Decode:
  assumes "replay_ok r"
  shows "replay_ok (snd (Replay_Decode allocated r data))"
proof (cases "Inspect data")
  case None
  with assms show ?thesis by (simp add: Replay_Decode_def)
next
  case (Some info)
  show ?thesis
  proof (cases allocated)
    case True
    from Decode_Some [OF Some, of r] obtain cs rows where f: "file_ok info cs rows"
      "Replay_Decode True r data = (True, InputReplay_default\<lparr>ir_info := info, ir_frames := Some (stored_rows rows), ir_loaded := True\<rparr>)"
      by blast
    have "valid_sample (stored_rows rows k s)" if "k < length rows" "s < unat (rc_playerCount (ri_config info))" for k s
      using stored_rows_nth [OF _ that] f(1) that by (simp add: file_ok_def)
    then show ?thesis
      using f file_chapter_list [OF f(1)] True word_of_nat_length [of "length cs"]
      by (simp add: replay_ok_def Let_def file_ok_def MaxChapters_def)
  next
    case False
    with assms Some show ?thesis by (simp add: Replay_Decode_def)
  qed
qed

lemma replay_run_ok: "replay_run r \<Longrightarrow> replay_ok r"
  by (induction rule: replay_run.induct)
    (simp_all add: replay_ok_default replay_ok_Clear replay_ok_Begin replay_ok_Append replay_ok_Decode)

section \<open>Writing and reading\<close>

lemma kept_chapters_ok:
  assumes "chapters_ok n cs" "cs \<noteq> []" "m \<noteq> 0"
  shows "chapters_ok m (takeWhile (\<lambda>c. ch_firstFrame c < m) cs)" "takeWhile (\<lambda>c. ch_firstFrame c < m) cs \<noteq> []"
proof -
  let ?P = "\<lambda>c. ch_firstFrame c < m"
  have "takeWhile ?P cs @ dropWhile ?P cs = cs" by simp
  then have "chapters_ok n (takeWhile ?P cs)" using assms(1) chapters_ok_prefix by metis
  moreover have "ch_firstFrame c < m" if "c \<in> set (takeWhile ?P cs)" for c using set_takeWhileD [OF that] by simp
  ultimately show "chapters_ok m (takeWhile ?P cs)" by (simp add: chapters_ok_def)
  have "ch_firstFrame (hd cs) = 0" using assms(1,2) by (simp add: chapters_ok_def)
  with assms(2,3) show "takeWhile ?P cs \<noteq> []" by (cases cs) (auto simp: word_neq_0_conv)
qed

lemma written_file:
  assumes ok: "replay_ok r" and E: "Replay_Encode r override m = Some data"
  obtains frames n info where "ir_frames r = Some frames"
    "n = (if m = INVALID_FRAME then ri_frameCount (ir_info r) else m)" "n \<le> ri_frameCount (ir_info r)"
    "info = \<lparr>ri_config = ri_config (ir_info r)\<lparr>rc_description := (case override of
        None \<Rightarrow> rc_description (ri_config (ir_info r)) | Some d \<Rightarrow> d)\<rparr>, ri_frameCount = n,
      ri_chapterCount = word_of_nat (length (kept_chapters (ir_info r) n)), ri_chapters = stored_chapters (kept_chapters (ir_info r) n)\<rparr>"
    "file_ok info (kept_chapters (ir_info r) n) (kept_rows (ir_info r) frames n)"
    "data = replay_file (ri_config info) (kept_chapters (ir_info r) n) (kept_rows (ir_info r) frames n) n"
proof -
  let ?info = "ir_info r"
  let ?d = "case override of None \<Rightarrow> rc_description (ri_config ?info) | Some d \<Rightarrow> d"
  from Encode_Some [OF E] obtain frames n where e: "ir_frames r = Some frames"
    "n = (if m = INVALID_FRAME then ri_frameCount ?info else m)" "n \<noteq> 0" "n \<le> ri_frameCount ?info" "valid_config (ri_config ?info)"
    "length ?d \<le> MaxDescriptionBytes" .
  note o = ok [unfolded replay_ok_def e(1) option.case Let_def]
  have n: "n \<le> MaxFrames" using e(4) o by (blast intro: order_trans)
  have "ri_frameCount ?info \<noteq> 0" using e(3,4) by (auto simp: word_le_nat_alt unat_eq_0)
  then have cs: "chapters_ok n (kept_chapters ?info n)" "kept_chapters ?info n \<noteq> []"
    using kept_chapters_ok [of "ri_frameCount ?info" "chapter_list ?info" n] o e(3) by (auto simp: kept_chapters_def)
  have len: "length (kept_chapters ?info n) \<le> 64"
    using o length_takeWhile_le [of "\<lambda>c. ch_firstFrame c < n" "chapter_list ?info"]
    by (simp add: kept_chapters_def chapter_list_def MaxChapters_def)
  have "unat n \<le> unat (ri_frameCount ?info)" using e(4) by (simp add: word_le_nat_alt)
  then have rows: "list_all (row_ok (unat (rc_playerCount (ri_config ?info)))) (kept_rows ?info frames n)"
    using o by (auto simp: kept_rows_def row_ok_def list_all_iff)
  define info where "info = \<lparr>ri_config = ri_config ?info\<lparr>rc_description := ?d\<rparr>, ri_frameCount = n,
      ri_chapterCount = word_of_nat (length (kept_chapters ?info n)), ri_chapters = stored_chapters (kept_chapters ?info n)\<rparr>"
  have "file_ok info (kept_chapters ?info n) (kept_rows ?info frames n)"
    using e n cs len rows by (simp add: file_ok_def info_def valid_config_def MaxChapters_def) (simp add: kept_rows_def)
  moreover have "data = replay_file (ri_config info) (kept_chapters ?info n) (kept_rows ?info frames n) n"
    using Encode_bytes [OF e(1,2) refl e(3-6) len n] E by (simp add: info_def)
  ultimately show ?thesis using that [OF e(1,2,4) info_def] by simp
qed

text \<open>What the reader finds in a file the writer wrote.\<close>

lemma read_written:
  assumes ok: "replay_ok r" and E: "Replay_Encode r override m = Some data"
  obtains frames n info where "ir_frames r = Some frames"
    "n = (if m = INVALID_FRAME then ri_frameCount (ir_info r) else m)" "n \<le> ri_frameCount (ir_info r)"
    "ri_config info = ri_config (ir_info r)\<lparr>rc_description := (case override of
        None \<Rightarrow> rc_description (ri_config (ir_info r)) | Some d \<Rightarrow> d)\<rparr>"
    "ri_frameCount info = n" "chapter_list info = kept_chapters (ir_info r) n" "Inspect data = Some info"
    "Replay_Decode True r0 data = (True, InputReplay_default\<lparr>ir_info := info,
       ir_frames := Some (stored_rows (kept_rows (ir_info r) frames n)), ir_loaded := True\<rparr>)"
    "list_all (row_ok (unat (rc_playerCount (ri_config (ir_info r))))) (kept_rows (ir_info r) frames n)"
proof -
  obtain frames n info where w: "ir_frames r = Some frames"
    "n = (if m = INVALID_FRAME then ri_frameCount (ir_info r) else m)" "n \<le> ri_frameCount (ir_info r)"
    and info: "info = \<lparr>ri_config = ri_config (ir_info r)\<lparr>rc_description := (case override of
        None \<Rightarrow> rc_description (ri_config (ir_info r)) | Some d \<Rightarrow> d)\<rparr>, ri_frameCount = n,
      ri_chapterCount = word_of_nat (length (kept_chapters (ir_info r) n)), ri_chapters = stored_chapters (kept_chapters (ir_info r) n)\<rparr>"
    and written: "file_ok info (kept_chapters (ir_info r) n) (kept_rows (ir_info r) frames n)"
    "data = replay_file (ri_config info) (kept_chapters (ir_info r) n) (kept_rows (ir_info r) frames n) n"
    by (rule written_file [OF ok E])
  have fields: "ri_frameCount info = n" by (simp add: info)
  have "data = replay_bytes (ri_config info) (kept_chapters (ir_info r) n) (kept_rows (ir_info r) frames n)
      (ri_frameCount info) (checksum data)"
    using written(2) replay_file_iff fields by metis
  note rd = file_read [OF written(1) this]
  from rd have "Replay_Decode True r0 data = (True, InputReplay_default\<lparr>ir_info := info,
       ir_frames := Some (stored_rows (kept_rows (ir_info r) frames n)), ir_loaded := True\<rparr>)"
    by (simp add: Replay_Decode_def)
  moreover have "list_all (row_ok (unat (rc_playerCount (ri_config (ir_info r))))) (kept_rows (ir_info r) frames n)"
    using written(1) by (simp add: file_ok_def info)
  ultimately show ?thesis
    using that [OF w _ fields file_chapter_list [OF written(1)] rd(1)] by (simp add: info)
qed

section \<open>Properties\<close>

text \<open>
  C24: a recording that is written reads back: the description the caller chose, the frames up to the
  requested count with every seat's sample unchanged, and the chapters that begin before it.
\<close>

theorem recording_roundtrip:
  assumes "replay_run r" "Replay_Encode r override m = Some data"
  shows "\<exists>r'. Replay_Decode True r0 data = (True, r') \<and>
    ri_config (ir_info r') = ri_config (ir_info r)\<lparr>rc_description := (case override of
      None \<Rightarrow> rc_description (ri_config (ir_info r)) | Some d \<Rightarrow> d)\<rparr> \<and>
    ri_frameCount (ir_info r') = (if m = INVALID_FRAME then ri_frameCount (ir_info r) else m) \<and>
    chapter_list (ir_info r') = takeWhile (\<lambda>c. ch_firstFrame c < ri_frameCount (ir_info r')) (chapter_list (ir_info r)) \<and>
    (\<forall>f s. f < ri_frameCount (ir_info r') \<and> s < unat (rc_playerCount (ri_config (ir_info r))) \<longrightarrow>
      map_option (\<lambda>row. row s) (FrameAt r' f) = map_option (\<lambda>row. row s) (FrameAt r f))"
proof -
  obtain frames n info where w: "ir_frames r = Some frames"
    "n = (if m = INVALID_FRAME then ri_frameCount (ir_info r) else m)" "n \<le> ri_frameCount (ir_info r)"
    "ri_config info = ri_config (ir_info r)\<lparr>rc_description := (case override of
        None \<Rightarrow> rc_description (ri_config (ir_info r)) | Some d \<Rightarrow> d)\<rparr>"
    "ri_frameCount info = n" "chapter_list info = kept_chapters (ir_info r) n"
    and dec: "Replay_Decode True r0 data = (True, InputReplay_default\<lparr>ir_info := info,
       ir_frames := Some (stored_rows (kept_rows (ir_info r) frames n)), ir_loaded := True\<rparr>)"
    and rows: "list_all (row_ok (unat (rc_playerCount (ri_config (ir_info r))))) (kept_rows (ir_info r) frames n)"
    by (rule read_written [OF replay_run_ok [OF assms(1)] assms(2)])
  have "stored_rows (kept_rows (ir_info r) frames n) (unat f) s = frames (unat f) s"
    if "f < n" "s < unat (rc_playerCount (ri_config (ir_info r)))" for f s
  proof -
    have f: "unat f < length (kept_rows (ir_info r) frames n)" using that(1) by (simp add: kept_rows_def word_less_nat_alt)
    show ?thesis using stored_rows_nth(1) [OF rows f that(2)] f that(2) by (simp add: kept_rows_def)
  qed
  moreover have "f < ri_frameCount (ir_info r)" if "f < n" for f using that w(3) by simp
  ultimately show ?thesis
    using w dec by (intro exI [of _ "InputReplay_default\<lparr>ir_info := info,
       ir_frames := Some (stored_rows (kept_rows (ir_info r) frames n)), ir_loaded := True\<rparr>"])
      (simp add: FrameAt_def kept_chapters_def)
qed

text \<open>
  C25: the file format is canonical: whatever file is accepted is the file that writing the loaded
  recording produces, byte for byte.
\<close>

theorem recording_file_canonical:
  assumes "Replay_Decode True r0 data = (True, r)"
  shows "Replay_Encode r None INVALID_FRAME = Some data"
proof -
  from assms obtain info where "Inspect data = Some info" by (auto simp: Replay_Decode_def split: option.splits)
  from Decode_Some [OF this, of r0] obtain cs rows where f: "file_ok info cs rows"
    "data = replay_file (ri_config info) cs rows (ri_frameCount info)"
    and "Replay_Decode True r0 data = (True, InputReplay_default\<lparr>ir_info := info, ir_frames := Some (stored_rows rows), ir_loaded := True\<rparr>)" .
  with assms have r: "r = InputReplay_default\<lparr>ir_info := info, ir_frames := Some (stored_rows rows), ir_loaded := True\<rparr>" by simp
  let ?p = "unat (rc_playerCount (ri_config info))"
  have cs: "kept_chapters info (ri_frameCount info) = cs"
    using f(1) file_chapter_list [OF f(1)] by (auto simp: kept_chapters_def file_ok_def chapters_ok_def takeWhile_eq_all_conv)
  have rows: "kept_rows info (stored_rows rows) (ri_frameCount info) = rows"
  proof (rule nth_equalityI)
    show len: "length (kept_rows info (stored_rows rows) (ri_frameCount info)) = length rows"
      using f(1) by (simp add: kept_rows_def file_ok_def)
    fix k assume "k < length (kept_rows info (stored_rows rows) (ri_frameCount info))"
    then have k: "k < length rows" using len by simp
    have row: "row_ok ?p (rows ! k)" "list_all (row_ok ?p) rows" using f(1) k by (auto simp: file_ok_def list_all_length)
    have "map (stored_rows rows k) [0..<?p] = rows ! k"
      by (rule nth_equalityI) (use stored_rows_nth(1) [OF row(2) k] row(1) in \<open>simp_all add: row_ok_def\<close>)
    then show "kept_rows info (stored_rows rows) (ri_frameCount info) ! k = rows ! k"
      using k f(1) by (simp add: kept_rows_def file_ok_def)
  qed
  have "ri_config info\<lparr>rc_description := rc_description (ri_config info)\<rparr> = ri_config info" by simp
  moreover have "Replay_Encode r None INVALID_FRAME = Some (replay_file (ri_config info\<lparr>rc_description := rc_description (ri_config info)\<rparr>)
      (kept_chapters info (ri_frameCount info)) (kept_rows info (stored_rows rows) (ri_frameCount info)) (ri_frameCount info))"
    using Encode_bytes [of r "stored_rows rows" "ri_frameCount info" INVALID_FRAME "rc_description (ri_config info)" None] f(1) cs
    by (simp add: r file_ok_def valid_config_def MaxChapters_def)
  ultimately show ?thesis using cs rows f(2) by simp
qed

lemma Inspect_checksum: "Inspect data = Some info \<Longrightarrow> 40 \<le> length data \<and> replay_word data 36 = checksum data"
  by (auto simp: Inspect_def Let_def HeaderBytes_def not_less split: if_splits option.splits)

text \<open>
  C26: no accepted file stays acceptable when one of its bytes is changed.
\<close>

theorem recording_corruption_detected:
  assumes "Inspect data \<noteq> None" "i < length data" "b \<noteq> data ! i"
  shows "Inspect (data[i := b]) = None"
proof (rule ccontr)
  let ?d = "data[i := b]"
  assume "Inspect ?d \<noteq> None"
  with assms(1) obtain info info' where "Inspect data = Some info" "Inspect ?d = Some info'" by auto
  then have c: "40 \<le> length data" "replay_word data 36 = checksum data" "replay_word ?d 36 = checksum ?d"
    using Inspect_checksum by fastforce+
  show False
  proof (cases "i < 36 \<or> 40 \<le> i")
    case True
    then have "replay_word ?d 36 = replay_word data 36" by (auto simp: replay_word_def)
    with c checksum_one_byte [OF assms(2) True assms(3)] show False by simp
  next
    case False
    then have "checksum ?d = checksum data" by (intro checksum_cong) (use assms(2) in \<open>auto simp: nth_list_update\<close>)
    with c have w: "replay_word ?d 36 = replay_word data 36" by simp
    have "drop 36 ?d = le_bytes 4 (replay_word ?d 36) @ drop 40 ?d"
      using replay_word_read [of 36 ?d] c(1) by simp
    also have "\<dots> = le_bytes 4 (replay_word data 36) @ drop 40 data" using w False by simp
    also have "\<dots> = drop 36 data" using replay_word_read [of 36 data] c(1) by simp
    finally have "drop 36 ?d ! (i - 36) = drop 36 data ! (i - 36)" by simp
    then have "?d ! i = data ! i" using False c(1) by simp
    with assms(2,3) show False by simp
  qed
qed

text \<open>
  C27: the recorder keeps its types: in every recording its operations reach, a stored frame belongs to a
  valid configuration, at most 64 chapters with distinct non-zero labels begin at increasing frames from
  zero, and every seat holds a valid sample.
\<close>

theorem recording_wellformed:
  assumes "replay_run r" "FrameAt r f = Some row"
  shows "valid_config (ri_config (ir_info r)) \<and> f < ri_frameCount (ir_info r) \<and> ri_frameCount (ir_info r) \<le> MaxFrames \<and>
    chapter_list (ir_info r) \<noteq> [] \<and> length (chapter_list (ir_info r)) \<le> MaxChapters \<and>
    chapters_ok (ri_frameCount (ir_info r)) (chapter_list (ir_info r)) \<and>
    (\<forall>s < unat (rc_playerCount (ri_config (ir_info r))). valid_sample (row s))"
proof -
  from assms(2) obtain frames where f: "ir_frames r = Some frames" "f < ri_frameCount (ir_info r)" "row = frames (unat f)"
    by (auto simp: FrameAt_def split: option.splits if_splits)
  have "ri_frameCount (ir_info r) \<noteq> 0" "unat f < unat (ri_frameCount (ir_info r))"
    using f(2) by (auto simp: word_less_nat_alt)
  with f replay_run_ok [OF assms(1)] show ?thesis
    by (simp add: replay_ok_def Let_def) (simp add: chapter_list_def)
qed

text \<open>
  C28: an accepted frame is stored as the next one, with its samples, and no earlier frame changes; a
  refused one changes nothing.
\<close>

theorem append_records_frame:
  "(case Replay_Append r frame chapter inputs of
      (True, r') \<Rightarrow> frame = ri_frameCount (ir_info r) \<and> ri_frameCount (ir_info r') = frame + 1 \<and>
        FrameAt r' frame = Some (stored_inputs inputs) \<and>
        (\<forall>f. f < frame \<longrightarrow> FrameAt r' f = FrameAt r f)
    | (False, r') \<Rightarrow> r' = r)"
proof (cases "Replay_Append r frame chapter inputs")
  case (Pair ok r')
  show ?thesis
  proof (cases ok)
    case False
    with Pair show ?thesis by (auto simp: Replay_Append_def Let_def split: option.splits if_splits)
  next
    case True
    define info where "info = (if new_chapter (ir_info r) chapter
      then ir_info r\<lparr>ri_chapters := (ri_chapters (ir_info r))(unat (ri_chapterCount (ir_info r)) :=
          \<lparr>ch_label = chapter, ch_firstFrame = frame\<rparr>), ri_chapterCount := ri_chapterCount (ir_info r) + 1\<rparr> else ir_info r)"
    from Pair True obtain frames where a: "ir_frames r = Some frames" "frame = ri_frameCount (ir_info r)" "frame < MaxFrames"
      "r' = r\<lparr>ir_frames := Some (frames(unat frame := stored_inputs inputs)), ir_info := info\<lparr>ri_frameCount := ri_frameCount info + 1\<rparr>\<rparr>"
      by (auto simp: Replay_Append_def Let_def info_def not_le split: option.splits if_splits)
    have n: "ri_frameCount info = frame" using a(2) by (simp add: info_def)
    note succ = frame_succ [OF a(3)]
    have "unat f \<noteq> unat frame \<and> f < frame + 1" if "f < frame" for f
      using that succ(2) by (auto simp: word_less_nat_alt)
    with Pair True a(1,2) succ n show ?thesis by (simp add: FrameAt_def a(4))
  qed
qed

section \<open>A concrete recording\<close>

definition demo_replay_config :: InputReplayConfig where
  "demo_replay_config = \<lparr>rc_gameId = 7, rc_gameplayAbi = 3, rc_playerCount = 2, rc_recordedPlayer = 1, rc_description = [9]\<rparr>"

definition demo_inputs :: "FrameInput list" where
  "demo_inputs = [FrameInput_of_bits 5, FrameInput_of_bits 6]"

definition demo_replay :: InputReplay where
  "demo_replay = snd (Replay_Append (snd (Replay_Begin True InputReplay_default demo_replay_config)) 0 1 demo_inputs)"

lemma demo_replay_run: "replay_run demo_replay"
  unfolding demo_replay_def by (intro replay_run.intros)

lemma demo_valid: "valid_config demo_replay_config"
  by (simp add: valid_config_def demo_replay_config_def MAX_PLAYERS_def MaxDescriptionBytes_def)

lemma demo_samples: "list_all valid_sample demo_inputs"
  by (simp add: demo_inputs_def valid_sample_def FrameInput_of_bits_def FrameInput_default_def AnalogMode_defs f32_isfinite_def
      f32_exponent_def)

lemma demo_replay_eq:
  "Replay_Append (snd (Replay_Begin True InputReplay_default demo_replay_config)) 0 1 demo_inputs = (True, demo_replay)"
  "ir_frames demo_replay = Some ((\<lambda>_ _. FrameInput_default)(0 := stored_inputs demo_inputs))"
  "ri_config (ir_info demo_replay) = demo_replay_config" "ri_frameCount (ir_info demo_replay) = 1"
  "chapter_list (ir_info demo_replay) = [\<lparr>ch_label = 1, ch_firstFrame = 0\<rparr>]"
  using demo_samples demo_valid
  by (simp_all add: demo_replay_def Replay_Begin_def demo_valid [unfolded demo_replay_config_def] Replay_Append_def InputReplay_default_def InputReplayInfo_default_def
      Let_def demo_replay_config_def demo_inputs_def new_chapter_def chapter_refused_def MaxFrames_def MaxChapters_def chapter_list_def)

lemma demo_kept: "kept_chapters (ir_info demo_replay) 1 = [\<lparr>ch_label = 1, ch_firstFrame = 0\<rparr>]"
  by (simp add: kept_chapters_def demo_replay_eq)

lemma demo_encode: "\<exists>data. Replay_Encode demo_replay None INVALID_FRAME = Some data"
  using Encode_bytes [OF demo_replay_eq(2), of 1 INVALID_FRAME "[9]" None] demo_valid
  by (auto simp: demo_replay_eq(3,4) demo_kept MaxFrames_def MaxDescriptionBytes_def demo_replay_config_def)

lemma demo_FrameAt: "FrameAt demo_replay 0 = Some (stored_inputs demo_inputs)"
  by (simp add: FrameAt_def demo_replay_eq)

lemma demo_seat: "stored_inputs demo_inputs 1 = FrameInput_of_bits 6"
  by (simp add: stored_inputs_def demo_inputs_def)

theorem recording_roundtrip_witness:
  "\<exists>data r'. Replay_Encode demo_replay None INVALID_FRAME = Some data \<and> Replay_Decode True InputReplay_default data = (True, r') \<and>
    map_option (\<lambda>row. row 1) (FrameAt r' 0) = Some (FrameInput_of_bits 6)"
proof -
  obtain data where E: "Replay_Encode demo_replay None INVALID_FRAME = Some data" using demo_encode by blast
  from recording_roundtrip [OF demo_replay_run E, of InputReplay_default] obtain r' where
    r: "Replay_Decode True InputReplay_default data = (True, r')" and
    all: "\<forall>f s. f < (1 :: u32) \<and> s < 2 \<longrightarrow> map_option (\<lambda>row. row s) (FrameAt r' f) = map_option (\<lambda>row. row s) (FrameAt demo_replay f)"
    by (auto simp: demo_replay_eq(3,4) demo_replay_config_def)
  have "map_option (\<lambda>row. row 1) (FrameAt r' 0) = map_option (\<lambda>row. row 1) (FrameAt demo_replay 0)"
    by (rule all [rule_format]) simp
  then have "map_option (\<lambda>row. row 1) (FrameAt r' 0) = Some (FrameInput_of_bits 6)"
    by (simp only: demo_FrameAt option.map demo_seat)
  with E r show ?thesis by blast
qed

theorem recording_file_canonical_witness:
  "\<exists>data r. Replay_Decode True InputReplay_default data = (True, r) \<and> Replay_Encode r None INVALID_FRAME = Some data"
proof -
  obtain data where E: "Replay_Encode demo_replay None INVALID_FRAME = Some data" using demo_encode by blast
  obtain r where "Replay_Decode True InputReplay_default data = (True, r)"
    by (rule read_written [OF replay_run_ok [OF demo_replay_run] E, of InputReplay_default])
  with recording_file_canonical [OF this] show ?thesis by blast
qed

theorem recording_corruption_detected_witness:
  "\<exists>data. Inspect data \<noteq> None \<and> 40 \<le> length data \<and> Inspect (data[20 := data ! 20 + 1]) = None"
proof -
  obtain data where E: "Replay_Encode demo_replay None INVALID_FRAME = Some data" using demo_encode by blast
  obtain info where I: "Inspect data = Some info"
    by (rule read_written [OF replay_run_ok [OF demo_replay_run] E, of InputReplay_default])
  then have "40 \<le> length data" using Inspect_checksum by blast
  with recording_corruption_detected [of data 20 "data ! 20 + 1"] I show ?thesis by auto
qed

theorem recording_wellformed_witness: "valid_config demo_replay_config \<and> valid_sample (FrameInput_of_bits 6)"
proof -
  have "\<forall>s < unat (rc_playerCount demo_replay_config). valid_sample (stored_inputs demo_inputs s)"
    using recording_wellformed [OF demo_replay_run demo_FrameAt] by (simp add: demo_replay_eq(3))
  from this [rule_format, of 1] show ?thesis
    using demo_valid demo_seat by (simp add: demo_replay_config_def)
qed

theorem append_records_frame_witness: "FrameAt demo_replay 0 = Some (stored_inputs demo_inputs)"
proof -
  let ?r = "snd (Replay_Begin True InputReplay_default demo_replay_config)"
  have "case Replay_Append ?r 0 1 demo_inputs of
      (True, r') \<Rightarrow> 0 = ri_frameCount (ir_info ?r) \<and> ri_frameCount (ir_info r') = 0 + 1 \<and>
        FrameAt r' 0 = Some (stored_inputs demo_inputs) \<and> (\<forall>f. f < 0 \<longrightarrow> FrameAt r' f = FrameAt ?r f)
    | (False, r') \<Rightarrow> r' = ?r"
    by (rule append_records_frame)
  then show ?thesis by (simp add: demo_replay_eq(1))
qed

end
