(* ===== verification/Binary.thy ===== *)
theory Binary
  imports Complex_Main "HOL-Library.Log_Nat"
begin

text \<open>
  Binary floating point arithmetic on finite values. A finite \<^verbatim>\<open>double\<close> is the rational it denotes; an
  operation computes the exact result and rounds it to the nearest representable value, ties to the
  even significand, as IEEE 754 prescribes for the default rounding direction. Infinities and NaN are
  not represented: the code that uses these operations keeps every operand and result far from
  the overflow threshold. The two zeros are one value, which no operation used here tells apart.

  A format has a precision \<open>p\<close> and the exponent \<open>- m\<close> of its smallest positive value: 53 and 1074 for
  \<^verbatim>\<open>double\<close>.
\<close>

type_synonym f64 = rat

section \<open>Rounding to the nearest integer, ties to even\<close>

definition rne :: "rat \<Rightarrow> int" where
  "rne y = (let f = \<lfloor>y\<rfloor>; d = y - of_int f in if d < 1 / 2 \<or> (d = 1 / 2 \<and> even f) then f else f + 1)"

lemma rne_of_int [simp]: "rne (of_int n) = n"
  by (simp add: rne_def)

lemma rne_cases: "rne y = \<lfloor>y\<rfloor> \<or> rne y = \<lfloor>y\<rfloor> + 1"
  by (simp add: rne_def Let_def)

lemma rne_mono: "x \<le> y \<Longrightarrow> rne x \<le> rne y"
proof -
  assume xy: "x \<le> y"
  then have "\<lfloor>x\<rfloor> \<le> \<lfloor>y\<rfloor>" by (rule floor_mono)
  then consider "\<lfloor>x\<rfloor> = \<lfloor>y\<rfloor>" | "\<lfloor>x\<rfloor> + 1 \<le> \<lfloor>y\<rfloor>" by linarith
  then show ?thesis
  proof cases
    case 1
    then have "x - of_int \<lfloor>x\<rfloor> \<le> y - of_int \<lfloor>y\<rfloor>" using xy by simp
    with 1 show ?thesis by (auto simp: rne_def Let_def)
  next
    case 2
    with rne_cases [of x] rne_cases [of y] show ?thesis by linarith
  qed
qed

lemma rne_0 [simp]: "rne 0 = 0"
  using rne_of_int [of 0] by simp

lemma rne_nonneg: "0 \<le> y \<Longrightarrow> 0 \<le> rne y"
  using rne_mono [of 0 y] by simp

lemma rne_twice: "0 \<le> y \<Longrightarrow> of_int (rne y) \<le> 2 * y"
proof -
  assume y: "0 \<le> y"
  have fl: "of_int \<lfloor>y\<rfloor> \<le> y" by simp
  show ?thesis
  proof (cases "\<lfloor>y\<rfloor> = 0")
    case True
    then show ?thesis using y by (auto simp: rne_def)
  next
    case False
    with y have "1 \<le> \<lfloor>y\<rfloor>" by (simp add: order_less_le int_one_le_iff_zero_less)
    then have "1 \<le> (of_int \<lfloor>y\<rfloor> :: rat)" by simp
    with fl have "1 \<le> y" by linarith
    moreover have "of_int (rne y) \<le> (of_int \<lfloor>y\<rfloor> :: rat) + 1"
      using rne_cases [of y] by auto
    ultimately show ?thesis using fl by linarith
  qed
qed

section \<open>Rounding to a binary format\<close>

text \<open>\<open>scale_bits p y\<close>: how many low bits of the integer part of \<open>y\<close> a significand of \<open>p\<close> bits drops.\<close>

definition scale_bits :: "nat \<Rightarrow> rat \<Rightarrow> nat" where
  "scale_bits p y = floorlog 2 (nat \<lfloor>y\<rfloor>) - p"

definition round_scaled :: "nat \<Rightarrow> rat \<Rightarrow> rat" where
  "round_scaled p y = of_int (rne (y / 2 ^ scale_bits p y)) * 2 ^ scale_bits p y"

definition round_binary :: "nat \<Rightarrow> nat \<Rightarrow> rat \<Rightarrow> rat" where
  "round_binary p m x = sgn x * (round_scaled p (\<bar>x\<bar> * 2 ^ m) / 2 ^ m)"

definition f64_round :: "rat \<Rightarrow> f64" where
  "f64_round x = round_binary 53 1074 x"

definition f64_add :: "f64 \<Rightarrow> f64 \<Rightarrow> f64" where "f64_add x y = f64_round (x + y)"
definition f64_sub :: "f64 \<Rightarrow> f64 \<Rightarrow> f64" where "f64_sub x y = f64_round (x - y)"
definition f64_mul :: "f64 \<Rightarrow> f64 \<Rightarrow> f64" where "f64_mul x y = f64_round (x * y)"
definition f64_div :: "f64 \<Rightarrow> f64 \<Rightarrow> f64" where "f64_div x y = f64_round (x / y)"

text \<open>\<^verbatim>\<open>std::clamp(v, lo, hi)\<close>.\<close>

definition f64_clamp :: "f64 \<Rightarrow> f64 \<Rightarrow> f64 \<Rightarrow> f64" where
  "f64_clamp v lo hi = (if v < lo then lo else if hi < v then hi else v)"

lemma below_power_floorlog:
  assumes "0 \<le> y"
  shows "y < 2 ^ floorlog 2 (nat \<lfloor>y\<rfloor>)"
proof -
  have "nat \<lfloor>y\<rfloor> < 2 ^ floorlog 2 (nat \<lfloor>y\<rfloor>)"
    by (rule floorlog_leD) simp_all
  then have "\<lfloor>y\<rfloor> < 2 ^ floorlog 2 (nat \<lfloor>y\<rfloor>)"
    using assms by (simp add: nat_less_iff)
  then have "y < of_int (2 ^ floorlog 2 (nat \<lfloor>y\<rfloor>))"
    by (rule floor_less_iff [THEN iffD1])
  then show ?thesis by simp
qed

lemma above_power_floorlog:
  assumes "0 \<le> y" "w < floorlog 2 (nat \<lfloor>y\<rfloor>)"
  shows "2 ^ w \<le> y"
proof -
  have "2 ^ w \<le> nat \<lfloor>y\<rfloor>"
    using floorlog_geD [of "Suc w" 2 "nat \<lfloor>y\<rfloor>"] assms by simp
  then have "2 ^ w \<le> \<lfloor>y\<rfloor>"
    using assms by (simp add: le_nat_iff)
  then have "of_int (2 ^ w) \<le> y"
    by (simp only: le_floor_iff)
  then show ?thesis by simp
qed

lemma scale_bits_mono: "x \<le> y \<Longrightarrow> scale_bits p x \<le> scale_bits p y"
  by (auto simp: scale_bits_def intro!: diff_le_mono floorlog_mono nat_mono floor_mono)

lemma rne_power [simp]: "rne (2 ^ n) = 2 ^ n"
  using rne_of_int [of "2 ^ n"] by simp

lemma scaled_below:
  assumes "0 \<le> y"
  shows "rne (y / 2 ^ scale_bits p y) \<le> 2 ^ p"
proof -
  have "y < 2 ^ floorlog 2 (nat \<lfloor>y\<rfloor>)" using assms by (rule below_power_floorlog)
  also have "\<dots> \<le> 2 ^ (p + scale_bits p y)"
    by (rule power_increasing) (simp_all add: scale_bits_def)
  finally have "y / 2 ^ scale_bits p y \<le> 2 ^ p"
    by (simp add: power_add field_simps)
  then show ?thesis using rne_mono by fastforce
qed

lemma round_scaled_mono:
  assumes "0 < p" "0 \<le> x" "x \<le> y"
  shows "round_scaled p x \<le> round_scaled p y"
proof (cases "scale_bits p x = scale_bits p y")
  case True
  then show ?thesis using assms by (simp add: round_scaled_def rne_mono divide_right_mono)
next
  case False
  let ?s = "scale_bits p x" and ?t = "scale_bits p y"
  have st: "?s < ?t" using False scale_bits_mono [OF assms(3), of p] by simp
  then have fl: "?t + p = floorlog 2 (nat \<lfloor>y\<rfloor>)" by (simp add: scale_bits_def)
  have "2 ^ (?t + (p - 1)) \<le> y"
    by (rule above_power_floorlog) (use assms fl in auto)
  then have "2 ^ (p - 1) \<le> y / 2 ^ ?t" by (simp add: power_add field_simps)
  then have "2 ^ (p - 1) \<le> rne (y / 2 ^ ?t)" using rne_mono by fastforce
  then have hi: "(2 ^ (p - 1) :: rat) \<le> of_int (rne (y / 2 ^ ?t))"
    by (metis of_int_le_iff of_int_numeral of_int_power)
  have lo: "(of_int (rne (x / 2 ^ ?s)) :: rat) \<le> 2 ^ p"
    using scaled_below [OF assms(2), of p] by (metis of_int_le_iff of_int_numeral of_int_power)
  have "round_scaled p x \<le> 2 ^ p * 2 ^ ?s"
    unfolding round_scaled_def by (rule mult_right_mono [OF lo]) simp
  also have "\<dots> \<le> 2 ^ (p - 1) * 2 ^ ?t"
    unfolding power_add [symmetric] by (rule power_increasing) (use st assms(1) in auto)
  also have "\<dots> \<le> round_scaled p y"
    unfolding round_scaled_def by (rule mult_right_mono [OF hi]) simp
  finally show ?thesis .
qed

lemma scale_bits_int:
  fixes n :: nat
  assumes "n < 2 ^ (p + s)"
  shows "scale_bits p (of_nat n) \<le> s"
  using floorlog_leI [OF assms] by (simp add: scale_bits_def)

lemma round_scaled_exact:
  assumes "0 < p" "n \<le> (2 ^ p :: nat)"
  shows "round_scaled p (of_nat n * 2 ^ s) = of_nat n * 2 ^ s"
proof -
  let ?y = "of_nat n * 2 ^ s :: rat"
  obtain k t :: nat where kt: "?y = of_nat k * 2 ^ t" "k < 2 ^ p"
  proof (cases "n = 2 ^ p")
    case True
    have "?y = of_nat (2 ^ (p - 1)) * 2 ^ Suc s"
      using assms(1) True by (cases p) simp_all
    moreover have "(2 ^ (p - 1) :: nat) < 2 ^ p" using assms(1) by simp
    ultimately show ?thesis by (rule that)
  next
    case False
    with assms(2) show ?thesis by (intro that [of n s]) auto
  qed
  have y: "?y = of_nat (k * 2 ^ t)" using kt(1) by simp
  have "k * 2 ^ t < 2 ^ (p + t)" using kt(2) by (simp add: power_add)
  then have le: "scale_bits p ?y \<le> t" unfolding y by (rule scale_bits_int)
  have "?y / 2 ^ scale_bits p ?y = of_int (int (k * 2 ^ (t - scale_bits p ?y)))"
    unfolding kt(1) [symmetric] using kt(1) le by (simp add: field_simps power_add [symmetric])
  then show ?thesis unfolding round_scaled_def by (simp only: rne_of_int) (use kt(1) le in \<open>simp add: mult.assoc power_add [symmetric]\<close>)
qed

lemma round_scaled_form:
  assumes "0 \<le> y"
  shows "\<exists>n s. n \<le> (2 ^ p :: nat) \<and> round_scaled p y = of_nat n * 2 ^ s"
proof -
  let ?r = "rne (y / 2 ^ scale_bits p y)"
  have "0 \<le> ?r" using assms by (intro rne_nonneg) simp
  moreover have "nat ?r \<le> 2 ^ p" using scaled_below [OF assms, of p] by (simp add: nat_le_iff)
  ultimately show ?thesis
    by (intro exI [of _ "nat ?r"] exI [of _ "scale_bits p y"]) (simp add: round_scaled_def of_nat_nat)
qed

lemma round_scaled_nonneg: "0 \<le> y \<Longrightarrow> 0 \<le> round_scaled p y"
  by (simp add: round_scaled_def rne_nonneg)

lemma round_scaled_twice:
  assumes "0 \<le> y"
  shows "round_scaled p y \<le> 2 * y"
proof -
  have "of_int (rne (y / 2 ^ scale_bits p y)) \<le> 2 * (y / 2 ^ scale_bits p y)"
    using assms by (intro rne_twice) simp
  then have "round_scaled p y \<le> 2 * (y / 2 ^ scale_bits p y) * 2 ^ scale_bits p y"
    unfolding round_scaled_def by (rule mult_right_mono) simp
  then show ?thesis by simp
qed

section \<open>The facts the components use\<close>

lemma round_binary_nonneg_eq:
  "0 \<le> x \<Longrightarrow> round_binary p m x = round_scaled p (x * 2 ^ m) / 2 ^ m"
  by (cases "x = 0") (simp_all add: round_binary_def round_scaled_def sgn_if)

lemma round_binary_minus: "round_binary p m (- x) = - round_binary p m x"
  by (simp add: round_binary_def sgn_minus)

lemma round_binary_nonneg: "0 \<le> x \<Longrightarrow> 0 \<le> round_binary p m x"
  by (simp add: round_binary_nonneg_eq round_scaled_nonneg)

lemma round_binary_nonpos: "x \<le> 0 \<Longrightarrow> round_binary p m x \<le> 0"
  using round_binary_nonneg [of "- x"] by (simp add: round_binary_minus)

lemma round_binary_mono_nonneg:
  "0 < p \<Longrightarrow> 0 \<le> x \<Longrightarrow> x \<le> y \<Longrightarrow> round_binary p m x \<le> round_binary p m y"
  by (simp add: round_binary_nonneg_eq round_scaled_mono divide_right_mono)

lemma round_binary_mono:
  assumes "0 < p" "x \<le> y"
  shows "round_binary p m x \<le> round_binary p m y"
proof -
  consider "0 \<le> x" | "x \<le> 0" "0 \<le> y" | "y \<le> 0" by linarith
  then show ?thesis
  proof cases
    case 1
    then show ?thesis using assms by (intro round_binary_mono_nonneg)
  next
    case 2
    then show ?thesis using round_binary_nonneg round_binary_nonpos order_trans by blast
  next
    case 3
    then show ?thesis
      using round_binary_mono_nonneg [of p "- y" "- x" m] assms by (simp add: round_binary_minus)
  qed
qed

lemma round_binary_idem:
  assumes "0 < p"
  shows "round_binary p m (round_binary p m x) = round_binary p m x"
proof -
  have pos: "round_binary p m (round_binary p m z) = round_binary p m z" if z: "0 \<le> z" for z
  proof -
    have "0 \<le> z * 2 ^ m" using z by simp
    then obtain n s where ns: "n \<le> (2 ^ p :: nat)" "round_scaled p (z * 2 ^ m) = of_nat n * 2 ^ s"
      using round_scaled_form by blast
    have "round_scaled p (round_scaled p (z * 2 ^ m)) = round_scaled p (z * 2 ^ m)"
      unfolding ns(2) by (rule round_scaled_exact [OF assms ns(1)])
    then show ?thesis
      using z round_binary_nonneg [OF z, of p m] by (simp add: round_binary_nonneg_eq)
  qed
  show ?thesis
  proof (cases "0 \<le> x")
    case True
    then show ?thesis by (rule pos)
  next
    case False
    then show ?thesis using pos [of "- x"] by (simp add: round_binary_minus)
  qed
qed

lemma round_binary_twice: "0 \<le> x \<Longrightarrow> round_binary p m x \<le> 2 * x"
  using round_scaled_twice [of "x * 2 ^ m" p] by (simp add: round_binary_nonneg_eq field_simps)

lemma round_binary_int:
  assumes "0 < p" "\<bar>n\<bar> \<le> 2 ^ p"
  shows "round_binary p m (of_int n) = of_int n"
proof -
  have pos: "round_binary p m (of_nat k) = of_nat k" if "k \<le> (2 ^ p :: nat)" for k
    using round_scaled_exact [OF assms(1) that, of m] by (simp add: round_binary_nonneg_eq)
  show ?thesis
  proof (cases "0 \<le> n")
    case True
    then have "of_int n = (of_nat (nat n) :: rat)" "nat n \<le> 2 ^ p" using assms(2) by (simp_all add: nat_le_iff)
    then show ?thesis using pos by (simp only:)
  next
    case False
    then have "of_int n = - (of_nat (nat (- n)) :: rat)" "nat (- n) \<le> 2 ^ p" using assms(2) by (simp_all add: nat_le_iff)
    then show ?thesis using pos by (simp only: round_binary_minus)
  qed
qed

lemma f64_round_mono: "x \<le> y \<Longrightarrow> f64_round x \<le> f64_round y"
  unfolding f64_round_def by (rule round_binary_mono [OF zero_less_numeral])

lemma f64_round_idem [simp]: "f64_round (f64_round x) = f64_round x"
  unfolding f64_round_def by (rule round_binary_idem [OF zero_less_numeral])

lemma f64_round_nonneg: "0 \<le> x \<Longrightarrow> 0 \<le> f64_round x"
  unfolding f64_round_def by (rule round_binary_nonneg)

lemma f64_round_nonpos: "x \<le> 0 \<Longrightarrow> f64_round x \<le> 0"
  unfolding f64_round_def by (rule round_binary_nonpos)

lemma f64_round_twice: "0 \<le> x \<Longrightarrow> f64_round x \<le> 2 * x"
  unfolding f64_round_def by (rule round_binary_twice)

lemma f64_round_minus: "f64_round (- x) = - f64_round x"
  unfolding f64_round_def by (rule round_binary_minus)

lemma f64_round_int: "\<bar>n\<bar> \<le> 2 ^ 53 \<Longrightarrow> f64_round (of_int n) = of_int n"
  unfolding f64_round_def by (rule round_binary_int [of 53, OF zero_less_numeral])

lemma f64_round_nat: "n \<le> 2 ^ 53 \<Longrightarrow> f64_round (of_nat n) = of_nat n"
  using f64_round_int [of "int n"] by simp

lemma f64_round_simps [simp]: "f64_round 0 = 0" "f64_round 1 = 1"
  using f64_round_int [of 0] f64_round_int [of 1] by simp_all

end
