(* ===== verification/Pacing.thy ===== *)
theory Pacing
  imports Protocol Binary
begin

text \<open>
  The wall-clock policies of a session: \<^verbatim>\<open>FrameAdvantageWindow.hpp\<close>, \<^verbatim>\<open>FramePacingPolicy.hpp\<close>,
  \<^verbatim>\<open>SessionPacing.hpp\<close> and \<^verbatim>\<open>ConfirmedInputWatchdog.hpp\<close>. A frame lead is a signed 32-bit integer, an
  average or a scale a \<^verbatim>\<open>double\<close> of \<open>Binary\<close>.
\<close>

section \<open>FrameAdvantageWindow\<close>

definition WINDOW_SIZE :: nat where "WINDOW_SIZE = 64"

record FrameAdvantageWindow =
  fw_averageLead :: f64
  fw_ready :: bool
  fw_samples :: "u32 list"
  fw_count :: nat
  fw_cursor :: nat

definition FrameAdvantageWindow_default :: FrameAdvantageWindow where
  "FrameAdvantageWindow_default = \<lparr>fw_averageLead = 0, fw_ready = False,
     fw_samples = replicate WINDOW_SIZE 0, fw_count = 0, fw_cursor = 0\<rparr>"

definition trimmed :: "nat \<Rightarrow> int list \<Rightarrow> int list" where
  "trimmed trim xs = take (length xs - trim * 2) (drop trim xs)"

definition AddSample :: "FrameAdvantageWindow \<Rightarrow> u32 \<Rightarrow> bool \<times> FrameAdvantageWindow" where
  "AddSample w lead =
     (let w = w\<lparr>fw_samples := (fw_samples w)[fw_cursor w := lead]\<rparr>;
          w = w\<lparr>fw_cursor := (fw_cursor w + 1) mod WINDOW_SIZE\<rparr>;
          w = w\<lparr>fw_count := min (fw_count w + 1) WINDOW_SIZE\<rparr>
      in if fw_count w < 20 then (False, w)
         else
           let sorted = sort (map sint (take (fw_count w) (fw_samples w)));
               trim = min 4 (fw_count w div 8);
               sum = sum_list (trimmed trim sorted)
           in (True, w\<lparr>fw_averageLead := f64_div (f64_round (of_int sum))
                 (f64_round (of_nat (fw_count w - trim * 2))), fw_ready := True\<rparr>))"

section \<open>FramePacingPolicy\<close>

definition MaxAbsoluteLeadFrames :: int where "MaxAbsoluteLeadFrames = 30"
definition DeadbandFrames :: f64 where "DeadbandFrames = f64_round (5 / 10)"
definition ScalePerLeadFrame :: f64 where "ScalePerLeadFrame = f64_round (3 / 1000)"
definition MinScale :: f64 where "MinScale = f64_round (98 / 100)"
definition MaxScale :: f64 where "MaxScale = f64_round (102 / 100)"
definition SmoothingFactor :: f64 where "SmoothingFactor = f64_round (8 / 100)"
definition UnitySnapThreshold :: f64 where "UnitySnapThreshold = f64_round (2 / 10000)"

definition SignedFrameDelta :: "u32 \<Rightarrow> u32 \<Rightarrow> int" where
  "SignedFrameDelta lhs rhs = sint (lhs - rhs)"

text \<open>
  \<^verbatim>\<open>advantageDifference\<close> is a signed 32-bit difference and the quotient truncates towards zero. Where
  the difference leaves the 32 bits, which C++ does not define, the model takes its exact value; the lead
  is then far outside what \<open>AcceptLead\<close> admits, as it also is for a difference that wraps.
\<close>

definition InferLead :: "u32 \<Rightarrow> u32 \<Rightarrow> u16 \<Rightarrow> int" where
  "InferLead localFrame senderFrame senderFrameAdvantage =
     (let localAdvantage = SignedFrameDelta localFrame senderFrame;
          advantageDifference = localAdvantage - sint senderFrameAdvantage
      in sgn advantageDifference * (\<bar>advantageDifference\<bar> div 2))"

definition AcceptLead :: "int \<Rightarrow> bool" where
  "AcceptLead inferredLead \<longleftrightarrow>
     inferredLead \<ge> - MaxAbsoluteLeadFrames \<and> inferredLead \<le> MaxAbsoluteLeadFrames"

definition UpdateScale :: "f64 \<Rightarrow> f64 \<Rightarrow> f64" where
  "UpdateScale currentScale recommendedLead =
     (let deadbandLead = (if \<bar>recommendedLead\<bar> < DeadbandFrames then 0 else recommendedLead);
          desiredScale = f64_clamp (f64_add 1 (f64_mul deadbandLead ScalePerLeadFrame)) MinScale MaxScale;
          currentScale = f64_add currentScale (f64_mul (f64_sub desiredScale currentScale) SmoothingFactor)
      in if \<bar>f64_sub currentScale 1\<bar> < UnitySnapThreshold then 1 else currentScale)"

section \<open>SessionPacing\<close>

record SessionPacing =
  pc_peers :: "u8 \<Rightarrow> FrameAdvantageWindow"
  pc_lastFrame :: "u8 \<Rightarrow> u32"
  pc_seen :: "u8 \<Rightarrow> bool"
  pc_scale :: f64
  pc_lead :: f64

definition SessionPacing_default :: SessionPacing where
  "SessionPacing_default = \<lparr>pc_peers = (\<lambda>_. FrameAdvantageWindow_default), pc_lastFrame = (\<lambda>_. 0),
     pc_seen = (\<lambda>_. False), pc_scale = 1, pc_lead = 0\<rparr>"

fun largest_lead :: "FrameAdvantageWindow list \<Rightarrow> bool \<Rightarrow> f64 \<Rightarrow> f64" where
  "largest_lead [] have_lead recommendation = recommendation"
| "largest_lead (window # windows) have_lead recommendation =
     (if fw_ready window
      then largest_lead windows True
        (if \<not> have_lead \<or> fw_averageLead window > recommendation then fw_averageLead window else recommendation)
      else largest_lead windows have_lead recommendation)"

definition Pacing_Observe :: "SessionPacing \<Rightarrow> u32 \<Rightarrow> InputPacket \<Rightarrow> SessionPacing" where
  "Pacing_Observe p localFrame packet =
     (let peer = ip_senderPlayer packet in
      if peer \<ge> MAX_PLAYERS \<or> ip_senderFrame packet = INVALID_FRAME then p
      else if pc_seen p peer \<and> ip_senderFrame packet \<le> pc_lastFrame p peer then p
      else
        let p = p\<lparr>pc_seen := (pc_seen p)(peer := True),
                  pc_lastFrame := (pc_lastFrame p)(peer := ip_senderFrame packet)\<rparr>;
            lead = InferLead localFrame (ip_senderFrame packet) (ip_frameAdvantage packet)
        in if \<not> AcceptLead lead then p
           else
             let (full, window) = AddSample (pc_peers p peer) (word_of_int lead);
                 p = p\<lparr>pc_peers := (pc_peers p)(peer := window)\<rparr>
             in if \<not> full then p
                else let recommendation = largest_lead (map (pc_peers p) (seats MAX_PLAYERS)) False 0
                  in p\<lparr>pc_lead := recommendation, pc_scale := UpdateScale (pc_scale p) recommendation\<rparr>)"

section \<open>ConfirmedInputWatchdog\<close>

definition DefaultTimeoutMs :: u64 where "DefaultTimeoutMs = 15000"

record ConfirmedInputWatchdog =
  wd_armed :: bool
  wd_lastConfirmedFrame :: u32
  wd_lastAdvanceMs :: u64

definition Watchdog_default :: ConfirmedInputWatchdog where
  "Watchdog_default = \<lparr>wd_armed = False, wd_lastConfirmedFrame = 0, wd_lastAdvanceMs = 0\<rparr>"

definition Watchdog_Disarm :: "ConfirmedInputWatchdog \<Rightarrow> ConfirmedInputWatchdog" where
  "Watchdog_Disarm w = w\<lparr>wd_armed := False\<rparr>"

definition Watchdog_Observe ::
    "ConfirmedInputWatchdog \<Rightarrow> u32 \<Rightarrow> u64 \<Rightarrow> u64 \<Rightarrow> bool \<times> ConfirmedInputWatchdog" where
  "Watchdog_Observe w confirmedFrame nowMs timeoutMs =
     (if \<not> wd_armed w
      then (False, w\<lparr>wd_armed := True, wd_lastConfirmedFrame := confirmedFrame, wd_lastAdvanceMs := nowMs\<rparr>)
      else if confirmedFrame \<noteq> wd_lastConfirmedFrame w
      then (False, w\<lparr>wd_lastConfirmedFrame := confirmedFrame, wd_lastAdvanceMs := nowMs\<rparr>)
      else (nowMs - wd_lastAdvanceMs w \<ge> timeoutMs, w))"

end
