(* ===== verification/Adonis.thy ===== *)
theory Adonis
  imports Protocol Binary
begin

text \<open>
  The phase statistics of a session with input delay: \<^verbatim>\<open>AdonisTiming.hpp\<close>. The startup recommendation,
  the sample packet and its codec, and \<^verbatim>\<open>AdonisPhase\<close>, which compares the arrival of remote inputs with
  the time they were first due and asks for at most eight milliseconds of delay a second.

  \<^verbatim>\<open>due_\<close> and \<^verbatim>\<open>arrivals_\<close> are rings of \<open>History\<close> stamps and the sample tables rings of \<open>Windows\<close> entries,
  as functions of the ring index.
\<close>

section \<open>Modes and the startup recommendation\<close>

definition AdonisMode_Rollback :: u8 where "AdonisMode_Rollback = 0"
definition AdonisMode_Delay :: u8 where "AdonisMode_Delay = 1"
definition AdonisMode_Hybrid :: u8 where "AdonisMode_Hybrid = 2"

definition ValidAdonisMode :: "u8 \<Rightarrow> bool" where
  "ValidAdonisMode mode \<longleftrightarrow> mode \<le> AdonisMode_Hybrid"

definition AdonisGameplayAbi :: "u32 \<Rightarrow> u8 \<Rightarrow> u32 \<Rightarrow> u32" where
  "AdonisGameplayAbi base mode delay =
     (if mode = AdonisMode_Rollback then base
      else base XOR (0x41440000 OR push_bit 8 (ucast mode) OR push_bit 4 delay))"

text \<open>A sample of the round trip time is \<open>None\<close> where it is not finite.\<close>

definition RecommendAdonisDelay :: "f64 option list \<Rightarrow> u32" where
  "RecommendAdonisDelay rttMs =
     (let samples = filter (\<lambda>n. n > 0) (List.map_filter (\<lambda>n. n) rttMs) in
      if samples = [] then 1
      else
        let samples = sort samples;
            rank = (length samples - 1) * 95 div 100;
            tail = samples ! rank;
            tail = (if length samples mod 2 = 0 \<and> rank + 1 < length samples
              then f64_div (f64_add tail (samples ! (rank + 1))) 2 else tail)
        in word_of_int \<lfloor>f64_clamp (of_int \<lceil>f64_div (f64_mul tail 60) 2000\<rceil>) 1 9\<rfloor>)"

section \<open>Samples\<close>

record AdonisPhaseSample =
  as_sessionId :: u64
  as_frame :: u32
  as_senderPlayer :: u8
  as_targetPlayer :: u8
  as_waitCount :: u8
  as_leadCount :: u8
  as_waitUs :: u32
  as_leadUs :: u32

definition AdonisPhaseSample_default :: AdonisPhaseSample where
  "AdonisPhaseSample_default = \<lparr>as_sessionId = 0, as_frame = 0, as_senderPlayer = 0,
     as_targetPlayer = 0, as_waitCount = 0, as_leadCount = 0, as_waitUs = 0, as_leadUs = 0\<rparr>"

definition ValidAdonisPhaseSample :: "AdonisPhaseSample \<Rightarrow> bool" where
  "ValidAdonisPhaseSample s \<longleftrightarrow>
     as_sessionId s \<noteq> 0 \<and> as_frame s \<noteq> 0 \<and> as_frame s \<noteq> INVALID_FRAME \<and> as_frame s mod 16 = 0 \<and>
     as_senderPlayer s < MAX_PLAYERS \<and> as_targetPlayer s < MAX_PLAYERS \<and>
     as_senderPlayer s \<noteq> as_targetPlayer s \<and>
     (ucast (as_waitCount s) :: u32) + ucast (as_leadCount s) = 16 \<and>
     as_waitUs s \<le> ucast (as_waitCount s) * 250000 \<and>
     as_leadUs s \<le> ucast (as_leadCount s) * 250000"

definition EncodeAdonisPhaseSample :: "AdonisPhaseSample \<Rightarrow> bytes \<Rightarrow> bool \<times> bytes" where
  "EncodeAdonisPhaseSample s out =
     (if \<not> ValidAdonisPhaseSample s then (False, out)
      else (True, [65, 68, 80, 1] @ le_bytes 8 (as_sessionId s) @ le_bytes 4 (as_frame s) @
        [as_senderPlayer s, as_targetPlayer s, as_waitCount s, as_leadCount s] @
        le_bytes 4 (as_waitUs s) @ le_bytes 4 (as_leadUs s)))"

definition DecodeAdonisPhaseSample :: "bytes \<Rightarrow> AdonisPhaseSample option" where
  "DecodeAdonisPhaseSample b =
     (if length b \<noteq> 28 \<or> take 4 b \<noteq> [65, 68, 80, 1] then None
      else
        let get = (\<lambda>first count. le_word (take count (drop first b)) :: u64);
            s = \<lparr>as_sessionId = get 4 8, as_frame = ucast (get 12 4), as_senderPlayer = b ! 16,
                 as_targetPlayer = b ! 17, as_waitCount = b ! 18, as_leadCount = b ! 19,
                 as_waitUs = ucast (get 20 4), as_leadUs = ucast (get 24 4)\<rparr>
        in if ValidAdonisPhaseSample s then Some s else None)"

section \<open>AdonisPhase\<close>

definition History :: nat where "History = 256"
definition Windows :: nat where "Windows = 8"

record Stamp =
  st_frame :: u32
  st_us :: u64

definition Stamp_default :: Stamp where
  "Stamp_default = \<lparr>st_frame = INVALID_FRAME, st_us = 0\<rparr>"

record AdonisPhase =
  ap_id :: u64
  ap_totalDelayUs :: u64
  ap_local :: u8
  ap_count :: u8
  ap_lastDue :: u32
  ap_lastAdjustment :: u32
  ap_pendingUs :: u32
  ap_adjustments :: u32
  ap_predictionAllowanceUs :: u32
  ap_due :: "nat \<Rightarrow> Stamp"
  ap_arrivals :: "u8 \<Rightarrow> nat \<Rightarrow> Stamp"
  ap_nextWindow :: "u8 \<Rightarrow> u32"
  ap_localSamples :: "u8 \<Rightarrow> nat \<Rightarrow> AdonisPhaseSample"
  ap_remoteSamples :: "u8 \<Rightarrow> nat \<Rightarrow> AdonisPhaseSample"

definition AdonisPhase_default :: AdonisPhase where
  "AdonisPhase_default = \<lparr>ap_id = 0, ap_totalDelayUs = 0, ap_local = 0, ap_count = 0,
     ap_lastDue = INVALID_FRAME, ap_lastAdjustment = INVALID_FRAME, ap_pendingUs = 0,
     ap_adjustments = 0, ap_predictionAllowanceUs = 0, ap_due = (\<lambda>_. Stamp_default),
     ap_arrivals = (\<lambda>_ _. Stamp_default), ap_nextWindow = (\<lambda>_. 0),
     ap_localSamples = (\<lambda>_ _. AdonisPhaseSample_default),
     ap_remoteSamples = (\<lambda>_ _. AdonisPhaseSample_default)\<rparr>"

text \<open>The ring indices \<^verbatim>\<open>frame % History\<close> and \<^verbatim>\<open>(frame / 16) % Windows\<close>.\<close>

definition stamp_index :: "u32 \<Rightarrow> nat" where
  "stamp_index frame = unat frame mod History"

definition window_index :: "u32 \<Rightarrow> nat" where
  "window_index frame = unat (frame div 16) mod Windows"

definition Adonis_Reset :: "u64 \<Rightarrow> u8 \<Rightarrow> u8 \<Rightarrow> u32 \<Rightarrow> bool \<times> AdonisPhase" where
  "Adonis_Reset session local count predictionFrames =
     (let a = AdonisPhase_default in
      if session = 0 \<or> count < 2 \<or> count > MAX_PLAYERS \<or> local \<ge> count \<or> predictionFrames > 2 then (False, a)
      else (True, a\<lparr>ap_id := session, ap_local := local, ap_count := count,
        ap_predictionAllowanceUs := (predictionFrames * 1000000 + 59) div 60,
        ap_nextWindow := (\<lambda>_. 16)\<rparr>))"

definition ObserveArrival :: "AdonisPhase \<Rightarrow> u8 \<Rightarrow> u32 \<Rightarrow> u64 \<Rightarrow> AdonisPhase" where
  "ObserveArrival a peer frame nowUs =
     (if ap_id a = 0 \<or> peer \<ge> ap_count a \<or> peer = ap_local a \<or> frame = INVALID_FRAME then a
      else
        let next = (if ap_lastDue a = INVALID_FRAME then 0 else unat (ap_lastDue a) + 1) in
        if unat frame + History \<le> next \<or> unat frame \<ge> next + History then a
        else if st_frame (ap_arrivals a peer (stamp_index frame)) \<noteq> frame
        then a\<lparr>ap_arrivals := (ap_arrivals a)(peer := (ap_arrivals a peer)
               (stamp_index frame := \<lparr>st_frame = frame, st_us = nowUs\<rparr>))\<rparr>
        else a)"

definition ObserveDue :: "AdonisPhase \<Rightarrow> u32 \<Rightarrow> u64 \<Rightarrow> AdonisPhase" where
  "ObserveDue a frame nowUs =
     (if ap_id a = 0 \<or> frame = INVALID_FRAME \<or> (ap_lastDue a \<noteq> INVALID_FRAME \<and> frame \<le> ap_lastDue a) then a
      else a\<lparr>ap_due := (ap_due a)(stamp_index frame := \<lparr>st_frame = frame, st_us = nowUs\<rparr>),
             ap_lastDue := frame\<rparr>)"

definition adjustment_shift :: "AdonisPhase \<Rightarrow> AdonisPhaseSample \<Rightarrow> AdonisPhaseSample \<Rightarrow> u32" where
  "adjustment_shift a local remote =
     min 8000
       (if as_waitCount local \<noteq> 0 then
          let wait = as_waitUs local div ucast (as_waitCount local) in
          if wait > ap_predictionAllowanceUs a then wait - ap_predictionAllowanceUs a else 0
        else if as_sessionId remote = ap_id a \<and> as_frame remote = as_frame local \<and>
            as_waitCount remote = 0 \<and> as_leadCount local \<noteq> 0 \<and> as_leadCount remote \<noteq> 0 then
          let here = as_leadUs local div ucast (as_leadCount local);
              there = as_leadUs remote div ucast (as_leadCount remote)
          in if there > here \<and> there - here > 4000 then (there - here) div 2 else 0
        else 0)"

definition TryAdjust :: "AdonisPhase \<Rightarrow> AdonisPhaseSample \<Rightarrow> AdonisPhaseSample \<Rightarrow> AdonisPhase" where
  "TryAdjust a local remote =
     (if ap_lastDue a = INVALID_FRAME \<or> as_sessionId local \<noteq> ap_id a \<or> as_frame local = 0 then a
      else
        let now = ap_lastDue a + 1 in
        if now < 60 \<or> as_frame local > now \<or> now - as_frame local > 32 \<or>
           (ap_lastAdjustment a \<noteq> INVALID_FRAME \<and> now - ap_lastAdjustment a < 60) then a
        else
          let shift = adjustment_shift a local remote in
          if shift = 0 then a
          else a\<lparr>ap_pendingUs := max (ap_pendingUs a) shift, ap_lastAdjustment := now,
                 ap_adjustments := ap_adjustments a + 1,
                 ap_totalDelayUs := ap_totalDelayUs a + ucast shift\<rparr>)"

text \<open>The frames \<^verbatim>\<open>end - 16 <= f < end\<close> of a window, and the loop that accumulates its sample.\<close>

definition window_frames :: "u32 \<Rightarrow> u32 list" where
  "window_frames last_end =
     (if last_end - 16 < last_end then map (\<lambda>i. last_end - 16 + word_of_nat i) [0..<16] else [])"

fun window_sample :: "AdonisPhase \<Rightarrow> u8 \<Rightarrow> u32 list \<Rightarrow> AdonisPhaseSample \<Rightarrow> AdonisPhaseSample option" where
  "window_sample a peer [] s = Some s"
| "window_sample a peer (f # fs) s =
     (let d = ap_due a (stamp_index f); r = ap_arrivals a peer (stamp_index f) in
      if st_frame d \<noteq> f \<or> st_frame r \<noteq> f then None
      else window_sample a peer fs
        (if st_us r > st_us d
         then s\<lparr>as_waitCount := as_waitCount s + 1,
                as_waitUs := as_waitUs s + ucast (min (st_us r - st_us d) 250000)\<rparr>
         else s\<lparr>as_leadCount := as_leadCount s + 1,
                as_leadUs := as_leadUs s + ucast (min (st_us d - st_us r) 250000)\<rparr>))"

fun poll_peers :: "AdonisPhase \<Rightarrow> u8 list \<Rightarrow> AdonisPhaseSample option \<times> AdonisPhase" where
  "poll_peers a [] = (None, a)"
| "poll_peers a (peer # peers) =
     (if peer = ap_local a then poll_peers a peers
      else
        let window = ap_nextWindow a peer;
            window = (if unat window + History \<le> unat (ap_lastDue a) + 1
              then (ap_lastDue a + 1) div 16 * 16 else window);
            a = a\<lparr>ap_nextWindow := (ap_nextWindow a)(peer := window)\<rparr>
        in if window > ap_lastDue a + 1 then poll_peers a peers
           else
             case window_sample a peer (window_frames window)
                 (AdonisPhaseSample_default\<lparr>as_sessionId := ap_id a, as_frame := window,
                    as_senderPlayer := ap_local a, as_targetPlayer := peer\<rparr>) of
               None \<Rightarrow> poll_peers a peers
             | Some s \<Rightarrow>
                 let a = a\<lparr>ap_nextWindow := (ap_nextWindow a)(peer := window + 16),
                           ap_localSamples := (ap_localSamples a)
                             (peer := (ap_localSamples a peer)(window_index (as_frame s) := s))\<rparr>
                 in (Some s, TryAdjust a s (ap_remoteSamples a peer (window_index (as_frame s)))))"

definition PollLocalSample :: "AdonisPhase \<Rightarrow> AdonisPhaseSample option \<times> AdonisPhase" where
  "PollLocalSample a =
     (if ap_lastDue a = INVALID_FRAME then (None, a) else poll_peers a (seats (ap_count a)))"

definition ReceiveSample :: "AdonisPhase \<Rightarrow> AdonisPhaseSample \<Rightarrow> bool \<times> AdonisPhase" where
  "ReceiveSample a s =
     (if \<not> ValidAdonisPhaseSample s \<or> as_sessionId s \<noteq> ap_id a \<or> as_senderPlayer s \<ge> ap_count a \<or>
         as_senderPlayer s = ap_local a \<or> as_targetPlayer s \<noteq> ap_local a
      then (False, a)
      else
        let now = (if ap_lastDue a = INVALID_FRAME then 0 else ap_lastDue a + 1) in
        if unat (as_frame s) + 32 < unat now \<or> unat (as_frame s) > unat now + 32 then (True, a)
        else if as_frame (ap_remoteSamples a (as_senderPlayer s) (window_index (as_frame s))) = as_frame s
        then (True, a)
        else
          let a = a\<lparr>ap_remoteSamples := (ap_remoteSamples a)(as_senderPlayer s :=
                (ap_remoteSamples a (as_senderPlayer s))(window_index (as_frame s) := s))\<rparr>
          in (True, TryAdjust a (ap_localSamples a (as_senderPlayer s) (window_index (as_frame s))) s))"

definition TakeDelayMs :: "AdonisPhase \<Rightarrow> f64 \<times> AdonisPhase" where
  "TakeDelayMs a = (f64_div (f64_round (of_nat (unat (ap_pendingUs a)))) 1000, a\<lparr>ap_pendingUs := 0\<rparr>)"

end
