(* ===== verification/PacingProps.thy ===== *)
theory PacingProps
  imports Pacing Adonis Wire
begin

text \<open>
  What the wall-clock policies guarantee: the pacing advice stays inside its configured band whatever
  the packets say, and the phase policy hands out delays of at most eight milliseconds, at most one for
  sixty frames.
\<close>

section \<open>Smoothing\<close>

definition scale_ok :: "f64 \<Rightarrow> bool" where
  "scale_ok s \<longleftrightarrow> MinScale \<le> s \<and> s \<le> MaxScale \<and> f64_round s = s"

lemma smoothing_small: "SmoothingFactor \<le> 16 / 100" "0 \<le> SmoothingFactor"
  using f64_round_twice [of "8 / 100"] f64_round_nonneg [of "8 / 100"] by (simp_all add: SmoothingFactor_def)

lemma smoothing_step:
  assumes "0 \<le> d"
  shows "0 \<le> f64_mul (f64_round d) SmoothingFactor" "f64_mul (f64_round d) SmoothingFactor \<le> d"
proof -
  have r: "0 \<le> f64_round d" "f64_round d \<le> 2 * d"
    using assms by (rule f64_round_nonneg, rule f64_round_twice)
  then have p: "0 \<le> f64_round d * SmoothingFactor" using smoothing_small by simp
  then show "0 \<le> f64_mul (f64_round d) SmoothingFactor"
    unfolding f64_mul_def by (rule f64_round_nonneg)
  have "f64_mul (f64_round d) SmoothingFactor \<le> 2 * (f64_round d * SmoothingFactor)"
    unfolding f64_mul_def using p by (rule f64_round_twice)
  also have "\<dots> \<le> 2 * (2 * d * (16 / 100))"
    using r smoothing_small by (intro mult_left_mono mult_mono) simp_all
  also have "\<dots> \<le> d" using assms by simp
  finally show "f64_mul (f64_round d) SmoothingFactor \<le> d" .
qed

text \<open>Smoothing moves a representable value towards its target, never past it.\<close>

lemma smoothing_between:
  assumes "f64_round c = c" "f64_round d = d"
  shows "min c d \<le> f64_add c (f64_mul (f64_sub d c) SmoothingFactor)"
    "f64_add c (f64_mul (f64_sub d c) SmoothingFactor) \<le> max c d"
proof -
  let ?r = "f64_mul (f64_sub d c) SmoothingFactor"
  have sum: "min c d \<le> c + ?r \<and> c + ?r \<le> max c d"
  proof (cases "c \<le> d")
    case True
    then show ?thesis using smoothing_step [of "d - c"] by (simp add: f64_sub_def)
  next
    case False
    have "?r = - f64_mul (f64_round (c - d)) SmoothingFactor"
      using f64_round_minus [of "c - d"] by (simp add: f64_sub_def f64_mul_def f64_round_minus)
    then show ?thesis using False smoothing_step [of "c - d"] by simp
  qed
  have ends: "f64_round (min c d) = min c d" "f64_round (max c d) = max c d"
    using assms by (simp_all add: min_def max_def)
  show "min c d \<le> f64_add c ?r"
    unfolding f64_add_def using f64_round_mono [of "min c d" "c + ?r"] sum ends by simp
  show "f64_add c ?r \<le> max c d"
    unfolding f64_add_def using f64_round_mono [of "c + ?r" "max c d"] sum ends by simp
qed

lemma scale_band: "MinScale \<le> 1" "1 \<le> MaxScale" "f64_round MinScale = MinScale" "f64_round MaxScale = MaxScale"
  using f64_round_mono [of "98 / 100" 1] f64_round_mono [of 1 "102 / 100"]
  by (simp_all add: MinScale_def MaxScale_def)

lemma UpdateScale_ok: "scale_ok s \<Longrightarrow> scale_ok (UpdateScale s lead)"
proof -
  assume s: "scale_ok s"
  define d where "d = f64_clamp (f64_add 1 (f64_mul (if \<bar>lead\<bar> < DeadbandFrames then 0 else lead) ScalePerLeadFrame))
    MinScale MaxScale"
  have d: "MinScale \<le> d" "d \<le> MaxScale" "f64_round d = d"
    using scale_band by (auto simp: d_def f64_clamp_def f64_add_def)
  let ?n = "f64_add s (f64_mul (f64_sub d s) SmoothingFactor)"
  have n: "scale_ok ?n"
    using smoothing_between [of s d] s d by (auto simp: scale_ok_def f64_add_def)
  have "UpdateScale s lead = (if \<bar>f64_sub ?n 1\<bar> < UnitySnapThreshold then 1 else ?n)"
    by (simp add: UpdateScale_def d_def Let_def)
  then show ?thesis using n scale_band by (simp add: scale_ok_def)
qed

section \<open>The lead window\<close>

definition window_ok :: "FrameAdvantageWindow \<Rightarrow> bool" where
  "window_ok w \<longleftrightarrow> length (fw_samples w) = WINDOW_SIZE \<and> fw_count w \<le> WINDOW_SIZE \<and>
     fw_cursor w < WINDOW_SIZE \<and> (\<forall>x \<in> set (fw_samples w). AcceptLead (sint x)) \<and>
     \<bar>fw_averageLead w\<bar> \<le> 30"

lemma sum_list_bounded:
  fixes xs :: "int list"
  assumes "\<forall>x \<in> set xs. \<bar>x\<bar> \<le> b"
  shows "\<bar>sum_list xs\<bar> \<le> b * int (length xs)"
  using assms by (induction xs) (auto simp: algebra_simps)

lemma average_bounded:
  fixes xs :: "int list"
  assumes "\<forall>x \<in> set xs. \<bar>x\<bar> \<le> 30" "xs \<noteq> []" "length xs \<le> 64"
  shows "\<bar>f64_div (f64_round (of_int (sum_list xs))) (f64_round (of_nat (length xs)))\<bar> \<le> 30"
proof -
  let ?n = "of_nat (length xs) :: rat"
  have s: "\<bar>sum_list xs\<bar> \<le> 30 * int (length xs)" using assms(1) by (rule sum_list_bounded)
  have "\<bar>sum_list xs\<bar> \<le> 2 ^ 53" using s assms(3) by simp
  then have 1: "f64_round (of_int (sum_list xs)) = of_int (sum_list xs)" by (rule f64_round_int)
  have "f64_round (of_int (int (length xs))) = of_int (int (length xs))"
    by (rule f64_round_int) (use assms(3) in simp)
  then have 2: "f64_round ?n = ?n" by simp
  have n: "0 < ?n" using assms(2) by simp
  have 3: "f64_round (of_int 30) = of_int 30" "f64_round (of_int (- 30)) = of_int (- 30)"
    by (rule f64_round_int, simp)+
  have "(of_int (sum_list xs) :: rat) \<le> of_int (30 * int (length xs))"
    "(of_int (- (30 * int (length xs))) :: rat) \<le> of_int (sum_list xs)"
    unfolding of_int_le_iff using s by linarith+
  then have "of_int (sum_list xs) \<le> 30 * ?n" "- (30 * ?n) \<le> of_int (sum_list xs)" by simp_all
  then have "of_int (sum_list xs) / ?n \<le> 30" "- 30 \<le> of_int (sum_list xs) / ?n"
    using n by (simp_all add: field_simps)
  then show ?thesis
    using f64_round_mono [of "of_int (sum_list xs) / ?n" 30]
      f64_round_mono [of "- 30" "of_int (sum_list xs) / ?n"] 3
    by (simp add: f64_div_def 1 2 abs_le_iff)
qed

lemma set_trimmed: "x \<in> set (trimmed trim xs) \<Longrightarrow> x \<in> set xs"
  by (auto simp: trimmed_def dest: in_set_takeD in_set_dropD)

lemma length_trimmed: "length (trimmed trim xs) = length xs - trim * 2"
  by (simp add: trimmed_def)

lemma window_ok_update:
  assumes "window_ok w" "length xs = WINDOW_SIZE" "\<forall>x \<in> set xs. AcceptLead (sint x)"
    "n \<le> WINDOW_SIZE" "c < WINDOW_SIZE"
  shows "window_ok (w\<lparr>fw_samples := xs, fw_cursor := c, fw_count := n\<rparr>)"
    "\<bar>v\<bar> \<le> 30 \<Longrightarrow> window_ok (w\<lparr>fw_samples := xs, fw_cursor := c, fw_count := n, fw_ready := True, fw_averageLead := v\<rparr>)"
  using assms by (simp_all add: window_ok_def)

lemma trimmed_average:
  assumes "length xs = n" "20 \<le> n" "n \<le> 64" "\<forall>x \<in> set xs. \<bar>x\<bar> \<le> 30" "trim \<le> 4"
  shows "\<bar>f64_div (f64_round (of_int (sum_list (trimmed trim xs)))) (f64_round (of_nat (n - trim * 2)))\<bar> \<le> 30"
proof -
  have len: "length (trimmed trim xs) = n - trim * 2" using assms(1) by (simp add: length_trimmed)
  have "length (trimmed trim xs) \<le> 64" "0 < length (trimmed trim xs)" using len assms(2,3,5) by linarith+
  moreover have "\<forall>x \<in> set (trimmed trim xs). \<bar>x\<bar> \<le> 30" using assms(4) set_trimmed by blast
  ultimately show ?thesis unfolding len [symmetric] by (intro average_bounded) auto
qed

lemma AddSample_ok:
  assumes "window_ok w" "AcceptLead (sint lead)"
  shows "window_ok (snd (AddSample w lead))"
proof -
  define samples where "samples = (fw_samples w)[fw_cursor w := lead]"
  define n where "n = min (fw_count w + 1) WINDOW_SIZE"
  define c where "c = (fw_cursor w + 1) mod WINDOW_SIZE"
  define trim where "trim = min 4 (n div 8)"
  define xs where "xs = sort (map sint (take n samples))"
  define v where "v = f64_div (f64_round (of_int (sum_list (trimmed trim xs)))) (f64_round (of_nat (n - trim * 2)))"
  have eq: "snd (AddSample w lead) =
      (if n < 20 then w\<lparr>fw_samples := samples, fw_cursor := c, fw_count := n\<rparr>
       else w\<lparr>fw_samples := samples, fw_cursor := c, fw_count := n, fw_ready := True, fw_averageLead := v\<rparr>)"
    by (simp add: AddSample_def Let_def samples_def n_def c_def trim_def xs_def v_def)
  have len: "length samples = WINDOW_SIZE" using assms(1) by (simp add: samples_def window_ok_def)
  have acc: "\<forall>x \<in> set samples. AcceptLead (sint x)"
    using assms set_update_subset_insert [of "fw_samples w" "fw_cursor w" lead]
    by (auto simp: samples_def window_ok_def)
  have n: "n \<le> WINDOW_SIZE" by (simp add: n_def)
  have c: "c < WINDOW_SIZE" by (simp add: c_def WINDOW_SIZE_def)
  have "length xs = n" using len n by (simp add: xs_def)
  moreover have "\<forall>x \<in> set xs. \<bar>x\<bar> \<le> 30"
    using acc by (auto simp: xs_def AcceptLead_def MaxAbsoluteLeadFrames_def abs_le_iff minus_le_iff dest!: in_set_takeD)
  ultimately have v: "\<bar>v\<bar> \<le> 30" if "20 \<le> n"
    unfolding v_def using that n by (intro trimmed_average) (simp_all add: WINDOW_SIZE_def trim_def)
  show ?thesis
    using window_ok_update [OF assms(1) len acc n c] v by (simp add: eq)
qed

section \<open>Session pacing\<close>

definition pacing_ok :: "SessionPacing \<Rightarrow> bool" where
  "pacing_ok p \<longleftrightarrow> scale_ok (pc_scale p) \<and> \<bar>pc_lead p\<bar> \<le> 30 \<and> (\<forall>peer. window_ok (pc_peers p peer))"

lemma pacing_default_ok: "pacing_ok SessionPacing_default"
  using scale_band
  by (simp add: pacing_ok_def SessionPacing_default_def scale_ok_def window_ok_def
      FrameAdvantageWindow_default_def WINDOW_SIZE_def AcceptLead_def MaxAbsoluteLeadFrames_def)

lemma largest_lead_bounded:
  "\<forall>w \<in> set ws. \<bar>fw_averageLead w\<bar> \<le> b \<Longrightarrow> \<bar>r\<bar> \<le> b \<Longrightarrow> \<bar>largest_lead ws have_lead r\<bar> \<le> b"
  by (induction ws have_lead r rule: largest_lead.induct) auto

lemma accepted_lead_stored: "AcceptLead lead \<Longrightarrow> sint (word_of_int lead :: u32) = lead"
  by (simp add: AcceptLead_def MaxAbsoluteLeadFrames_def sint_sbintrunc' signed_take_bit_int_eq_self)

lemma Pacing_Observe_ok:
  assumes p: "pacing_ok p"
  shows "pacing_ok (Pacing_Observe p localFrame packet)"
proof -
  let ?peer = "ip_senderPlayer packet"
  let ?lead = "InferLead localFrame (ip_senderFrame packet) (ip_frameAdvantage packet)"
  obtain full w where w: "AddSample (pc_peers p ?peer) (word_of_int ?lead) = (full, w)" by fastforce
  show ?thesis
  proof (cases "AcceptLead ?lead")
    case False
    then show ?thesis using p by (simp add: Pacing_Observe_def Let_def pacing_ok_def)
  next
    case True
    have "window_ok w"
      using AddSample_ok [of "pc_peers p ?peer" "word_of_int ?lead"] w p True
      by (simp add: accepted_lead_stored pacing_ok_def)
    then have peers: "window_ok (((pc_peers p)(?peer := w)) q)" for q
      using p by (simp add: pacing_ok_def)
    then have "\<bar>largest_lead (map ((pc_peers p)(?peer := w)) (seats MAX_PLAYERS)) False 0\<bar> \<le> 30"
      by (intro largest_lead_bounded) (auto simp: window_ok_def simp del: fun_upd_apply)
    with peers w p show ?thesis
      by (simp add: Pacing_Observe_def Let_def pacing_ok_def UpdateScale_ok)
  qed
qed

text \<open>
  C30: whatever packets the peers of a session send, in any order, the advice a session's pacing gives
  stays inside the configured band: the interval scale is a \<^verbatim>\<open>double\<close> between \<^verbatim>\<open>MinScale\<close> and
  \<^verbatim>\<open>MaxScale\<close>, and the lead it follows is at most 30 frames either way.
\<close>

theorem pacing_stays_in_band:
  fixes observations :: "(u32 \<times> InputPacket) list"
  defines "p \<equiv> foldl (\<lambda>p (localFrame, packet). Pacing_Observe p localFrame packet)
    SessionPacing_default observations"
  shows "MinScale \<le> pc_scale p \<and> pc_scale p \<le> MaxScale \<and> f64_round (pc_scale p) = pc_scale p \<and>
    \<bar>pc_lead p\<bar> \<le> 30"
proof -
  have "pacing_ok q \<Longrightarrow> pacing_ok (foldl (\<lambda>p (localFrame, packet). Pacing_Observe p localFrame packet) q observations)" for q
    by (induction observations arbitrary: q) (auto simp: Pacing_Observe_ok)
  then have "pacing_ok p" unfolding p_def using pacing_default_ok by blast
  then show ?thesis by (simp add: pacing_ok_def scale_ok_def)
qed

section \<open>Phase adjustments\<close>

text \<open>
  \<open>adonis_run a delays\<close>: \<open>a\<close> results from a successful reset and any sequence of the operations;
  \<open>delays\<close> holds the answers of \<^verbatim>\<open>TakeDelayMs\<close>, latest first.
\<close>

inductive adonis_run :: "AdonisPhase \<Rightarrow> f64 list \<Rightarrow> bool" where
  reset: "Adonis_Reset session local count predictionFrames = (True, a) \<Longrightarrow> adonis_run a []"
| arrival: "adonis_run a delays \<Longrightarrow> adonis_run (ObserveArrival a peer frame nowUs) delays"
| due: "adonis_run a delays \<Longrightarrow> adonis_run (ObserveDue a frame nowUs) delays"
| poll: "adonis_run a delays \<Longrightarrow> adonis_run (snd (PollLocalSample a)) delays"
| receive: "adonis_run a delays \<Longrightarrow> adonis_run (snd (ReceiveSample a s)) delays"
| take: "adonis_run a delays \<Longrightarrow> TakeDelayMs a = (delay, a') \<Longrightarrow> adonis_run a' (delay # delays)"

text \<open>
  The last adjustment is not in the future, and every adjustment is paid for by sixty frames. The frame
  \<open>INVALID_FRAME - 1\<close> is excluded: an adjustment there would be stamped with the marker of none.
\<close>

definition adjusted_until :: "AdonisPhase \<Rightarrow> nat" where
  "adjusted_until a = (if ap_lastAdjustment a = INVALID_FRAME then 0 else unat (ap_lastAdjustment a))"

definition phase_ok :: "nat \<Rightarrow> AdonisPhase \<Rightarrow> bool" where
  "phase_ok taken a \<longleftrightarrow> ap_pendingUs a \<le> 8000 \<and>
     (ap_lastDue a = INVALID_FRAME \<longrightarrow> ap_lastAdjustment a = INVALID_FRAME) \<and>
     (ap_lastDue a \<noteq> INVALID_FRAME - 1 \<longrightarrow>
       taken + (if ap_pendingUs a = 0 then 0 else 1) \<le> unat (ap_adjustments a) \<and>
       unat (ap_adjustments a) * 60 \<le> adjusted_until a \<and>
       (ap_lastDue a \<noteq> INVALID_FRAME \<longrightarrow> adjusted_until a \<le> unat (ap_lastDue a) + 1))"

lemma TryAdjust_ok:
  assumes ok: "phase_ok taken a"
  shows "phase_ok taken (TryAdjust a local remote)"
proof (cases "TryAdjust a local remote = a")
  case True
  then show ?thesis using ok by simp
next
  case False
  let ?now = "ap_lastDue a + 1" and ?shift = "adjustment_shift a local remote"
  have due: "ap_lastDue a \<noteq> INVALID_FRAME" and now: "60 \<le> ?now"
    and spaced: "ap_lastAdjustment a = INVALID_FRAME \<or> 60 \<le> ?now - ap_lastAdjustment a"
    and shift: "?shift \<noteq> 0"
    and eq: "TryAdjust a local remote = a\<lparr>ap_pendingUs := max (ap_pendingUs a) ?shift,
      ap_lastAdjustment := ?now, ap_adjustments := ap_adjustments a + 1,
      ap_totalDelayUs := ap_totalDelayUs a + ucast ?shift\<rparr>"
    using False by (auto simp: TryAdjust_def Let_def not_less split: if_splits)
  have small: "?shift \<le> 8000" by (simp add: adjustment_shift_def)
  have pending: "max (ap_pendingUs a) ?shift \<le> 8000" "max (ap_pendingUs a) ?shift \<noteq> 0"
    using small shift ok by (auto simp: phase_ok_def max_def)
  show ?thesis
  proof (cases "ap_lastDue a = INVALID_FRAME - 1")
    case True
    then show ?thesis using pending due by (simp add: eq phase_ok_def)
  next
    case nd: False
    have up: "unat ?now = unat (ap_lastDue a) + 1"
      using unat_add_nat [of "ap_lastDue a" 1] due by (simp add: frame_neq_INVALID)
    have valid: "?now \<noteq> INVALID_FRAME" using nd by (auto simp: eq_diff_eq)
    have old: "taken + (if ap_pendingUs a = 0 then 0 else 1) \<le> unat (ap_adjustments a)"
      "unat (ap_adjustments a) * 60 \<le> adjusted_until a" "adjusted_until a \<le> unat (ap_lastDue a) + 1"
      using ok nd due by (auto simp: phase_ok_def)
    have step: "adjusted_until a + 60 \<le> unat ?now"
    proof (cases "ap_lastAdjustment a = INVALID_FRAME")
      case True
      then show ?thesis using now by (simp add: adjusted_until_def word_le_nat_alt)
    next
      case False
      then have le: "ap_lastAdjustment a \<le> ?now" using old(3) up by (simp add: adjusted_until_def word_le_nat_alt)
      from False spaced have "60 \<le> unat (?now - ap_lastAdjustment a)" by (simp add: word_le_nat_alt)
      also have "\<dots> = unat ?now - unat (ap_lastAdjustment a)" using le by (rule unat_sub)
      finally show ?thesis using False by (simp add: adjusted_until_def)
    qed
    have "unat (ap_adjustments a) + 1 < 4294967296"
      using old(2) step unat_frame_less [of ?now] by linarith
    then have adj: "unat (ap_adjustments a + 1) = unat (ap_adjustments a) + 1"
      using unat_add_nat [of "ap_adjustments a" 1] by simp
    have "taken \<le> unat (ap_adjustments a)" using old(1) by simp
    moreover have "adjusted_until (TryAdjust a local remote) = unat ?now"
      using valid by (simp add: eq adjusted_until_def)
    ultimately show ?thesis
      using pending valid due nd adj old(2) step up by (simp add: eq phase_ok_def)
  qed
qed

lemma phase_ok_cong:
  "ap_pendingUs b = ap_pendingUs a \<Longrightarrow> ap_lastDue b = ap_lastDue a \<Longrightarrow>
   ap_lastAdjustment b = ap_lastAdjustment a \<Longrightarrow> ap_adjustments b = ap_adjustments a \<Longrightarrow>
   phase_ok taken b = phase_ok taken a"
  by (simp add: phase_ok_def adjusted_until_def)

text \<open>What the poll of a peer leaves of the adjustment state, before an adjustment is tried.\<close>

lemma poll_peers_ok: "phase_ok taken a \<Longrightarrow> phase_ok taken (snd (poll_peers a peers))"
proof (induction peers arbitrary: a)
  case Nil
  then show ?case by simp
next
  case (Cons peer peers)
  define window where "window = (if unat (ap_nextWindow a peer) + History \<le> unat (ap_lastDue a) + 1
    then (ap_lastDue a + 1) div 16 * 16 else ap_nextWindow a peer)"
  define b where "b = a\<lparr>ap_nextWindow := (ap_nextWindow a)(peer := window)\<rparr>"
  have b: "phase_ok taken b"
    using phase_ok_cong [of b a taken] Cons.prems by (simp add: b_def)
  define sample where "sample = window_sample b peer (window_frames window)
    (AdonisPhaseSample_default\<lparr>as_sessionId := ap_id b, as_frame := window,
       as_senderPlayer := ap_local b, as_targetPlayer := peer\<rparr>)"
  define stored where "stored s = b\<lparr>ap_nextWindow := (ap_nextWindow b)(peer := window + 16),
      ap_localSamples := (ap_localSamples b)
        (peer := (ap_localSamples b peer)(window_index (as_frame s) := s))\<rparr>" for s
  have "phase_ok taken (stored s)" for s
    using phase_ok_cong [of "stored s" b taken] b by (simp add: stored_def)
  note adjusted = TryAdjust_ok [OF this]
  have step: "poll_peers a (peer # peers) =
     (if peer = ap_local a then poll_peers a peers
      else if window > ap_lastDue b + 1 then poll_peers b peers
      else case sample of None \<Rightarrow> poll_peers b peers
        | Some s \<Rightarrow> (Some s, TryAdjust (stored s) s
            (ap_remoteSamples (stored s) peer (window_index (as_frame s)))))"
    by (simp only: poll_peers.simps Let_def b_def window_def sample_def stored_def
        AdonisPhase.simps AdonisPhase.update_convs if_cancel split: option.split)
  show ?case
    using Cons b adjusted by (simp add: step del: poll_peers.simps split: option.split)
qed

lemma phase_ok_ObserveDue:
  assumes "phase_ok taken a"
  shows "phase_ok taken (ObserveDue a frame nowUs)"
proof (cases "ObserveDue a frame nowUs = a")
  case False
  then have f: "frame \<noteq> INVALID_FRAME" "ap_lastDue a = INVALID_FRAME \<or> ap_lastDue a < frame"
    "ObserveDue a frame nowUs = a\<lparr>ap_due := (ap_due a)(stamp_index frame := \<lparr>st_frame = frame, st_us = nowUs\<rparr>),
       ap_lastDue := frame\<rparr>"
    by (auto simp: ObserveDue_def split: if_splits)
  show ?thesis
  proof (cases "frame = INVALID_FRAME - 1")
    case True
    have "phase_ok taken (a\<lparr>ap_due := d, ap_lastDue := frame\<rparr>)" for d
      using assms True by (simp add: phase_ok_def INVALID_FRAME_def)
    then show ?thesis unfolding f(3) .
  next
    case nf: False
    have below: "ap_lastDue a \<noteq> INVALID_FRAME - 1"
    proof
      assume "ap_lastDue a = INVALID_FRAME - 1"
      with f(2) have "4294967294 < unat frame" by (simp add: INVALID_FRAME_def word_less_nat_alt)
      with f(1) show False by (simp add: frame_neq_INVALID)
    qed
    have "unat (ap_lastDue a) \<le> unat frame \<or> ap_lastDue a = INVALID_FRAME"
      using f(2) by (auto simp: word_less_nat_alt)
    then show ?thesis using assms f(1) below
      by (auto simp: phase_ok_def f(3) adjusted_until_def)
  qed
qed (use assms in simp)


lemma TakeDelayMs_ok:
  assumes "phase_ok taken a"
  shows "phase_ok (taken + (if ap_pendingUs a = 0 then 0 else 1)) (snd (TakeDelayMs a))"
    "0 \<le> fst (TakeDelayMs a)" "fst (TakeDelayMs a) \<le> 8" "ap_pendingUs a = 0 \<Longrightarrow> fst (TakeDelayMs a) = 0"
proof -
  let ?n = "of_nat (unat (ap_pendingUs a)) :: rat"
  show "phase_ok (taken + (if ap_pendingUs a = 0 then 0 else 1)) (snd (TakeDelayMs a))"
    using assms by (auto simp: phase_ok_def TakeDelayMs_def adjusted_until_def)
  have le: "unat (ap_pendingUs a) \<le> 8000" using assms by (simp add: phase_ok_def word_le_nat_alt)
  then have "f64_round ?n = ?n" by (intro f64_round_nat) simp
  then have r: "fst (TakeDelayMs a) = f64_round (?n / 1000)" by (simp add: TakeDelayMs_def f64_div_def)
  show "0 \<le> fst (TakeDelayMs a)" unfolding r
    by (intro f64_round_nonneg divide_nonneg_nonneg of_nat_0_le_iff) simp
  have "?n \<le> 8000" using le of_nat_le_iff [of "unat (ap_pendingUs a)" 8000, where ?'a = rat] by simp
  then have "?n / 1000 \<le> of_int 8" by simp
  then have "f64_round (?n / 1000) \<le> f64_round (of_int 8)" by (rule f64_round_mono)
  also have "f64_round (of_int 8) = of_int 8" by (rule f64_round_int) simp
  finally show "fst (TakeDelayMs a) \<le> 8" unfolding r by simp
  show "ap_pendingUs a = 0 \<Longrightarrow> fst (TakeDelayMs a) = 0" unfolding r by simp
qed

definition taken :: "f64 list \<Rightarrow> nat" where
  "taken delays = length (filter (\<lambda>d. d \<noteq> 0) delays)"

lemma phase_ok_fewer: "phase_ok n a \<Longrightarrow> m \<le> n \<Longrightarrow> phase_ok m a"
  by (auto simp: phase_ok_def)

lemma adonis_run_ok: "adonis_run a delays \<Longrightarrow> phase_ok (taken delays) a \<and> (\<forall>d \<in> set delays. 0 \<le> d \<and> d \<le> 8)"
proof (induction rule: adonis_run.induct)
  case (reset session local count predictionFrames a)
  then show ?case
    by (auto simp: Adonis_Reset_def AdonisPhase_default_def phase_ok_def adjusted_until_def taken_def INVALID_FRAME_def
        Let_def split: if_splits)
next
  case (arrival a delays peer frame nowUs)
  then show ?case using phase_ok_cong [of "ObserveArrival a peer frame nowUs" a "taken delays"]
    by (simp add: ObserveArrival_def Let_def)
next
  case (due a delays frame nowUs)
  then show ?case using phase_ok_ObserveDue by blast
next
  case (poll a delays)
  then show ?case using poll_peers_ok by (simp add: PollLocalSample_def)
next
  case (receive a delays s)
  define b where "b = a\<lparr>ap_remoteSamples := (ap_remoteSamples a)(as_senderPlayer s :=
      (ap_remoteSamples a (as_senderPlayer s))(window_index (as_frame s) := s))\<rparr>"
  have "phase_ok (taken delays) b" using phase_ok_cong [of b a "taken delays"] receive by (simp add: b_def)
  moreover have "snd (ReceiveSample a s) = a \<or> snd (ReceiveSample a s) =
      TryAdjust b (ap_localSamples b (as_senderPlayer s) (window_index (as_frame s))) s"
    by (simp add: ReceiveSample_def b_def Let_def)
  ultimately show ?case using receive TryAdjust_ok by metis
next
  case (take a delays delay a')
  then have "phase_ok (taken delays) a" and t: "fst (TakeDelayMs a) = delay" "snd (TakeDelayMs a) = a'" by simp_all
  note ok = TakeDelayMs_ok [OF this(1), unfolded t]
  have "taken (delay # delays) \<le> taken delays + (if ap_pendingUs a = 0 then 0 else 1)"
    using ok(4) by (simp add: taken_def)
  with ok take phase_ok_fewer show ?case by auto
qed


section \<open>A run\<close>

text \<open>
  The frames 272 to 287 come due one millisecond after the reset, and the inputs of the peer for them
  arrive three milliseconds later; the window that ends at 288 asks for a delay of three milliseconds.
\<close>

definition demo_due :: "nat \<Rightarrow> AdonisPhase" where
  "demo_due k = foldl (\<lambda>a i. ObserveDue a (272 + word_of_nat i) 1000) (snd (Adonis_Reset 7 0 2 0)) [0..<k]"

definition demo_arrived :: "nat \<Rightarrow> AdonisPhase" where
  "demo_arrived k = foldl (\<lambda>a i. ObserveArrival a 1 (272 + word_of_nat i) 4000) (demo_due 16) [0..<k]"

definition demo_phase :: AdonisPhase where
  "demo_phase = snd (PollLocalSample (demo_arrived 16))"

lemma demo_phase_run: "adonis_run demo_phase []"
proof -
  have "Adonis_Reset 7 0 2 0 = (True, snd (Adonis_Reset 7 0 2 0))"
    by (simp add: Adonis_Reset_def MAX_PLAYERS_def)
  then have "adonis_run (snd (Adonis_Reset 7 0 2 0)) []" by (rule adonis_run.reset)
  then have due: "adonis_run (demo_due k) []" for k
    by (induction k) (simp_all add: demo_due_def adonis_run.due)
  have "adonis_run (demo_arrived k) []" for k
    using due by (induction k) (simp_all add: demo_arrived_def adonis_run.arrival)
  then show ?thesis unfolding demo_phase_def by (rule adonis_run.poll)
qed

lemma demo_phase_fields: "ap_pendingUs demo_phase = 3000 \<and> ap_lastDue demo_phase = 287"
  by code_simp

lemma demo_delay: "fst (TakeDelayMs demo_phase) = 3"
  using demo_phase_fields f64_round_nat [of 3000] f64_round_nat [of 3] by (simp add: TakeDelayMs_def f64_div_def)


end
