(* ===== verification/Transport.thy ===== *)
theory Transport
  imports Prelude
begin

text \<open>
  The transport interface, \<^verbatim>\<open>PeerTransport.hpp\<close>. \<^verbatim>\<open>PeerTransport\<close> is an abstract class; a record of its
  virtual methods over a state of type \<open>'t\<close> stands for it, and every operation that uses a transport
  takes such a record \<open>T\<close> and threads the state \<open>t\<close>. \<^verbatim>\<open>Poll\<close> returns the packet it wrote, if any.
\<close>

record 't PeerTransport =
  pt_IsOpen :: "'t \<Rightarrow> bool"
  pt_Failed :: "'t \<Rightarrow> bool"
  pt_Recovering :: "'t \<Rightarrow> bool"
  pt_Disconnected :: "'t \<Rightarrow> bool"
  pt_CalibrationSuspended :: "'t \<Rightarrow> bool"
  pt_SendTo :: "'t \<Rightarrow> u8 \<Rightarrow> bytes \<Rightarrow> bool \<times> 't"
  pt_SendRepairTo :: "'t \<Rightarrow> u8 \<Rightarrow> bytes \<Rightarrow> bool \<times> 't"
  pt_SendControl :: "'t \<Rightarrow> bytes \<Rightarrow> bool \<times> 't"
  pt_Poll :: "'t \<Rightarrow> bytes option \<times> 't"
  pt_BufferedAmount :: "'t \<Rightarrow> nat"

end
