(* ===== verification/Channel.thy ===== *)
theory Channel
  imports Session Core Pacing Adonis Transport
begin

text \<open>
  The protocol lifecycle of a session: \<^verbatim>\<open>SessionChannel.hpp\<close> and \<^verbatim>\<open>SessionChannel.cpp\<close>, over the
  transport interface of \<open>Transport\<close>. The scratch buffers \<^verbatim>\<open>incoming_\<close> and \<^verbatim>\<open>outgoing_\<close> are local
  values. Arrays indexed by a seat are functions of the seat. An operation returns its result with every
  object it may change.
\<close>

section \<open>Data\<close>

record SessionChannelConfig =
  cfg_connectTimeoutMs :: u64
  cfg_confirmedTimeoutMs :: u64
  cfg_controlResendMs :: u64
  cfg_inputResendMs :: u64
  cfg_repairIntervalMs :: u64
  cfg_bufferedLimit :: nat
  cfg_receiveBudget :: nat
  cfg_adonisPhase :: bool
  cfg_adonisPredictionFrames :: u32

definition SessionChannelConfig_default :: SessionChannelConfig where
  "SessionChannelConfig_default = \<lparr>cfg_connectTimeoutMs = 45000,
     cfg_confirmedTimeoutMs = DefaultTimeoutMs, cfg_controlResendMs = 200, cfg_inputResendMs = 32,
     cfg_repairIntervalMs = 250, cfg_bufferedLimit = 256 * 1024, cfg_receiveBudget = 256,
     cfg_adonisPhase = False, cfg_adonisPredictionFrames = 0\<rparr>"

datatype Failure =
  F_None | F_InvalidConfiguration | F_Transport | F_HandshakeTimeout | F_MalformedPacket
| F_ContractMismatch | F_InvalidPeer | F_InputConflict | F_ConfirmedTimeout | F_ClockReversed
| F_InvalidCapture | F_InvalidRetirement

record SessionChannel =
  ch_policy :: SessionChannelConfig
  ch_session :: SessionConfig
  ch_active :: bool
  ch_observedClock :: bool
  ch_helloSent :: bool
  ch_forceControl :: bool
  ch_forceInputs :: bool
  ch_deferredInput :: bool
  ch_failure :: Failure
  ch_lastClock :: u64
  ch_beginTime :: u64
  ch_nextControl :: u64
  ch_nextInput :: u64
  ch_nextRetirementFence :: u64
  ch_latestCapture :: u32
  ch_sentSequence :: "u8 \<Rightarrow> u32"
  ch_receivedSequence :: "u8 \<Rightarrow> u32"
  ch_peerFrame :: "u8 \<Rightarrow> u32"
  ch_repairFrontier :: "u8 \<Rightarrow> u32"
  ch_lastRepair :: "u8 \<Rightarrow> u64"
  ch_peerNeedsAck :: "u8 \<Rightarrow> bool"
  ch_watchdog :: "u8 \<Rightarrow> ConfirmedInputWatchdog"
  ch_pacing :: SessionPacing
  ch_adonis :: AdonisPhase
  ch_previousSession :: u64
  ch_nextRetiredSend :: u64
  ch_previousCount :: u8
  ch_previousLocal :: u8
  ch_previousNeeded :: "u8 \<Rightarrow> bool"
  ch_terminalAcks :: "u8 \<Rightarrow> bytes"
  ch_sent :: u32
  ch_received :: u32
  ch_ignored :: u32
  ch_repairs :: u32

section \<open>Lifecycle\<close>

definition MaxPacketBytes :: nat where "MaxPacketBytes = 1024"

definition atLeast_frame :: "u32 \<Rightarrow> u32 \<Rightarrow> bool" where
  "atLeast_frame v target \<longleftrightarrow> v \<noteq> INVALID_FRAME \<and> v \<ge> target"

definition newer :: "u32 \<Rightarrow> u32 \<Rightarrow> bool" where
  "newer v previous \<longleftrightarrow> sint (v - previous) > 0"

definition Channel_Clear :: "SessionChannel \<Rightarrow> SessionChannel" where
  "Channel_Clear ch = ch\<lparr>ch_pacing := SessionPacing_default, ch_adonis := AdonisPhase_default,
     ch_policy := SessionChannelConfig_default, ch_session := SessionConfig_default,
     ch_active := False, ch_observedClock := False, ch_helloSent := False, ch_forceControl := False,
     ch_forceInputs := False, ch_deferredInput := False, ch_failure := F_None, ch_lastClock := 0,
     ch_beginTime := 0, ch_nextControl := 0, ch_nextInput := 0, ch_nextRetirementFence := 0,
     ch_latestCapture := INVALID_FRAME, ch_sentSequence := (\<lambda>_. 0), ch_receivedSequence := (\<lambda>_. 0),
     ch_peerFrame := (\<lambda>_. INVALID_FRAME), ch_repairFrontier := (\<lambda>_. INVALID_FRAME),
     ch_lastRepair := (\<lambda>_. 0), ch_peerNeedsAck := (\<lambda>_. False),
     ch_watchdog := (\<lambda>p. Watchdog_Disarm (ch_watchdog ch p)), ch_previousSession := 0,
     ch_nextRetiredSend := 0, ch_previousCount := 0, ch_previousLocal := 0,
     ch_previousNeeded := (\<lambda>_. False), ch_terminalAcks := (\<lambda>_. []), ch_sent := 0, ch_received := 0,
     ch_ignored := 0, ch_repairs := 0\<rparr>"

definition Fail :: "SessionChannel \<Rightarrow> Failure \<Rightarrow> SessionChannel" where
  "Fail ch failure = (if ch_failure ch = F_None then ch\<lparr>ch_failure := failure\<rparr> else ch)"

definition ObserveClock :: "SessionChannel \<Rightarrow> u64 \<Rightarrow> bool \<times> SessionChannel" where
  "ObserveClock ch nowMs =
     (if ch_observedClock ch \<and> nowMs < ch_lastClock ch then (False, Fail ch F_ClockReversed)
      else (True, ch\<lparr>ch_observedClock := True, ch_lastClock := nowMs\<rparr>))"

definition begin_rejected :: "SessionChannel \<Rightarrow> SessionConfig \<Rightarrow> SessionChannelConfig \<Rightarrow> bool" where
  "begin_rejected ch session config \<longleftrightarrow>
     ch_active ch \<or> sc_sessionId session = 0 \<or> sc_gameId session = 0 \<or> sc_gameplayAbi session = 0 \<or>
     sc_playerCount session < 2 \<or> sc_playerCount session > MAX_PLAYERS \<or>
     sc_localPlayer session \<ge> sc_playerCount session \<or>
     cfg_connectTimeoutMs config = 0 \<or> cfg_confirmedTimeoutMs config = 0 \<or>
     cfg_controlResendMs config = 0 \<or> cfg_inputResendMs config = 0 \<or>
     cfg_repairIntervalMs config = 0 \<or> cfg_bufferedLimit config = 0 \<or>
     cfg_receiveBudget config = 0 \<or> cfg_receiveBudget config > 4096 \<or>
     cfg_adonisPredictionFrames config > 2 \<or>
     (\<not> cfg_adonisPhase config \<and> cfg_adonisPredictionFrames config \<noteq> 0) \<or>
     (ch_previousSession ch \<noteq> 0 \<and>
      (sc_sessionId session = ch_previousSession ch \<or>
       sc_playerCount session \<noteq> ch_previousCount ch \<or> sc_localPlayer session \<noteq> ch_previousLocal ch))"

definition BeginSession ::
    "SessionChannel \<Rightarrow> SessionConfig \<Rightarrow> u64 \<Rightarrow> SessionChannelConfig \<Rightarrow> bool \<times> SessionChannel" where
  "BeginSession ch session nowMs config =
     (if ch_failure ch \<noteq> F_None then (False, ch)
      else if begin_rejected ch session config then (False, Fail ch F_InvalidConfiguration)
      else
        let (clock, ch) = ObserveClock ch nowMs in
        if \<not> clock then (False, ch)
        else
          let ch = ch\<lparr>ch_policy := config, ch_pacing := SessionPacing_default, ch_session := session\<rparr>;
              (reset, ch) = (if cfg_adonisPhase config
                then let (ok, adonis) = Adonis_Reset (sc_sessionId session) (sc_localPlayer session)
                           (sc_playerCount session) (cfg_adonisPredictionFrames config)
                     in (ok, ch\<lparr>ch_adonis := adonis\<rparr>)
                else (True, ch))
          in if \<not> reset then (False, Fail ch F_InvalidConfiguration)
             else (True, ch\<lparr>ch_active := True, ch_helloSent := False, ch_forceControl := True,
               ch_forceInputs := False, ch_beginTime := nowMs, ch_nextControl := nowMs,
               ch_nextInput := nowMs, ch_nextRetirementFence := nowMs, ch_deferredInput := False,
               ch_latestCapture := INVALID_FRAME, ch_sentSequence := (\<lambda>_. 0),
               ch_receivedSequence := (\<lambda>_. 0), ch_peerFrame := (\<lambda>_. INVALID_FRAME),
               ch_repairFrontier := (\<lambda>_. INVALID_FRAME), ch_lastRepair := (\<lambda>_. nowMs),
               ch_peerNeedsAck := (\<lambda>_. False),
               ch_watchdog := (\<lambda>p. Watchdog_Disarm (ch_watchdog ch p))\<rparr>))"

section \<open>Sending\<close>

definition count_sent :: "bool \<Rightarrow> SessionChannel \<Rightarrow> SessionChannel" where
  "count_sent ok ch = (if ok then ch\<lparr>ch_sent := ch_sent ch + 1\<rparr> else ch)"

definition count_repair :: "bool \<Rightarrow> SessionChannel \<Rightarrow> SessionChannel" where
  "count_repair ok ch = (if ok then ch\<lparr>ch_sent := ch_sent ch + 1, ch_repairs := ch_repairs ch + 1\<rparr> else ch)"

definition SendSession ::
    "'t PeerTransport \<Rightarrow> ProtocolConfig \<Rightarrow> 't \<Rightarrow> SessionChannel \<Rightarrow> SessionGate \<Rightarrow> bool \<times> 't \<times> SessionChannel" where
  "SendSession T cfg t ch gate =
     (case EncodeSessionPacket cfg (Gate_BuildPacket gate Hello) [] of
        (False, _) \<Rightarrow> (False, t, Fail ch F_InvalidConfiguration)
      | (True, hello) \<Rightarrow>
          let (ok, t) = pt_SendControl T t hello in
          if \<not> ok then (True, t, ch)
          else
            let ch = (count_sent True ch)\<lparr>ch_helloSent := True\<rparr> in
            if sg_localReady gate
            then (case EncodeSessionPacket cfg (Gate_BuildPacket gate Ready) [] of
                (False, _) \<Rightarrow> (False, t, Fail ch F_InvalidConfiguration)
              | (True, ready) \<Rightarrow>
                  let (ok, t) = pt_SendControl T t ready in (True, t, count_sent ok ch))
            else (True, t, ch))"

text \<open>The header fields of the time synchronisation, and the frontier the repair lane watches.\<close>

definition tag_packet :: "SessionChannel \<Rightarrow> u8 \<Rightarrow> u32 \<Rightarrow> InputPacket \<Rightarrow> InputPacket" where
  "tag_packet ch peer senderFrame packet =
     (let packet = packet\<lparr>ip_senderFrame := senderFrame\<rparr> in
      if ch_peerFrame ch peer \<noteq> INVALID_FRAME
      then let difference = int (unat senderFrame) - int (unat (ch_peerFrame ch peer))
        in packet\<lparr>ip_frameAdvantage := word_of_int (max (- 32768) (min 32767 difference))\<rparr>
      else packet)"

definition note_frontier :: "RollbackCore \<Rightarrow> u64 \<Rightarrow> u8 \<Rightarrow> SessionChannel \<Rightarrow> SessionChannel" where
  "note_frontier core nowMs peer ch =
     (let frontier = AcknowledgedLocalThrough core peer in
      if frontier \<noteq> ch_repairFrontier ch peer
      then ch\<lparr>ch_repairFrontier := (ch_repairFrontier ch)(peer := frontier),
              ch_lastRepair := (ch_lastRepair ch)(peer := nowMs)\<rparr>
      else ch)"

definition must_send_now :: "SessionChannel \<Rightarrow> RollbackCore \<Rightarrow> u64 \<Rightarrow> u8 \<Rightarrow> bool" where
  "must_send_now ch core nowMs peer \<longleftrightarrow>
     (let latest = LocalFrameForCapture core (ch_latestCapture ch);
          frontier = AcknowledgedLocalThrough core peer;
          outstanding = (if frontier = INVALID_FRAME then unat latest + 1
            else if latest > frontier then unat (latest - frontier) else 0)
      in outstanding \<ge> unat MAX_REDUNDANT_INPUTS \<or>
         (frontier = ch_repairFrontier ch peer \<and>
          nowMs - ch_lastRepair ch peer \<ge> cfg_repairIntervalMs (ch_policy ch)))"

definition next_sequence :: "SessionChannel \<Rightarrow> u8 \<Rightarrow> SessionChannel" where
  "next_sequence ch peer =
     ch\<lparr>ch_sentSequence := (ch_sentSequence ch)(peer := ch_sentSequence ch peer + 1)\<rparr>"

definition send_peer :: "'t PeerTransport \<Rightarrow> ProtocolConfig \<Rightarrow> RollbackCore \<Rightarrow> u64 \<Rightarrow> bool \<Rightarrow> 't \<Rightarrow>
    SessionChannel \<Rightarrow> u8 \<Rightarrow> bool \<times> 't \<times> SessionChannel" where
  "send_peer T cfg core nowMs backpressured t ch peer =
     (let ch = next_sequence ch peer;
          packet = BuildInputPacket core peer (LocalFrameForCapture core (ch_latestCapture ch))
            (ch_sentSequence ch peer) (ch_receivedSequence ch peer);
          last = rc_lastSimulatedFrame core;
          packet = tag_packet ch peer (if last = INVALID_FRAME then 0 else last + 1) packet
      in case EncodeInputPacket cfg packet [] of
           (False, _) \<Rightarrow> (False, t, Fail ch F_InvalidCapture)
         | (True, out) \<Rightarrow>
             let (ok, t) = (if backpressured then (False, t) else pt_SendTo T t peer out);
                 ch = note_frontier core nowMs peer (count_sent ok ch)
             in if (ip_inputCount packet \<noteq> 0 \<or> ch_peerNeedsAck ch peer) \<and>
                   nowMs - ch_lastRepair ch peer \<ge> cfg_repairIntervalMs (ch_policy ch)
                then
                  let (repaired, t) = pt_SendRepairTo T t peer out;
                      ch = count_repair repaired ch
                  in (True, t, ch\<lparr>ch_lastRepair := (ch_lastRepair ch)(peer := nowMs)\<rparr>)
                else (True, t, ch))"

text \<open>A loop over the remote seats that stops at the first failure of its body.\<close>

fun remote_loop :: "('t \<Rightarrow> SessionChannel \<Rightarrow> u8 \<Rightarrow> bool \<times> 't \<times> SessionChannel) \<Rightarrow> 't \<Rightarrow> SessionChannel \<Rightarrow>
    u8 list \<Rightarrow> bool \<times> 't \<times> SessionChannel" where
  "remote_loop body t ch [] = (True, t, ch)"
| "remote_loop body t ch (peer # peers) =
     (if peer = sc_localPlayer (ch_session ch) then remote_loop body t ch peers
      else case body t ch peer of
        (False, t, ch) \<Rightarrow> (False, t, ch)
      | (True, t, ch) \<Rightarrow> remote_loop body t ch peers)"

definition SendInputs :: "'t PeerTransport \<Rightarrow> ProtocolConfig \<Rightarrow> 't \<Rightarrow> SessionChannel \<Rightarrow> RollbackCore \<Rightarrow> u64 \<Rightarrow>
    bool \<Rightarrow> bool \<Rightarrow> bool \<times> 't \<times> SessionChannel" where
  "SendInputs T cfg t ch core nowMs force deferOrdinaryInput =
     (let force = (force \<or> ch_deferredInput ch) in
      if \<not> ch_active ch \<or> \<not> pt_IsOpen T t \<or> ch_latestCapture ch = INVALID_FRAME \<or>
         (\<not> force \<and> nowMs < ch_nextInput ch)
      then (True, t, ch)
      else
        let backpressured = pt_BufferedAmount T t > cfg_bufferedLimit (ch_policy ch);
            remotes = filter (\<lambda>peer. peer \<noteq> sc_localPlayer (ch_session ch))
              (seats (sc_playerCount (ch_session ch)))
        in if deferOrdinaryInput \<and> \<not> ch_deferredInput ch \<and> \<not> backpressured \<and>
              \<not> cfg_adonisPhase (ch_policy ch) \<and> \<not> list_ex (must_send_now ch core nowMs) remotes
           then (True, t, (fold (note_frontier core nowMs) remotes ch)\<lparr>ch_deferredInput := True\<rparr>)
           else
             (case remote_loop (send_peer T cfg core nowMs backpressured) t (ch\<lparr>ch_deferredInput := False\<rparr>)
                 (seats (sc_playerCount (ch_session ch))) of
                (False, t, ch) \<Rightarrow> (False, t, ch)
              | (True, t, ch) \<Rightarrow>
                  (True, t, ch\<lparr>ch_nextInput := nowMs + cfg_inputResendMs (ch_policy ch),
                               ch_forceInputs := False\<rparr>)))"

definition FlushDeferredInputs :: "'t PeerTransport \<Rightarrow> ProtocolConfig \<Rightarrow> 't \<Rightarrow> SessionChannel \<Rightarrow> RollbackCore \<Rightarrow>
    u64 \<Rightarrow> bool \<times> 't \<times> SessionChannel" where
  "FlushDeferredInputs T cfg t ch core nowMs =
     (if \<not> ch_deferredInput ch then (True, t, ch)
      else
        let ch = ch\<lparr>ch_deferredInput := False\<rparr>; (clock, ch) = ObserveClock ch nowMs in
        if \<not> clock then (False, t, ch) else SendInputs T cfg t ch core nowMs True False)"

definition LocalCaptured :: "'t PeerTransport \<Rightarrow> ProtocolConfig \<Rightarrow> 't \<Rightarrow> SessionChannel \<Rightarrow> RollbackCore \<Rightarrow>
    u32 \<Rightarrow> u64 \<Rightarrow> bool \<times> 't \<times> SessionChannel" where
  "LocalCaptured T cfg t ch core captureFrame nowMs =
     (if ch_failure ch \<noteq> F_None then (False, t, ch)
      else if \<not> ch_active ch \<or> \<not> HasLocalCapture core captureFrame \<or> captureFrame = INVALID_FRAME \<or>
         (ch_latestCapture ch \<noteq> INVALID_FRAME \<and> captureFrame < ch_latestCapture ch)
      then (False, t, Fail ch F_InvalidCapture)
      else
        let (clock, ch) = ObserveClock ch nowMs in
        if \<not> clock then (False, t, ch)
        else
          let fresh = (ch_latestCapture ch \<noteq> captureFrame);
              (flushed, t, ch) =
                (if ch_deferredInput ch \<and> fresh \<and> captureFrame \<noteq> ch_latestCapture ch + 1
                 then FlushDeferredInputs T cfg t ch core nowMs else (True, t, ch))
          in if \<not> flushed then (False, t, ch)
             else
               let ch = ch\<lparr>ch_latestCapture := captureFrame\<rparr>;
                   ch = (if fresh \<and> cfg_adonisPhase (ch_policy ch)
                     then ch\<lparr>ch_adonis := ObserveDue (ch_adonis ch) captureFrame (nowMs * 1000)\<rparr> else ch)
               in SendInputs T cfg t ch core nowMs fresh False)"

definition FlushRetirementFence_ready :: "SessionChannel \<Rightarrow> RollbackCore \<Rightarrow> u32 \<Rightarrow> bool" where
  "FlushRetirementFence_ready ch core terminalFrame \<longleftrightarrow>
     \<not> (\<not> ch_active ch \<or> terminalFrame = INVALID_FRAME \<or> ch_latestCapture ch = INVALID_FRAME \<or>
        rc_lastSimulatedFrame core \<noteq> terminalFrame \<or> HasRollbackRequest core)"

definition fence_peer :: "'t PeerTransport \<Rightarrow> ProtocolConfig \<Rightarrow> RollbackCore \<Rightarrow> u32 \<Rightarrow> bool \<Rightarrow> 't \<Rightarrow>
    SessionChannel \<Rightarrow> u8 \<Rightarrow> bool \<times> 't \<times> SessionChannel" where
  "fence_peer T cfg core terminalFrame backpressured t ch peer =
     (let ch = next_sequence ch peer;
          packet = BuildInputPacket core peer (LocalFrameForCapture core (ch_latestCapture ch))
            (ch_sentSequence ch peer) (ch_receivedSequence ch peer);
          packet = tag_packet ch peer (terminalFrame + 1) packet
      in case EncodeInputPacket cfg packet [] of
           (False, _) \<Rightarrow> (False, t, Fail ch F_InvalidCapture)
         | (True, out) \<Rightarrow>
             let (repaired, t) = pt_SendRepairTo T t peer out in
             if repaired then (True, t, count_repair True ch)
             else
               let (ok, t) = (if backpressured then (False, t) else pt_SendTo T t peer out) in
               (True, t, count_sent ok ch))"

definition FlushRetirementFence :: "'t PeerTransport \<Rightarrow> ProtocolConfig \<Rightarrow> 't \<Rightarrow> SessionChannel \<Rightarrow>
    RollbackCore \<Rightarrow> u32 \<Rightarrow> u64 \<Rightarrow> bool \<times> 't \<times> SessionChannel" where
  "FlushRetirementFence T cfg t ch core terminalFrame nowMs =
     (if ch_failure ch \<noteq> F_None then (False, t, ch)
      else if \<not> FlushRetirementFence_ready ch core terminalFrame
      then (False, t, Fail ch F_InvalidRetirement)
      else
        let (clock, ch) = ObserveClock ch nowMs in
        if \<not> clock then (False, t, ch)
        else if pt_Failed T t then (False, t, Fail ch F_Transport)
        else if \<not> pt_IsOpen T t \<or> nowMs < ch_nextRetirementFence ch then (True, t, ch)
        else
          let backpressured = pt_BufferedAmount T t > cfg_bufferedLimit (ch_policy ch) in
          case remote_loop (fence_peer T cfg core terminalFrame backpressured) t ch
              (seats (sc_playerCount (ch_session ch))) of
            (False, t, ch) \<Rightarrow> (False, t, ch)
          | (True, t, ch) \<Rightarrow>
              (True, t, ch\<lparr>ch_nextRetirementFence := nowMs + cfg_inputResendMs (ch_policy ch)\<rparr>))"

section \<open>Receiving\<close>

text \<open>One turn of the loop of \<^verbatim>\<open>Receive\<close>, by the kind of the packet; the result says whether the loop goes on.\<close>

definition receive_phase :: "SessionChannel \<Rightarrow> AdonisPhaseSample \<Rightarrow> bool \<times> SessionChannel" where
  "receive_phase ch phase =
     (if \<not> ch_active ch \<or> as_sessionId phase \<noteq> sc_sessionId (ch_session ch) \<or>
         as_targetPlayer phase \<noteq> sc_localPlayer (ch_session ch)
      then (True, ch\<lparr>ch_ignored := ch_ignored ch + 1\<rparr>)
      else if \<not> cfg_adonisPhase (ch_policy ch) then (False, Fail ch F_ContractMismatch)
      else
        let (ok, adonis) = ReceiveSample (ch_adonis ch) phase; ch = ch\<lparr>ch_adonis := adonis\<rparr> in
        if \<not> ok then (False, Fail ch F_ContractMismatch) else (True, ch))"

definition receive_session ::
    "SessionChannel \<Rightarrow> SessionGate \<Rightarrow> u64 \<Rightarrow> SessionPacket \<Rightarrow> bool \<times> SessionChannel \<times> SessionGate" where
  "receive_session ch gate nowMs packet =
     (if \<not> ch_active ch \<or> sp_sessionId packet \<noteq> sc_sessionId (ch_session ch)
      then (True, ch\<lparr>ch_ignored := ch_ignored ch + 1\<rparr>, gate)
      else
        let (result, gate) = Gate_Apply gate packet in
        if result = SPR_ContractMismatch then (False, Fail ch F_ContractMismatch, gate)
        else if result = SPR_InvalidPeer then (False, Fail ch F_InvalidPeer, gate)
        else if result = SPR_ReadyBeforeHello then (False, Fail ch F_MalformedPacket, gate)
        else if sp_phase packet = Hello then
          let ch = (if ch_previousSession ch \<noteq> 0
                then ch\<lparr>ch_previousNeeded := (ch_previousNeeded ch)(sp_senderPlayer packet := False)\<rparr> else ch);
              ch = (if result = SPR_Duplicate \<and> CanStart gate \<and> nowMs \<ge> ch_nextControl ch
                then ch\<lparr>ch_forceControl := True\<rparr> else ch)
          in (True, ch, gate)
        else (True, ch, gate))"

definition observe_arrivals :: "SessionChannel \<Rightarrow> InputPacket \<Rightarrow> u64 \<Rightarrow> SessionChannel" where
  "observe_arrivals ch packet nowMs =
     ch\<lparr>ch_adonis := foldl (\<lambda>a i. ObserveArrival a (ip_senderPlayer packet)
          (ip_firstInputFrame packet + word_of_nat i) (nowMs * 1000))
        (ch_adonis ch) [0..<unat (ip_inputCount packet)]\<rparr>"

definition observe_newest :: "SessionChannel \<Rightarrow> InputPacket \<Rightarrow> nat \<Rightarrow> SessionChannel" where
  "observe_newest ch packet next_simulated =
     (let sender = ip_senderPlayer packet in
      if newer (ip_sequence packet) (ch_receivedSequence ch sender)
      then
        let ch = ch\<lparr>ch_receivedSequence := (ch_receivedSequence ch)(sender := ip_sequence packet),
              ch_peerFrame := (ch_peerFrame ch)(sender := ip_senderFrame packet),
              ch_peerNeedsAck := (ch_peerNeedsAck ch)(sender := ip_inputCount packet \<noteq> 0)\<rparr>
        in if \<not> cfg_adonisPhase (ch_policy ch)
           then ch\<lparr>ch_pacing := Pacing_Observe (ch_pacing ch) (word_of_nat next_simulated) packet\<rparr> else ch
      else ch)"

text \<open>The frame to simulate next, the reason to refuse an input packet of the session (\<open>F_None\<close> for none), and
  what an accepted one leaves in the channel.\<close>

definition next_simulated :: "RollbackCore \<Rightarrow> nat" where
  "next_simulated core = (let last = rc_lastSimulatedFrame core in if last = INVALID_FRAME then 0 else unat last + 1)"

definition input_refusal :: "SessionChannel \<Rightarrow> RollbackCore \<Rightarrow> InputPacket \<Rightarrow> Failure" where
  "input_refusal ch core packet =
     (let session = ch_session ch; sender = ip_senderPlayer packet in
      if sender \<ge> sc_playerCount session \<or> sender = sc_localPlayer session then F_InvalidPeer
      else if ip_playerCount packet \<noteq> sc_playerCount session then F_ContractMismatch
      else if ip_inputCount packet \<noteq> 0 \<and> unat (ip_latestFrame packet) \<ge> next_simulated core + INPUT_HISTORY_SIZE
      then F_MalformedPacket
      else
        let localConfirmed = ConfirmedThrough core (sc_localPlayer session) in
        if ip_ackFrame packet \<noteq> INVALID_FRAME \<and>
           (localConfirmed = INVALID_FRAME \<or> ip_ackFrame packet > localConfirmed)
        then F_MalformedPacket else F_None)"

definition note_input :: "SessionChannel \<Rightarrow> InputPacket \<Rightarrow> u64 \<Rightarrow> bool \<Rightarrow> nat \<Rightarrow> SessionChannel" where
  "note_input ch packet nowMs advanced next =
     (let ch = (if cfg_adonisPhase (ch_policy ch) then observe_arrivals ch packet nowMs else ch);
          ch = (if advanced then ch\<lparr>ch_forceInputs := True\<rparr> else ch)
      in observe_newest ch packet next)"

definition receive_input :: "ProtocolConfig \<Rightarrow> SessionChannel \<Rightarrow> RollbackCore \<Rightarrow> u64 \<Rightarrow> InputPacket \<Rightarrow>
    bool \<times> SessionChannel \<times> RollbackCore" where
  "receive_input cfg ch core nowMs packet =
     (if \<not> ch_active ch \<or> ip_sessionId packet \<noteq> sc_sessionId (ch_session ch)
      then (True, ch\<lparr>ch_ignored := ch_ignored ch + 1\<rparr>, core)
      else if input_refusal ch core packet \<noteq> F_None
      then (False, Fail ch (input_refusal ch core packet), core)
      else
        let sender = ip_senderPlayer packet; before = ConfirmedThrough core sender; next = next_simulated core;
            (ok, _, core) = ApplyInputPacket cfg core packet
        in if \<not> ok then (False, Fail ch F_InputConflict, core)
           else (True, note_input ch packet nowMs (before \<noteq> ConfirmedThrough core sender) next, core))"

definition receive_packet :: "ProtocolConfig \<Rightarrow> SessionChannel \<Rightarrow> SessionGate \<Rightarrow> RollbackCore \<Rightarrow> u64 \<Rightarrow>
    bytes \<Rightarrow> bool \<times> SessionChannel \<times> SessionGate \<times> RollbackCore" where
  "receive_packet cfg ch gate core nowMs data =
     (let ch = ch\<lparr>ch_received := ch_received ch + 1\<rparr> in
      case DecodeAdonisPhaseSample data of
        Some phase \<Rightarrow> (let (ok, ch) = receive_phase ch phase in (ok, ch, gate, core))
      | None \<Rightarrow>
          if length data > MaxPacketBytes then (False, Fail ch F_MalformedPacket, gate, core)
          else (case PeekPacketType cfg data of
              None \<Rightarrow> (False, Fail ch F_MalformedPacket, gate, core)
            | Some PT_Session \<Rightarrow>
                (case DecodeSessionPacket cfg data of
                   None \<Rightarrow> (False, Fail ch F_MalformedPacket, gate, core)
                 | Some packet \<Rightarrow>
                     (let (ok, ch, gate) = receive_session ch gate nowMs packet in (ok, ch, gate, core)))
            | Some PT_Input \<Rightarrow>
                (case DecodeInputPacket cfg data of
                   None \<Rightarrow> (False, Fail ch F_MalformedPacket, gate, core)
                 | Some packet \<Rightarrow>
                     (let (ok, ch, core) = receive_input cfg ch core nowMs packet in (ok, ch, gate, core)))
            | Some PT_SpectatorFrame \<Rightarrow> (False, Fail ch F_MalformedPacket, gate, core)))"

fun receive_loop :: "'t PeerTransport \<Rightarrow> ProtocolConfig \<Rightarrow> u64 \<Rightarrow> nat \<Rightarrow> 't \<Rightarrow> SessionChannel \<Rightarrow> SessionGate \<Rightarrow>
    RollbackCore \<Rightarrow> bool \<times> 't \<times> SessionChannel \<times> SessionGate \<times> RollbackCore" where
  "receive_loop T cfg nowMs 0 t ch gate core = (True, t, ch, gate, core)"
| "receive_loop T cfg nowMs (Suc budget) t ch gate core =
     (case pt_Poll T t of
        (None, t) \<Rightarrow> (True, t, ch, gate, core)
      | (Some data, t) \<Rightarrow>
          (case receive_packet cfg ch gate core nowMs data of
             (False, ch, gate, core) \<Rightarrow> (False, t, ch, gate, core)
           | (True, ch, gate, core) \<Rightarrow> receive_loop T cfg nowMs budget t ch gate core))"

definition Receive :: "'t PeerTransport \<Rightarrow> ProtocolConfig \<Rightarrow> 't \<Rightarrow> SessionChannel \<Rightarrow> SessionGate \<Rightarrow>
    RollbackCore \<Rightarrow> u64 \<Rightarrow> bool \<times> 't \<times> SessionChannel \<times> SessionGate \<times> RollbackCore" where
  "Receive T cfg t ch gate core nowMs =
     receive_loop T cfg nowMs (cfg_receiveBudget (ch_policy ch)) t ch gate core"

section \<open>Retirement\<close>

fun retired_peers :: "'t PeerTransport \<Rightarrow> 't \<Rightarrow> SessionChannel \<Rightarrow> u8 list \<Rightarrow> 't \<times> SessionChannel" where
  "retired_peers T t ch [] = (t, ch)"
| "retired_peers T t ch (peer # peers) =
     (if peer = ch_previousLocal ch \<or> \<not> ch_previousNeeded ch peer then retired_peers T t ch peers
      else
        let (repaired, t) = pt_SendRepairTo T t peer (ch_terminalAcks ch peer) in
        if repaired then retired_peers T t (count_repair True ch) peers
        else
          let (ok, t) = pt_SendTo T t peer (ch_terminalAcks ch peer) in
          retired_peers T t (count_sent ok ch) peers)"

definition forget_retired :: "SessionChannel \<Rightarrow> SessionChannel" where
  "forget_retired ch = ch\<lparr>ch_previousSession := 0, ch_terminalAcks := (\<lambda>_. [])\<rparr>"

definition SendRetired :: "'t PeerTransport \<Rightarrow> 't \<Rightarrow> SessionChannel \<Rightarrow> u64 \<Rightarrow> bool \<times> 't \<times> SessionChannel" where
  "SendRetired T t ch nowMs =
     (if ch_previousSession ch = 0 then (True, t, ch)
      else if \<not> list_ex (ch_previousNeeded ch) (seats MAX_PLAYERS) then (True, t, forget_retired ch)
      else if nowMs < ch_nextRetiredSend ch \<or> \<not> pt_IsOpen T t then (True, t, ch)
      else
        let peers = seats (ch_previousCount ch);
            pending = list_ex (\<lambda>peer. \<not> (peer = ch_previousLocal ch \<or> \<not> ch_previousNeeded ch peer)) peers;
            (t, ch) = retired_peers T t ch peers;
            ch = (if \<not> pending then forget_retired ch else ch)
        in (True, t, ch\<lparr>ch_nextRetiredSend := nowMs + cfg_inputResendMs (ch_policy ch)\<rparr>))"

definition PumpRetirement :: "'t PeerTransport \<Rightarrow> 't \<Rightarrow> SessionChannel \<Rightarrow> u64 \<Rightarrow> bool \<times> 't \<times> SessionChannel" where
  "PumpRetirement T t ch nowMs =
     (if ch_failure ch \<noteq> F_None then (False, t, ch)
      else if ch_active ch then (False, t, Fail ch F_InvalidRetirement)
      else
        let (clock, ch) = ObserveClock ch nowMs in
        if \<not> clock then (False, t, ch)
        else if pt_Failed T t then (False, t, Fail ch F_Transport)
        else SendRetired T t ch nowMs)"

definition CanRetire :: "SessionChannel \<Rightarrow> RollbackCore \<Rightarrow> u32 \<Rightarrow> bool" where
  "CanRetire ch core terminalFrame \<longleftrightarrow>
     ch_active ch \<and> ch_failure ch = F_None \<and> terminalFrame \<noteq> INVALID_FRAME \<and>
     rc_lastSimulatedFrame core = terminalFrame \<and> \<not> HasRollbackRequest core \<and>
     atLeast_frame (ConfirmedThroughAllRemotes core) terminalFrame \<and>
     atLeast_frame (AcknowledgedLocalThroughAllRemotes core) terminalFrame"

definition terminal_ack :: "SessionChannel \<Rightarrow> u8 \<Rightarrow> u32 \<Rightarrow> InputPacket" where
  "terminal_ack ch peer terminalFrame = InputPacket_default\<lparr>
     ip_sessionId := sc_sessionId (ch_session ch), ip_senderPlayer := sc_localPlayer (ch_session ch),
     ip_playerCount := sc_playerCount (ch_session ch), ip_sequence := ch_sentSequence ch peer,
     ip_ackSequence := ch_receivedSequence ch peer, ip_latestFrame := terminalFrame,
     ip_ackFrame := terminalFrame, ip_senderFrame := terminalFrame + 1\<rparr>"

definition terminal_peer :: "ProtocolConfig \<Rightarrow> u32 \<Rightarrow> 't \<Rightarrow> SessionChannel \<Rightarrow> u8 \<Rightarrow> bool \<times> 't \<times> SessionChannel" where
  "terminal_peer cfg terminalFrame t ch peer =
     (let ch = next_sequence ch peer;
          (ok, out) = EncodeInputPacket cfg (terminal_ack ch peer terminalFrame) (ch_terminalAcks ch peer);
          ch = ch\<lparr>ch_terminalAcks := (ch_terminalAcks ch)(peer := out)\<rparr>
      in if \<not> ok then (False, t, Fail ch F_InvalidRetirement) else (True, t, ch))"

definition Retire :: "'t PeerTransport \<Rightarrow> ProtocolConfig \<Rightarrow> 't \<Rightarrow> SessionChannel \<Rightarrow> RollbackCore \<Rightarrow> u32 \<Rightarrow>
    u64 \<Rightarrow> bool \<times> 't \<times> SessionChannel" where
  "Retire T cfg t ch core terminalFrame nowMs =
     (if \<not> CanRetire ch core terminalFrame then (False, t, ch)
      else
        let (clock, ch) = ObserveClock ch nowMs in
        if \<not> clock then (False, t, ch)
        else if ch_previousSession ch \<noteq> 0 then (False, t, Fail ch F_InvalidRetirement)
        else
          let (built, t, ch) = remote_loop (terminal_peer cfg terminalFrame) t ch
                (seats (sc_playerCount (ch_session ch))) in
          if \<not> built then (False, t, ch)
          else
            let session = ch_session ch in
            SendRetired T t (ch\<lparr>ch_previousSession := sc_sessionId session,
              ch_previousCount := sc_playerCount session, ch_previousLocal := sc_localPlayer session,
              ch_previousNeeded := (\<lambda>peer. peer < sc_playerCount session \<and> peer \<noteq> sc_localPlayer session),
              ch_nextRetiredSend := nowMs, ch_active := False, ch_deferredInput := False,
              ch_watchdog := (\<lambda>p. Watchdog_Disarm (ch_watchdog ch p))\<rparr>) nowMs)"

section \<open>The pump\<close>

fun send_samples :: "'t PeerTransport \<Rightarrow> nat \<Rightarrow> 't \<Rightarrow> SessionChannel \<Rightarrow> 't \<times> SessionChannel" where
  "send_samples T 0 t ch = (t, ch)"
| "send_samples T (Suc n) t ch =
     (let (sample, adonis) = PollLocalSample (ch_adonis ch); ch = ch\<lparr>ch_adonis := adonis\<rparr> in
      case sample of
        None \<Rightarrow> (t, ch)
      | Some s \<Rightarrow>
          let (encoded, out) = EncodeAdonisPhaseSample s [];
              (ok, t) = (if encoded \<and> pt_BufferedAmount T t \<le> cfg_bufferedLimit (ch_policy ch)
                then pt_SendControl T t out else (False, t))
          in send_samples T n t (count_sent ok ch))"

definition watch_peer :: "RollbackCore \<Rightarrow> u64 \<Rightarrow> bool \<Rightarrow> 't \<Rightarrow> SessionChannel \<Rightarrow> u8 \<Rightarrow> bool \<times> 't \<times> SessionChannel" where
  "watch_peer core nowMs idle t ch peer =
     (if idle
      then (True, t, ch\<lparr>ch_watchdog := (ch_watchdog ch)(peer := Watchdog_Disarm (ch_watchdog ch peer))\<rparr>)
      else
        let (expired, dog) = Watchdog_Observe (ch_watchdog ch peer) (ConfirmedThrough core peer) nowMs
              (cfg_confirmedTimeoutMs (ch_policy ch));
            ch = ch\<lparr>ch_watchdog := (ch_watchdog ch)(peer := dog)\<rparr>
        in if expired then (False, t, Fail ch F_ConfirmedTimeout) else (True, t, ch))"

text \<open>
  \<^verbatim>\<open>Pump\<close> after \<^verbatim>\<open>Receive\<close> and \<^verbatim>\<open>SendRetired\<close>: the handshake, the inputs, the phase samples and the
  watchdogs of an active session.
\<close>

definition pump_control :: "'t PeerTransport \<Rightarrow> ProtocolConfig \<Rightarrow> 't \<Rightarrow> SessionChannel \<Rightarrow> SessionGate \<Rightarrow> u64 \<Rightarrow>
    bool \<times> 't \<times> SessionChannel \<times> SessionGate" where
  "pump_control T cfg t ch gate nowMs =
     (let (gate, ch) = (if CanSendReady gate \<and> \<not> sg_localReady gate
            then (MarkLocalReady gate, ch\<lparr>ch_forceControl := True\<rparr>) else (gate, ch))
      in if pt_IsOpen T t \<and> (ch_forceControl ch \<or> (\<not> CanStart gate \<and> nowMs \<ge> ch_nextControl ch))
         then (case SendSession T cfg t ch gate of
             (False, t, ch) \<Rightarrow> (False, t, ch, gate)
           | (True, t, ch) \<Rightarrow>
               (True, t, ch\<lparr>ch_forceControl := False,
                            ch_nextControl := nowMs + cfg_controlResendMs (ch_policy ch)\<rparr>, gate))
         else (True, t, ch, gate))"

definition pump_active :: "'t PeerTransport \<Rightarrow> ProtocolConfig \<Rightarrow> 't \<Rightarrow> SessionChannel \<Rightarrow> SessionGate \<Rightarrow>
    RollbackCore \<Rightarrow> u64 \<Rightarrow> bool \<Rightarrow> bool \<Rightarrow> bool \<times> 't \<times> SessionChannel \<times> SessionGate" where
  "pump_active T cfg t ch gate core nowMs expectsInput deferOrdinaryInput =
     (if \<not> pt_Recovering T t \<and> \<not> CanStart gate \<and>
         nowMs - ch_beginTime ch \<ge> cfg_connectTimeoutMs (ch_policy ch)
      then (False, t, Fail ch F_HandshakeTimeout, gate)
      else
        case pump_control T cfg t ch gate nowMs of
          (False, t, ch, gate) \<Rightarrow> (False, t, ch, gate)
        | (True, t, ch, gate) \<Rightarrow>
            (case SendInputs T cfg t ch core nowMs (ch_forceInputs ch)
                (deferOrdinaryInput \<and> expectsInput \<and> CanStart gate) of
               (False, t, ch) \<Rightarrow> (False, t, ch, gate)
             | (True, t, ch) \<Rightarrow>
                 let (t, ch) = (if cfg_adonisPhase (ch_policy ch) \<and> CanStart gate \<and> pt_IsOpen T t
                       then send_samples T (unat MAX_PLAYERS) t ch else (t, ch));
                     idle = (pt_Recovering T t \<or> \<not> expectsInput \<or> \<not> CanStart gate \<or>
                       ch_latestCapture ch = INVALID_FRAME);
                     (ok, t, ch) = remote_loop (watch_peer core nowMs idle) t ch
                       (seats (sc_playerCount (ch_session ch)))
                 in (ok, t, ch, gate)))"

definition Pump :: "'t PeerTransport \<Rightarrow> ProtocolConfig \<Rightarrow> 't \<Rightarrow> SessionChannel \<Rightarrow> SessionGate \<Rightarrow>
    RollbackCore \<Rightarrow> u64 \<Rightarrow> bool \<Rightarrow> bool \<Rightarrow> bool \<times> 't \<times> SessionChannel \<times> SessionGate \<times> RollbackCore" where
  "Pump T cfg t ch gate core nowMs expectsInput deferOrdinaryInput =
     (if ch_failure ch \<noteq> F_None then (False, t, ch, gate, core)
      else
        let (clock, ch) = ObserveClock ch nowMs in
        if \<not> clock then (False, t, ch, gate, core)
        else if pt_Failed T t then (False, t, Fail ch F_Transport, gate, core)
        else
          let gate = SetTransportAvailable gate (\<not> pt_Disconnected T t \<and> \<not> pt_Recovering T t) in
          if pt_Disconnected T t
          then (True, t, ch\<lparr>ch_watchdog := (\<lambda>p. Watchdog_Disarm (ch_watchdog ch p))\<rparr>, gate, core)
          else if ch_active ch \<and>
            (sc_sessionId (sg_config gate) \<noteq> sc_sessionId (ch_session ch) \<or>
             sc_localPlayer (sg_config gate) \<noteq> sc_localPlayer (ch_session ch) \<or>
             sc_playerCount (sg_config gate) \<noteq> sc_playerCount (ch_session ch))
          then (False, t, Fail ch F_InvalidConfiguration, gate, core)
          else
            case Receive T cfg t ch gate core nowMs of
              (False, t, ch, gate, core) \<Rightarrow> (False, t, ch, gate, core)
            | (True, t, ch, gate, core) \<Rightarrow>
                (case SendRetired T t ch nowMs of
                   (False, t, ch) \<Rightarrow> (False, t, ch, gate, core)
                 | (True, t, ch) \<Rightarrow>
                     if \<not> ch_active ch then (True, t, ch, gate, core)
                     else
                       let (ok, t, ch, gate) =
                         pump_active T cfg t ch gate core nowMs expectsInput deferOrdinaryInput
                       in (ok, t, ch, gate, core)))"

section \<open>Observers\<close>

definition PeerFrame :: "SessionChannel \<Rightarrow> u8 \<Rightarrow> u32" where
  "PeerFrame ch peer = (if peer < MAX_PLAYERS then ch_peerFrame ch peer else INVALID_FRAME)"

definition Retiring :: "SessionChannel \<Rightarrow> bool" where
  "Retiring ch \<longleftrightarrow> ch_previousSession ch \<noteq> 0"

definition IntervalScale :: "SessionChannel \<Rightarrow> f64" where
  "IntervalScale ch = (if cfg_adonisPhase (ch_policy ch) then 1 else pc_scale (ch_pacing ch))"

definition TakeAdonisDelayMs :: "SessionChannel \<Rightarrow> f64 \<times> SessionChannel" where
  "TakeAdonisDelayMs ch =
     (if cfg_adonisPhase (ch_policy ch)
      then let (delay, adonis) = TakeDelayMs (ch_adonis ch) in (delay, ch\<lparr>ch_adonis := adonis\<rparr>)
      else (0, ch))"

fun Failure_text :: "Failure \<Rightarrow> string" where
  "Failure_text F_None = ''''"
| "Failure_text F_InvalidConfiguration = ''Invalid netplay session configuration''"
| "Failure_text F_Transport = ''Peer transport disconnected''"
| "Failure_text F_HandshakeTimeout = ''Peer session handshake timed out''"
| "Failure_text F_MalformedPacket = ''Invalid peer packet''"
| "Failure_text F_ContractMismatch = ''Peer gameplay contracts differ''"
| "Failure_text F_InvalidPeer = ''Invalid peer seat''"
| "Failure_text F_InputConflict = ''Peer changed a confirmed input''"
| "Failure_text F_ConfirmedTimeout = ''Confirmed peer input stopped advancing''"
| "Failure_text F_ClockReversed = ''Network clock moved backwards''"
| "Failure_text F_InvalidCapture = ''Invalid local input capture''"
| "Failure_text F_InvalidRetirement = ''Invalid netplay retirement fence''"

definition ErrorText :: "SessionChannel \<Rightarrow> string" where
  "ErrorText ch = Failure_text (ch_failure ch)"

end
