(* ===== verification/ChannelLemmas.thy ===== *)
theory ChannelLemmas
  imports Channel
begin

text \<open>
  What the steps of the session channel leave alone. \<open>steady\<close> relates a channel to a later one of the
  same session: its first failure and its clock stay, and so do the session, the policy and the cache of
  terminal acknowledgements. It is a preorder, and every helper of the channel respects it.
\<close>

section \<open>The preorder\<close>

definition keeps_failure :: "SessionChannel \<Rightarrow> SessionChannel \<Rightarrow> bool" where
  "keeps_failure ch ch' \<longleftrightarrow> (ch_failure ch \<noteq> F_None \<longrightarrow> ch_failure ch' = ch_failure ch)"

definition keeps_clock :: "SessionChannel \<Rightarrow> SessionChannel \<Rightarrow> bool" where
  "keeps_clock ch ch' \<longleftrightarrow>
     (ch_observedClock ch \<longrightarrow> ch_observedClock ch' \<and> ch_lastClock ch \<le> ch_lastClock ch')"

definition keeps_session :: "SessionChannel \<Rightarrow> SessionChannel \<Rightarrow> bool" where
  "keeps_session ch ch' \<longleftrightarrow> ch_policy ch' = ch_policy ch \<and> ch_session ch' = ch_session ch \<and>
     ch_active ch' = ch_active ch"

definition keeps_retired :: "SessionChannel \<Rightarrow> SessionChannel \<Rightarrow> bool" where
  "keeps_retired ch ch' \<longleftrightarrow> ch_previousSession ch' = ch_previousSession ch \<and>
     ch_previousCount ch' = ch_previousCount ch \<and> ch_previousLocal ch' = ch_previousLocal ch \<and>
     ch_terminalAcks ch' = ch_terminalAcks ch"

definition steady :: "SessionChannel \<Rightarrow> SessionChannel \<Rightarrow> bool" where
  "steady ch ch' \<longleftrightarrow> keeps_failure ch ch' \<and> keeps_clock ch ch' \<and> keeps_session ch ch' \<and>
     keeps_retired ch ch' \<and> ch_previousNeeded ch' = ch_previousNeeded ch"

lemmas steady_defs = steady_def keeps_failure_def keeps_clock_def keeps_session_def keeps_retired_def

lemma steady_refl [simp]: "steady ch ch"
  by (simp add: steady_defs)

lemma steady_trans [trans]: "steady a b \<Longrightarrow> steady b c \<Longrightarrow> steady a c"
  by (auto simp: steady_defs)

named_theorems steady_step

text \<open>An update of fields the preorder does not mention.\<close>

lemma steady_same:
  "ch_failure b = ch_failure a \<Longrightarrow> ch_observedClock b = ch_observedClock a \<Longrightarrow>
   ch_lastClock b = ch_lastClock a \<Longrightarrow> ch_policy b = ch_policy a \<Longrightarrow> ch_session b = ch_session a \<Longrightarrow>
   ch_active b = ch_active a \<Longrightarrow> ch_previousSession b = ch_previousSession a \<Longrightarrow>
   ch_previousCount b = ch_previousCount a \<Longrightarrow> ch_previousLocal b = ch_previousLocal a \<Longrightarrow>
   ch_terminalAcks b = ch_terminalAcks a \<Longrightarrow> ch_previousNeeded b = ch_previousNeeded a \<Longrightarrow> steady a b"
  by (simp add: steady_defs)

lemma Fail_failure: "f \<noteq> F_None \<Longrightarrow> ch_failure (Fail ch f) \<noteq> F_None"
  by (simp add: Fail_def)

lemma steady_Fail [steady_step]: "steady ch (Fail ch f)"
  by (simp add: Fail_def steady_defs)

lemma steady_count_sent [steady_step]: "steady ch (count_sent ok ch)"
  by (simp add: count_sent_def steady_defs)

lemma steady_count_repair [steady_step]: "steady ch (count_repair ok ch)"
  by (simp add: count_repair_def steady_defs)

lemma steady_note_frontier [steady_step]: "steady ch (note_frontier core now peer ch)"
  by (simp add: note_frontier_def Let_def steady_defs)

lemma steady_next_sequence [steady_step]: "steady ch (next_sequence ch peer)"
  by (simp add: next_sequence_def steady_defs)

lemma steady_fold_frontier [steady_step]: "steady ch (fold (note_frontier core now) peers ch)"
proof (induction peers arbitrary: ch)
  case (Cons peer peers)
  show ?case using steady_trans [OF steady_note_frontier Cons] by simp
qed simp

lemma steady_observe_arrivals [steady_step]: "steady ch (observe_arrivals ch packet now)"
  by (simp add: observe_arrivals_def steady_defs)

lemma steady_observe_newest [steady_step]: "steady ch (observe_newest ch packet n)"
  by (simp add: observe_newest_def Let_def steady_defs)

text \<open>
  \<open>outcome ch r\<close>: the result of a step started in \<open>ch\<close> is a later channel, and one that failed if the
  step says so.
\<close>

definition outcome :: "SessionChannel \<Rightarrow> bool \<Rightarrow> SessionChannel \<Rightarrow> bool" where
  "outcome ch ok ch' \<longleftrightarrow> steady ch ch' \<and> (\<not> ok \<longrightarrow> ch_failure ch' \<noteq> F_None)"

lemma outcome_True [simp]: "outcome ch True ch' = steady ch ch'"
  by (simp add: outcome_def)

lemma outcome_refl: "ch_failure ch \<noteq> F_None \<or> ok \<Longrightarrow> outcome ch ok ch"
  by (auto simp: outcome_def)

lemma outcome_Fail: "f \<noteq> F_None \<Longrightarrow> outcome ch ok (Fail ch f)"
  by (simp add: outcome_def steady_Fail Fail_failure)

lemma outcome_trans: "steady a b \<Longrightarrow> outcome b ok c \<Longrightarrow> outcome a ok c"
  by (auto simp: outcome_def intro: steady_trans)

section \<open>Clock and sending\<close>

lemma ObserveClock_cases:
  obtains (reversed) "ObserveClock ch now = (False, Fail ch F_ClockReversed)" "ch_observedClock ch" "now < ch_lastClock ch"
  | (forward) "ObserveClock ch now = (True, ch\<lparr>ch_observedClock := True, ch_lastClock := now\<rparr>)"
      "ch_observedClock ch \<longrightarrow> ch_lastClock ch \<le> now"
  by (cases "ch_observedClock ch \<and> now < ch_lastClock ch") (auto simp: ObserveClock_def not_less)

lemma steady_clock: "ch_observedClock ch \<longrightarrow> ch_lastClock ch \<le> now \<Longrightarrow>
    steady ch (ch\<lparr>ch_observedClock := True, ch_lastClock := now\<rparr>)"
  by (simp add: steady_defs)

lemma outcome_ObserveClock: "outcome ch (fst (ObserveClock ch now)) (snd (ObserveClock ch now))"
  by (cases rule: ObserveClock_cases [of ch now]) (simp_all add: outcome_Fail steady_clock)

lemma SendSession_outcome:
  assumes "SendSession T cfg t ch gate = (ok, t', ch')"
  shows "outcome ch ok ch'"
  using assms
  by (auto simp: SendSession_def Let_def count_sent_def outcome_Fail outcome_def steady_defs Fail_def
      split: prod.splits bool.splits if_splits)

lemma remote_loop_outcome:
  assumes body: "\<And>t ch peer ok t' ch'. body t ch peer = (ok, t', ch') \<Longrightarrow> outcome ch ok ch'"
  shows "remote_loop body t ch peers = (ok, t', ch') \<Longrightarrow> outcome ch ok ch'"
proof (induction peers arbitrary: t ch)
  case Nil
  then show ?case by simp
next
  case (Cons peer peers)
  obtain ok1 t1 c1 where b: "body t ch peer = (ok1, t1, c1)" by (metis prod_cases3)
  show ?case
  proof (cases "peer = sc_localPlayer (ch_session ch)")
    case True
    with Cons show ?thesis by simp
  next
    case False
    note c1 = body [OF b]
    show ?thesis
    proof (cases ok1)
      case True
      with c1 have "steady ch c1" by simp
      moreover have "remote_loop body t1 c1 peers = (ok, t', ch')" using Cons.prems False b True by simp
      ultimately show ?thesis using Cons.IH outcome_trans by blast
    next
      case False
      then show ?thesis using Cons.prems \<open>peer \<noteq> _\<close> b c1 by simp
    qed
  qed
qed

text \<open>One turn of the loop of \<^verbatim>\<open>SendInputs\<close>, with its intermediate values named.\<close>

definition stamped :: "RollbackCore \<Rightarrow> SessionChannel \<Rightarrow> u8 \<Rightarrow> InputPacket" where
  "stamped core ch peer = tag_packet ch peer
     (if rc_lastSimulatedFrame core = INVALID_FRAME then 0 else rc_lastSimulatedFrame core + 1)
     (BuildInputPacket core peer (LocalFrameForCapture core (ch_latestCapture ch)) (ch_sentSequence ch peer)
       (ch_receivedSequence ch peer))"

definition repair_due :: "u64 \<Rightarrow> InputPacket \<Rightarrow> SessionChannel \<Rightarrow> u8 \<Rightarrow> bool" where
  "repair_due now packet ch peer \<longleftrightarrow> (ip_inputCount packet \<noteq> 0 \<or> ch_peerNeedsAck ch peer) \<and>
     now - ch_lastRepair ch peer \<ge> cfg_repairIntervalMs (ch_policy ch)"

definition repaired_at :: "u64 \<Rightarrow> u8 \<Rightarrow> SessionChannel \<Rightarrow> SessionChannel" where
  "repaired_at now peer ch = ch\<lparr>ch_lastRepair := (ch_lastRepair ch)(peer := now)\<rparr>"

lemma steady_repaired_at: "steady ch (repaired_at now peer ch)"
  by (simp add: repaired_at_def steady_defs)

lemma send_peer_step:
  assumes "EncodeInputPacket cfg (stamped core (next_sequence ch peer) peer) [] = (enc, out)"
    and "(if bp then (False, t) else pt_SendTo T t peer out) = (sent, t1)"
    and "pt_SendRepairTo T t1 peer out = (rep, t2)"
    and "d = note_frontier core now peer (count_sent sent (next_sequence ch peer))"
  shows "send_peer T cfg core now bp t ch peer =
    (if \<not> enc then (False, t, Fail (next_sequence ch peer) F_InvalidCapture)
     else if repair_due now (stamped core (next_sequence ch peer) peer) d peer
     then (True, t2, repaired_at now peer (count_repair rep d)) else (True, t1, d))"
  by (simp add: send_peer_def Let_def stamped_def [symmetric] assms(1-3) assms(4) repair_due_def repaired_at_def
      split del: if_split split: bool.split cong: if_cong)

lemma send_peer_outcome:
  assumes "send_peer T cfg core now bp t ch peer = (ok, t', ch')"
  shows "outcome ch ok ch'"
proof -
  obtain enc out where enc: "EncodeInputPacket cfg (stamped core (next_sequence ch peer) peer) [] = (enc, out)"
    by fastforce
  obtain sent t1 where sent: "(if bp then (False, t) else pt_SendTo T t peer out) = (sent, t1)" by fastforce
  obtain rep t2 where rep: "pt_SendRepairTo T t1 peer out = (rep, t2)" by fastforce
  define d where "d = note_frontier core now peer (count_sent sent (next_sequence ch peer))"
  have d: "steady ch d" unfolding d_def
    by (rule steady_trans [OF steady_trans [OF steady_next_sequence steady_count_sent] steady_note_frontier])
  have e: "steady ch (repaired_at now peer (count_repair rep d))"
    by (rule steady_trans [OF steady_trans [OF d steady_count_repair] steady_repaired_at])
  have f: "outcome ch ok (Fail (next_sequence ch peer) F_InvalidCapture)"
    by (rule outcome_trans [OF steady_next_sequence outcome_Fail]) simp
  show ?thesis
    using assms d e f unfolding send_peer_step [OF enc sent rep d_def] by (auto split: if_splits)
qed

lemma fence_peer_outcome: "fence_peer T cfg core f bp t ch peer = (ok, t', ch') \<Longrightarrow> outcome ch ok ch'"
  by (auto simp: fence_peer_def Let_def outcome_def steady_defs Fail_def next_sequence_def count_sent_def
      count_repair_def split: prod.splits bool.splits if_splits)

lemma watch_peer_outcome: "watch_peer core now idle t ch peer = (ok, t', ch') \<Longrightarrow> outcome ch ok ch'"
  by (auto simp: watch_peer_def Let_def outcome_def steady_defs Fail_def split: prod.splits if_splits)

lemma send_loop_outcome:
  "remote_loop (send_peer T cfg core now bp) t ch peers = (ok, t', ch') \<Longrightarrow> outcome ch ok ch'"
  by (rule remote_loop_outcome [of "send_peer T cfg core now bp"]) (rule send_peer_outcome)

lemma fence_loop_outcome:
  "remote_loop (fence_peer T cfg core f bp) t ch peers = (ok, t', ch') \<Longrightarrow> outcome ch ok ch'"
  by (rule remote_loop_outcome [of "fence_peer T cfg core f bp"]) (rule fence_peer_outcome)

lemma watch_loop_outcome:
  "remote_loop (watch_peer core now idle) t ch peers = (ok, t', ch') \<Longrightarrow> outcome ch ok ch'"
  by (rule remote_loop_outcome [of "watch_peer core now idle"]) (rule watch_peer_outcome)

lemma SendInputs_outcome:
  assumes "SendInputs T cfg t ch core now force def = (ok, t', ch')"
  shows "outcome ch ok ch'"
proof -
  let ?bp = "pt_BufferedAmount T t > cfg_bufferedLimit (ch_policy ch)"
  let ?remotes = "filter (\<lambda>peer. peer \<noteq> sc_localPlayer (ch_session ch)) (seats (sc_playerCount (ch_session ch)))"
  let ?c = "ch\<lparr>ch_deferredInput := False\<rparr>"
  obtain sent t1 c1 where loop: "remote_loop (send_peer T cfg core now ?bp) t ?c
      (seats (sc_playerCount (ch_session ch))) = (sent, t1, c1)" by (metis prod_cases3)
  have "steady ch ?c" by (rule steady_same) simp_all
  then have c1: "outcome ch sent c1" using send_loop_outcome [OF loop] by (rule outcome_trans)
  define c2 where "c2 = (fold (note_frontier core now) ?remotes ch)\<lparr>ch_deferredInput := True\<rparr>"
  define c3 where "c3 = c1\<lparr>ch_nextInput := now + cfg_inputResendMs (ch_policy c1), ch_forceInputs := False\<rparr>"
  have "(ok = True \<and> ch' = ch) \<or> (ok = True \<and> ch' = c2) \<or> (\<not> sent \<and> ok = False \<and> ch' = c1) \<or>
      (sent \<and> ok = True \<and> ch' = c3)"
    using assms loop unfolding c2_def c3_def by (auto simp: SendInputs_def Let_def split: if_splits bool.splits)
  moreover have "steady ch c2"
    unfolding c2_def by (rule steady_trans [OF steady_fold_frontier]) (rule steady_same; simp)
  moreover have "steady ch c3"
  proof -
    have "steady c1 c3" unfolding c3_def by (rule steady_same) simp_all
    with c1 show ?thesis unfolding outcome_def by (metis steady_trans)
  qed
  ultimately show ?thesis using c1 by (elim disjE) (simp_all add: outcome_def)
qed

lemma FlushDeferredInputs_outcome:
  assumes "FlushDeferredInputs T cfg t ch core now = (ok, t', ch')"
  shows "outcome ch ok ch'"
proof (cases "ch_deferredInput ch")
  case True
  let ?c = "ch\<lparr>ch_deferredInput := False\<rparr>"
  obtain clock c1 where c: "ObserveClock ?c now = (clock, c1)" by fastforce
  have "steady ch ?c" by (rule steady_same) simp_all
  then have c1: "outcome ch clock c1" using outcome_ObserveClock [of ?c now] c by (auto intro: outcome_trans)
  show ?thesis
  proof (cases clock)
    case True
    have "SendInputs T cfg t c1 core now True False = (ok, t', ch')"
      using assms \<open>ch_deferredInput ch\<close> c True by (simp add: FlushDeferredInputs_def Let_def)
    then have "outcome c1 ok ch'" by (rule SendInputs_outcome)
    with c1 True show ?thesis using outcome_trans by simp
  next
    case False
    then show ?thesis using assms \<open>ch_deferredInput ch\<close> c c1 by (simp add: FlushDeferredInputs_def Let_def)
  qed
next
  case False
  then show ?thesis using assms by (simp add: FlushDeferredInputs_def)
qed

lemma LocalCaptured_outcome:
  assumes "LocalCaptured T cfg t ch core f now = (ok, t', ch')"
  shows "outcome ch ok ch'"
proof (cases "ch_failure ch \<noteq> F_None \<or> \<not> ch_active ch \<or> \<not> HasLocalCapture core f \<or> f = INVALID_FRAME \<or>
    (ch_latestCapture ch \<noteq> INVALID_FRAME \<and> f < ch_latestCapture ch)")
  case True
  then show ?thesis using assms
    by (auto simp: LocalCaptured_def outcome_Fail intro: outcome_refl split: if_splits)
next
  case False
  then have guard: "ch_failure ch = F_None" "ch_active ch" "HasLocalCapture core f" "f \<noteq> INVALID_FRAME"
    "(ch_latestCapture ch \<noteq> INVALID_FRAME \<and> f < ch_latestCapture ch) = False" by simp_all
  obtain clock c1 where c: "ObserveClock ch now = (clock, c1)" by fastforce
  have c1: "outcome ch clock c1" using outcome_ObserveClock [of ch now] c by simp
  define fresh where "fresh \<longleftrightarrow> ch_latestCapture c1 \<noteq> f"
  obtain flushed t2 c2 where f2: "(if ch_deferredInput c1 \<and> fresh \<and> f \<noteq> ch_latestCapture c1 + 1
      then FlushDeferredInputs T cfg t c1 core now else (True, t, c1)) = (flushed, t2, c2)" by (metis prod_cases3)
  then have c2: "outcome c1 flushed c2"
    using FlushDeferredInputs_outcome by (auto split: if_splits)
  define c3 where "c3 = (let ch = c2\<lparr>ch_latestCapture := f\<rparr> in
    if fresh \<and> cfg_adonisPhase (ch_policy ch) then ch\<lparr>ch_adonis := ObserveDue (ch_adonis ch) f (now * 1000)\<rparr> else ch)"
  have c3: "steady c2 c3" unfolding c3_def by (rule steady_same) (simp_all add: Let_def)
  have step: "LocalCaptured T cfg t ch core f now =
      (if \<not> clock then (False, t, c1) else if \<not> flushed then (False, t2, c2)
       else SendInputs T cfg t2 c3 core now fresh False)"
  proof (cases "ch_deferredInput c1 \<and> fresh \<and> f \<noteq> ch_latestCapture c1 + 1")
    case True
    then have "FlushDeferredInputs T cfg t c1 core now = (flushed, t2, c2)" using f2 unfolding if_P [OF True] by simp
    then show ?thesis using True unfolding LocalCaptured_def c3_def fresh_def by (simp add: guard c Let_def)
  next
    case False
    then have eqs: "flushed = True" "t2 = t" "c2 = c1" using f2 unfolding if_not_P [OF False] by simp_all
    show ?thesis using False unfolding LocalCaptured_def c3_def fresh_def eqs by (auto simp: guard c Let_def)
  qed
  show ?thesis
  proof (cases "clock \<and> flushed")
    case True
    then have "steady ch c1" "steady c1 c2" using c1 c2 by simp_all
    then have "steady ch c3" using c3 by (rule steady_trans [OF steady_trans])
    moreover have "outcome c3 ok ch'" using assms True step SendInputs_outcome by simp
    ultimately show ?thesis by (rule outcome_trans)
  next
    case False
    then show ?thesis using assms c1 c2 unfolding step by (auto simp: outcome_def intro: steady_trans split: if_splits)
  qed
qed

lemma FlushRetirementFence_outcome:
  assumes "FlushRetirementFence T cfg t ch core f now = (ok, t', ch')"
  shows "outcome ch ok ch'"
proof -
  obtain clock c1 where c: "ObserveClock ch now = (clock, c1)" by fastforce
  have c1: "outcome ch clock c1" using outcome_ObserveClock [of ch now] c by simp
  define bp where "bp \<longleftrightarrow> pt_BufferedAmount T t > cfg_bufferedLimit (ch_policy c1)"
  obtain sent t2 c2 where loop: "remote_loop (fence_peer T cfg core f bp) t c1
      (seats (sc_playerCount (ch_session c1))) = (sent, t2, c2)" by (metis prod_cases3)
  define c3 where "c3 = c2\<lparr>ch_nextRetirementFence := now + cfg_inputResendMs (ch_policy c2)\<rparr>"
  have step: "FlushRetirementFence T cfg t ch core f now =
      (if ch_failure ch \<noteq> F_None then (False, t, ch)
       else if \<not> FlushRetirementFence_ready ch core f then (False, t, Fail ch F_InvalidRetirement)
       else if \<not> clock then (False, t, c1)
       else if pt_Failed T t then (False, t, Fail c1 F_Transport)
       else if \<not> pt_IsOpen T t \<or> now < ch_nextRetirementFence c1 then (True, t, c1)
       else if \<not> sent then (False, t2, c2) else (True, t2, c3))"
    using c loop by (simp add: FlushRetirementFence_def Let_def bp_def c3_def split del: if_split split: bool.split cong: if_cong)
  have c3: "steady c2 c3" unfolding c3_def by (rule steady_same) simp_all
  note c2 = fence_loop_outcome [OF loop]
  show ?thesis
    using assms c1 c2 c3 unfolding step
    by (auto simp: outcome_def steady_Fail Fail_failure intro: steady_trans split: if_splits)
qed

section \<open>Receiving\<close>

text \<open>
  \<open>received ch gate ch' gate'\<close>: the channel is a later one, except that it may have forgotten that peers
  whose HELLO the gate knows still need the terminal acknowledgement.
\<close>

definition received :: "SessionChannel \<Rightarrow> SessionGate \<Rightarrow> SessionChannel \<Rightarrow> SessionGate \<Rightarrow> bool" where
  "received ch gate ch' gate' \<longleftrightarrow> keeps_failure ch ch' \<and> keeps_clock ch ch' \<and> keeps_session ch ch' \<and>
     keeps_retired ch ch' \<and> (\<forall>p. sg_peerHello gate p \<longrightarrow> sg_peerHello gate' p) \<and>
     (\<forall>p. ch_previousNeeded ch p \<longrightarrow> ch_previousNeeded ch' p \<or> sg_peerHello gate' p)"

lemma received_steady: "steady ch ch' \<Longrightarrow> received ch gate ch' gate"
  by (simp add: received_def steady_def)

lemma received_trans: "received ch gate ch1 gate1 \<Longrightarrow> received ch1 gate1 ch2 gate2 \<Longrightarrow> received ch gate ch2 gate2"
  by (auto simp: received_def keeps_failure_def keeps_clock_def keeps_session_def keeps_retired_def)

lemma Gate_Apply_hello:
  assumes "Gate_Apply gate packet = (r, gate')"
  shows "\<forall>p. sg_peerHello gate p \<longrightarrow> sg_peerHello gate' p"
    "r \<in> {SPR_Accepted, SPR_Duplicate} \<Longrightarrow> sp_phase packet = Hello \<Longrightarrow> sg_peerHello gate' (sp_senderPlayer packet)"
  using assms by (auto simp: Gate_Apply_def Let_def split: if_splits)

lemma receive_phase_outcome: "receive_phase ch s = (ok, ch') \<Longrightarrow> outcome ch ok ch'"
  by (auto simp: receive_phase_def Let_def outcome_def steady_defs Fail_def split: prod.splits if_splits)

lemma steady_note_input: "steady ch (note_input ch packet now advanced n)"
proof -
  define c1 where "c1 = (if cfg_adonisPhase (ch_policy ch) then observe_arrivals ch packet now else ch)"
  define c2 where "c2 = (if advanced then c1\<lparr>ch_forceInputs := True\<rparr> else c1)"
  have 1: "steady ch c1" by (simp add: c1_def steady_observe_arrivals)
  have 2: "steady c1 c2" unfolding c2_def by (rule steady_same) simp_all
  have "note_input ch packet now advanced n = observe_newest c2 packet n"
    by (simp only: note_input_def c1_def c2_def Let_def)
  then show ?thesis using steady_trans [OF steady_trans [OF 1 2] steady_observe_newest] by simp
qed

lemma receive_input_outcome:
  assumes "receive_input cfg ch core now packet = (ok, ch', core')"
  shows "outcome ch ok ch'"
proof -
  have "steady ch (ch\<lparr>ch_ignored := ch_ignored ch + 1\<rparr>)" by (rule steady_same) simp_all
  then show ?thesis using assms steady_note_input
    by (auto simp: receive_input_def Let_def outcome_Fail split: prod.splits if_splits)
qed

lemma receive_session_received:
  assumes "receive_session ch gate now packet = (ok, ch', gate')"
  shows "received ch gate ch' gate' \<and> (\<not> ok \<longrightarrow> ch_failure ch' \<noteq> F_None)"
proof (cases "\<not> ch_active ch \<or> sp_sessionId packet \<noteq> sc_sessionId (ch_session ch)")
  case True
  then show ?thesis using assms
    by (auto simp: receive_session_def received_def keeps_failure_def keeps_clock_def keeps_session_def keeps_retired_def)
next
  case False
  obtain r g where g: "Gate_Apply gate packet = (r, g)" by fastforce
  note hello = Gate_Apply_hello [OF g]
  have r: "r = SPR_Accepted \<or> r = SPR_Duplicate \<or> r = SPR_ContractMismatch \<or> r = SPR_InvalidPeer \<or> r = SPR_ReadyBeforeHello"
    by (cases r) auto
  show ?thesis
    using assms False hello r unfolding receive_session_def
    by (auto simp: g Let_def received_def keeps_failure_def keeps_clock_def keeps_session_def keeps_retired_def Fail_def
        split: if_splits)
qed

lemma receive_packet_received:
  assumes "receive_packet cfg ch gate core now data = (ok, ch', gate', core')"
  shows "received ch gate ch' gate' \<and> (\<not> ok \<longrightarrow> ch_failure ch' \<noteq> F_None)"
proof -
  let ?c = "ch\<lparr>ch_received := ch_received ch + 1\<rparr>"
  have c: "received ch gate ?c gate" by (rule received_steady, rule steady_same) simp_all
  have fail: "received ch gate (Fail ?c F_MalformedPacket) gate"
    by (rule received_trans [OF c received_steady [OF steady_Fail]])
  have out: "received ch gate c1 gate \<and> (\<not> b \<longrightarrow> ch_failure c1 \<noteq> F_None)" if "outcome ?c b c1" for b c1
    using that received_trans [OF c received_steady] by (auto simp: outcome_def)
  have ses: "received ch gate c1 g1 \<and> (\<not> b \<longrightarrow> ch_failure c1 \<noteq> F_None)"
    if "receive_session ?c gate now packet = (b, c1, g1)" for b c1 g1 packet
    using receive_session_received [OF that] received_trans [OF c] by blast
  show ?thesis
    using assms fail Fail_failure [of F_MalformedPacket ?c] unfolding receive_packet_def Let_def
    by (auto dest!: receive_phase_outcome receive_input_outcome out ses
        split: option.splits PacketType.splits if_splits prod.splits)
qed

lemma receive_loop_received:
  "receive_loop T cfg now n t ch gate core = (ok, t', ch', gate', core') \<Longrightarrow>
   received ch gate ch' gate' \<and> (\<not> ok \<longrightarrow> ch_failure ch' \<noteq> F_None)"
proof (induction n arbitrary: t ch gate core)
  case 0
  then show ?case by (simp add: received_steady)
next
  case (Suc n)
  obtain d t1 where p: "pt_Poll T t = (d, t1)" by fastforce
  show ?case
  proof (cases d)
    case None
    then show ?thesis using Suc.prems p by (simp add: received_steady)
  next
    case (Some data)
    obtain b c1 g1 r1 where r: "receive_packet cfg ch gate core now data = (b, c1, g1, r1)" by (metis prod_cases4)
    note c1 = receive_packet_received [OF r]
    show ?thesis
    proof (cases b)
      case True
      then have "receive_loop T cfg now n t1 c1 g1 r1 = (ok, t', ch', gate', core')"
        using Suc.prems p Some r by simp
      from Suc.IH [OF this] c1 received_trans show ?thesis by blast
    next
      case False
      then show ?thesis using Suc.prems p Some r c1 by simp
    qed
  qed
qed

lemma Receive_received:
  "Receive T cfg t ch gate core now = (ok, t', ch', gate', core') \<Longrightarrow>
   received ch gate ch' gate' \<and> (\<not> ok \<longrightarrow> ch_failure ch' \<noteq> F_None)"
  unfolding Receive_def by (rule receive_loop_received)

end
