(* ===== verification/ChannelPump.thy ===== *)
theory ChannelPump
  imports ChannelLemmas CoreDriver
begin

text \<open>
  The retirement and the pump of the session channel: which results they can have, in terms of the
  preorder of \<open>ChannelLemmas\<close>, and how they drive the gate and the core.
\<close>

section \<open>Retirement\<close>

lemma retired_peers_steady: "retired_peers T t ch peers = (t', ch') \<Longrightarrow> steady ch ch'"
proof (induction peers arbitrary: t ch)
  case Nil
  then show ?case by simp
next
  case (Cons peer peers)
  obtain r t1 where r: "pt_SendRepairTo T t peer (ch_terminalAcks ch peer) = (r, t1)" by fastforce
  obtain s t2 where s: "pt_SendTo T t1 peer (ch_terminalAcks ch peer) = (s, t2)" by fastforce
  have "retired_peers T t ch peers = (t', ch') \<or> retired_peers T t1 (count_repair True ch) peers = (t', ch') \<or>
      retired_peers T t2 (count_sent s ch) peers = (t', ch')"
    using Cons.prems r s by (auto split: if_splits)
  then show ?case
    using Cons.IH steady_trans [OF steady_count_repair] steady_trans [OF steady_count_sent] by blast
qed

definition owed :: "SessionChannel \<Rightarrow> u8 \<Rightarrow> bool" where
  "owed ch peer \<longleftrightarrow> ch_previousSession ch \<noteq> 0 \<and> peer < ch_previousCount ch \<and> peer < MAX_PLAYERS \<and>
     peer \<noteq> ch_previousLocal ch \<and> ch_previousNeeded ch peer"

lemma SendRetired_result:
  assumes "SendRetired T t ch now = (ok, t', ch')"
  shows "ok" "keeps_failure ch ch'" "keeps_clock ch ch'" "keeps_session ch ch'"
    "owed ch peer \<Longrightarrow> steady ch ch'"
proof -
  let ?pending = "list_ex (\<lambda>peer. \<not> (peer = ch_previousLocal ch \<or> \<not> ch_previousNeeded ch peer))
    (seats (ch_previousCount ch))"
  obtain t1 c1 where r: "retired_peers T t ch (seats (ch_previousCount ch)) = (t1, c1)" by fastforce
  define c2 where "c2 = (if ?pending then c1 else forget_retired c1)
    \<lparr>ch_nextRetiredSend := now + cfg_inputResendMs (ch_policy (if ?pending then c1 else forget_retired c1))\<rparr>"
  have step: "SendRetired T t ch now =
     (if ch_previousSession ch = 0 then (True, t, ch)
      else if \<not> list_ex (ch_previousNeeded ch) (seats MAX_PLAYERS) then (True, t, forget_retired ch)
      else if now < ch_nextRetiredSend ch \<or> \<not> pt_IsOpen T t then (True, t, ch)
      else (True, t1, c2))"
    using r by (simp add: SendRetired_def Let_def c2_def)
  note c1 = retired_peers_steady [OF r]
  have weak: "keeps_failure ch c2 \<and> keeps_clock ch c2 \<and> keeps_session ch c2"
    using c1 by (simp add: c2_def forget_retired_def steady_defs)
  show "ok" using assms unfolding step by (simp split: if_splits)
  have f: "keeps_failure ch (forget_retired ch) \<and> keeps_clock ch (forget_retired ch) \<and> keeps_session ch (forget_retired ch)"
    by (simp add: forget_retired_def keeps_failure_def keeps_clock_def keeps_session_def)
  have same: "keeps_failure ch ch \<and> keeps_clock ch ch \<and> keeps_session ch ch"
    by (simp add: keeps_failure_def keeps_clock_def keeps_session_def)
  have "ch' = ch \<or> ch' = forget_retired ch \<or> ch' = c2" using assms unfolding step by (simp split: if_splits)
  then show "keeps_failure ch ch'" "keeps_clock ch ch'" "keeps_session ch ch'" using weak f same by auto
  assume "owed ch peer"
  then have p: "ch_previousSession ch \<noteq> 0" "list_ex (ch_previousNeeded ch) (seats MAX_PLAYERS)" "?pending"
    by (auto simp: owed_def list_ex_iff)
  have "steady c1 c2" unfolding c2_def if_P [OF p(3)] by (rule steady_same) simp_all
  then have "steady ch c2" using c1 steady_trans by blast
  moreover have "ch' = ch \<or> ch' = c2" using assms p unfolding step by (simp split: if_splits)
  ultimately show "steady ch ch'" by auto
qed

lemma PumpRetirement_result:
  assumes "PumpRetirement T t ch now = (ok, t', ch')"
  shows "keeps_failure ch ch'" "keeps_clock ch ch'" "keeps_session ch ch'" "\<not> ok \<Longrightarrow> ch_failure ch' \<noteq> F_None"
    "owed ch peer \<Longrightarrow> steady ch ch'"
proof -
  obtain clock c1 where c: "ObserveClock ch now = (clock, c1)" by fastforce
  obtain ok2 t2 c2 where s: "SendRetired T t c1 now = (ok2, t2, c2)" by (metis prod_cases3)
  have c1: "outcome ch clock c1" using outcome_ObserveClock [of ch now] c by simp
  have step: "PumpRetirement T t ch now =
      (if ch_failure ch \<noteq> F_None then (False, t, ch)
       else if ch_active ch then (False, t, Fail ch F_InvalidRetirement)
       else if \<not> clock then (False, t, c1) else if pt_Failed T t then (False, t, Fail c1 F_Transport)
       else (ok2, t2, c2))"
    using c s by (simp add: PumpRetirement_def Let_def)
  note s2 = SendRetired_result [OF s]
  have st: "steady ch c1" using c1 by (simp add: outcome_def)
  have w: "keeps_failure ch c2 \<and> keeps_clock ch c2 \<and> keeps_session ch c2"
    using st s2(2-4) by (auto simp: steady_def keeps_failure_def keeps_clock_def keeps_session_def)
  have cases: "outcome ch ok ch' \<or> (ok \<and> ch' = c2)"
    using assms c1 s2(1) steady_trans [OF st steady_Fail] Fail_failure [of F_Transport c1]
    unfolding step by (auto simp: outcome_def steady_Fail Fail_failure split: if_splits)
  then show "keeps_failure ch ch'" "keeps_clock ch ch'" "keeps_session ch ch'" "\<not> ok \<Longrightarrow> ch_failure ch' \<noteq> F_None"
    using w by (auto simp: outcome_def steady_def)
  assume "owed ch peer"
  then have "owed c1 peer" using st by (simp add: owed_def steady_def keeps_retired_def)
  then have "steady c1 c2" using s2(5) by blast
  then show "steady ch ch'" using cases st steady_trans by (auto simp: outcome_def)
qed

section \<open>The pump\<close>

lemma send_samples_steady: "send_samples T n t ch = (t', ch') \<Longrightarrow> steady ch ch'"
proof (induction n arbitrary: t ch)
  case 0
  then show ?case by simp
next
  case (Suc n)
  obtain sample adonis where p: "PollLocalSample (ch_adonis ch) = (sample, adonis)" by fastforce
  have a: "steady ch (ch\<lparr>ch_adonis := adonis\<rparr>)" by (rule steady_same) simp_all
  show ?case
  proof (cases sample)
    case None
    then show ?thesis using Suc.prems p a by simp
  next
    case (Some s)
    obtain encoded out where e: "EncodeAdonisPhaseSample s [] = (encoded, out)" by fastforce
    obtain ok t1 where o1: "(if encoded \<and> pt_BufferedAmount T t \<le> cfg_bufferedLimit (ch_policy (ch\<lparr>ch_adonis := adonis\<rparr>))
      then pt_SendControl T t out else (False, t)) = (ok, t1)" by fastforce
    have "send_samples T n t1 (count_sent ok (ch\<lparr>ch_adonis := adonis\<rparr>)) = (t', ch')"
      using Suc.prems unfolding send_samples.simps Let_def p prod.case Some option.case e o1 .
    then show ?thesis using Suc.IH steady_trans [OF a] steady_trans [OF steady_count_sent] by blast
  qed
qed

lemma MarkLocalReady_hello: "sg_peerHello (MarkLocalReady gate) = sg_peerHello gate"
  by (simp add: MarkLocalReady_def)

lemma pump_control_outcome:
  assumes "pump_control T cfg t ch gate now = (ok, t', ch', gate')"
  shows "outcome ch ok ch'" "gate' = gate \<or> gate' = MarkLocalReady gate"
proof -
  obtain g c where gc: "(if CanSendReady gate \<and> \<not> sg_localReady gate
    then (MarkLocalReady gate, ch\<lparr>ch_forceControl := True\<rparr>) else (gate, ch)) = (g, c)" by fastforce
  then have c: "steady ch c" and g: "g = gate \<or> g = MarkLocalReady gate"
    by (auto simp: steady_defs split: if_splits)
  obtain sent t1 c1 where s: "SendSession T cfg t c g = (sent, t1, c1)" by (metis prod_cases3)
  have c1: "outcome ch sent c1" using SendSession_outcome [OF s] by (rule outcome_trans [OF c])
  define c2 where "c2 = c1\<lparr>ch_forceControl := False, ch_nextControl := now + cfg_controlResendMs (ch_policy c1)\<rparr>"
  have c2: "steady c1 c2" unfolding c2_def by (rule steady_same) simp_all
  have step: "pump_control T cfg t ch gate now =
      (if pt_IsOpen T t \<and> (ch_forceControl c \<or> (\<not> CanStart g \<and> now \<ge> ch_nextControl c))
       then if \<not> sent then (False, t1, c1, g) else (True, t1, c2, g) else (True, t, c, g))"
    unfolding pump_control_def gc Let_def prod.case s c2_def by (cases sent) auto
  show "outcome ch ok ch'"
    using assms c c1 c2 unfolding step by (auto simp: outcome_def intro: steady_trans split: if_splits)
  show "gate' = gate \<or> gate' = MarkLocalReady gate" using assms g unfolding step by (auto split: if_splits)
qed

lemma pump_active_outcome:
  assumes "pump_active T cfg t ch gate core now expects def = (ok, t', ch', gate')"
  shows "outcome ch ok ch'" "gate' = gate \<or> gate' = MarkLocalReady gate"
proof -
  obtain a t1 c1 g where p: "pump_control T cfg t ch gate now = (a, t1, c1, g)" by (metis prod_cases4)
  obtain b t2 c2 where s: "SendInputs T cfg t1 c1 core now (ch_forceInputs c1) (def \<and> expects \<and> CanStart g) = (b, t2, c2)"
    by (metis prod_cases3)
  obtain t3 c3 where q: "(if cfg_adonisPhase (ch_policy c2) \<and> CanStart g \<and> pt_IsOpen T t2
      then send_samples T (unat MAX_PLAYERS) t2 c2 else (t2, c2)) = (t3, c3)" by fastforce
  define idle where "idle \<longleftrightarrow> pt_Recovering T t3 \<or> \<not> expects \<or> \<not> CanStart g \<or> ch_latestCapture c3 = INVALID_FRAME"
  obtain d t4 c4 where w: "remote_loop (watch_peer core now idle) t3 c3 (seats (sc_playerCount (ch_session c3))) = (d, t4, c4)"
    by (metis prod_cases3)
  have step: "pump_active T cfg t ch gate core now expects def =
      (if \<not> pt_Recovering T t \<and> \<not> CanStart gate \<and> now - ch_beginTime ch \<ge> cfg_connectTimeoutMs (ch_policy ch)
       then (False, t, Fail ch F_HandshakeTimeout, gate)
       else if \<not> a then (False, t1, c1, g) else if \<not> b then (False, t2, c2, g) else (d, t4, c4, g))"
    unfolding pump_active_def p prod.case s Let_def q idle_def [symmetric] w by (simp split: bool.split)
  note c1 = pump_control_outcome [OF p]
  note c2 = SendInputs_outcome [OF s]
  have c3: "steady c2 c3" using q send_samples_steady by (auto split: if_splits)
  note c4 = watch_loop_outcome [OF w]
  have f: "outcome ch ok (Fail ch F_HandshakeTimeout)" by (rule outcome_Fail) simp
  have 1: "steady ch c1" "steady ch c2" "steady ch c3" "steady ch c4"
    using c1(1) c2 c3 c4 unfolding outcome_def by (blast intro: steady_trans)+
  have "(ok = False \<and> ch' = Fail ch F_HandshakeTimeout) \<or> (ok = False \<and> \<not> a \<and> ch' = c1) \<or>
      (ok = False \<and> \<not> b \<and> ch' = c2) \<or> (ok = d \<and> ch' = c4)"
    using assms unfolding step by (auto split: if_splits)
  then show "outcome ch ok ch'"
    using f 1 c1(1) c2 c4 unfolding outcome_def by auto
  show "gate' = gate \<or> gate' = MarkLocalReady gate" using assms c1(2) unfolding step by (auto split: if_splits)
qed

section \<open>What a pump does to the gate and the core\<close>

text \<open>
  A packet changes the gate only through \<^verbatim>\<open>Apply\<close> and the core only through \<^verbatim>\<open>ApplyInputPacket\<close>, with
  a decoded packet of the channel's own session. The effect of a pump is therefore a function of the
  buffers it polls: \<open>polled\<close> are the buffers of at most \<open>n\<close> polls, and \<open>own_sessions\<close> and
  \<open>own_inputs\<close> the packets of the channel's session among some buffers.
\<close>

fun polled :: "'t PeerTransport \<Rightarrow> nat \<Rightarrow> 't \<Rightarrow> bytes list" where
  "polled T 0 t = []"
| "polled T (Suc n) t = (case pt_Poll T t of (None, _) \<Rightarrow> [] | (Some data, t') \<Rightarrow> data # polled T n t')"

definition own_sessions :: "ProtocolConfig \<Rightarrow> SessionChannel \<Rightarrow> bytes list \<Rightarrow> SessionPacket list" where
  "own_sessions cfg ch buffers = filter (\<lambda>packet. ch_active ch \<and> sp_sessionId packet = sc_sessionId (ch_session ch))
     (List.map_filter (DecodeSessionPacket cfg) buffers)"

definition own_inputs :: "ProtocolConfig \<Rightarrow> SessionChannel \<Rightarrow> bytes list \<Rightarrow> InputPacket list" where
  "own_inputs cfg ch buffers = filter (\<lambda>packet. ch_active ch \<and> ip_sessionId packet = sc_sessionId (ch_session ch))
     (List.map_filter (DecodeInputPacket cfg) buffers)"

definition apply_sessions :: "SessionPacket list \<Rightarrow> SessionGate \<Rightarrow> SessionGate" where
  "apply_sessions packets gate = fold (\<lambda>packet gate. snd (Gate_Apply gate packet)) packets gate"

definition apply_inputs :: "ProtocolConfig \<Rightarrow> InputPacket list \<Rightarrow> RollbackCore \<Rightarrow> RollbackCore" where
  "apply_inputs cfg packets core = fold (\<lambda>packet core. snd (snd (ApplyInputPacket cfg core packet))) packets core"

text \<open>The input packets are accepted one after the other, each from a remote seat of the session.\<close>

definition own_input :: "SessionConfig \<Rightarrow> InputPacket \<Rightarrow> bool" where
  "own_input session packet \<longleftrightarrow> ip_sessionId packet = sc_sessionId session \<and>
     ip_playerCount packet = sc_playerCount session \<and>
     ip_senderPlayer packet < sc_playerCount session \<and> ip_senderPlayer packet \<noteq> sc_localPlayer session"

fun all_accepted :: "ProtocolConfig \<Rightarrow> SessionConfig \<Rightarrow> InputPacket list \<Rightarrow> RollbackCore \<Rightarrow> bool" where
  "all_accepted cfg session [] core = True"
| "all_accepted cfg session (packet # packets) core =
     (own_input session packet \<and> fst (ApplyInputPacket cfg core packet) \<and>
      all_accepted cfg session packets (snd (snd (ApplyInputPacket cfg core packet))))"

lemma own_Cons:
  "own_sessions cfg ch (a # b) = own_sessions cfg ch [a] @ own_sessions cfg ch b"
  "own_inputs cfg ch (a # b) = own_inputs cfg ch [a] @ own_inputs cfg ch b"
  by (simp_all add: own_sessions_def own_inputs_def map_filter_def)

lemma own_Nil [simp]: "own_sessions cfg ch [] = []" "own_inputs cfg ch [] = []"
  by (simp_all add: own_sessions_def own_inputs_def map_filter_def)

lemma own_same:
  "keeps_session ch ch' \<Longrightarrow> own_sessions cfg ch' buffers = own_sessions cfg ch buffers"
  "keeps_session ch ch' \<Longrightarrow> own_inputs cfg ch' buffers = own_inputs cfg ch buffers"
  by (simp_all add: own_sessions_def own_inputs_def keeps_session_def)

lemma apply_append [simp]:
  "apply_sessions (a @ b) gate = apply_sessions b (apply_sessions a gate)"
  "apply_inputs cfg (c @ d) core = apply_inputs cfg d (apply_inputs cfg c core)"
  by (simp_all add: apply_sessions_def apply_inputs_def)

lemma apply_simps [simp]:
  "apply_sessions [] gate = gate" "apply_sessions [p] gate = snd (Gate_Apply gate p)"
  "apply_inputs cfg [] core = core" "apply_inputs cfg [q] core = snd (snd (ApplyInputPacket cfg core q))"
  by (simp_all add: apply_sessions_def apply_inputs_def)

lemma all_accepted_append:
  "all_accepted cfg session (a @ b) core \<longleftrightarrow>
     all_accepted cfg session a core \<and> all_accepted cfg session b (apply_inputs cfg a core)"
  by (induction a arbitrary: core) (auto simp: apply_inputs_def)

lemma refused_unchanged: "ApplyInputPacket cfg core packet = (False, worst, c) \<Longrightarrow> c = core"
  using Apply_accepts_iff [of cfg core packet] Apply_state [of cfg core packet] by auto

lemma receive_input_drives:
  assumes "receive_input cfg ch core now packet = (ok, ch', core')"
  shows "\<not> ok \<Longrightarrow> core' = core"
    and "ok \<Longrightarrow> ch_active ch \<and> ip_sessionId packet = sc_sessionId (ch_session ch) \<Longrightarrow>
      own_input (ch_session ch) packet \<and> fst (ApplyInputPacket cfg core packet) \<and>
      core' = snd (snd (ApplyInputPacket cfg core packet))"
    and "\<not> (ch_active ch \<and> ip_sessionId packet = sc_sessionId (ch_session ch)) \<Longrightarrow> core' = core"
proof -
  obtain a worst c where ap: "ApplyInputPacket cfg core packet = (a, worst, c)" by (metis prod_cases3)
  show "\<not> ok \<Longrightarrow> core' = core"
    using assms ap refused_unchanged [of cfg core packet worst c] by (auto simp: receive_input_def Let_def split: if_splits)
  show "\<not> (ch_active ch \<and> ip_sessionId packet = sc_sessionId (ch_session ch)) \<Longrightarrow> core' = core"
    using assms by (auto simp: receive_input_def split: if_splits)
  assume "ok" "ch_active ch \<and> ip_sessionId packet = sc_sessionId (ch_session ch)"
  then show "own_input (ch_session ch) packet \<and> fst (ApplyInputPacket cfg core packet) \<and>
      core' = snd (snd (ApplyInputPacket cfg core packet))"
    using assms ap by (auto simp: receive_input_def own_input_def input_refusal_def Let_def not_le split: if_splits)
qed

lemma receive_session_drives:
  assumes "receive_session ch gate now packet = (ok, ch', gate')"
  shows "\<not> ok \<Longrightarrow> gate' = gate"
    and "gate' = (if ch_active ch \<and> sp_sessionId packet = sc_sessionId (ch_session ch)
      then snd (Gate_Apply gate packet) else gate)"
proof -
  obtain r g where g: "Gate_Apply gate packet = (r, g)" by fastforce
  show "\<not> ok \<Longrightarrow> gate' = gate"
    using assms g Gate_Apply_refused [OF g] by (auto simp: receive_session_def Let_def split: if_splits)
  show "gate' = (if ch_active ch \<and> sp_sessionId packet = sc_sessionId (ch_session ch)
      then snd (Gate_Apply gate packet) else gate)"
    using assms g by (auto simp: receive_session_def Let_def split: if_splits)
qed

text \<open>A buffer is of at most one kind, so each handler sees exactly the packets its decoder accepts.\<close>

lemma adonis_buffer: "DecodeAdonisPhaseSample data = Some s \<Longrightarrow>
    DecodeSessionPacket cfg data = None \<and> DecodeInputPacket cfg data = None"
proof -
  assume s: "DecodeAdonisPhaseSample data = Some s"
  then have len: "length data = 28" by (auto simp: DecodeAdonisPhaseSample_def split: if_splits)
  have "DecodeSessionPacket cfg data = None"
    using len DecodeSessionPacket_fields(2) [of cfg data] by (cases "DecodeSessionPacket cfg data") auto
  moreover have "DecodeInputPacket cfg data = None"
    using len DecodeInputPacket_fields(4) [of cfg data] by (cases "DecodeInputPacket cfg data") auto
  ultimately show ?thesis by simp
qed

lemma buffer_kinds:
  "DecodeSessionPacket cfg data = Some p \<Longrightarrow>
     PeekPacketType cfg data = Some PT_Session \<and> DecodeInputPacket cfg data = None"
  "DecodeInputPacket cfg data = Some q \<Longrightarrow>
     PeekPacketType cfg data = Some PT_Input \<and> DecodeSessionPacket cfg data = None"
  using packet_kinds(1,2) [of cfg data] by simp_all

lemma receive_packet_False:
  assumes "receive_packet cfg ch gate core now data = (False, ch', gate', core')"
  shows "gate' = gate" "core' = core"
  using assms unfolding receive_packet_def Let_def
  by (auto dest!: receive_input_drives(1) receive_session_drives(1)
      split: option.splits PacketType.splits if_splits prod.splits)

lemma receive_packet_True:
  assumes "receive_packet cfg ch gate core now data = (True, ch', gate', core')"
  shows "gate' = apply_sessions (own_sessions cfg ch [data]) gate"
    and "core' = apply_inputs cfg (own_inputs cfg ch [data]) core"
    and "all_accepted cfg (ch_session ch) (own_inputs cfg ch [data]) core"
proof -
  let ?ch = "ch\<lparr>ch_received := ch_received ch + 1\<rparr>"
  have "gate' = apply_sessions (own_sessions cfg ch [data]) gate \<and>
    core' = apply_inputs cfg (own_inputs cfg ch [data]) core \<and>
    all_accepted cfg (ch_session ch) (own_inputs cfg ch [data]) core"
  proof (cases "DecodeAdonisPhaseSample data")
    case (Some s)
    then show ?thesis using assms adonis_buffer [OF Some, of cfg]
      by (simp add: receive_packet_def own_sessions_def own_inputs_def map_filter_def split: prod.splits)
  next
    case None
    have step: "(case PeekPacketType cfg data of
              None \<Rightarrow> (False, Fail ?ch F_MalformedPacket, gate, core)
            | Some PT_Session \<Rightarrow>
                (case DecodeSessionPacket cfg data of
                   None \<Rightarrow> (False, Fail ?ch F_MalformedPacket, gate, core)
                 | Some packet \<Rightarrow>
                     (let (ok, ch, gate) = receive_session ?ch gate now packet in (ok, ch, gate, core)))
            | Some PT_Input \<Rightarrow>
                (case DecodeInputPacket cfg data of
                   None \<Rightarrow> (False, Fail ?ch F_MalformedPacket, gate, core)
                 | Some packet \<Rightarrow>
                     (let (ok, ch, core) = receive_input cfg ?ch core now packet in (ok, ch, gate, core)))
            | Some PT_SpectatorFrame \<Rightarrow> (False, Fail ?ch F_MalformedPacket, gate, core)) = (True, ch', gate', core')"
      using assms unfolding receive_packet_def Let_def None by (simp split: if_splits)
    then consider (session) packet where "DecodeSessionPacket cfg data = Some packet"
        "receive_session ?ch gate now packet = (True, ch', gate')" "core' = core"
      | (input) packet where "DecodeInputPacket cfg data = Some packet"
        "receive_input cfg ?ch core now packet = (True, ch', core')" "gate' = gate"
      by (auto split: option.splits PacketType.splits prod.splits)
    then show ?thesis
    proof cases
      case (session packet)
      have "DecodeInputPacket cfg data = None" using buffer_kinds(1) [OF session(1)] by simp
      with session(1,3) receive_session_drives(2) [OF session(2)] show ?thesis
        by (simp add: own_sessions_def own_inputs_def map_filter_def)
    next
      case (input packet)
      have "DecodeSessionPacket cfg data = None" using buffer_kinds(2) [OF input(1)] by simp
      with input(1,3) receive_input_drives(2,3) [OF input(2)] show ?thesis
        by (cases "ch_active ch \<and> ip_sessionId packet = sc_sessionId (ch_session ch)")
          (auto simp: own_sessions_def own_inputs_def map_filter_def)
    qed
  qed
  then show "gate' = apply_sessions (own_sessions cfg ch [data]) gate"
    "core' = apply_inputs cfg (own_inputs cfg ch [data]) core"
    "all_accepted cfg (ch_session ch) (own_inputs cfg ch [data]) core" by simp_all
qed

text \<open>
  \<open>handled cfg ch buffers gate core gate' core'\<close>: the gate and the core result from the packets of the
  channel's session among \<open>buffers\<close>, in their order.
\<close>

definition handled :: "ProtocolConfig \<Rightarrow> SessionChannel \<Rightarrow> bytes list \<Rightarrow> SessionGate \<Rightarrow> RollbackCore \<Rightarrow>
    SessionGate \<Rightarrow> RollbackCore \<Rightarrow> bool" where
  "handled cfg ch buffers gate core gate' core' \<longleftrightarrow>
     gate' = apply_sessions (own_sessions cfg ch buffers) gate \<and>
     core' = apply_inputs cfg (own_inputs cfg ch buffers) core \<and>
     all_accepted cfg (ch_session ch) (own_inputs cfg ch buffers) core"

lemma handled_Nil [simp]: "handled cfg ch [] gate core gate core"
  by (simp add: handled_def)

lemma handled_Cons:
  assumes "receive_packet cfg ch gate core now data = (True, c1, g1, r1)" "handled cfg c1 buffers g1 r1 gate' core'"
  shows "handled cfg ch (data # buffers) gate core gate' core'"
proof -
  have k: "keeps_session ch c1" using receive_packet_received [OF assms(1)] by (simp add: received_def)
  then have "ch_session c1 = ch_session ch" by (simp add: keeps_session_def)
  with assms(2) receive_packet_True [OF assms(1)] own_same [OF k, of cfg buffers] show ?thesis
    by (simp add: handled_def all_accepted_append own_Cons [of cfg ch data buffers])
qed

lemma receive_loop_handled:
  "receive_loop T cfg now n t ch gate core = (ok, t', ch', gate', core') \<Longrightarrow>
   \<exists>k. handled cfg ch (take k (polled T n t)) gate core gate' core' \<and> (ok \<longrightarrow> length (polled T n t) \<le> k)"
proof (induction n arbitrary: t ch gate core)
  case 0
  then show ?case by (intro exI [of _ 0]) simp
next
  case (Suc n)
  obtain d t1 where p: "pt_Poll T t = (d, t1)" by fastforce
  show ?case
  proof (cases d)
    case None
    then show ?thesis using Suc.prems p by (intro exI [of _ 0]) simp
  next
    case (Some data)
    obtain b c1 g1 r1 where r: "receive_packet cfg ch gate core now data = (b, c1, g1, r1)" by (metis prod_cases4)
    show ?thesis
    proof (cases b)
      case True
      then have "receive_loop T cfg now n t1 c1 g1 r1 = (ok, t', ch', gate', core')"
        using Suc.prems p Some r by simp
      from Suc.IH [OF this] obtain k where k: "handled cfg c1 (take k (polled T n t1)) g1 r1 gate' core'"
        "ok \<longrightarrow> length (polled T n t1) \<le> k" by blast
      have "receive_packet cfg ch gate core now data = (True, c1, g1, r1)" using r True by simp
      from handled_Cons [OF this k(1)] k(2) show ?thesis
        by (intro exI [of _ "Suc k"]) (simp add: p Some)
    next
      case False
      then have r: "receive_packet cfg ch gate core now data = (False, c1, g1, r1)" using r by simp
      have "\<not> ok" "gate' = g1" "core' = r1" using Suc.prems by (simp_all add: p Some r)
      with receive_packet_False [OF r] have "\<not> ok" "gate' = gate" "core' = core" by simp_all
      then show ?thesis by (intro exI [of _ 0]) simp
    qed
  qed
qed

text \<open>Packets handled one by one are steps of the runs of the gate and of the core.\<close>

lemma apply_sessions_run:
  "gate_run config accepted gate \<Longrightarrow>
   \<exists>news. gate_run config (news @ accepted) (apply_sessions packets gate) \<and> set news \<subseteq> set packets"
proof (induction packets arbitrary: accepted gate)
  case Nil
  then show ?case by (intro exI [of _ "[]"]) simp
next
  case (Cons packet packets)
  obtain r g where g: "Gate_Apply gate packet = (r, g)" by fastforce
  have "\<exists>new. gate_run config (new @ accepted) g \<and> set new \<subseteq> {packet}"
  proof (cases "r = SPR_Accepted")
    case True
    then show ?thesis using gate_run.accept [OF Cons.prems] g by (intro exI [of _ "[packet]"]) simp
  next
    case False
    then show ?thesis using gate_run.refuse [OF Cons.prems g] by (intro exI [of _ "[]"]) simp
  qed
  then obtain new where new: "gate_run config (new @ accepted) g" "set new \<subseteq> {packet}" by blast
  from Cons.IH [OF new(1)] obtain news where "gate_run config (news @ new @ accepted) (apply_sessions packets g)"
    "set news \<subseteq> set packets" by blast
  with new(2) show ?case by (intro exI [of _ "news @ new"]) (auto simp: apply_sessions_def g)
qed

lemma apply_inputs_run:
  "driver_run cfg config A S core \<Longrightarrow> all_accepted cfg session packets core \<Longrightarrow>
   driver_run cfg config (fold record_packet packets A) S (apply_inputs cfg packets core)"
proof (induction packets arbitrary: A core)
  case Nil
  then show ?case by simp
next
  case (Cons packet packets)
  obtain a worst c where ap: "ApplyInputPacket cfg core packet = (a, worst, c)" by (metis prod_cases3)
  with Cons.prems have "driver_run cfg config (record_packet packet A) S c"
    by (intro driver_run.receive [of _ _ _ _ core packet worst]) simp_all
  from Cons.IH [OF this] Cons.prems(2) ap show ?case by (simp add: apply_inputs_def)
qed

lemma all_accepted_own: "all_accepted cfg session packets core \<Longrightarrow> packet \<in> set packets \<Longrightarrow> own_input session packet"
  by (induction packets arbitrary: core) auto

text \<open>The exits of \<^verbatim>\<open>Pump\<close>, with the channel each returns.\<close>

lemma Pump_cases:
  assumes "Pump T cfg t ch gate core now expects def = (ok, t', ch', gate', core')"
  obtains (early) "outcome ch ok ch'" "gate' = gate \<or> gate' = SetTransportAvailable gate (\<not> pt_Disconnected T t \<and> \<not> pt_Recovering T t)"
      "core' = core" "ok \<Longrightarrow> pt_Disconnected T t \<and> gate' = SetTransportAvailable gate (\<not> pt_Disconnected T t \<and> \<not> pt_Recovering T t)"
  | (late) c1 a t2 c2 g2 t3 c3 where "steady ch c1"
      "Receive T cfg t c1 (SetTransportAvailable gate (\<not> pt_Disconnected T t \<and> \<not> pt_Recovering T t)) core now =
         (a, t2, c2, g2, core')"
      "\<not> a \<Longrightarrow> ok = False \<and> ch' = c2 \<and> gate' = g2"
      "a \<Longrightarrow> SendRetired T t2 c2 now = (True, t3, c3) \<and> outcome c3 ok ch' \<and> (gate' = g2 \<or> gate' = MarkLocalReady g2)"
proof -
  obtain clock c1 where c: "ObserveClock ch now = (clock, c1)" by fastforce
  define g where "g = SetTransportAvailable gate (\<not> pt_Disconnected T t \<and> \<not> pt_Recovering T t)"
  obtain a t2 c2 g2 r2 where r: "Receive T cfg t c1 g core now = (a, t2, c2, g2, r2)" by (metis prod_cases5)
  obtain b t3 c3 where s: "SendRetired T t2 c2 now = (b, t3, c3)" by (metis prod_cases3)
  obtain d t4 c4 g4 where p: "pump_active T cfg t3 c3 g2 r2 now expects def = (d, t4, c4, g4)" by (metis prod_cases4)
  define off where "off = c1\<lparr>ch_watchdog := (\<lambda>p. Watchdog_Disarm (ch_watchdog c1 p))\<rparr>"
  define mismatch where "mismatch \<longleftrightarrow> ch_active c1 \<and> (sc_sessionId (sg_config g) \<noteq> sc_sessionId (ch_session c1) \<or>
     sc_localPlayer (sg_config g) \<noteq> sc_localPlayer (ch_session c1) \<or>
     sc_playerCount (sg_config g) \<noteq> sc_playerCount (ch_session c1))"
  have b: "b" using SendRetired_result(1) [OF s] .
  have step: "Pump T cfg t ch gate core now expects def =
     (if ch_failure ch \<noteq> F_None then (False, t, ch, gate, core)
      else if \<not> clock then (False, t, c1, gate, core)
      else if pt_Failed T t then (False, t, Fail c1 F_Transport, gate, core)
      else if pt_Disconnected T t then (True, t, off, g, core)
      else if mismatch then (False, t, Fail c1 F_InvalidConfiguration, g, core)
      else if \<not> a then (False, t2, c2, g2, r2)
      else if \<not> ch_active c3 then (True, t3, c3, g2, r2) else (d, t4, c4, g4, r2))"
    unfolding Pump_def c Let_def prod.case g_def [symmetric] mismatch_def [symmetric] r s p off_def
    using b by (cases a; cases mismatch) simp_all
  have c1: "outcome ch clock c1" using outcome_ObserveClock [of ch now] c by simp
  show ?thesis
  proof (cases "ch_failure ch \<noteq> F_None \<or> \<not> clock \<or> pt_Failed T t \<or> pt_Disconnected T t \<or> mismatch")
    case True
    have st: "steady ch c1" using c1 by (simp add: outcome_def)
    have "steady c1 off" unfolding off_def by (rule steady_same) simp_all
    then have off: "steady ch off" using st by (rule steady_trans [rotated])
    have f: "outcome ch x (Fail c1 F_Transport)" "outcome ch x (Fail c1 F_InvalidConfiguration)" for x
      by (rule outcome_trans [OF st outcome_Fail], simp)+
    have "outcome ch ok ch'" "gate' = gate \<or> gate' = g" "core' = core" "ok \<Longrightarrow> pt_Disconnected T t \<and> gate' = g"
      using assms True c1 off f unfolding step by (auto simp: outcome_refl split: if_splits)
    then show ?thesis unfolding g_def by (rule early)
  next
    case False
    then have st: "steady ch c1" using c1 by simp
    have eq: "(if \<not> a then (False, t2, c2, g2, r2)
      else if \<not> ch_active c3 then (True, t3, c3, g2, r2) else (d, t4, c4, g4, r2)) = (ok, t', ch', gate', core')"
      using assms False unfolding step by simp
    note pa = pump_active_outcome [OF p]
    show ?thesis
    proof (rule late [OF st, folded g_def])
      show "Receive T cfg t c1 g core now = (a, t2, c2, g2, core')" using r eq by (auto split: if_splits)
      show "\<not> a \<Longrightarrow> ok = False \<and> ch' = c2 \<and> gate' = g2" using eq by simp
      show "a \<Longrightarrow> SendRetired T t2 c2 now = (True, t3, c3) \<and> outcome c3 ok ch' \<and> (gate' = g2 \<or> gate' = MarkLocalReady g2)"
        using eq s b pa by (auto split: if_splits)
    qed
  qed
qed

end
