(* ===== verification/ChannelProps.thy ===== *)
theory ChannelProps
  imports ChannelPump CoreSafety
begin

text \<open>
  The properties of the session channel: a pump does to the gate and the core what the packets it polled
  say, the first failure and the clock are kept, a session is retired only when it is settled, and a
  retired one keeps answering.
\<close>

section \<open>Runs of a channel\<close>

text \<open>
  \<open>channel_step T cfg op ch gate ok ch' gate'\<close>: one call of a public operation that changes the channel,
  with its answer; the operations that answer nothing count as answering true. The label names the
  operation, and for \<^verbatim>\<open>Retire\<close> the arguments that decide whether it applies.
\<close>

datatype ChannelOp = Op_Clear | Op_BeginSession | Op_Pump | Op_FlushDeferredInputs | Op_LocalCaptured |
  Op_FlushRetirementFence | Op_Retire RollbackCore u32 | Op_PumpRetirement | Op_TakeAdonisDelayMs

inductive channel_step :: "'t PeerTransport \<Rightarrow> ProtocolConfig \<Rightarrow> ChannelOp \<Rightarrow> SessionChannel \<Rightarrow> SessionGate \<Rightarrow> bool \<Rightarrow>
    SessionChannel \<Rightarrow> SessionGate \<Rightarrow> bool" for T cfg where
  clear: "channel_step T cfg Op_Clear ch gate True (Channel_Clear ch) gate"
| begin_session: "BeginSession ch session now policy = (ok, ch') \<Longrightarrow>
    channel_step T cfg Op_BeginSession ch gate ok ch' gate"
| pump: "Pump T cfg t ch gate core now expects def = (ok, t', ch', gate', core') \<Longrightarrow>
    channel_step T cfg Op_Pump ch gate ok ch' gate'"
| flush: "FlushDeferredInputs T cfg t ch core now = (ok, t', ch') \<Longrightarrow>
    channel_step T cfg Op_FlushDeferredInputs ch gate ok ch' gate"
| capture: "LocalCaptured T cfg t ch core f now = (ok, t', ch') \<Longrightarrow>
    channel_step T cfg Op_LocalCaptured ch gate ok ch' gate"
| fence: "FlushRetirementFence T cfg t ch core f now = (ok, t', ch') \<Longrightarrow>
    channel_step T cfg Op_FlushRetirementFence ch gate ok ch' gate"
| retire: "Retire T cfg t ch core f now = (ok, t', ch') \<Longrightarrow>
    channel_step T cfg (Op_Retire core f) ch gate ok ch' gate"
| pump_retired: "PumpRetirement T t ch now = (ok, t', ch') \<Longrightarrow>
    channel_step T cfg Op_PumpRetirement ch gate ok ch' gate"
| take_delay: "TakeAdonisDelayMs ch = (delay, ch') \<Longrightarrow>
    channel_step T cfg Op_TakeAdonisDelayMs ch gate True ch' gate"

lemma steady_take_delay: "TakeAdonisDelayMs ch = (delay, ch') \<Longrightarrow> steady ch ch'"
  by (auto simp: TakeAdonisDelayMs_def steady_defs split: if_splits prod.splits)

lemma BeginSession_result:
  assumes "BeginSession ch session now policy = (ok, ch')"
  shows "keeps_failure ch ch'" "keeps_clock ch ch'" "keeps_retired ch ch'"
    "ch_previousNeeded ch' = ch_previousNeeded ch" "\<not> ok \<Longrightarrow> ch_failure ch' \<noteq> F_None"
proof -
  obtain clock c1 where c: "ObserveClock ch now = (clock, c1)" by fastforce
  have c1: "outcome ch clock c1" using outcome_ObserveClock [of ch now] c by simp
  then have st: "keeps_failure ch c1 \<and> keeps_clock ch c1 \<and> keeps_retired ch c1 \<and> ch_previousNeeded c1 = ch_previousNeeded ch"
    by (simp add: outcome_def steady_def)
  have own: "keeps_failure ch (Fail ch F_InvalidConfiguration) \<and> keeps_clock ch (Fail ch F_InvalidConfiguration) \<and>
      keeps_retired ch (Fail ch F_InvalidConfiguration) \<and>
      ch_previousNeeded (Fail ch F_InvalidConfiguration) = ch_previousNeeded ch"
    using steady_Fail [of ch F_InvalidConfiguration] by (simp add: steady_def)
  have "keeps_failure ch ch' \<and> keeps_clock ch ch' \<and> keeps_retired ch ch' \<and>
      ch_previousNeeded ch' = ch_previousNeeded ch \<and> (\<not> ok \<longrightarrow> ch_failure ch' \<noteq> F_None)"
  proof (cases "ch_failure ch \<noteq> F_None \<or> begin_rejected ch session policy \<or> \<not> clock")
    case True
    then show ?thesis using assms c c1 st own Fail_failure [of F_InvalidConfiguration ch]
      by (auto simp: BeginSession_def outcome_def keeps_failure_def keeps_clock_def keeps_retired_def split: if_splits)
  next
    case False
    then show ?thesis using assms st Fail_failure [of F_InvalidConfiguration]
      by (auto simp: BeginSession_def c Let_def keeps_failure_def keeps_clock_def keeps_retired_def Fail_def
          split: if_splits prod.splits)
  qed
  then show "keeps_failure ch ch'" "keeps_clock ch ch'" "keeps_retired ch ch'"
    "ch_previousNeeded ch' = ch_previousNeeded ch" "\<not> ok \<Longrightarrow> ch_failure ch' \<noteq> F_None" by auto
qed

section \<open>Retiring a session\<close>

text \<open>The loop that builds the terminal acknowledgements writes one for every remote seat it visits.\<close>

definition ack_ready :: "ProtocolConfig \<Rightarrow> SessionConfig \<Rightarrow> u32 \<Rightarrow> bytes \<Rightarrow> bool" where
  "ack_ready cfg session f data \<longleftrightarrow> (\<exists>packet. EncodeInputPacket cfg packet [] = (True, data) \<and>
     ip_sessionId packet = sc_sessionId session \<and> ip_senderPlayer packet = sc_localPlayer session \<and>
     ip_playerCount packet = sc_playerCount session \<and> ip_inputCount packet = 0 \<and>
     ip_firstInputFrame packet = INVALID_FRAME \<and> ip_ackFrame packet = f)"

definition same_but_acks :: "SessionChannel \<Rightarrow> SessionChannel \<Rightarrow> bool" where
  "same_but_acks ch ch' \<longleftrightarrow> keeps_failure ch ch' \<and> keeps_clock ch ch' \<and> keeps_session ch ch' \<and>
     ch_previousSession ch' = ch_previousSession ch \<and> ch_previousCount ch' = ch_previousCount ch \<and>
     ch_previousLocal ch' = ch_previousLocal ch \<and> ch_previousNeeded ch' = ch_previousNeeded ch"

lemma same_but_acks_refl [simp]: "same_but_acks ch ch"
  by (simp add: same_but_acks_def keeps_failure_def keeps_clock_def keeps_session_def)

lemma same_but_acks_trans: "same_but_acks a b \<Longrightarrow> same_but_acks b c \<Longrightarrow> same_but_acks a c"
  by (auto simp: same_but_acks_def keeps_failure_def keeps_clock_def keeps_session_def)

lemma EncodeInputPacket_buffer: "EncodeInputPacket cfg packet out = (True, data) \<Longrightarrow> EncodeInputPacket cfg packet [] = (True, data)"
  by (auto simp: EncodeInputPacket_def Let_def split: if_splits)

lemma terminal_peer_result:
  assumes "terminal_peer cfg f t ch peer = (ok, t', ch')"
  shows "same_but_acks ch ch'" "\<not> ok \<Longrightarrow> ch_failure ch' \<noteq> F_None" "t' = t"
    "ok \<Longrightarrow> ack_ready cfg (ch_session ch) f (ch_terminalAcks ch' peer)"
    "q \<noteq> peer \<Longrightarrow> ch_terminalAcks ch' q = ch_terminalAcks ch q"
proof -
  obtain b data where e: "EncodeInputPacket cfg (terminal_ack (next_sequence ch peer) peer f) (ch_terminalAcks (next_sequence ch peer) peer)
      = (b, data)" by fastforce
  define c where "c = (next_sequence ch peer)\<lparr>ch_terminalAcks := (ch_terminalAcks (next_sequence ch peer))(peer := data)\<rparr>"
  have step: "terminal_peer cfg f t ch peer = (if \<not> b then (False, t, Fail c F_InvalidRetirement) else (True, t, c))"
    using e by (simp add: terminal_peer_def Let_def c_def)
  have c: "same_but_acks ch c" "same_but_acks ch (Fail c F_InvalidRetirement)"
    by (simp_all add: c_def Fail_def next_sequence_def same_but_acks_def keeps_failure_def keeps_clock_def keeps_session_def)
  show "same_but_acks ch ch'" "t' = t" using assms c unfolding step by (simp_all split: if_splits)
  show "\<not> ok \<Longrightarrow> ch_failure ch' \<noteq> F_None"
    using assms Fail_failure [of F_InvalidRetirement c] unfolding step by (simp split: if_splits)
  show "ok \<Longrightarrow> ack_ready cfg (ch_session ch) f (ch_terminalAcks ch' peer)"
  proof -
    assume ok
    then have "b" "ch' = c" using assms unfolding step by (simp_all split: if_splits)
    moreover have "EncodeInputPacket cfg (terminal_ack (next_sequence ch peer) peer f) [] = (True, data)"
      using e \<open>b\<close> EncodeInputPacket_buffer by simp
    ultimately show ?thesis unfolding ack_ready_def
      by (intro exI [of _ "terminal_ack (next_sequence ch peer) peer f"])
        (simp add: c_def terminal_ack_def InputPacket_default_def next_sequence_def)
  qed
  show "q \<noteq> peer \<Longrightarrow> ch_terminalAcks ch' q = ch_terminalAcks ch q"
    using assms unfolding step by (auto simp: c_def Fail_def next_sequence_def split: if_splits)
qed

lemma terminal_loop_result:
  "remote_loop (terminal_peer cfg f) t ch peers = (ok, t', ch') \<Longrightarrow>
   same_but_acks ch ch' \<and> (\<not> ok \<longrightarrow> ch_failure ch' \<noteq> F_None) \<and> t' = t \<and>
   (distinct peers \<longrightarrow> ok \<longrightarrow> (\<forall>q \<in> set peers. q \<noteq> sc_localPlayer (ch_session ch) \<longrightarrow>
     ack_ready cfg (ch_session ch) f (ch_terminalAcks ch' q))) \<and>
   (\<forall>q. q \<notin> set peers \<longrightarrow> ch_terminalAcks ch' q = ch_terminalAcks ch q)"
proof (induction peers arbitrary: t ch)
  case Nil
  then show ?case by simp
next
  case (Cons peer peers)
  show ?case
  proof (cases "peer = sc_localPlayer (ch_session ch)")
    case True
    then have "remote_loop (terminal_peer cfg f) t ch peers = (ok, t', ch')" using Cons.prems by simp
    from Cons.IH [OF this] True show ?thesis by auto
  next
    case False
    obtain b t1 c1 where p: "terminal_peer cfg f t ch peer = (b, t1, c1)" by (metis prod_cases3)
    note c1 = terminal_peer_result [OF p]
    show ?thesis
    proof (cases b)
      case True
      then have "remote_loop (terminal_peer cfg f) t1 c1 peers = (ok, t', ch')" using Cons.prems p False by simp
      note ih = Cons.IH [OF this]
      have s: "ch_session c1 = ch_session ch" using c1(1) by (simp add: same_but_acks_def keeps_session_def)
      have "same_but_acks ch ch'" using c1(1) ih same_but_acks_trans by blast
      then show ?thesis using ih c1 True by (auto simp: s)
    next
      case b: False
      then show ?thesis using Cons.prems p False c1 by auto
    qed
  qed
qed

text \<open>The channel \<^verbatim>\<open>Retire\<close> hands to \<^verbatim>\<open>SendRetired\<close>.\<close>

definition retired_from :: "SessionChannel \<Rightarrow> u64 \<Rightarrow> SessionChannel" where
  "retired_from ch now = ch\<lparr>ch_previousSession := sc_sessionId (ch_session ch),
     ch_previousCount := sc_playerCount (ch_session ch), ch_previousLocal := sc_localPlayer (ch_session ch),
     ch_previousNeeded := (\<lambda>peer. peer < sc_playerCount (ch_session ch) \<and> peer \<noteq> sc_localPlayer (ch_session ch)),
     ch_nextRetiredSend := now, ch_active := False, ch_deferredInput := False,
     ch_watchdog := (\<lambda>p. Watchdog_Disarm (ch_watchdog ch p))\<rparr>"

lemma Retire_cases:
  assumes "CanRetire ch core f" "Retire T cfg t ch core f now = (ok, t', ch')"
  obtains (refused) "outcome ch ok ch'" "\<not> ok"
  | (failed) "same_but_acks ch ch'" "\<not> ok" "ch_failure ch' \<noteq> F_None" "ch_previousSession ch = 0"
  | (retired) c where "same_but_acks ch c" "ch_previousSession ch = 0"
      "\<forall>q. q < sc_playerCount (ch_session ch) \<longrightarrow> q \<noteq> sc_localPlayer (ch_session ch) \<longrightarrow>
         ack_ready cfg (ch_session ch) f (ch_terminalAcks c q)"
      "SendRetired T t (retired_from c now) now = (ok, t', ch')"
proof -
  obtain clock c1 where c: "ObserveClock ch now = (clock, c1)" by fastforce
  have c1: "outcome ch clock c1" using outcome_ObserveClock [of ch now] c by simp
  obtain b t2 c2 where l: "remote_loop (terminal_peer cfg f) t c1 (seats (sc_playerCount (ch_session c1))) = (b, t2, c2)"
    by (metis prod_cases3)
  note l2 = terminal_loop_result [OF l]
  have step: "Retire T cfg t ch core f now =
     (if \<not> clock then (False, t, c1)
      else if ch_previousSession c1 \<noteq> 0 then (False, t, Fail c1 F_InvalidRetirement)
      else if \<not> b then (False, t2, c2) else SendRetired T t2 (retired_from c2 now) now)"
    using assms(1) c l by (simp add: Retire_def Let_def retired_from_def)
  have st: "steady ch c1" using c1 by (simp add: outcome_def)
  then have s: "same_but_acks ch c1" "ch_session c1 = ch_session ch" "ch_previousSession c1 = ch_previousSession ch"
    by (simp_all add: steady_def same_but_acks_def keeps_retired_def keeps_session_def)
  show ?thesis
  proof (cases "clock \<and> ch_previousSession c1 = 0")
    case True
    show ?thesis
    proof (cases b)
      case True
      have "same_but_acks ch c2" using s(1) l2 same_but_acks_trans by blast
      then show ?thesis using retired [of c2] assms(2) \<open>clock \<and> _\<close> True l2 unfolding step by (auto simp: s)
    next
      case False
      then show ?thesis using failed assms(2) \<open>clock \<and> _\<close> l2 s same_but_acks_trans unfolding step by auto
    qed
  next
    case False
    have "outcome ch False (Fail c1 F_InvalidRetirement)"
      by (rule outcome_trans [OF st outcome_Fail]) simp
    then show ?thesis using refused assms(2) False c1 unfolding step by (auto split: if_splits)
  qed
qed

section \<open>Minimal frontiers\<close>

lemma remotes_minimum_le:
  "remotes_minimum c players m = r \<Longrightarrow> r \<noteq> INVALID_FRAME \<Longrightarrow> (m \<noteq> INVALID_FRAME \<longrightarrow> r \<le> m) \<and>
     (\<forall>p \<in> set players. p \<noteq> cc_localPlayer (rc_config c) \<longrightarrow> ConfirmedThrough c p \<noteq> INVALID_FRAME \<and> r \<le> ConfirmedThrough c p)"
proof (induction players arbitrary: m)
  case Nil
  then show ?case by simp
next
  case (Cons p players)
  show ?case
  proof (cases "p = cc_localPlayer (rc_config c)")
    case True
    then show ?thesis using Cons by simp
  next
    case False
    let ?v = "ConfirmedThrough c p"
    let ?m = "if m = INVALID_FRAME \<or> ?v < m then ?v else m"
    have v: "?v \<noteq> INVALID_FRAME" using Cons.prems False by (auto simp: Let_def)
    then have "remotes_minimum c players ?m = r" using Cons.prems False by (simp add: Let_def)
    note ih = Cons.IH [OF this Cons.prems(2)]
    have "?m \<noteq> INVALID_FRAME" "?m \<le> ?v" "m \<noteq> INVALID_FRAME \<longrightarrow> ?m \<le> m" using v by auto
    then show ?thesis using ih v by (auto simp del: if_split intro: order_trans)
  qed
qed

lemma acks_minimum_le:
  "acks_minimum c peers m = r \<Longrightarrow> r \<noteq> INVALID_FRAME \<Longrightarrow> r \<le> m \<and>
     (\<forall>p \<in> set peers. p \<noteq> cc_localPlayer (rc_config c) \<longrightarrow>
        rc_peerAckOfLocal c p \<noteq> INVALID_FRAME \<and> r \<le> rc_peerAckOfLocal c p)"
proof (induction peers arbitrary: m)
  case Nil
  then show ?case by simp
next
  case (Cons p peers)
  show ?case
  proof (cases "p = cc_localPlayer (rc_config c)")
    case True
    then show ?thesis using Cons by simp
  next
    case False
    then have v: "rc_peerAckOfLocal c p \<noteq> INVALID_FRAME" using Cons.prems by auto
    then have "acks_minimum c peers (min m (rc_peerAckOfLocal c p)) = r" using Cons.prems False by simp
    from Cons.IH [OF this Cons.prems(2)] show ?thesis using v by auto
  qed
qed

lemma frames_through_le_of: "f \<noteq> INVALID_FRAME \<Longrightarrow> g \<noteq> INVALID_FRAME \<Longrightarrow> f \<le> g \<Longrightarrow> unat f < frames_through g"
  by (simp add: frames_through_valid word_le_nat_alt)

lemma CanRetireD:
  assumes "CanRetire ch core f"
  shows "rc_configured core" "f \<noteq> INVALID_FRAME" "sim_count core = unat f + 1" "\<not> HasRollbackRequest core"
    "\<And>p. p < cc_playerCount (rc_config core) \<Longrightarrow> p \<noteq> cc_localPlayer (rc_config core) \<Longrightarrow>
       unat f < confirmed_count core p \<and> unat f < frames_through (rc_peerAckOfLocal core p)"
proof -
  let ?r = "ConfirmedThroughAllRemotes core" and ?a = "AcknowledgedLocalThroughAllRemotes core"
  show f: "f \<noteq> INVALID_FRAME" and "\<not> HasRollbackRequest core" using assms by (simp_all add: CanRetire_def)
  have "rc_lastSimulatedFrame core = f" using assms by (simp add: CanRetire_def)
  then show "sim_count core = unat f + 1" using f by (simp add: frames_through_valid)
  have r: "?r \<noteq> INVALID_FRAME" "f \<le> ?r" and a: "?a \<noteq> INVALID_FRAME" "f \<le> ?a"
    using assms by (auto simp: CanRetire_def atLeast_frame_def)
  show c: "rc_configured core" using r(1) by (auto simp: ConfirmedThroughAllRemotes_def split: if_splits)
  fix p assume p: "p < cc_playerCount (rc_config core)" "p \<noteq> cc_localPlayer (rc_config core)"
  have "remotes_minimum core (seats (cc_playerCount (rc_config core))) INVALID_FRAME = ?r"
    using c by (simp add: ConfirmedThroughAllRemotes_def)
  from remotes_minimum_le [OF this r(1)] p have 1: "ConfirmedThrough core p \<noteq> INVALID_FRAME" "?r \<le> ConfirmedThrough core p"
    by auto
  have "acks_minimum core (seats (cc_playerCount (rc_config core))) INVALID_FRAME = ?a"
    using c by (simp add: AcknowledgedLocalThroughAllRemotes_def)
  from acks_minimum_le [OF this a(1)] p have 2: "rc_peerAckOfLocal core p \<noteq> INVALID_FRAME" "?a \<le> rc_peerAckOfLocal core p"
    by auto
  have "ConfirmedThrough core p = rc_confirmedThrough core p" using c p by (simp add: ConfirmedThrough_def)
  then show "unat f < confirmed_count core p \<and> unat f < frames_through (rc_peerAckOfLocal core p)"
    using frames_through_le_of [OF f 1(1) order_trans [OF r(2) 1(2)]]
      frames_through_le_of [OF f 2(1) order_trans [OF a(2) 2(2)]] by simp
qed

lemma ack_ready_decodes:
  assumes "ack_ready cfg session f data"
  shows "\<exists>packet. DecodeInputPacket cfg data = Some packet \<and> ip_sessionId packet = sc_sessionId session \<and>
    ip_senderPlayer packet = sc_localPlayer session \<and> ip_inputCount packet = 0 \<and> ip_ackFrame packet = f"
proof -
  from assms obtain packet where p: "EncodeInputPacket cfg packet [] = (True, data)"
    "ip_sessionId packet = sc_sessionId session" "ip_senderPlayer packet = sc_localPlayer session"
    "ip_inputCount packet = 0" "ip_firstInputFrame packet = INVALID_FRAME" "ip_ackFrame packet = f"
    unfolding ack_ready_def by blast
  then have ok: "input_packet_ok cfg packet" using Encode_iff [of cfg packet "[]"] by simp
  then have "data = input_packet_bytes cfg packet" using EncodeInputPacket_ok [OF ok, of "[]"] p(1) by simp
  with DecodeInputPacket_bytes [OF ok] p show ?thesis by (simp add: transmitted_def)
qed

text \<open>A successful retirement: the cache of terminal acknowledgements is complete and stays open.\<close>

lemma Retire_success:
  assumes "Retire T cfg t ch core f now = (True, t', ch')" "sc_sessionId (ch_session ch) \<noteq> 0"
    and seats: "2 \<le> sc_playerCount (ch_session ch)" "sc_playerCount (ch_session ch) \<le> MAX_PLAYERS"
  shows "CanRetire ch core f" "\<not> ch_active ch'" "ch_previousSession ch' = sc_sessionId (ch_session ch)"
    "\<And>q. q < sc_playerCount (ch_session ch) \<Longrightarrow> q \<noteq> sc_localPlayer (ch_session ch) \<Longrightarrow>
       owed ch' q \<and> ack_ready cfg (ch_session ch) f (ch_terminalAcks ch' q)"
proof -
  show can: "CanRetire ch core f" using assms(1) by (simp add: Retire_def split: if_splits)
  have "\<exists>q. q < sc_playerCount (ch_session ch) \<and> q \<noteq> sc_localPlayer (ch_session ch)"
  proof (cases "sc_localPlayer (ch_session ch) = 0")
    case True
    moreover have "(1 :: u8) < sc_playerCount (ch_session ch)" using seats(1) by (simp add: word_less_nat_alt word_le_nat_alt)
    ultimately show ?thesis by (intro exI [of _ 1]) simp
  next
    case False
    moreover have "(0 :: u8) < sc_playerCount (ch_session ch)" using seats(1) by (simp add: word_less_nat_alt word_le_nat_alt)
    ultimately show ?thesis by (intro exI [of _ 0]) simp
  qed
  then obtain q0 where q0: "q0 < sc_playerCount (ch_session ch)" "q0 \<noteq> sc_localPlayer (ch_session ch)" by blast
  from can assms(1) have "\<not> ch_active ch' \<and> ch_previousSession ch' = sc_sessionId (ch_session ch) \<and>
     (\<forall>q. q < sc_playerCount (ch_session ch) \<longrightarrow> q \<noteq> sc_localPlayer (ch_session ch) \<longrightarrow>
       owed ch' q \<and> ack_ready cfg (ch_session ch) f (ch_terminalAcks ch' q))"
  proof (cases rule: Retire_cases)
    case (retired c)
    let ?r = "retired_from c now"
    have s: "ch_session c = ch_session ch" using retired(1) by (simp add: same_but_acks_def keeps_session_def)
    have o: "owed ?r q" if "q < sc_playerCount (ch_session ch)" "q \<noteq> sc_localPlayer (ch_session ch)" for q
      using that assms(2) seats(2) s by (auto simp: owed_def retired_from_def)
    note st = SendRetired_result(5) [OF retired(4) o [OF q0]]
    then have eq: "ch_previousSession ch' = ch_previousSession ?r" "ch_previousCount ch' = ch_previousCount ?r"
      "ch_previousLocal ch' = ch_previousLocal ?r" "ch_terminalAcks ch' = ch_terminalAcks ?r"
      "ch_previousNeeded ch' = ch_previousNeeded ?r" "ch_active ch' = ch_active ?r"
      by (simp_all add: steady_def keeps_retired_def keeps_session_def)
    have "owed ch' q \<longleftrightarrow> owed ?r q" for q by (simp add: owed_def eq)
    then show ?thesis using o retired(3) by (simp add: eq) (simp add: retired_from_def s)
  qed simp_all
  then show "\<not> ch_active ch'" "ch_previousSession ch' = sc_sessionId (ch_session ch)"
    "\<And>q. q < sc_playerCount (ch_session ch) \<Longrightarrow> q \<noteq> sc_localPlayer (ch_session ch) \<Longrightarrow>
       owed ch' q \<and> ack_ready cfg (ch_session ch) f (ch_terminalAcks ch' q)" by blast+
qed

lemma Pump_handled:
  assumes pump: "Pump T cfg t ch gate core now expects def = (ok, t', ch', gate', core')"
    and g: "g = SetTransportAvailable gate (\<not> pt_Disconnected T t \<and> \<not> pt_Recovering T t)"
    and polls: "polls = polled T (cfg_receiveBudget (ch_policy ch)) t"
  obtains (idle) "gate' = gate" "core' = core" "\<not> ok"
  | (handled) k gate1 where "handled cfg ch (take k polls) g core gate1 core'"
      "gate' = gate1 \<or> gate' = MarkLocalReady gate1" "ok \<Longrightarrow> \<not> pt_Disconnected T t \<Longrightarrow> length polls \<le> k"
  using pump
proof (cases rule: Pump_cases)
  case early
  show ?thesis
  proof (cases "gate' = g")
    case True
    then have "handled cfg ch (take 0 polls) g core g core'" "gate' = g" using early(3) by simp_all
    then show ?thesis by (rule handled [OF _ disjI1]) (use early(4) in blast)
  next
    case False
    then show ?thesis using early(2-4) g by (intro idle) auto
  qed
next
  case (late c1 a t2 c2 g2 t3 c3)
  have k: "keeps_session ch c1" using late(1) by (simp add: steady_def)
  from receive_loop_handled [OF late(2) [unfolded Receive_def]] obtain n where
    n: "handled cfg c1 (take n (polled T (cfg_receiveBudget (ch_policy c1)) t)) g core g2 core'"
      "a \<longrightarrow> length (polled T (cfg_receiveBudget (ch_policy c1)) t) \<le> n"
    unfolding g by blast
  have "ch_policy c1 = ch_policy ch" "ch_session c1 = ch_session ch" using k by (simp_all add: keeps_session_def)
  with n own_same [OF k] have "handled cfg ch (take n polls) g core g2 core'" "a \<longrightarrow> length polls \<le> n"
    by (simp_all add: handled_def polls)
  moreover have "gate' = g2 \<or> gate' = MarkLocalReady g2" "ok \<longrightarrow> a" using late(3,4) by (cases a; simp)+
  ultimately show ?thesis by (intro handled) auto
qed

lemma Pump_session:
  assumes "Pump T cfg t ch gate core now expects def = (ok, t', ch', gate', core')"
  shows "keeps_failure ch ch'" "keeps_clock ch ch'" "keeps_session ch ch'" "\<not> ok \<Longrightarrow> ch_failure ch' \<noteq> F_None"
    "owed ch p \<Longrightarrow> (owed ch' p \<and> keeps_retired ch ch') \<or> sg_peerHello gate' p"
proof -
  have "keeps_failure ch ch' \<and> keeps_clock ch ch' \<and> keeps_session ch ch' \<and> (\<not> ok \<longrightarrow> ch_failure ch' \<noteq> F_None) \<and>
      (owed ch p \<longrightarrow> (owed ch' p \<and> keeps_retired ch ch') \<or> sg_peerHello gate' p)"
    using assms
  proof (cases rule: Pump_cases)
    case early
    then show ?thesis by (auto simp: outcome_def steady_def keeps_retired_def owed_def)
  next
    case (late c1 a t2 c2 g2 t3 c3)
    have r: "received c1 (SetTransportAvailable gate (\<not> pt_Disconnected T t \<and> \<not> pt_Recovering T t)) c2 g2"
      and f: "\<not> a \<longrightarrow> ch_failure c2 \<noteq> F_None"
      using Receive_received [OF late(2)] by auto
    have w: "keeps_failure ch c2" "keeps_clock ch c2" "keeps_session ch c2" "keeps_retired ch c2"
      using late(1) r by (auto simp: steady_def received_def keeps_failure_def keeps_clock_def keeps_session_def keeps_retired_def)
    have o2: "owed c2 p \<or> sg_peerHello g2 p" if "owed ch p"
      using that late(1) r w(4) by (auto simp: owed_def steady_def received_def keeps_retired_def)
    show ?thesis
    proof (cases a)
      case False
      then show ?thesis using late(3) f w o2 by (auto simp: owed_def keeps_retired_def)
    next
      case True
      note l = late(4) [OF True]
      note s = SendRetired_result [of T t2 c2 now True t3 c3]
      have o3: "outcome c3 ok ch'" and g: "sg_peerHello gate' = sg_peerHello g2"
        using l MarkLocalReady_hello by auto
      have 1: "keeps_failure c2 c3" "keeps_clock c2 c3" "keeps_session c2 c3" using s l by blast+
      have 2: "keeps_failure c3 ch'" "keeps_clock c3 ch'" "keeps_session c3 ch'" "keeps_retired c3 ch'"
        "ch_previousNeeded ch' = ch_previousNeeded c3" using o3 by (simp_all add: outcome_def steady_def)
      have "(owed ch' p \<and> keeps_retired ch ch') \<or> sg_peerHello gate' p" if "owed ch p"
      proof (cases "owed c2 p")
        case True
        then have "steady c2 c3" using s(5) l by blast
        then show ?thesis using True w(4) 2(4,5) by (auto simp: owed_def steady_def keeps_retired_def)
      next
        case False
        then show ?thesis using o2 [OF that] g by simp
      qed
      moreover have "keeps_failure ch ch'" "keeps_clock ch ch'" "keeps_session ch ch'"
        using w 1 2 by (auto simp: keeps_failure_def keeps_clock_def keeps_session_def)
      ultimately show ?thesis using o3 by (auto simp: outcome_def)
    qed
  qed
  then show "keeps_failure ch ch'" "keeps_clock ch ch'" "keeps_session ch ch'" "\<not> ok \<Longrightarrow> ch_failure ch' \<noteq> F_None"
    "owed ch p \<Longrightarrow> (owed ch' p \<and> keeps_retired ch ch') \<or> sg_peerHello gate' p" by auto
qed

lemma channel_step_result:
  assumes "channel_step T cfg op ch gate ok ch' gate'"
  shows "(op = Op_Clear \<and> ch' = Channel_Clear ch) \<or>
    (op \<noteq> Op_Clear \<and> keeps_failure ch ch' \<and> keeps_clock ch ch' \<and>
     (\<not> ok \<longrightarrow> ch_failure ch' \<noteq> F_None \<or> (\<exists>core f. op = Op_Retire core f \<and> \<not> CanRetire ch core f \<and> ch' = ch)) \<and>
     (owed ch p \<longrightarrow> (owed ch' p \<and> keeps_retired ch ch') \<or> (op = Op_Pump \<and> sg_peerHello gate' p)))"
proof -
  have out: ?thesis if "outcome ch ok ch'" "op \<noteq> Op_Clear"
    using that by (auto simp: outcome_def steady_def owed_def keeps_retired_def)
  from assms show ?thesis
  proof (cases rule: channel_step.cases)
    case clear
    then show ?thesis by simp
  next
    case (begin_session session now policy)
    from BeginSession_result [OF begin_session(3)] begin_session(1) show ?thesis by (auto simp: owed_def keeps_retired_def)
  next
    case (pump t core now expects def t' core')
    from Pump_session [OF pump(2)] pump(1) show ?thesis by blast
  next
    case (flush t core now t')
    from out [OF FlushDeferredInputs_outcome [OF flush(3)]] flush(1) show ?thesis by simp
  next
    case (capture t core f now t')
    from out [OF LocalCaptured_outcome [OF capture(3)]] capture(1) show ?thesis by simp
  next
    case (fence t core f now t')
    from out [OF FlushRetirementFence_outcome [OF fence(3)]] fence(1) show ?thesis by simp
  next
    case (retire t core f now t')
    show ?thesis
    proof (cases "CanRetire ch core f")
      case False
      then have "\<not> ok \<and> ch' = ch" using retire(3) by (simp add: Retire_def)
      with False retire(1) show ?thesis by (auto simp: keeps_failure_def keeps_clock_def keeps_retired_def)
    next
      case True
      then show ?thesis using retire(3)
      proof (cases rule: Retire_cases)
        case refused
        then show ?thesis using out retire(1) by blast
      next
        case failed
        then show ?thesis using retire(1) by (auto simp: same_but_acks_def owed_def)
      next
        case (retired c)
        note s = SendRetired_result [OF retired(4)]
        have "keeps_failure ch (retired_from c now)" "keeps_clock ch (retired_from c now)"
          using retired(1) by (auto simp: same_but_acks_def retired_from_def keeps_failure_def keeps_clock_def)
        with s(1-3) retired(2) retire(1) show ?thesis by (auto simp: keeps_failure_def keeps_clock_def owed_def)
      qed
    qed
  next
    case (pump_retired t now t')
    note r = PumpRetirement_result [OF pump_retired(3)]
    show ?thesis
    proof (cases "owed ch p")
      case True
      then show ?thesis using out r(4) r(5) pump_retired(1) by (simp add: outcome_def)
    next
      case False
      then show ?thesis using r(1,2,4) pump_retired(1) by blast
    qed
  next
    case (take_delay delay)
    then show ?thesis using out steady_take_delay by (simp add: outcome_def)
  qed
qed

section \<open>Properties\<close>

text \<open>
  C32: A pump does to the gate and the core what the packets it polled say, and nothing else. Whatever
  the transport delivers, valid or not, and whether the pump succeeds or fails, there is a prefix of the
  buffers it polled (all of them, if it succeeds while connected) such that the gate is the old gate with
  the transport state set and the session packets of the channel's own session in that prefix applied in
  order, possibly marked ready at the end, and the core is the old core with the input packets of the
  session in that prefix applied in order; only a pump that fails before it reads anything leaves the
  gate as it was. Every applied input packet is accepted and comes from a remote seat, so the core
  moves along the driver's runs and the gate along the handshake's, whose new acceptances are among the
  applied session packets.
\<close>

theorem pump_drives_gate_and_core:
  assumes "driver_run cfg config A S core" "gate_run contract accepted gate"
    and "Pump T cfg t ch gate core now expectsInput deferOrdinary = (ok, t', ch', gate', core')"
  shows "\<exists>k. let polls = polled T (cfg_receiveBudget (ch_policy ch)) t;
        sessions = own_sessions cfg ch (take k polls); packets = own_inputs cfg ch (take k polls);
        gate1 = apply_sessions sessions
          (SetTransportAvailable gate (\<not> pt_Disconnected T t \<and> \<not> pt_Recovering T t))
      in (gate' = gate1 \<or> gate' = MarkLocalReady gate1 \<or> (k = 0 \<and> gate' = gate \<and> \<not> ok)) \<and>
        core' = apply_inputs cfg packets core \<and>
        (ok \<and> \<not> pt_Disconnected T t \<longrightarrow> length polls \<le> k) \<and>
        driver_run cfg config (fold record_packet packets A) S core' \<and>
        (\<forall>packet \<in> set packets. own_input (ch_session ch) packet) \<and>
        (\<exists>news. gate_run contract (news @ accepted) gate' \<and> set news \<subseteq> set sessions)"
proof -
  define g where "g = SetTransportAvailable gate (\<not> pt_Disconnected T t \<and> \<not> pt_Recovering T t)"
  define polls where "polls = polled T (cfg_receiveBudget (ch_policy ch)) t"
  show ?thesis
  proof (rule Pump_handled [OF assms(3) g_def polls_def])
    assume idle: "gate' = gate" "core' = core" "\<not> ok"
    show ?thesis
      by (rule exI [of _ 0], unfold Let_def) (use assms(1,2) idle in \<open>simp add: exI [of _ "[]"]\<close>)
  next
    fix k gate1
    assume h: "handled cfg ch (take k polls) g core gate1 core'"
      "gate' = gate1 \<or> gate' = MarkLocalReady gate1" "ok \<Longrightarrow> \<not> pt_Disconnected T t \<Longrightarrow> length polls \<le> k"
    let ?sessions = "own_sessions cfg ch (take k polls)" and ?packets = "own_inputs cfg ch (take k polls)"
    from h(1) have eq: "gate1 = apply_sessions ?sessions g" "core' = apply_inputs cfg ?packets core"
      and acc: "all_accepted cfg (ch_session ch) ?packets core" by (simp_all add: handled_def)
    have "gate_run contract accepted g" unfolding g_def by (rule gate_run.transport [OF assms(2)])
    from apply_sessions_run [OF this, of ?sessions] obtain news where
      news: "gate_run contract (news @ accepted) gate1" "set news \<subseteq> set ?sessions" unfolding eq(1) by blast
    then have "\<exists>news. gate_run contract (news @ accepted) gate' \<and> set news \<subseteq> set ?sessions"
      using h(2) gate_run.ready by blast
    moreover have "driver_run cfg config (fold record_packet ?packets A) S core'"
      unfolding eq(2) by (rule apply_inputs_run [OF assms(1) acc])
    moreover have "\<forall>packet \<in> set ?packets. own_input (ch_session ch) packet"
      using all_accepted_own [OF acc] by blast
    ultimately show ?thesis
      unfolding Let_def polls_def [symmetric] g_def [symmetric] using h(2,3) eq by (intro exI [of _ k] conjI) auto
  qed
qed

text \<open>
  C33: A session is retired only when it is settled. If \<^verbatim>\<open>Retire\<close> succeeds at a frame, that frame is the
  last simulated one, every frame up to it was simulated with the accepted input of every seat, and every
  remote seat has acknowledged all local inputs up to it; the channel is then idle and holds, for every
  remote seat, an acknowledgement of that frame that the seat's decoder accepts.
\<close>

theorem retirement_is_settled:
  assumes run: "driver_run cfg config A S core"
    and seats: "cc_playerCount config = sc_playerCount (ch_session ch)"
      "cc_localPlayer config = sc_localPlayer (ch_session ch)" "sc_sessionId (ch_session ch) \<noteq> 0"
    and retire: "Retire T cfg t ch core f now = (True, t', ch')"
  shows "sim_count core = unat f + 1 \<and>
    (\<forall>p g. p < cc_playerCount config \<and> g \<le> unat f \<longrightarrow> (\<exists>x. A p g = Some x \<and> input_eq (S g p) x)) \<and>
    \<not> ch_active ch' \<and>
    (\<forall>q. q < cc_playerCount config \<and> q \<noteq> cc_localPlayer config \<longrightarrow>
      unat f < frames_through (rc_peerAckOfLocal core q) \<and> owed ch' q \<and>
      (\<exists>packet. DecodeInputPacket cfg (ch_terminalAcks ch' q) = Some packet \<and> ip_ackFrame packet = f \<and>
        ip_sessionId packet = sc_sessionId (ch_session ch) \<and> ip_inputCount packet = 0))"
proof -
  from driver_run_inv [OF run] obtain hw where inv: "driver_inv cfg config A S hw core" by blast
  then have front: "frontier_inv config A hw core" and sim: "sim_inv config A S hw core"
    and c: "rc_config core = config" and v: "config_valid config" by (auto simp: driver_inv_def)
  have count: "2 \<le> sc_playerCount (ch_session ch)" "sc_playerCount (ch_session ch) \<le> MAX_PLAYERS"
    using v seats by (auto simp: config_valid_def not_less)
  note settled = Retire_success [OF retire seats(3) count, folded seats(1,2)]
  note can = CanRetireD [OF settled(1), unfolded c]
  have "unat f < confirmed_count core (cc_localPlayer config)"
    using front sim can(3) by (auto simp: frontier_inv_def sim_inv_def)
  then have conf: "unat f < confirmed_count core p" if "p < cc_playerCount config" for p
    using can(5) [of p] that by (cases "p = cc_localPlayer config") auto
  have "\<exists>x. A p g = Some x \<and> input_eq (S g p) x" if p: "p < cc_playerCount config" "g \<le> unat f" for p g
  proof -
    have "g < confirmed_count core p" using conf [OF p(1)] p(2) by simp
    then obtain x where x: "A p g = Some x" using front unfolding frontier_inv_def by blast
    moreover have "g < sim_count core" using p(2) can(3) by simp
    ultimately have "input_eq (S g p) x"
      using no_request_means_consistent_parts(1) [OF run can(4)] p(1) by blast
    with x show ?thesis by blast
  qed
  then show ?thesis using can(3,5) settled(2,4) ack_ready_decodes by blast
qed

text \<open>
  C34: The answer to a retired peer is not lost. As long as a retired epoch owes a seat its terminal
  acknowledgement, every operation keeps the debt, the acknowledgement and the epoch, with two
  exceptions: a pump after which the gate of the next session knows the seat's HELLO, and
  \<^verbatim>\<open>Clear\<close>, which resets the whole channel. A peer that missed the acknowledgement can therefore always
  obtain it until the owner tears the channel down.
\<close>

theorem terminal_ack_kept:
  assumes "channel_step T cfg op ch gate ok ch' gate'" and "owed ch p"
  shows "(owed ch' p \<and> ch_terminalAcks ch' p = ch_terminalAcks ch p \<and>
      ch_previousSession ch' = ch_previousSession ch) \<or>
    (op = Op_Pump \<and> sg_peerHello gate' p) \<or> (op = Op_Clear \<and> ch' = Channel_Clear ch)"
  using channel_step_result [OF assms(1), of p] assms(2) by (auto simp: keeps_retired_def)

text \<open>
  C35: Errors are final and time is monotonic. No operation but \<^verbatim>\<open>Clear\<close>, which resets the whole channel,
  replaces the first failure of a channel or moves its clock back. An operation that answers false leaves
  a failure recorded, except a \<^verbatim>\<open>Retire\<close> where \<^verbatim>\<open>CanRetire\<close> does not hold, which changes nothing.
\<close>

theorem first_failure_kept:
  assumes "channel_step T cfg op ch gate ok ch' gate'"
  shows "((op = Op_Clear \<and> ch' = Channel_Clear ch) \<or>
     (ch_failure ch \<noteq> F_None \<longrightarrow> ch_failure ch' = ch_failure ch) \<and>
     (ch_observedClock ch \<longrightarrow> ch_observedClock ch' \<and> ch_lastClock ch \<le> ch_lastClock ch')) \<and>
    (\<not> ok \<longrightarrow> ch_failure ch' \<noteq> F_None \<or>
      (\<exists>core f. op = Op_Retire core f \<and> \<not> CanRetire ch core f \<and> ch' = ch))"
proof -
  have "op = Op_Clear \<Longrightarrow> ok" using assms by (cases rule: channel_step.cases) simp_all
  with channel_step_result [OF assms] show ?thesis by (auto simp: keeps_failure_def keeps_clock_def)
qed

section \<open>A sample retirement\<close>

text \<open>A transport that is always open, delivers a queue of buffers and accepts every send.\<close>

definition queue_transport :: "bytes list PeerTransport" where
  "queue_transport = \<lparr>pt_IsOpen = (\<lambda>_. True), pt_Failed = (\<lambda>_. False), pt_Recovering = (\<lambda>_. False),
     pt_Disconnected = (\<lambda>_. False), pt_CalibrationSuspended = (\<lambda>_. False),
     pt_SendTo = (\<lambda>t _ _. (True, t)), pt_SendRepairTo = (\<lambda>t _ _. (True, t)),
     pt_SendControl = (\<lambda>t _. (True, t)),
     pt_Poll = (\<lambda>t. case t of [] \<Rightarrow> (None, []) | data # rest \<Rightarrow> (Some data, rest)), pt_BufferedAmount = (\<lambda>_. 0)\<rparr>"

definition demo_session :: SessionConfig where
  "demo_session = \<lparr>sc_sessionId = 7, sc_seed = 5, sc_gameplayAbi = 8, sc_gameId = 6, sc_playerCount = 2, sc_localPlayer = 0\<rparr>"

definition blank_channel :: SessionChannel where
  "blank_channel = \<lparr>ch_policy = SessionChannelConfig_default, ch_session = SessionConfig_default, ch_active = False,
     ch_observedClock = False, ch_helloSent = False, ch_forceControl = False, ch_forceInputs = False,
     ch_deferredInput = False, ch_failure = F_None, ch_lastClock = 0, ch_beginTime = 0, ch_nextControl = 0,
     ch_nextInput = 0, ch_nextRetirementFence = 0, ch_latestCapture = INVALID_FRAME, ch_sentSequence = (\<lambda>_. 0),
     ch_receivedSequence = (\<lambda>_. 0), ch_peerFrame = (\<lambda>_. INVALID_FRAME), ch_repairFrontier = (\<lambda>_. INVALID_FRAME),
     ch_lastRepair = (\<lambda>_. 0), ch_peerNeedsAck = (\<lambda>_. False), ch_watchdog = (\<lambda>_. Watchdog_default),
     ch_pacing = SessionPacing_default, ch_adonis = AdonisPhase_default, ch_previousSession = 0, ch_nextRetiredSend = 0,
     ch_previousCount = 0, ch_previousLocal = 0, ch_previousNeeded = (\<lambda>_. False), ch_terminalAcks = (\<lambda>_. []),
     ch_sent = 0, ch_received = 0, ch_ignored = 0, ch_repairs = 0\<rparr>"

definition demo_channel :: SessionChannel where
  "demo_channel = snd (BeginSession blank_channel demo_session 10 SessionChannelConfig_default)"

lemma demo_channel_fields:
  "ch_active demo_channel" "ch_failure demo_channel = F_None" "ch_session demo_channel = demo_session"
  "ch_previousSession demo_channel = 0" "ch_lastClock demo_channel = 10" "ch_observedClock demo_channel"
  by (simp_all add: demo_channel_def BeginSession_def blank_channel_def demo_session_def begin_rejected_def
      SessionChannelConfig_default_def DefaultTimeoutMs_def MAX_PLAYERS_def ObserveClock_def)

text \<open>The peer acknowledges frame 0, and the core of the corrected run is settled.\<close>

definition ack_packet :: InputPacket where
  "ack_packet = InputPacket_default\<lparr>ip_sessionId := 7, ip_senderPlayer := 1, ip_playerCount := 2, ip_ackFrame := 0\<rparr>"

definition settled_core :: RollbackCore where
  "settled_core = record_ack corrected_core ack_packet"

abbreviation "settled_samples \<equiv> record_packet ack_packet
  (record_packet late_packet (add_sample 0 0 (FrameInput_of_bits 1) (lead_in sample_core_config)))"

abbreviation "settled_history \<equiv> ((\<lambda>_ _. FrameInput_default :: FrameInput) :: history)
  (0 := fd_inputs (PrepareFrame (rewound mispredicted_core 0) 0))"

lemma corrected_fields:
  "rc_config corrected_core = sample_core_config" "rc_configured corrected_core" "rc_lastSimulatedFrame corrected_core = 0"
  "rc_rollbackFrame corrected_core = INVALID_FRAME"
  by (simp_all add: corrected_core_def mispredicted_core_def)

lemma corrected_confirmed: "0 < confirmed_count corrected_core p" if "p = 0 \<or> p = 1"
  using frontier_exact [OF sample_corrected, of 0 p] that
  by (auto simp: record_packet_def add_sample_def split: option.split)

lemma ack_packet_accepted: "ApplyInputPacket sample_config corrected_core ack_packet = (True, RIR_Duplicate, settled_core)"
proof -
  have "rc_confirmedThrough corrected_core 0 \<noteq> INVALID_FRAME"
    using corrected_confirmed [of 0] by (auto simp: frames_through_0_iff)
  then have "packet_header_ok corrected_core ack_packet"
    by (simp add: packet_header_ok_def ack_packet_def InputPacket_default_def corrected_fields MAX_REDUNDANT_INPUTS_def)
  then show ?thesis by (simp add: ApplyInputPacket_def settled_core_def ack_packet_def InputPacket_default_def)
qed

lemma settled_run: "driver_run sample_config sample_core_config settled_samples settled_history settled_core"
  by (rule driver_run.receive [OF sample_corrected ack_packet_accepted])

lemma settled_frontiers:
  "rc_config settled_core = sample_core_config" "rc_configured settled_core" "rc_lastSimulatedFrame settled_core = 0"
  "rc_rollbackFrame settled_core = INVALID_FRAME" "rc_confirmedThrough settled_core = rc_confirmedThrough corrected_core"
  "frames_through (rc_peerAckOfLocal settled_core 1) > 0"
  by (auto simp: settled_core_def record_ack_def Let_def corrected_fields ack_packet_def InputPacket_default_def
      frames_through_valid word_less_nat_alt frames_through_0_iff neq0_conv [symmetric] simp del: neq0_conv)

lemma seats_2: "seats 2 = [0, 1]"
  by (simp add: seats_def upt_conv_Cons)

lemma invalid_is_last: "INVALID_FRAME \<le> f \<Longrightarrow> f = INVALID_FRAME" for f :: "32 word"
  by (metis frame_neq_INVALID unat_INVALID_FRAME word_le_nat_alt leD)

lemma demo_can_retire: "CanRetire demo_channel settled_core 0"
proof -
  have c: "rc_confirmedThrough settled_core 1 \<noteq> INVALID_FRAME"
    using corrected_confirmed [of 1] by (auto simp: settled_frontiers frames_through_0_iff [symmetric])
  have a: "rc_peerAckOfLocal settled_core 1 \<noteq> INVALID_FRAME"
    using settled_frontiers(6) by (auto simp: frames_through_0_iff [symmetric])
  have "atLeast_frame (ConfirmedThroughAllRemotes settled_core) 0"
    using c by (simp add: atLeast_frame_def ConfirmedThroughAllRemotes_def seats_2 settled_frontiers ConfirmedThrough_def)
  moreover have "atLeast_frame (AcknowledgedLocalThroughAllRemotes settled_core) 0"
    using a invalid_is_last [of "rc_peerAckOfLocal settled_core 1"]
    by (auto simp: atLeast_frame_def AcknowledgedLocalThroughAllRemotes_def seats_2 settled_frontiers min_def)
  ultimately show ?thesis
    by (simp add: CanRetire_def demo_channel_fields settled_frontiers HasRollbackRequest_def)
qed

definition retired_channel :: SessionChannel where
  "retired_channel = snd (snd (Retire queue_transport sample_config [] demo_channel settled_core 0 20))"

lemma demo_retire: "\<exists>t'. Retire queue_transport sample_config [] demo_channel settled_core 0 20 = (True, t', retired_channel)"
proof -
  let ?c = "next_sequence (demo_channel\<lparr>ch_observedClock := True, ch_lastClock := 20\<rparr>) 1"
  have ok: "input_packet_ok sample_config (terminal_ack ?c 1 0)"
    by (simp add: terminal_ack_def InputPacket_default_def input_packet_ok_def next_sequence_def demo_channel_fields
        demo_session_def MAX_PLAYERS_def MAX_REDUNDANT_INPUTS_def input_list_def)
  obtain c where l: "remote_loop (terminal_peer sample_config 0) ([] :: bytes list)
      (demo_channel\<lparr>ch_observedClock := True, ch_lastClock := 20\<rparr>) [0, 1] = (True, [], c)"
    by (simp add: demo_channel_fields demo_session_def terminal_peer_def Let_def EncodeInputPacket_ok [OF ok])
  obtain ok' t' ch' where s: "SendRetired queue_transport [] (retired_from c 20) 20 = (ok', t', ch')" by (metis prod_cases3)
  have "Retire queue_transport sample_config [] demo_channel settled_core 0 20 =
      SendRetired queue_transport [] (retired_from c 20) 20"
    using l demo_can_retire by (simp add: Retire_def ObserveClock_def demo_channel_fields demo_session_def seats_2
        retired_from_def Let_def)
  with s SendRetired_result(1) [OF s] show ?thesis by (simp add: retired_channel_def)
qed

section \<open>A sample pump\<close>

text \<open>
  A pump over a transport that is recovering: nothing can be sent, and two buffers that arrived before are
  delivered, the HELLO of the peer and its late input.
\<close>

definition recovering_transport :: "bytes list PeerTransport" where
  "recovering_transport = queue_transport\<lparr>pt_IsOpen := (\<lambda>_. False), pt_Recovering := (\<lambda>_. True)\<rparr>"

definition demo_hello :: SessionPacket where
  "demo_hello = \<lparr>sp_sessionId = 7, sp_seed = 5, sp_gameplayAbi = 8, sp_gameId = 6, sp_senderPlayer = 1,
     sp_playerCount = 2, sp_phase = Hello\<rparr>"

definition demo_gate :: SessionGate where
  "demo_gate = snd (Gate_Reset fresh_gate demo_session)"

definition demo_polls :: "bytes list" where
  "demo_polls = [session_packet_bytes sample_config demo_hello, input_packet_bytes sample_config late_packet]"

lemma recovering_simps [simp]:
  "\<not> pt_IsOpen recovering_transport t" "pt_Recovering recovering_transport t" "\<not> pt_Failed recovering_transport t"
  "\<not> pt_Disconnected recovering_transport t" "pt_Poll recovering_transport [] = (None, [])"
  "pt_Poll recovering_transport (data # rest) = (Some data, rest)"
  by (simp_all add: recovering_transport_def queue_transport_def)

lemma idle_watch: "\<exists>c. remote_loop (watch_peer core now True) t ch peers = (True, t, c)"
  by (induction peers arbitrary: ch) (simp_all add: watch_peer_def)

lemma recovering_pump_active: "fst (pump_active recovering_transport cfg t ch gate core now expects deferred)"
proof -
  obtain g c where "(if CanSendReady gate \<and> \<not> sg_localReady gate
      then (MarkLocalReady gate, ch\<lparr>ch_forceControl := True\<rparr>) else (gate, ch)) = (g, c)" by (rule prod.exhaust)
  then have c: "pump_control recovering_transport cfg t ch gate now = (True, t, c, g)"
    by (simp add: pump_control_def Let_def)
  have s: "SendInputs recovering_transport cfg t c core now force d = (True, t, c)" for force d
    by (simp add: SendInputs_def)
  obtain c' where w: "remote_loop (watch_peer core now True) t c (seats (sc_playerCount (ch_session c))) = (True, t, c')"
    by (rule exE [OF idle_watch])
  show ?thesis by (simp add: pump_active_def c s w Let_def)
qed

lemma demo_decoded:
  "DecodeSessionPacket sample_config (session_packet_bytes sample_config demo_hello) = Some demo_hello"
  "DecodeInputPacket sample_config (input_packet_bytes sample_config late_packet) = Some late_packet"
proof -
  have "session_packet_ok demo_hello" by (simp add: demo_hello_def session_packet_ok_def MAX_PLAYERS_def)
  then show "DecodeSessionPacket sample_config (session_packet_bytes sample_config demo_hello) = Some demo_hello"
    by (intro DecodeSessionPacket_bytes) (simp_all add: length_session_packet_bytes)
  have inputs: "input_list late_packet = [FrameInput_of_bits 3]" by (simp add: input_list_def)
  then have "input_packet_ok sample_config late_packet"
    by (simp add: input_packet_ok_def frame_range_ok_iff INVALID_FRAME_def MAX_PLAYERS_def MAX_REDUNDANT_INPUTS_def
        ValidInput_of_bits)
  then have "DecodeInputPacket sample_config (input_packet_bytes sample_config late_packet) = Some (transmitted late_packet)"
    by (intro DecodeInputPacket_bytes) simp_all
  moreover have "transmitted late_packet = late_packet"
    by (simp add: transmitted_def inputs) (simp add: late_packet_def InputPacket_default_def)
  ultimately show "DecodeInputPacket sample_config (input_packet_bytes sample_config late_packet) = Some late_packet" by simp
qed

definition demo_greeted :: SessionGate where
  "demo_greeted = (SetTransportAvailable demo_gate False)\<lparr>sg_peerHello := (\<lambda>_. False)(1 := True)\<rparr>"

lemma demo_greets: "Gate_Apply (SetTransportAvailable demo_gate False) demo_hello = (SPR_Accepted, demo_greeted)"
  by (simp add: demo_greeted_def Gate_Apply_def demo_gate_def Gate_Reset_def Gate_Clear_def fresh_gate_def
      demo_session_def demo_hello_def SetTransportAvailable_def MatchesContract_def MAX_PLAYERS_def)

lemma demo_hello_received:
  assumes "ch_active ch" "ch_session ch = demo_session"
  shows "\<exists>c. receive_packet sample_config ch (SetTransportAvailable demo_gate False) core 12
      (session_packet_bytes sample_config demo_hello) = (True, c, demo_greeted, core)"
proof -
  let ?d = "session_packet_bytes sample_config demo_hello"
  have "DecodeAdonisPhaseSample ?d = None"
    using adonis_buffer [of ?d] demo_decoded(1) by (cases "DecodeAdonisPhaseSample ?d") auto
  moreover have "sp_sessionId demo_hello = sc_sessionId demo_session" "sp_phase demo_hello = Hello"
    by (simp_all add: demo_hello_def demo_session_def)
  ultimately show ?thesis
    using assms buffer_kinds(1) [OF demo_decoded(1)]
    by (simp add: receive_packet_def receive_session_def length_session_packet_bytes MaxPacketBytes_def
        Let_def demo_greets demo_decoded(1))
qed

lemma demo_late_received:
  assumes "ch_active ch" "ch_session ch = demo_session"
  shows "\<exists>c. receive_packet sample_config ch gate predicted_core 12 (input_packet_bytes sample_config late_packet) =
    (True, c, gate, mispredicted_core)"
proof -
  let ?d = "input_packet_bytes sample_config late_packet"
  have "DecodeAdonisPhaseSample ?d = None"
    using adonis_buffer [of ?d] demo_decoded(2) by (cases "DecodeAdonisPhaseSample ?d") auto
  moreover have "input_refusal c predicted_core late_packet = F_None" if "ch_session c = demo_session" for c
    using that by (simp add: input_refusal_def demo_session_def INPUT_HISTORY_SIZE_def Let_def)
  ultimately show ?thesis
    using assms buffer_kinds(2) [OF demo_decoded(2)] demo_decoded(2) late_packet_accepted
    by (simp add: receive_packet_def receive_input_def demo_session_def length_input_packet_bytes MaxPacketBytes_def Let_def)
qed

lemma demo_channel_policy: "ch_policy demo_channel = SessionChannelConfig_default"
  by (simp add: demo_channel_def BeginSession_def blank_channel_def demo_session_def begin_rejected_def
      SessionChannelConfig_default_def DefaultTimeoutMs_def MAX_PLAYERS_def ObserveClock_def)

lemma demo_pump_receives:
  assumes "ch_active ch" "ch_session ch = demo_session" "ch_policy ch = SessionChannelConfig_default" "ch_previousSession ch = 0"
  shows "\<exists>c. Receive recovering_transport sample_config demo_polls ch (SetTransportAvailable demo_gate False) predicted_core 12 =
      (True, [], c, demo_greeted, mispredicted_core) \<and>
    ch_active c \<and> ch_previousSession c = 0"
proof -
  let ?g = "SetTransportAvailable demo_gate False" and ?g2 = demo_greeted
  obtain c1 where c1: "receive_packet sample_config ch ?g predicted_core 12 (session_packet_bytes sample_config demo_hello) =
      (True, c1, ?g2, predicted_core)" using demo_hello_received [OF assms(1,2)] by blast
  have s1: "ch_active c1" "ch_session c1 = demo_session" "ch_previousSession c1 = 0"
    using receive_packet_received [OF c1] assms by (simp_all add: received_def keeps_session_def keeps_retired_def)
  obtain c2 where c2: "receive_packet sample_config c1 ?g2 predicted_core 12 (input_packet_bytes sample_config late_packet) =
      (True, c2, ?g2, mispredicted_core)" using demo_late_received [OF s1(1,2)] by blast
  have s2: "ch_active c2 \<and> ch_previousSession c2 = 0"
    using receive_packet_received [OF c2] s1 by (simp add: received_def keeps_session_def keeps_retired_def)
  have "cfg_receiveBudget (ch_policy ch) = Suc (Suc (Suc 253))" by (simp add: assms(3) SessionChannelConfig_default_def)
  then have "Receive recovering_transport sample_config demo_polls ch ?g predicted_core 12 =
      receive_loop recovering_transport sample_config 12 (Suc (Suc (Suc 253))) demo_polls ch ?g predicted_core"
    unfolding Receive_def by (rule arg_cong)
  also have "\<dots> = (True, [], c2, ?g2, mispredicted_core)"
    by (simp only: receive_loop.simps demo_polls_def recovering_simps c1 c2 prod.case option.case bool.case)
  finally show ?thesis using s2 by blast
qed

lemma demo_pump_ok: "fst (Pump recovering_transport sample_config demo_polls demo_channel demo_gate predicted_core 12 True False)"
proof -
  define ch where "ch = demo_channel\<lparr>ch_observedClock := True, ch_lastClock := 12\<rparr>"
  have clock: "ObserveClock demo_channel 12 = (True, ch)"
    by (simp add: ObserveClock_def demo_channel_fields ch_def)
  have ch: "ch_active ch" "ch_session ch = demo_session" "ch_policy ch = SessionChannelConfig_default" "ch_previousSession ch = 0"
    by (simp_all add: ch_def demo_channel_fields demo_channel_policy)
  obtain c where c: "Receive recovering_transport sample_config demo_polls ch (SetTransportAvailable demo_gate False) predicted_core 12 =
      (True, [], c, demo_greeted, mispredicted_core)"
    "ch_active c" "ch_previousSession c = 0" using demo_pump_receives [OF ch] by blast
  have s: "SendRetired recovering_transport [] c 12 = (True, [], c)" using c(3) by (simp add: SendRetired_def)
  have g: "sg_config (SetTransportAvailable demo_gate False) = demo_session"
    by (simp add: SetTransportAvailable_def demo_gate_def Gate_Reset_def demo_session_def MAX_PLAYERS_def)
  show ?thesis
    using recovering_pump_active [of sample_config "[]" c demo_greeted mispredicted_core 12 True False]
    by (cases "pump_active recovering_transport sample_config [] c demo_greeted mispredicted_core 12 True False")
      (simp add: Pump_def demo_channel_fields clock c s g ch(2))
qed

section \<open>Witnesses\<close>

theorem pump_drives_gate_and_core_witness:
  "sg_peerHello (fst (snd (snd (snd (Pump recovering_transport sample_config demo_polls demo_channel demo_gate
     predicted_core 12 True False))))) 1 \<and>
   snd (snd (snd (snd (Pump recovering_transport sample_config demo_polls demo_channel demo_gate
     predicted_core 12 True False)))) = mispredicted_core"
proof -
  have "Gate_Reset fresh_gate demo_session = (True, demo_gate)"
    by (simp add: demo_gate_def Gate_Reset_def demo_session_def MAX_PLAYERS_def)
  note run = gate_run.reset [OF this]
  obtain t' ch' gate' core' where p: "Pump recovering_transport sample_config demo_polls demo_channel demo_gate
      predicted_core 12 True False = (True, t', ch', gate', core')"
    using demo_pump_ok by (metis prod_cases5 fst_conv)
  have "cfg_receiveBudget (ch_policy demo_channel) = Suc (Suc (Suc 253))"
    by (simp add: demo_channel_policy SessionChannelConfig_default_def)
  then have polls: "polled recovering_transport (cfg_receiveBudget (ch_policy demo_channel)) demo_polls = demo_polls"
    by (simp only: polled.simps demo_polls_def recovering_simps prod.case option.case)
  have len: "length demo_polls = 2" by (simp add: demo_polls_def)
  from pump_drives_gate_and_core [OF sample_predicted run p, unfolded polls] obtain k where
    k: "2 \<le> k" "gate' = apply_sessions (own_sessions sample_config demo_channel (take k demo_polls)) (SetTransportAvailable demo_gate False) \<or>
      gate' = MarkLocalReady (apply_sessions (own_sessions sample_config demo_channel (take k demo_polls)) (SetTransportAvailable demo_gate False))"
      "core' = apply_inputs sample_config (own_inputs sample_config demo_channel (take k demo_polls)) predicted_core"
    unfolding Let_def by (auto simp: len)
  have all: "take k demo_polls = demo_polls" using k(1) len by simp
  have own: "own_sessions sample_config demo_channel demo_polls = [demo_hello]" "own_inputs sample_config demo_channel demo_polls = [late_packet]"
    using demo_decoded buffer_kinds(1) [OF demo_decoded(1)] buffer_kinds(2) [OF demo_decoded(2)]
    by (simp_all add: own_sessions_def own_inputs_def map_filter_def demo_polls_def demo_channel_fields demo_hello_def demo_session_def)
  have "core' = mispredicted_core" using k(3) late_packet_accepted by (simp add: all own)
  moreover have "sg_peerHello (apply_sessions [demo_hello] (SetTransportAvailable demo_gate False)) 1"
    by (simp add: demo_greets) (simp add: demo_greeted_def)
  ultimately show ?thesis using k(2) by (auto simp: p all own MarkLocalReady_hello)
qed

theorem retirement_is_settled_witness:
  "\<exists>packet. DecodeInputPacket sample_config (ch_terminalAcks retired_channel 1) = Some packet \<and> ip_ackFrame packet = 0"
proof -
  obtain t' where r: "Retire queue_transport sample_config [] demo_channel settled_core 0 20 = (True, t', retired_channel)"
    using demo_retire by blast
  have "\<forall>q. q < cc_playerCount sample_core_config \<and> q \<noteq> cc_localPlayer sample_core_config \<longrightarrow>
      (\<exists>packet. DecodeInputPacket sample_config (ch_terminalAcks retired_channel q) = Some packet \<and> ip_ackFrame packet = 0)"
    using retirement_is_settled [OF settled_run _ _ _ r] by (simp add: demo_channel_fields demo_session_def) blast
  then show ?thesis by simp
qed

lemma retired_owes: "owed retired_channel 1"
proof -
  obtain t' where r: "Retire queue_transport sample_config [] demo_channel settled_core 0 20 = (True, t', retired_channel)"
    using demo_retire by blast
  show ?thesis
    using Retire_success(4) [OF r, of 1] by (simp add: demo_channel_fields demo_session_def MAX_PLAYERS_def)
qed

theorem terminal_ack_kept_witness:
  "owed (snd (snd (PumpRetirement queue_transport [] retired_channel 60))) 1"
proof -
  obtain ok t' ch' where p: "PumpRetirement queue_transport [] retired_channel 60 = (ok, t', ch')" by (metis prod_cases3)
  have "\<not> sg_peerHello fresh_gate 1" by (simp add: fresh_gate_def)
  moreover have "channel_step queue_transport sample_config Op_PumpRetirement retired_channel fresh_gate ok ch' fresh_gate"
    by (rule channel_step.pump_retired [OF p])
  ultimately show ?thesis using terminal_ack_kept [OF _ retired_owes] p by fastforce
qed

theorem first_failure_kept_witness:
  "ch_failure (snd (snd (PumpRetirement queue_transport [] demo_channel 60))) \<noteq> F_None"
proof -
  obtain ok t' ch' where p: "PumpRetirement queue_transport [] demo_channel 60 = (ok, t', ch')" by (metis prod_cases3)
  then have "\<not> ok" by (simp add: PumpRetirement_def demo_channel_fields)
  moreover have "channel_step queue_transport sample_config Op_PumpRetirement demo_channel fresh_gate ok ch' fresh_gate"
    by (rule channel_step.pump_retired [OF p])
  ultimately show ?thesis using first_failure_kept p by fastforce
qed

end
