(* ===== verification/ChannelRepair.thy ===== *)
theory ChannelRepair
  imports ChannelProps CoreNetwork
begin

text \<open>
  The repair lane of the session channel, observed on a transport that records what is sent on it, and a
  concrete transport on which the properties of the channel are evaluated.
\<close>

section \<open>A transport that records its repair lane\<close>

definition logged :: "'t PeerTransport \<Rightarrow> ('t \<times> (u8 \<times> bytes) list) PeerTransport" where
  "logged T = \<lparr>pt_IsOpen = (\<lambda>t. pt_IsOpen T (fst t)), pt_Failed = (\<lambda>t. pt_Failed T (fst t)),
     pt_Recovering = (\<lambda>t. pt_Recovering T (fst t)), pt_Disconnected = (\<lambda>t. pt_Disconnected T (fst t)),
     pt_CalibrationSuspended = (\<lambda>t. pt_CalibrationSuspended T (fst t)),
     pt_SendTo = (\<lambda>t peer data. let (ok, t') = pt_SendTo T (fst t) peer data in (ok, (t', snd t))),
     pt_SendRepairTo = (\<lambda>t peer data. let (ok, t') = pt_SendRepairTo T (fst t) peer data
       in (ok, (t', (peer, data) # snd t))),
     pt_SendControl = (\<lambda>t data. let (ok, t') = pt_SendControl T (fst t) data in (ok, (t', snd t))),
     pt_Poll = (\<lambda>t. let (data, t') = pt_Poll T (fst t) in (data, (t', snd t))),
     pt_BufferedAmount = (\<lambda>t. pt_BufferedAmount T (fst t))\<rparr>"

lemma logged_SendTo: "snd (snd (pt_SendTo (logged T) t peer data)) = snd t"
  by (simp add: logged_def split: prod.split)

lemma logged_SendRepairTo: "snd (snd (pt_SendRepairTo (logged T) t peer data)) = (peer, data) # snd t"
  by (simp add: logged_def split: prod.split)

text \<open>\<open>same_seat\<close>: what the channel keeps of a seat while it serves another one.\<close>

definition same_seat :: "u8 \<Rightarrow> SessionChannel \<Rightarrow> SessionChannel \<Rightarrow> bool" where
  "same_seat p ch ch' \<longleftrightarrow> ch_repairFrontier ch' p = ch_repairFrontier ch p \<and> ch_lastRepair ch' p = ch_lastRepair ch p \<and>
     ch_peerNeedsAck ch' p = ch_peerNeedsAck ch p \<and> ch_latestCapture ch' = ch_latestCapture ch \<and>
     ch_policy ch' = ch_policy ch \<and> ch_session ch' = ch_session ch"

lemma same_seat_refl [simp]: "same_seat p ch ch"
  by (simp add: same_seat_def)

lemma same_seat_trans: "same_seat p a b \<Longrightarrow> same_seat p b c \<Longrightarrow> same_seat p a c"
  by (simp add: same_seat_def)

lemma same_seat_steps:
  "same_seat p ch (next_sequence ch q)" "same_seat p ch (count_sent ok ch)" "same_seat p ch (count_repair ok ch)"
  "same_seat p ch (Fail ch f)"
  "p \<noteq> q \<Longrightarrow> same_seat p ch (note_frontier core now q ch)" "p \<noteq> q \<Longrightarrow> same_seat p ch (repaired_at now q ch)"
  "AcknowledgedLocalThrough core p = ch_repairFrontier ch p \<Longrightarrow> same_seat p ch (note_frontier core now p ch)"
  by (simp_all add: same_seat_def next_sequence_def count_sent_def count_repair_def Fail_def note_frontier_def
      repaired_at_def Let_def)

section \<open>A stalled seat is repaired\<close>

definition payload :: "InputPacket \<Rightarrow> u32 \<times> u32 \<times> u8 \<times> (nat \<Rightarrow> FrameInput)" where
  "payload packet = (ip_ackFrame packet, ip_firstInputFrame packet, ip_inputCount packet, ip_inputs packet)"

lemma payload_stamped: "payload (stamped core ch peer) =
    payload (BuildInputPacket core peer (LocalFrameForCapture core (ch_latestCapture ch)) 0 0)"
  by (simp add: stamped_def tag_packet_def payload_def BuildInputPacket_def Let_def)

definition stalled :: "RollbackCore \<Rightarrow> u64 \<Rightarrow> SessionChannel \<Rightarrow> u8 \<Rightarrow> bool" where
  "stalled core now ch p \<longleftrightarrow> AcknowledgedLocalThrough core p = ch_repairFrontier ch p \<and>
     now - ch_lastRepair ch p \<ge> cfg_repairIntervalMs (ch_policy ch) \<and>
     (ch_peerNeedsAck ch p \<or>
      ip_inputCount (BuildInputPacket core p (LocalFrameForCapture core (ch_latestCapture ch)) 0 0) \<noteq> 0)"

definition repaired :: "ProtocolConfig \<Rightarrow> RollbackCore \<Rightarrow> u32 \<Rightarrow> u8 \<Rightarrow> (u8 \<times> bytes) list \<Rightarrow> bool" where
  "repaired cfg core latest p sent \<longleftrightarrow> (\<exists>data packet. (p, data) \<in> set sent \<and>
     EncodeInputPacket cfg packet [] = (True, data) \<and>
     payload packet = payload (BuildInputPacket core p (LocalFrameForCapture core latest) 0 0))"

lemma stalled_same_seat: "stalled core now ch p \<Longrightarrow> same_seat p ch ch' \<Longrightarrow> stalled core now ch' p"
  by (simp add: stalled_def same_seat_def)

lemma send_peer_logged:
  assumes "send_peer (logged T) cfg core now bp t ch q = (ok, t', ch')"
  shows "set (snd t) \<subseteq> set (snd t')" "p \<noteq> q \<Longrightarrow> same_seat p ch ch'"
    "ok \<Longrightarrow> stalled core now ch q \<Longrightarrow> repaired cfg core (ch_latestCapture ch) q (snd t')"
proof -
  let ?n = "next_sequence ch q"
  obtain enc out where enc: "EncodeInputPacket cfg (stamped core ?n q) [] = (enc, out)" by fastforce
  obtain sent t1 where sent: "(if bp then (False, t) else pt_SendTo (logged T) t q out) = (sent, t1)"
    by (rule prod.exhaust)
  obtain rep t2 where rep: "pt_SendRepairTo (logged T) t1 q out = (rep, t2)" by (rule prod.exhaust)
  define d where "d = note_frontier core now q (count_sent sent ?n)"
  note step = send_peer_step [OF enc sent rep d_def]
  have l1: "snd t1 = snd t" using sent logged_SendTo [of T t q out] by (auto split: if_splits)
  have l2: "snd t2 = (q, out) # snd t" using rep l1 logged_SendRepairTo [of T t1 q out] by simp
  show "set (snd t) \<subseteq> set (snd t')"
  proof -
    have "t' = t \<or> t' = t1 \<or> t' = t2" using assms unfolding step by (simp split: if_splits)
    then show ?thesis using l1 l2 by auto
  qed
  have n: "same_seat r ch (count_sent sent ?n)" for r
    by (rule same_seat_trans [OF same_seat_steps(1) same_seat_steps(2)])
  show "same_seat p ch ch'" if "p \<noteq> q"
  proof -
    have "same_seat p ch d" unfolding d_def by (rule same_seat_trans [OF n same_seat_steps(5) [OF that]])
    moreover from this have "same_seat p ch (repaired_at now q (count_repair rep d))"
      by (rule same_seat_trans [OF _ same_seat_trans [OF same_seat_steps(3) same_seat_steps(6) [OF that]]])
    moreover have "same_seat p ch (Fail ?n F_InvalidCapture)"
      by (rule same_seat_trans [OF same_seat_steps(1) same_seat_steps(4)])
    moreover have "ch' = Fail ?n F_InvalidCapture \<or> ch' = repaired_at now q (count_repair rep d) \<or> ch' = d"
      using assms unfolding step by (simp split: if_splits)
    ultimately show ?thesis by metis
  qed
  show "repaired cfg core (ch_latestCapture ch) q (snd t')" if ok: ok and st: "stalled core now ch q"
  proof -
    have "stalled core now (count_sent sent ?n) q" by (rule stalled_same_seat [OF st n])
    then have "AcknowledgedLocalThrough core q = ch_repairFrontier (count_sent sent ?n) q" by (simp add: stalled_def)
    then have d: "same_seat q ch d" unfolding d_def by (rule same_seat_trans [OF n same_seat_steps(7)])
    have "stalled core now d q" by (rule stalled_same_seat [OF st d])
    moreover have "ch_latestCapture ?n = ch_latestCapture d"
      using d same_seat_steps(1) [of q ch q] by (simp add: same_seat_def)
    then have pay: "payload (stamped core ?n q) =
        payload (BuildInputPacket core q (LocalFrameForCapture core (ch_latestCapture d)) 0 0)"
      by (simp add: payload_stamped)
    ultimately have "repair_due now (stamped core ?n q) d q"
      by (auto simp: repair_due_def stalled_def payload_def)
    with assms ok have "enc \<and> t' = t2" unfolding step by (simp split: if_splits)
    then have "(q, out) \<in> set (snd t')" "EncodeInputPacket cfg (stamped core ?n q) [] = (True, out)"
      using l2 enc by simp_all
    moreover have "ch_latestCapture d = ch_latestCapture ch" using d by (simp add: same_seat_def)
    ultimately show ?thesis unfolding repaired_def using pay by (intro exI [of _ out] exI [of _ "stamped core ?n q"]) simp
  qed
qed

lemma repaired_mono: "repaired cfg core latest p sent \<Longrightarrow> set sent \<subseteq> set sent' \<Longrightarrow> repaired cfg core latest p sent'"
  unfolding repaired_def by blast

lemma send_loop_logged:
  "remote_loop (send_peer (logged T) cfg core now bp) t ch peers = (True, t', ch') \<Longrightarrow> distinct peers \<Longrightarrow>
   set (snd t) \<subseteq> set (snd t') \<and> (p \<in> set peers \<longrightarrow> p \<noteq> sc_localPlayer (ch_session ch) \<longrightarrow> stalled core now ch p \<longrightarrow>
     repaired cfg core (ch_latestCapture ch) p (snd t'))"
proof (induction peers arbitrary: t ch)
  case Nil
  then show ?case by simp
next
  case (Cons q peers)
  show ?case
  proof (cases "q = sc_localPlayer (ch_session ch)")
    case True
    then show ?thesis using Cons by auto
  next
    case False
    obtain b t1 c1 where b: "send_peer (logged T) cfg core now bp t ch q = (b, t1, c1)" by (metis prod_cases3)
    have ok: b and rest: "remote_loop (send_peer (logged T) cfg core now bp) t1 c1 peers = (True, t', ch')"
      using Cons.prems(1) False b by (auto split: bool.splits)
    note s = send_peer_logged [OF b]
    have ih: "set (snd t1) \<subseteq> set (snd t') \<and> (p \<in> set peers \<longrightarrow> p \<noteq> sc_localPlayer (ch_session c1) \<longrightarrow>
        stalled core now c1 p \<longrightarrow> repaired cfg core (ch_latestCapture c1) p (snd t'))"
      using Cons.IH [OF rest] Cons.prems(2) by simp
    show ?thesis
    proof (cases "p = q")
      case True
      then show ?thesis using ih s(1) s(3) [OF ok] repaired_mono by blast
    next
      case ne: False
      have "same_seat p ch c1" by (rule s(2) [OF ne])
      then have "stalled core now ch p \<longrightarrow> stalled core now c1 p" "ch_session c1 = ch_session ch"
        "ch_latestCapture c1 = ch_latestCapture ch"
        using stalled_same_seat by (auto simp: same_seat_def)
      then show ?thesis using ih s(1) ne by auto
    qed
  qed
qed

text \<open>
  C36: Backpressure never silences the repair lane. When a channel with a capture sends its inputs on an
  open transport and completes, every remote seat that is due for repair (its acknowledgement frontier has
  not moved for the repair interval, and it misses inputs or asks for an acknowledgement) is sent, on the
  repair lane, an encoded packet with exactly the acknowledgement and the inputs the core builds for it,
  however much the transport has buffered and whether or not ordinary sends may be deferred.
\<close>

theorem stalled_seat_is_repaired:
  assumes "SendInputs (logged T) cfg (t, []) ch core now force deferOrdinary = (True, (t', sent), ch')"
    and "ch_active ch" "pt_IsOpen T t" "ch_latestCapture ch \<noteq> INVALID_FRAME"
    and "force \<or> ch_nextInput ch \<le> now"
    and seat: "p < sc_playerCount (ch_session ch)" "p \<noteq> sc_localPlayer (ch_session ch)"
    and due: "stalled core now ch p"
  shows "repaired cfg core (ch_latestCapture ch) p sent"
proof -
  let ?peers = "seats (sc_playerCount (ch_session ch))"
  define bp where "bp \<longleftrightarrow> pt_BufferedAmount (logged T) (t, []) > cfg_bufferedLimit (ch_policy ch)"
  let ?c = "ch\<lparr>ch_deferredInput := False\<rparr>"
  obtain a t1 c1 where loop: "remote_loop (send_peer (logged T) cfg core now bp) (t, []) ?c ?peers = (a, t1, c1)"
    by (metis prod_cases3)
  have "must_send_now ch core now p" using due by (simp add: must_send_now_def stalled_def Let_def)
  then have now: "list_ex (must_send_now ch core now) (filter (\<lambda>q. q \<noteq> sc_localPlayer (ch_session ch)) ?peers)"
    using seat by (auto simp: list_ex_iff)
  have "pt_IsOpen (logged T) (t, [])" using assms(3) by (simp add: logged_def)
  then have go: "\<not> (\<not> ch_active ch \<or> \<not> pt_IsOpen (logged T) (t, []) \<or> ch_latestCapture ch = INVALID_FRAME \<or>
      (\<not> (force \<or> ch_deferredInput ch) \<and> now < ch_nextInput ch))"
    using assms(2,4,5) by auto
  from now have stay: "\<not> (deferOrdinary \<and> \<not> ch_deferredInput ch \<and> \<not> bp \<and> \<not> cfg_adonisPhase (ch_policy ch) \<and>
      \<not> list_ex (must_send_now ch core now) (filter (\<lambda>q. q \<noteq> sc_localPlayer (ch_session ch)) ?peers))" by blast
  have "a \<and> t1 = (t', sent)"
    using assms(1) unfolding SendInputs_def Let_def bp_def [symmetric] if_not_P [OF go] if_not_P [OF stay] loop
    by (cases a) simp_all
  then have "remote_loop (send_peer (logged T) cfg core now bp) (t, []) ?c ?peers = (True, (t', sent), c1)"
    using loop by simp
  from send_loop_logged [OF this, of p] have "stalled core now ?c p \<longrightarrow> repaired cfg core (ch_latestCapture ch) p sent"
    using seat by simp
  moreover have "stalled core now ?c p" using due by (simp add: stalled_def)
  ultimately show ?thesis by simp
qed

section \<open>Witness\<close>

text \<open>The transport of the sample, far above the limit of its buffer, and the sample channel after a capture.\<close>

definition backlogged :: "bytes list PeerTransport" where
  "backlogged = queue_transport\<lparr>pt_BufferedAmount := (\<lambda>_. 100000000)\<rparr>"

definition capturing_channel :: SessionChannel where
  "capturing_channel = demo_channel\<lparr>ch_latestCapture := 0\<rparr>"

lemma capturing_fields:
  "ch_active capturing_channel" "ch_session capturing_channel = demo_session" "ch_latestCapture capturing_channel = 0"
  "ch_repairFrontier capturing_channel p = INVALID_FRAME" "ch_lastRepair capturing_channel p = 10"
  "ch_peerFrame capturing_channel p = INVALID_FRAME" "ch_policy capturing_channel = SessionChannelConfig_default"
  "ch_nextInput capturing_channel = 10"
  by (simp_all add: capturing_channel_def demo_channel_def BeginSession_def blank_channel_def demo_session_def
      begin_rejected_def SessionChannelConfig_default_def DefaultTimeoutMs_def MAX_PLAYERS_def ObserveClock_def)

lemma captured_frames: "LocalFrameForCapture captured_core 0 = 0" "rc_peerAckOfLocal captured_core p = INVALID_FRAME"
  by (simp_all add: LocalFrameForCapture_def captured_core_def ready_core_def blank_core_def INVALID_FRAME_def)

lemma captured_inputs: "build_loop captured_core 0 32 0 = [FrameInput_of_bits 1]"
  unfolding build_loop_numeral by (simp add: captured_slots build_loop_numeral)

lemma captured_built:
  "BuildInputPacket captured_core 1 0 s a = InputPacket_default\<lparr>ip_sessionId := cc_sessionId sample_core_config,
     ip_sequence := s, ip_ackSequence := a, ip_playerCount := 2, ip_latestFrame := 0, ip_ackFrame := INVALID_FRAME,
     ip_firstInputFrame := 0, ip_inputCount := 1, ip_inputs := stored_inputs [FrameInput_of_bits 1]\<rparr>"
  by (simp add: BuildInputPacket_def captured_frames MAX_REDUNDANT_INPUTS_def InputPacket_default_def Let_def captured_inputs)

lemma capturing_encodes: "EncodeInputPacket sample_config (stamped captured_core (next_sequence capturing_channel 1) 1) [] =
    (True, input_packet_bytes sample_config (stamped captured_core (next_sequence capturing_channel 1) 1))"
proof (rule EncodeInputPacket_ok)
  show "input_packet_ok sample_config (stamped captured_core (next_sequence capturing_channel 1) 1)"
    using bits_valid [of 1]
    by (simp add: stamped_def tag_packet_def next_sequence_def capturing_fields captured_frames captured_built
        input_packet_ok_def MAX_PLAYERS_def MAX_REDUNDANT_INPUTS_def frame_range_ok_def input_list_def
        InputPacket_default_def INVALID_FRAME_def stored_inputs_def)
qed

lemma capturing_due: "stalled captured_core 2000 capturing_channel 1"
  by (simp add: stalled_def AcknowledgedLocalThrough_def captured_frames capturing_fields captured_built
      SessionChannelConfig_default_def)

lemma send_peer_completes:
  assumes "fst (EncodeInputPacket cfg (stamped core (next_sequence ch q) q) [])"
  shows "fst (send_peer T cfg core now bp t ch q)"
proof -
  obtain out where enc: "EncodeInputPacket cfg (stamped core (next_sequence ch q) q) [] = (True, out)"
    using assms by (metis prod.collapse)
  obtain sent t1 where sent: "(if bp then (False, t) else pt_SendTo T t q out) = (sent, t1)" by (rule prod.exhaust)
  obtain rep t2 where rep: "pt_SendRepairTo T t1 q out = (rep, t2)" by (rule prod.exhaust)
  show ?thesis unfolding send_peer_step [OF enc sent rep refl] by simp
qed

theorem stalled_seat_is_repaired_witness:
  "repaired sample_config captured_core 0 1 (snd (fst (snd
     (SendInputs (logged backlogged) sample_config ([], []) capturing_channel captured_core 2000 False True))))"
proof -
  obtain ok t' sent ch' where r: "SendInputs (logged backlogged) sample_config ([], []) capturing_channel captured_core
      2000 False True = (ok, (t', sent), ch')" by (metis prod.exhaust)
  have opened: "pt_IsOpen backlogged []" by (simp add: backlogged_def queue_transport_def)
  let ?c = "capturing_channel\<lparr>ch_deferredInput := False\<rparr>"
  have enc: "fst (EncodeInputPacket sample_config (stamped captured_core (next_sequence ?c 1) 1) [])"
  proof -
    have "stamped captured_core (next_sequence ?c 1) 1 = stamped captured_core (next_sequence capturing_channel 1) 1"
      by (simp add: stamped_def tag_packet_def next_sequence_def Let_def)
    then show ?thesis by (simp add: capturing_encodes)
  qed
  have "fst (send_peer (logged backlogged) sample_config captured_core 2000 True ([], []) ?c 1)"
    by (rule send_peer_completes [OF enc])
  then have ok
    using r opened
    by (simp add: SendInputs_def Let_def logged_def backlogged_def capturing_fields demo_session_def seats_2
        SessionChannelConfig_default_def INVALID_FRAME_def split: prod.splits bool.splits)
  then have "SendInputs (logged backlogged) sample_config ([], []) capturing_channel captured_core
      2000 False True = (True, (t', sent), ch')" using r by simp
  from stalled_seat_is_repaired [OF this _ opened _ _ _ _ capturing_due] r show ?thesis
    by (simp add: capturing_fields demo_session_def)
qed

end
