(* ===== verification/Startup.thy ===== *)
theory Startup
  imports Session Adonis Transport
begin

text \<open>
  The calibration before the first frame: \<^verbatim>\<open>AdonisStartup.hpp\<close>. The peers of a session exchange HELLOs,
  measure the round trip to every other seat with 129 probes, publish the summary of the worst link,
  and commit one input delay that follows from all summaries.

  \<^verbatim>\<open>unsigned\<close> is 32 bits wide. Arrays indexed by a seat are functions of the seat; the lanes \<^verbatim>\<open>sentAt_\<close>
  and \<^verbatim>\<open>rtt_\<close> are functions of the seat and the slot. A kind of packet is its wire byte. \<^verbatim>\<open>error_\<close> is
  the text itself.
\<close>

section \<open>Data\<close>

abbreviation "Warmup \<equiv> 10 :: nat"
abbreviation "Samples \<equiv> 120 :: nat"
abbreviation "Attempts \<equiv> 130 :: nat"
abbreviation "ProbeCount \<equiv> 129 :: u32"
abbreviation "IntervalUs \<equiv> 16000 :: u64"
abbreviation "TailUs \<equiv> 200000 :: u64"
abbreviation "StabilizeUs \<equiv> 1000000 :: u64"
abbreviation "PeerWaitUs \<equiv> 45000000 :: u64"
abbreviation "MeasurementTimeoutUs \<equiv> 10000000 :: u64"
abbreviation "MaxRetries \<equiv> 3 :: u32"
abbreviation "StartupTimeoutUs \<equiv> 90000000 :: u64"

definition Automatic :: u32 where "Automatic = INVALID_FRAME"
definition Unsent :: u64 where "Unsent = 0xffffffffffffffff"

datatype Stage =
  ST_Idle | ST_WaitingPeer | ST_Measuring | ST_Negotiating | ST_Committed | ST_Failed | ST_Retrying
| ST_Unavailable

datatype RetryReason =
  RR_None | RR_Samples | RR_Interrupted | RR_Hidden | RR_Connection | RR_Timeout | RR_PeerMissing
| RR_Exhausted | RR_Budget

fun RetryReason_code :: "RetryReason \<Rightarrow> u32" where
  "RetryReason_code RR_None = 0"
| "RetryReason_code RR_Samples = 1"
| "RetryReason_code RR_Interrupted = 2"
| "RetryReason_code RR_Hidden = 3"
| "RetryReason_code RR_Connection = 4"
| "RetryReason_code RR_Timeout = 5"
| "RetryReason_code RR_PeerMissing = 6"
| "RetryReason_code RR_Exhausted = 7"
| "RetryReason_code RR_Budget = 8"

text \<open>The cast \<^verbatim>\<open>RetryReason(n)\<close>, which the code applies to values up to \<^verbatim>\<open>Budget\<close>.\<close>

definition RetryReason_of :: "u32 \<Rightarrow> RetryReason" where
  "RetryReason_of n = [RR_None, RR_Samples, RR_Interrupted, RR_Hidden, RR_Connection, RR_Timeout,
     RR_PeerMissing, RR_Exhausted, RR_Budget] ! unat n"

record Report =
  rp_p95Us :: u32
  rp_received :: u32
  rp_lost :: u32
  rp_minUs :: u32
  rp_maxUs :: u32
  rp_meanUs :: u32

definition Report_default :: Report where
  "Report_default = \<lparr>rp_p95Us = 0, rp_received = 0, rp_lost = 0, rp_minUs = 0, rp_maxUs = 0, rp_meanUs = 0\<rparr>"

record Choice =
  co_fullDelay :: u32
  co_delay :: u32
  co_prediction :: u32

definition Choice_default :: Choice where
  "Choice_default = \<lparr>co_fullDelay = 0, co_delay = 0, co_prediction = 0\<rparr>"

text \<open>The kinds of packets, by their byte.\<close>

abbreviation "K_Hello \<equiv> 1 :: u8"
abbreviation "K_Probe \<equiv> 2 :: u8"
abbreviation "K_Echo \<equiv> 3 :: u8"
abbreviation "K_Summary \<equiv> 4 :: u8"
abbreviation "K_Proposal \<equiv> 5 :: u8"
abbreviation "K_Accept \<equiv> 6 :: u8"
abbreviation "K_Commit \<equiv> 7 :: u8"
abbreviation "K_CommitAck \<equiv> 8 :: u8"
abbreviation "K_RetryRequest \<equiv> 9 :: u8"
abbreviation "K_Restart \<equiv> 10 :: u8"
abbreviation "K_Stop \<equiv> 11 :: u8"

record AdonisStartup =
  su_session :: SessionConfig
  su_mode :: u8
  su_stage :: Stage
  su_reserve :: u32
  su_probes :: u32
  su_attempt :: u32
  su_reason :: RetryReason
  su_requested :: u32
  su_begin :: u64
  su_attemptBegin :: u64
  su_measurementBegin :: u64
  su_clock :: u64
  su_nextHello :: u64
  su_nextControl :: u64
  su_nextProbe :: u64
  su_lastProbe :: u64
  su_committedAt :: u64
  su_haveLocal :: bool
  su_accepted :: bool
  su_stabilityStarted :: bool
  su_peerHelloMask :: u32
  su_summaryMask :: u32
  su_acceptedMask :: u32
  su_commitAckMask :: u32
  su_worstPeer :: u32
  su_sentAt :: "u8 \<Rightarrow> nat \<Rightarrow> u64"
  su_rtt :: "u8 \<Rightarrow> nat \<Rightarrow> u64"
  su_local :: Report
  su_reports :: "u8 \<Rightarrow> Report"
  su_links :: "u8 \<Rightarrow> Report"
  su_choice :: Choice
  su_error :: string

definition AdonisStartup_default :: AdonisStartup where
  "AdonisStartup_default = \<lparr>su_session = SessionConfig_default, su_mode = AdonisMode_Rollback, su_stage = ST_Idle,
     su_reserve = 0, su_probes = 0, su_attempt = 0, su_reason = RR_None, su_requested = Automatic, su_begin = 0,
     su_attemptBegin = 0, su_measurementBegin = 0, su_clock = 0, su_nextHello = 0, su_nextControl = 0,
     su_nextProbe = 0, su_lastProbe = 0, su_committedAt = 0, su_haveLocal = False, su_accepted = False,
     su_stabilityStarted = False, su_peerHelloMask = 0, su_summaryMask = 0, su_acceptedMask = 0,
     su_commitAckMask = 0, su_worstPeer = 0, su_sentAt = (\<lambda>_ _. 0), su_rtt = (\<lambda>_ _. 0),
     su_local = Report_default, su_reports = (\<lambda>_. Report_default), su_links = (\<lambda>_. Report_default),
     su_choice = Choice_default, su_error = []\<rparr>"

section \<open>Private helpers\<close>

definition Startup_Fail :: "AdonisStartup \<Rightarrow> string \<Rightarrow> bool \<times> AdonisStartup" where
  "Startup_Fail s text = (False, s\<lparr>su_stage := ST_Failed, su_error := text\<rparr>)"

definition Retry :: "AdonisStartup \<Rightarrow> RetryReason \<Rightarrow> AdonisStartup" where
  "Retry s reason =
     (if su_stage s = ST_Committed \<or> su_stage s = ST_Unavailable \<or> su_stage s = ST_Retrying then s
      else s\<lparr>su_reason := reason, su_stage := ST_Retrying, su_nextControl := 0\<rparr>)"

definition Unavailable :: "AdonisStartup \<Rightarrow> RetryReason \<Rightarrow> AdonisStartup" where
  "Unavailable s reason =
     (if su_stage s = ST_Unavailable then s
      else s\<lparr>su_reason := reason, su_stage := ST_Unavailable, su_nextControl := 0\<rparr>)"

definition Startup_ObserveClock :: "AdonisStartup \<Rightarrow> u64 \<Rightarrow> bool \<times> AdonisStartup" where
  "Startup_ObserveClock s now =
     (if su_stage s = ST_Failed then (False, s)
      else if now < su_clock s then Startup_Fail s ''Adonis startup clock reversed''
      else
        let s = (if su_stage s = ST_Measuring \<and> now - su_clock s > 500000
              then if su_probes s \<noteq> 0 then Retry s RR_Interrupted else s\<lparr>su_stabilityStarted := False\<rparr>
              else s)
        in (True, s\<lparr>su_clock := now\<rparr>))"

definition peer_bit :: "u8 \<Rightarrow> u32" where
  "peer_bit peer = push_bit (unat peer) 1"

definition LocalBit :: "AdonisStartup \<Rightarrow> u32" where
  "LocalBit s = peer_bit (sc_localPlayer (su_session s))"

definition AllMask :: "AdonisStartup \<Rightarrow> u32" where
  "AllMask s = peer_bit (sc_playerCount (su_session s)) - 1"

definition ResetAttempt :: "AdonisStartup \<Rightarrow> u32 \<Rightarrow> u64 \<Rightarrow> RetryReason \<Rightarrow> AdonisStartup" where
  "ResetAttempt s attempt now reason =
     s\<lparr>su_attempt := attempt, su_reason := reason, su_attemptBegin := now, su_stage := ST_WaitingPeer,
       su_probes := 0, su_peerHelloMask := 0, su_summaryMask := 0, su_acceptedMask := 0, su_commitAckMask := 0,
       su_worstPeer := 0, su_haveLocal := False, su_accepted := False, su_stabilityStarted := False,
       su_nextHello := 0, su_nextControl := 0, su_nextProbe := 0, su_lastProbe := 0, su_measurementBegin := 0,
       su_committedAt := 0, su_local := Report_default, su_reports := (\<lambda>_. Report_default),
       su_links := (\<lambda>_. Report_default), su_choice := Choice_default, su_sentAt := (\<lambda>_ _. Unsent),
       su_rtt := (\<lambda>_ _. Unsent)\<rparr>"

definition Choose :: "Report \<Rightarrow> Report \<Rightarrow> u8 \<Rightarrow> u32 \<Rightarrow> u32 \<Rightarrow> Choice" where
  "Choose a b mode request reserve =
     (let full = max 1 (ucast (((ucast (max (rp_p95Us a) (rp_p95Us b)) :: u64) div 2 * 60 + 999999) div 1000000));
          available = full - (if request = Automatic then 1 else 0);
          prediction = (if mode = AdonisMode_Hybrid then min available (min reserve 2) else 0)
      in \<lparr>co_fullDelay = full, co_delay = (if request = Automatic then full - prediction else request),
          co_prediction = prediction\<rparr>)"

definition worst_report :: "(u8 \<Rightarrow> Report) \<Rightarrow> u8 list \<Rightarrow> Report \<Rightarrow> Report" where
  "worst_report reports peers local =
     foldl (\<lambda>worst peer. if rp_p95Us (reports peer) > rp_p95Us worst then reports peer else worst) local peers"

definition ChooseAll :: "AdonisStartup \<Rightarrow> Choice" where
  "ChooseAll s =
     (let worst = worst_report (su_reports s) (seats (sc_playerCount (su_session s))) (su_local s)
      in Choose worst worst (su_mode s) (su_requested s) (su_reserve s))"

text \<open>The bytes that \<^verbatim>\<open>Send\<close> puts on the wire: the head, the 24 bytes from offset 32, and the tail.\<close>

definition startup_body :: "AdonisStartup \<Rightarrow> u8 \<Rightarrow> bytes" where
  "startup_body s kind =
     (if kind = K_Summary then le_bytes 4 (rp_p95Us (su_local s)) @ le_bytes 4 (rp_received (su_local s)) @
        le_bytes 4 (rp_lost (su_local s)) @ le_bytes 4 (rp_minUs (su_local s)) @
        le_bytes 4 (rp_maxUs (su_local s)) @ le_bytes 4 (rp_meanUs (su_local s))
      else if kind \<ge> K_RetryRequest then le_bytes 4 (RetryReason_code (su_reason s)) @ replicate 20 0
      else if kind \<ge> K_Proposal then le_bytes 4 (co_delay (su_choice s)) @ le_bytes 4 (co_fullDelay (su_choice s)) @
        le_bytes 4 (co_prediction (su_choice s)) @ replicate 12 0
      else replicate 24 0)"

definition startup_bytes :: "AdonisStartup \<Rightarrow> u8 \<Rightarrow> u32 \<Rightarrow> u8 \<Rightarrow> bytes" where
  "startup_bytes s kind sequence peer =
     [65, 68, 83, 4, kind, sc_localPlayer (su_session s), su_mode s, ucast (su_reserve s)] @
     le_bytes 8 (sc_sessionId (su_session s)) @ le_bytes 4 (sc_gameplayAbi (su_session s)) @
     le_bytes 4 (sc_seed (su_session s)) @ le_bytes 4 (su_requested s) @ le_bytes 4 sequence @
     startup_body s kind @
     [sc_playerCount (su_session s), if kind = K_Probe \<or> kind = K_Echo then peer else 255, 0, 0] @
     le_bytes 4 (su_attempt s)"

definition Startup_Send :: "'t PeerTransport \<Rightarrow> 't \<Rightarrow> AdonisStartup \<Rightarrow> u8 \<Rightarrow> u32 \<Rightarrow> u8 \<Rightarrow> bool \<times> 't" where
  "Startup_Send T t s kind sequence peer =
     (let bytes = startup_bytes s kind sequence peer in
      if kind = K_Probe \<or> kind = K_Echo
      then pt_SendTo T t (if peer < sc_playerCount (su_session s) then peer else 1 - sc_localPlayer (su_session s)) bytes
      else pt_SendControl T t bytes)"

text \<open>\<^verbatim>\<open>Send(transport, kind)\<close>, with its default arguments.\<close>

definition Send_control :: "'t PeerTransport \<Rightarrow> 't \<Rightarrow> AdonisStartup \<Rightarrow> u8 \<Rightarrow> bool \<times> 't" where
  "Send_control T t s kind = Startup_Send T t s kind 0 MAX_PLAYERS"

section \<open>Begin\<close>

definition Startup_Begin :: "SessionConfig \<Rightarrow> u64 \<Rightarrow> u8 \<Rightarrow> u32 \<Rightarrow> u32 \<Rightarrow> bool \<times> AdonisStartup" where
  "Startup_Begin session nowUs mode requestedDelay predictionReserve =
     (let s = AdonisStartup_default in
      if sc_sessionId session = 0 \<or> sc_gameplayAbi session = 0 \<or> sc_playerCount session < 2 \<or>
         sc_playerCount session > 3 \<or> sc_localPlayer session \<ge> sc_playerCount session \<or>
         (mode \<noteq> AdonisMode_Delay \<and> mode \<noteq> AdonisMode_Hybrid) \<or>
         (requestedDelay \<noteq> Automatic \<and> requestedDelay > 9) \<or> predictionReserve < 1 \<or> predictionReserve > 2
      then Startup_Fail s ''Invalid Adonis startup configuration''
      else (True, s\<lparr>su_session := session, su_mode := mode, su_requested := requestedDelay,
        su_reserve := (if mode = AdonisMode_Hybrid then predictionReserve else 0),
        su_begin := nowUs, su_attemptBegin := nowUs, su_clock := nowUs, su_stage := ST_WaitingPeer,
        su_sentAt := (\<lambda>_ _. Unsent), su_rtt := (\<lambda>_ _. Unsent)\<rparr>))"

definition Startup_IsPacket :: "bytes \<Rightarrow> bool" where
  "Startup_IsPacket p \<longleftrightarrow> length p \<ge> 3 \<and> p ! 0 = 65 \<and> p ! 1 = 68 \<and> p ! 2 = 83"

section \<open>Tick\<close>

text \<open>The failures and deadlines in front of the sends.\<close>

definition tick_deadlines :: "'t PeerTransport \<Rightarrow> 't \<Rightarrow> u64 \<Rightarrow> AdonisStartup \<Rightarrow> AdonisStartup" where
  "tick_deadlines T t nowUs s =
     (let s = (if su_stage s \<noteq> ST_Committed \<and> (pt_Failed T t \<or> pt_Disconnected T t)
            then Unavailable s RR_Connection else s);
          s = (if su_stage s \<noteq> ST_Committed \<and> su_stage s \<noteq> ST_Unavailable \<and> nowUs - su_begin s \<ge> StartupTimeoutUs
            then Unavailable s RR_Timeout else s);
          s = (if su_stage s = ST_WaitingPeer \<and> nowUs - su_attemptBegin s \<ge> PeerWaitUs
            then Unavailable s RR_PeerMissing else s);
          s = (if (su_stage s = ST_Measuring \<or> su_stage s = ST_Negotiating) \<and>
              nowUs - su_measurementBegin s \<ge> MeasurementTimeoutUs then Retry s RR_Timeout else s);
          s = (if su_stage s = ST_Measuring \<and> su_probes s \<noteq> 0 \<and>
              (pt_CalibrationSuspended T t \<or> \<not> pt_IsOpen T t \<or> pt_Recovering T t)
            then Retry s (if pt_CalibrationSuspended T t then RR_Hidden else RR_Connection) else s)
      in if su_stage s = ST_Retrying \<and> sc_localPlayer (su_session s) = 0
         then if su_attempt s \<ge> MaxRetries then Unavailable s RR_Exhausted
              else ResetAttempt s (su_attempt s + 1) nowUs (su_reason s)
         else s)"

text \<open>The repeated control packet of a stage that only waits.\<close>

definition tick_repeat :: "'t PeerTransport \<Rightarrow> 't \<Rightarrow> u64 \<Rightarrow> u8 \<Rightarrow> AdonisStartup \<Rightarrow> 't \<times> AdonisStartup" where
  "tick_repeat T t nowUs kind s =
     (if nowUs \<ge> su_nextControl s
      then let (_, t) = Send_control T t s kind in (t, s\<lparr>su_nextControl := nowUs + 200000\<rparr>)
      else (t, s))"

definition tick_hello :: "'t PeerTransport \<Rightarrow> 't \<Rightarrow> u64 \<Rightarrow> AdonisStartup \<Rightarrow> 't \<times> AdonisStartup" where
  "tick_hello T t nowUs s =
     (if nowUs \<ge> su_nextHello s
      then
        let t = (if sc_localPlayer (su_session s) = 0 \<and> su_attempt s \<noteq> 0 \<and> su_stage s = ST_WaitingPeer
              then snd (Send_control T t s K_Restart) else t);
            t = (if \<not> pt_CalibrationSuspended T t then snd (Send_control T t s K_Hello) else t)
        in (t, s\<lparr>su_nextHello := nowUs + 200000\<rparr>)
      else (t, s))"

fun probe_peers :: "'t PeerTransport \<Rightarrow> u64 \<Rightarrow> u32 \<Rightarrow> u8 list \<Rightarrow> 't \<Rightarrow> AdonisStartup \<Rightarrow> 't \<times> AdonisStartup" where
  "probe_peers T nowUs sequence [] t s = (t, s)"
| "probe_peers T nowUs sequence (peer # peers) t s =
     (if peer = sc_localPlayer (su_session s) then probe_peers T nowUs sequence peers t s
      else
        let (ok, t) = Startup_Send T t s K_Probe sequence peer;
            s = (if ok then s\<lparr>su_sentAt := (su_sentAt s)(peer := (su_sentAt s peer)(unat sequence := nowUs))\<rparr> else s)
        in probe_peers T nowUs sequence peers t s)"

definition tick_probe :: "'t PeerTransport \<Rightarrow> 't \<Rightarrow> u64 \<Rightarrow> AdonisStartup \<Rightarrow> 't \<times> AdonisStartup" where
  "tick_probe T t nowUs s =
     (let s = (if (su_peerHelloMask s OR LocalBit s) = AllMask s \<and> su_stage s = ST_WaitingPeer
            then s\<lparr>su_stage := ST_Measuring, su_measurementBegin := nowUs\<rparr> else s);
          s = (if su_stage s = ST_Measuring \<and> su_probes s = 0 \<and> \<not> su_stabilityStarted s
            then s\<lparr>su_nextProbe := nowUs + StabilizeUs, su_stabilityStarted := True\<rparr> else s)
      in if su_stage s = ST_Measuring \<and> su_probes s < ProbeCount \<and> nowUs \<ge> su_nextProbe s
         then
           let s = s\<lparr>su_probes := su_probes s + 1\<rparr>;
               (t, s) = probe_peers T nowUs (su_probes s) (seats (sc_playerCount (su_session s))) t s
           in (t, s\<lparr>su_nextProbe := nowUs + IntervalUs, su_lastProbe := nowUs\<rparr>)
         else (t, s))"

text \<open>The statistics of one link, from the valid round trip times of its lane.\<close>

definition valid_rtts :: "AdonisStartup \<Rightarrow> u8 \<Rightarrow> u64 list" where
  "valid_rtts s peer = filter (\<lambda>us. us \<noteq> Unsent) (map (su_rtt s peer) [Warmup..<Attempts])"

definition link_report :: "u64 list \<Rightarrow> Report" where
  "link_report rtts =
     (let valid = sort rtts; n = length valid; rank = (n - 1) * 95 div 100;
          tail = (if n mod 2 = 0 \<and> rank + 1 < n then (valid ! rank + valid ! (rank + 1)) div 2 else valid ! rank);
          sum = foldl (+) 0 valid
      in \<lparr>rp_p95Us = ucast tail, rp_received = word_of_nat n, rp_lost = word_of_nat (Samples - n),
          rp_minUs = ucast (valid ! 0), rp_maxUs = ucast (valid ! (n - 1)),
          rp_meanUs = ucast (sum div word_of_nat n)\<rparr>)"

text \<open>The loop over the links; \<open>False\<close> is the early return after a retry.\<close>

fun measure_links :: "u8 list \<Rightarrow> AdonisStartup \<Rightarrow> bool \<times> AdonisStartup" where
  "measure_links [] s = (True, s)"
| "measure_links (peer # peers) s =
     (if peer = sc_localPlayer (su_session s) then measure_links peers s
      else if length (valid_rtts s peer) < 96 then (False, Retry s RR_Samples)
      else
        let link = link_report (valid_rtts s peer);
            s = s\<lparr>su_links := (su_links s)(peer := link)\<rparr>;
            s = (if rp_p95Us link > rp_p95Us (su_local s)
              then s\<lparr>su_local := link, su_worstPeer := ucast peer\<rparr> else s)
        in measure_links peers s)"

definition tick_measured :: "u64 \<Rightarrow> AdonisStartup \<Rightarrow> bool \<times> AdonisStartup" where
  "tick_measured nowUs s =
     (if su_stage s = ST_Measuring \<and> su_probes s = ProbeCount \<and> nowUs - su_lastProbe s \<ge> IntervalUs + TailUs
      then case measure_links (seats (sc_playerCount (su_session s))) s of
          (False, s) \<Rightarrow> (False, s)
        | (True, s) \<Rightarrow> (True, s\<lparr>su_reports := (su_reports s)(sc_localPlayer (su_session s) := su_local s),
            su_summaryMask := su_summaryMask s OR LocalBit s, su_haveLocal := True,
            su_stage := ST_Negotiating, su_nextControl := 0\<rparr>)
      else (True, s))"

definition tick_negotiate :: "'t PeerTransport \<Rightarrow> 't \<Rightarrow> u64 \<Rightarrow> AdonisStartup \<Rightarrow> 't \<times> AdonisStartup" where
  "tick_negotiate T t nowUs s =
     (if su_haveLocal s \<and> nowUs \<ge> su_nextControl s
      then
        let (_, t) = Send_control T t s K_Summary;
            s' = s\<lparr>su_choice := ChooseAll s\<rparr>
        in if su_summaryMask s \<noteq> AllMask s then (t, s\<lparr>su_nextControl := nowUs + 200000\<rparr>)
           else if co_delay (su_choice s') > 9 then (t, Unavailable s' RR_Budget)
           else
             let (t, s') =
                   (if sc_localPlayer (su_session s') = 0 then
                      if (su_acceptedMask s' OR LocalBit s') = AllMask s' then
                        (case Send_control T t s' K_Commit of
                           (True, t) \<Rightarrow> (t, s'\<lparr>su_stage := ST_Committed, su_committedAt := nowUs\<rparr>)
                         | (False, t) \<Rightarrow> (t, s'))
                      else (snd (Send_control T t s' K_Proposal), s')
                    else if su_accepted s' then (snd (Send_control T t s' K_Accept), s') else (t, s'))
             in (t, s'\<lparr>su_nextControl := nowUs + 200000\<rparr>)
      else (t, s))"

definition tick_active :: "'t PeerTransport \<Rightarrow> 't \<Rightarrow> u64 \<Rightarrow> AdonisStartup \<Rightarrow> 't \<times> AdonisStartup" where
  "tick_active T t nowUs s =
     (let (t, s) = tick_hello T t nowUs s in
      if pt_CalibrationSuspended T t \<or> pt_Recovering T t then (t, s)
      else
        let (t, s) = tick_probe T t nowUs s; (goes_on, s) = tick_measured nowUs s
        in if \<not> goes_on then (t, s) else tick_negotiate T t nowUs s)"

definition Startup_Tick :: "'t PeerTransport \<Rightarrow> 't \<Rightarrow> AdonisStartup \<Rightarrow> u64 \<Rightarrow> bool \<times> 't \<times> AdonisStartup" where
  "Startup_Tick T t s nowUs =
     (let (clock, s) = Startup_ObserveClock s nowUs in
      if \<not> clock then (False, t, s)
      else if su_stage s = ST_Idle
      then let (ok, s) = Startup_Fail s ''Adonis startup was not begun'' in (ok, t, s)
      else
        let s = tick_deadlines T t nowUs s in
        if \<not> pt_IsOpen T t
        then (True, t, if su_probes s = 0 then s\<lparr>su_stabilityStarted := False\<rparr> else s)
        else if su_stage s = ST_Unavailable then (True, tick_repeat T t nowUs K_Stop s)
        else if su_stage s = ST_Retrying then (True, tick_repeat T t nowUs K_RetryRequest s)
        else if su_stage s = ST_Committed then
          (True, if sc_localPlayer (su_session s) = 0 \<and> (su_commitAckMask s OR LocalBit s) \<noteq> AllMask s \<and>
              nowUs - su_committedAt s < 5000000
            then tick_repeat T t nowUs K_Commit s else (t, s))
        else (True, tick_active T t nowUs s))"

section \<open>Receive\<close>

definition startup_word :: "bytes \<Rightarrow> nat \<Rightarrow> u32" where
  "startup_word p first = le_word (take 4 (drop first p))"

definition startup_differs :: "AdonisStartup \<Rightarrow> bytes \<Rightarrow> bool" where
  "startup_differs s p \<longleftrightarrow> p ! 5 \<ge> sc_playerCount (su_session s) \<or> p ! 5 = sc_localPlayer (su_session s) \<or>
     p ! 6 \<noteq> su_mode s \<or> ucast (p ! 7) \<noteq> su_reserve s \<or> startup_word p 16 \<noteq> sc_gameplayAbi (su_session s) \<or>
     startup_word p 20 \<noteq> sc_seed (su_session s) \<or> startup_word p 24 \<noteq> su_requested s"

definition startup_target_differs :: "AdonisStartup \<Rightarrow> bytes \<Rightarrow> bool" where
  "startup_target_differs s p \<longleftrightarrow> p ! 56 \<noteq> sc_playerCount (su_session s) \<or>
     p ! 57 \<noteq> (if p ! 4 = K_Probe \<or> p ! 4 = K_Echo then sc_localPlayer (su_session s) else 255)"

definition startup_reserved :: "bytes \<Rightarrow> bool" where
  "startup_reserved p \<longleftrightarrow> list_ex (\<lambda>i. \<not> (i = 56 \<or> i = 57 \<or> i \<ge> 60) \<and> p ! i \<noteq> 0)
     [(if p ! 4 = K_Summary then 56 else 44)..<64]"

definition startup_fields_invalid :: "bytes \<Rightarrow> bool" where
  "startup_fields_invalid p \<longleftrightarrow>
     (p ! 4 \<noteq> K_Probe \<and> p ! 4 \<noteq> K_Echo \<and> startup_word p 28 \<noteq> 0) \<or>
     (p ! 4 \<le> K_Echo \<and> (startup_word p 32 \<noteq> 0 \<or> startup_word p 36 \<noteq> 0 \<or> startup_word p 40 \<noteq> 0))"

text \<open>\<^verbatim>\<open>RetryRequest\<close>, \<^verbatim>\<open>Restart\<close> and \<^verbatim>\<open>Stop\<close>.\<close>

definition receive_retry :: "AdonisStartup \<Rightarrow> bytes \<Rightarrow> u64 \<Rightarrow> bool \<times> AdonisStartup" where
  "receive_retry s p nowUs =
     (let attempt = startup_word p 60; reason = RetryReason_of (startup_word p 32) in
      if startup_word p 32 > RetryReason_code RR_Budget \<or> startup_word p 36 \<noteq> 0 \<or> startup_word p 40 \<noteq> 0
      then Startup_Fail s ''Invalid Adonis retry reason''
      else if p ! 4 = K_Restart \<and> p ! 5 \<noteq> 0 then Startup_Fail s ''Invalid Adonis restart authority''
      else if p ! 4 = K_Stop then
        (True, if attempt < su_attempt s \<or> su_stage s = ST_Committed then s else Unavailable s reason)
      else if p ! 4 = K_Restart \<and> attempt > su_attempt s \<and> su_stage s \<noteq> ST_Committed \<and> su_stage s \<noteq> ST_Unavailable
      then (True, ResetAttempt s attempt nowUs reason)
      else if p ! 4 = K_RetryRequest \<and> attempt = su_attempt s \<and> sc_localPlayer (su_session s) = 0
      then (True, Retry s reason)
      else (True, s))"

definition receive_probe :: "'t PeerTransport \<Rightarrow> 't \<Rightarrow> AdonisStartup \<Rightarrow> bytes \<Rightarrow> u64 \<Rightarrow> bool \<times> 't \<times> AdonisStartup" where
  "receive_probe T t s p nowUs =
     (let sequence = startup_word p 28; peer = p ! 5; sent = su_sentAt s peer (unat sequence) in
      if sequence = 0 \<or> unat sequence \<ge> Attempts
      then let (ok, s) = Startup_Fail s ''Invalid Adonis probe sequence'' in (ok, t, s)
      else if pt_CalibrationSuspended T t then (True, t, Retry s RR_Hidden)
      else if p ! 4 = K_Probe then (True, snd (Startup_Send T t s K_Echo sequence peer), s)
      else (True, t,
        if \<not> su_haveLocal s \<and> unat sequence \<ge> Warmup \<and> sent \<noteq> Unsent \<and> su_rtt s peer (unat sequence) = Unsent \<and>
           nowUs - sent \<noteq> 0 \<and> nowUs - sent \<le> 1000000
        then s\<lparr>su_rtt := (su_rtt s)(peer := (su_rtt s peer)(unat sequence := nowUs - sent))\<rparr> else s))"

definition summary_report :: "bytes \<Rightarrow> Report" where
  "summary_report p = \<lparr>rp_p95Us = startup_word p 32, rp_received = startup_word p 36, rp_lost = startup_word p 40,
     rp_minUs = startup_word p 44, rp_maxUs = startup_word p 48, rp_meanUs = startup_word p 52\<rparr>"

definition report_invalid :: "Report \<Rightarrow> bool" where
  "report_invalid r \<longleftrightarrow> rp_p95Us r = 0 \<or> rp_p95Us r > 1000000 \<or> rp_received r < 96 \<or>
     rp_received r > word_of_nat Samples \<or> rp_received r + rp_lost r \<noteq> word_of_nat Samples \<or> rp_minUs r = 0 \<or>
     rp_maxUs r > 1000000 \<or> rp_minUs r > rp_p95Us r \<or> rp_p95Us r > rp_maxUs r \<or>
     rp_meanUs r < rp_minUs r \<or> rp_meanUs r > rp_maxUs r"

definition receive_summary :: "AdonisStartup \<Rightarrow> bytes \<Rightarrow> bool \<times> AdonisStartup" where
  "receive_summary s p =
     (let report = summary_report p; peer = p ! 5; seen = (su_summaryMask s AND peer_bit peer \<noteq> 0) in
      if report_invalid report then Startup_Fail s ''Invalid Adonis measurement summary''
      else if seen \<and> su_reports s peer \<noteq> report then Startup_Fail s ''Adonis measurement changed after publication''
      else (True, s\<lparr>su_nextControl := (if seen then su_nextControl s else 0),
        su_reports := (su_reports s)(peer := report), su_summaryMask := su_summaryMask s OR peer_bit peer\<rparr>))"

text \<open>\<^verbatim>\<open>Proposal\<close>, \<^verbatim>\<open>Accept\<close>, \<^verbatim>\<open>Commit\<close> and \<^verbatim>\<open>CommitAck\<close>.\<close>

definition receive_commitment :: "'t PeerTransport \<Rightarrow> 't \<Rightarrow> AdonisStartup \<Rightarrow> bytes \<Rightarrow> u64 \<Rightarrow> bool \<times> 't \<times> AdonisStartup" where
  "receive_commitment T t s p nowUs =
     (let peer = p ! 5; kind = p ! 4; local = sc_localPlayer (su_session s); expected = ChooseAll s in
      if \<not> su_haveLocal s \<or> su_summaryMask s \<noteq> AllMask s then (True, t, s)
      else if startup_word p 32 \<noteq> co_delay expected \<or> startup_word p 36 \<noteq> co_fullDelay expected \<or>
         startup_word p 40 \<noteq> co_prediction expected \<or> co_delay expected > 9
      then let (ok, s) = Startup_Fail s ''Adonis chosen delay disagrees with both measured summaries'' in (ok, t, s)
      else
        let s = s\<lparr>su_choice := expected\<rparr> in
        if local \<noteq> 0 \<and> peer \<noteq> 0 \<and> (kind = K_Accept \<or> kind = K_CommitAck) then (True, t, s)
        else if kind = K_Proposal \<and> local \<noteq> 0 \<and> peer = 0
        then let s = s\<lparr>su_accepted := True\<rparr> in (True, snd (Send_control T t s K_Accept), s)
        else if kind = K_Accept \<and> local = 0
        then (True, t, s\<lparr>su_acceptedMask := su_acceptedMask s OR peer_bit peer, su_nextControl := 0\<rparr>)
        else if kind = K_Commit \<and> local \<noteq> 0 \<and> peer = 0 \<and> su_accepted s
        then let s = s\<lparr>su_stage := ST_Committed, su_committedAt := nowUs\<rparr> in
          (True, snd (Send_control T t s K_CommitAck), s)
        else if kind = K_CommitAck \<and> local = 0 \<and> su_stage s = ST_Committed
        then (True, t, s\<lparr>su_commitAckMask := su_commitAckMask s OR peer_bit peer\<rparr>)
        else let (ok, s) = Startup_Fail s ''Invalid Adonis commit authority or phase'' in (ok, t, s))"

text \<open>The packets of the current attempt, after the checks of the head.\<close>

definition receive_current :: "'t PeerTransport \<Rightarrow> 't \<Rightarrow> AdonisStartup \<Rightarrow> bytes \<Rightarrow> u64 \<Rightarrow> bool \<times> 't \<times> AdonisStartup" where
  "receive_current T t s p nowUs =
     (if startup_word p 60 \<noteq> su_attempt s \<or> su_stage s = ST_Unavailable \<or> su_stage s = ST_Retrying then (True, t, s)
      else if p ! 4 = K_Hello then (True, t, s\<lparr>su_peerHelloMask := su_peerHelloMask s OR peer_bit (p ! 5)\<rparr>)
      else if p ! 4 = K_Probe \<or> p ! 4 = K_Echo then receive_probe T t s p nowUs
      else if p ! 4 = K_Summary then let (ok, s) = receive_summary s p in (ok, t, s)
      else receive_commitment T t s p nowUs)"

definition Startup_Receive :: "'t PeerTransport \<Rightarrow> 't \<Rightarrow> AdonisStartup \<Rightarrow> bytes \<Rightarrow> u64 \<Rightarrow> bool \<times> 't \<times> AdonisStartup" where
  "Startup_Receive T t s p nowUs =
     (let (clock, s) = Startup_ObserveClock s nowUs; fail = (\<lambda>text. (False, t, snd (Startup_Fail s text))) in
      if \<not> clock then (False, t, s)
      else if \<not> Startup_IsPacket p \<or> length p \<noteq> 64 \<or> p ! 3 \<noteq> 4 \<or> p ! 4 < K_Hello \<or> p ! 4 > K_Stop
      then fail ''Malformed Adonis startup packet''
      else if le_word (take 8 (drop 8 p)) \<noteq> sc_sessionId (su_session s) then (True, t, s)
      else if startup_differs s p then fail ''Adonis startup mode, request, seed or build differs''
      else if startup_target_differs s p then fail ''Adonis startup player count or target differs''
      else if startup_reserved p then fail ''Adonis startup reserved bytes are nonzero''
      else if startup_fields_invalid p then fail ''Invalid Adonis startup fields''
      else if startup_word p 60 > MaxRetries then fail ''Invalid Adonis measurement attempt''
      else if p ! 4 \<ge> K_RetryRequest then let (ok, s) = receive_retry s p nowUs in (ok, t, s)
      else receive_current T t s p nowUs)"

section \<open>Observers\<close>

definition Startup_Ready :: "AdonisStartup \<Rightarrow> bool" where "Startup_Ready s \<longleftrightarrow> su_stage s = ST_Committed"
definition Startup_Failed :: "AdonisStartup \<Rightarrow> bool" where "Startup_Failed s \<longleftrightarrow> su_stage s = ST_Failed"
definition Startup_Active :: "AdonisStartup \<Rightarrow> bool" where "Startup_Active s \<longleftrightarrow> su_stage s \<noteq> ST_Idle"

definition NextWakeUs :: "AdonisStartup \<Rightarrow> u32" where
  "NextWakeUs s =
     (if su_stage s \<noteq> ST_Measuring then ucast IntervalUs
      else
        let deadline = (if su_probes s < ProbeCount then su_nextProbe s else su_lastProbe s + IntervalUs + TailUs)
        in ucast (if deadline > su_clock s then min (deadline - su_clock s) IntervalUs else 0))"

definition Replies :: "AdonisStartup \<Rightarrow> u32" where
  "Replies s =
     (if \<not> Startup_Active s then 0
      else foldl (\<lambda>minimum peer. if peer = sc_localPlayer (su_session s) then minimum
          else min minimum (word_of_nat (length (valid_rtts s peer))))
        (word_of_nat Samples) (seats (sc_playerCount (su_session s))))"

definition Startup_Peer :: "AdonisStartup \<Rightarrow> Report" where
  "Startup_Peer s = su_reports s (if sc_localPlayer (su_session s) = 0 then 1 else 0)"

definition ReportFor :: "AdonisStartup \<Rightarrow> u32 \<Rightarrow> Report" where
  "ReportFor s player =
     su_reports s (if player < ucast (sc_playerCount (su_session s)) then ucast player else sc_localPlayer (su_session s))"

definition LinkTo :: "AdonisStartup \<Rightarrow> u32 \<Rightarrow> Report" where
  "LinkTo s peer =
     su_links s (if peer < ucast (sc_playerCount (su_session s)) then ucast peer else sc_localPlayer (su_session s))"

definition Startup_Attempt :: "AdonisStartup \<Rightarrow> u32" where "Startup_Attempt s = su_attempt s + 1"

end
