(* ===== verification/StartupSteps.thy ===== *)
theory StartupSteps
  imports Startup
begin

text \<open>
  What the parts of \<^verbatim>\<open>Tick\<close> and \<^verbatim>\<open>Receive\<close> keep of a calibration: its configuration, and the choice and
  the attempt of a committed one; and which commit packets they send.
\<close>

section \<open>A transport that records what it takes\<close>

text \<open>Only packets whose send reports success are recorded.\<close>

definition recorded :: "'t PeerTransport \<Rightarrow> ('t \<times> bytes list) PeerTransport" where
  "recorded T = \<lparr>pt_IsOpen = (\<lambda>t. pt_IsOpen T (fst t)), pt_Failed = (\<lambda>t. pt_Failed T (fst t)),
     pt_Recovering = (\<lambda>t. pt_Recovering T (fst t)), pt_Disconnected = (\<lambda>t. pt_Disconnected T (fst t)),
     pt_CalibrationSuspended = (\<lambda>t. pt_CalibrationSuspended T (fst t)),
     pt_SendTo = (\<lambda>t peer data. let (ok, t') = pt_SendTo T (fst t) peer data
       in (ok, (t', if ok then data # snd t else snd t))),
     pt_SendRepairTo = (\<lambda>t peer data. let (ok, t') = pt_SendRepairTo T (fst t) peer data
       in (ok, (t', if ok then data # snd t else snd t))),
     pt_SendControl = (\<lambda>t data. let (ok, t') = pt_SendControl T (fst t) data
       in (ok, (t', if ok then data # snd t else snd t))),
     pt_Poll = (\<lambda>t. let (data, t') = pt_Poll T (fst t) in (data, (t', snd t))),
     pt_BufferedAmount = (\<lambda>t. pt_BufferedAmount T (fst t))\<rparr>"

lemma Startup_Send_recorded:
  "snd (snd (Startup_Send (recorded T) t s kind sequence peer)) =
     (if fst (Startup_Send (recorded T) t s kind sequence peer) then startup_bytes s kind sequence peer # snd t else snd t)"
  by (simp add: Startup_Send_def recorded_def Let_def split: prod.split)

lemma startup_bytes_kind [simp]: "startup_bytes s kind sequence peer ! 4 = kind"
  by (simp add: startup_bytes_def)

section \<open>What a step keeps\<close>

definition static :: "AdonisStartup \<Rightarrow> AdonisStartup \<Rightarrow> bool" where
  "static s s' \<longleftrightarrow> su_session s' = su_session s \<and> su_mode s' = su_mode s \<and> su_requested s' = su_requested s \<and>
     su_reserve s' = su_reserve s \<and> su_begin s' = su_begin s"

text \<open>A committed calibration has every summary, and its choice is the one that follows from them.\<close>

definition agreed :: "AdonisStartup \<Rightarrow> bool" where
  "agreed s \<longleftrightarrow> (su_stage s = ST_Committed \<longrightarrow> su_haveLocal s \<and> su_summaryMask s = AllMask s \<and>
     su_choice s = ChooseAll s \<and> co_delay (ChooseAll s) \<le> 9)"

definition quiet :: "AdonisStartup \<Rightarrow> AdonisStartup \<Rightarrow> bool" where
  "quiet s s' \<longleftrightarrow> static s s' \<and> su_stage s' \<noteq> ST_Failed \<and> (agreed s \<longrightarrow> agreed s' \<and>
     (su_stage s = ST_Committed \<longrightarrow> su_stage s' = ST_Committed \<and> su_choice s' = su_choice s \<and> su_attempt s' = su_attempt s))"

lemmas quiet_defs = quiet_def static_def agreed_def ChooseAll_def AllMask_def

lemma quiet_refl: "su_stage s \<noteq> ST_Failed \<Longrightarrow> quiet s s"
  by (simp add: quiet_def static_def)

lemma quiet_trans: "quiet a b \<Longrightarrow> quiet b c \<Longrightarrow> quiet a c"
  by (simp add: quiet_def static_def)

lemma quiet_running: "quiet s s' \<Longrightarrow> su_stage s' \<noteq> ST_Failed"
  by (simp add: quiet_def)

text \<open>The control flow of a committed calibration does not change; elsewhere a step may move on.\<close>

definition idle_step :: "AdonisStartup \<Rightarrow> AdonisStartup \<Rightarrow> bool" where
  "idle_step s s' \<longleftrightarrow> (su_stage s' = ST_Committed \<longrightarrow> su_stage s = ST_Committed)"

lemma idle_step_refl [simp]: "idle_step s s" and idle_step_trans: "idle_step a b \<Longrightarrow> idle_step b c \<Longrightarrow> idle_step a c"
  by (auto simp: idle_step_def)

lemma quiet_Retry: "su_stage s \<noteq> ST_Failed \<Longrightarrow> quiet s (Retry s reason) \<and> idle_step s (Retry s reason)"
  by (simp add: Retry_def quiet_defs idle_step_def)

lemma quiet_Unavailable:
  "su_stage s \<noteq> ST_Failed \<Longrightarrow> su_stage s \<noteq> ST_Committed \<Longrightarrow> quiet s (Unavailable s reason) \<and> idle_step s (Unavailable s reason)"
  by (simp add: Unavailable_def quiet_defs idle_step_def)

lemma quiet_ResetAttempt:
  "su_stage s \<noteq> ST_Committed \<Longrightarrow> quiet s (ResetAttempt s attempt now reason) \<and> idle_step s (ResetAttempt s attempt now reason)"
  by (simp add: ResetAttempt_def quiet_defs idle_step_def)

lemma ObserveClock_steps:
  assumes "Startup_ObserveClock s now = (ok, s')" and "su_stage s \<noteq> ST_Failed"
  shows "ok \<Longrightarrow> quiet s s' \<and> idle_step s s'"
    "\<not> ok \<Longrightarrow> s' = snd (Startup_Fail s ''Adonis startup clock reversed'')"
  using assms by (auto simp: Startup_ObserveClock_def Startup_Fail_def Retry_def quiet_defs idle_step_def Let_def split: if_splits)

lemma tick_deadlines_quiet:
  assumes "su_stage s \<noteq> ST_Failed"
  shows "quiet s (tick_deadlines T t now s) \<and> idle_step s (tick_deadlines T t now s)"
proof -
  have d1: "quiet s s1 \<and> idle_step s s1" if "s1 = (if su_stage s \<noteq> ST_Committed \<and> c then Unavailable s r else s)"
      "su_stage s \<noteq> ST_Failed" for c r s s1
    using that quiet_refl [of s] quiet_Unavailable [of s r] by auto
  have d2: "quiet s s1 \<and> idle_step s s1" if "s1 = (if (su_stage s = ST_Measuring \<or> su_stage s = ST_Negotiating) \<and> c then Retry s r else s)"
      "su_stage s \<noteq> ST_Failed" for c r s s1
    using that quiet_refl [of s] quiet_Retry [of s r] by auto
  define s1 where "s1 = (if su_stage s \<noteq> ST_Committed \<and> (pt_Failed T t \<or> pt_Disconnected T t) then Unavailable s RR_Connection else s)"
  define s2 where "s2 = (if su_stage s1 \<noteq> ST_Committed \<and> su_stage s1 \<noteq> ST_Unavailable \<and> now - su_begin s1 \<ge> StartupTimeoutUs
      then Unavailable s1 RR_Timeout else s1)"
  define s3 where "s3 = (if su_stage s2 = ST_WaitingPeer \<and> now - su_attemptBegin s2 \<ge> PeerWaitUs then Unavailable s2 RR_PeerMissing else s2)"
  define s4 where "s4 = (if (su_stage s3 = ST_Measuring \<or> su_stage s3 = ST_Negotiating) \<and>
      now - su_measurementBegin s3 \<ge> MeasurementTimeoutUs then Retry s3 RR_Timeout else s3)"
  define s5 where "s5 = (if su_stage s4 = ST_Measuring \<and> su_probes s4 \<noteq> 0 \<and>
      (pt_CalibrationSuspended T t \<or> \<not> pt_IsOpen T t \<or> pt_Recovering T t)
    then Retry s4 (if pt_CalibrationSuspended T t then RR_Hidden else RR_Connection) else s4)"
  have q1: "quiet s s1 \<and> idle_step s s1" by (rule d1 [OF s1_def assms])
  have q2: "quiet s1 s2 \<and> idle_step s1 s2" unfolding s2_def
    using q1 quiet_refl [of s1] quiet_Unavailable [of s1 RR_Timeout] by (auto simp: quiet_running)
  have q3: "quiet s2 s3 \<and> idle_step s2 s3" unfolding s3_def
    using q2 quiet_refl [of s2] quiet_Unavailable [of s2 RR_PeerMissing] by (auto simp: quiet_running)
  have q4: "quiet s3 s4 \<and> idle_step s3 s4" by (rule d2 [OF s4_def]) (use q3 quiet_running in blast)
  have q5: "quiet s4 s5 \<and> idle_step s4 s5" unfolding s5_def
    using q4 quiet_refl [of s4] quiet_Retry [of s4] by (auto simp: quiet_running)
  have q6: "quiet s5 (tick_deadlines T t now s) \<and> idle_step s5 (tick_deadlines T t now s)"
    unfolding tick_deadlines_def Let_def s1_def [symmetric] s2_def [symmetric] s3_def [symmetric] s4_def [symmetric] s5_def [symmetric]
    using q5 quiet_refl [of s5] quiet_Unavailable [of s5 RR_Exhausted] quiet_ResetAttempt [of s5] by (auto simp: quiet_running)
  show ?thesis using q1 q2 q3 q4 q5 q6 by (meson quiet_trans idle_step_trans)
qed

section \<open>Tick\<close>

definition moving :: "AdonisStartup \<Rightarrow> bool" where
  "moving s \<longleftrightarrow> su_stage s \<noteq> ST_Committed \<and> su_stage s \<noteq> ST_Failed"

lemma moving_quiet: "static s s' \<Longrightarrow> moving s \<Longrightarrow> moving s' \<Longrightarrow> quiet s s' \<and> idle_step s s'"
  by (simp add: moving_def quiet_def agreed_def idle_step_def)

text \<open>The packets added to a record are no commits, or the commit of the state reached.\<close>

definition no_commit :: "bytes list \<Rightarrow> bytes list \<Rightarrow> bool" where
  "no_commit sent sent' \<longleftrightarrow> (\<forall>b. b \<in> set sent' \<longrightarrow> b \<in> set sent \<or> b ! 4 \<noteq> K_Commit)"

definition own_commit :: "AdonisStartup \<Rightarrow> bytes \<Rightarrow> bool" where
  "own_commit s b \<longleftrightarrow> b ! 4 = K_Commit \<longrightarrow> su_stage s = ST_Committed \<and> sc_localPlayer (su_session s) = 0 \<and>
     b = startup_bytes s K_Commit 0 MAX_PLAYERS"

lemma no_commit_refl [simp]: "no_commit sent sent" and no_commit_trans: "no_commit a b \<Longrightarrow> no_commit b c \<Longrightarrow> no_commit a c"
  by (auto simp: no_commit_def)

lemma no_commit_own: "no_commit sent sent' \<Longrightarrow> b \<in> set sent' \<Longrightarrow> b \<in> set sent \<or> own_commit s b"
  by (auto simp: no_commit_def own_commit_def)

lemma no_commit_Send: "kind \<noteq> K_Commit \<Longrightarrow> no_commit (snd t) (snd (snd (Startup_Send (recorded T) t s kind sequence peer)))"
  by (simp add: no_commit_def Startup_Send_recorded)

lemma no_commit_Send_control: "kind \<noteq> K_Commit \<Longrightarrow> no_commit (snd t) (snd (snd (Send_control (recorded T) t s kind)))"
  by (simp add: Send_control_def no_commit_Send)

lemma tick_hello_steps:
  assumes "tick_hello (recorded T) t now s = (t', s')" and "moving s"
  shows "static s s' \<and> moving s' \<and> no_commit (snd t) (snd t')"
proof -
  define t1 where "t1 = (if sc_localPlayer (su_session s) = 0 \<and> su_attempt s \<noteq> 0 \<and> su_stage s = ST_WaitingPeer
      then snd (Send_control (recorded T) t s K_Restart) else t)"
  have a: "no_commit (snd t) (snd t1)" by (simp add: t1_def no_commit_Send_control)
  have b: "no_commit (snd t1) (snd (snd (Send_control (recorded T) t1 s K_Hello)))" by (simp add: no_commit_Send_control)
  have "t' = t \<or> t' = t1 \<or> t' = snd (Send_control (recorded T) t1 s K_Hello)" "s' = s \<or> s' = s\<lparr>su_nextHello := now + 200000\<rparr>"
    using assms(1) unfolding tick_hello_def Let_def t1_def [symmetric] by (auto split: if_splits)
  then show ?thesis using a b no_commit_trans [OF a b] assms(2) by (auto simp: static_def moving_def)
qed

lemma probe_peers_steps:
  "probe_peers (recorded T) now sequence peers t s = (t', s') \<Longrightarrow>
     static s s' \<and> su_stage s' = su_stage s \<and> no_commit (snd t) (snd t')"
proof (induction peers arbitrary: t s)
  case Nil
  then show ?case by (simp add: static_def)
next
  case (Cons peer peers)
  obtain ok t1 where send: "Startup_Send (recorded T) t s K_Probe sequence peer = (ok, t1)" by (rule prod.exhaust)
  have n: "no_commit (snd t) (snd t1)" using no_commit_Send [of K_Probe t T s sequence peer] send by simp
  show ?case
  proof (cases "peer = sc_localPlayer (su_session s)")
    case True
    then show ?thesis using Cons by simp
  next
    case False
    then obtain s1 where "probe_peers (recorded T) now sequence peers t1 s1 = (t', s')" "static s s1" "su_stage s1 = su_stage s"
      using Cons.prems send by (auto simp: static_def split: if_splits)
    from Cons.IH [OF this(1)] this(2,3) n show ?thesis by (auto simp: static_def intro: no_commit_trans)
  qed
qed

lemma tick_probe_steps:
  assumes "tick_probe (recorded T) t now s = (t', s')" and "moving s"
  shows "static s s' \<and> moving s' \<and> no_commit (snd t) (snd t')"
proof -
  define s1 where "s1 = (if (su_peerHelloMask s OR LocalBit s) = AllMask s \<and> su_stage s = ST_WaitingPeer
      then s\<lparr>su_stage := ST_Measuring, su_measurementBegin := now\<rparr> else s)"
  define s2 where "s2 = (if su_stage s1 = ST_Measuring \<and> su_probes s1 = 0 \<and> \<not> su_stabilityStarted s1
      then s1\<lparr>su_nextProbe := now + StabilizeUs, su_stabilityStarted := True\<rparr> else s1)"
  have q: "static s s2 \<and> moving s2" using assms(2) by (simp add: s1_def s2_def static_def moving_def)
  obtain t3 s3 where p: "probe_peers (recorded T) now (su_probes s2 + 1) (seats (sc_playerCount (su_session s2))) t
      (s2\<lparr>su_probes := su_probes s2 + 1\<rparr>) = (t3, s3)" by (rule prod.exhaust)
  from probe_peers_steps [OF p] have p3: "static s2 s3 \<and> su_stage s3 = su_stage s2 \<and> no_commit (snd t) (snd t3)"
    by (simp add: static_def)
  have "(t', s') = (t, s2) \<or> (t', s') = (t3, s3\<lparr>su_nextProbe := now + IntervalUs, su_lastProbe := now\<rparr>)"
    using assms(1) p unfolding tick_probe_def Let_def s1_def [symmetric] s2_def [symmetric] by (auto split: if_splits)
  then show ?thesis using q p3 by (auto simp: static_def moving_def)
qed

lemma measure_links_steps:
  "measure_links peers s = (ok, s') \<Longrightarrow> moving s \<Longrightarrow> static s s' \<and> moving s'"
proof (induction peers arbitrary: s)
  case Nil
  then show ?case by (simp add: static_def)
next
  case (Cons peer peers)
  show ?case
  proof (cases "peer = sc_localPlayer (su_session s) \<or> length (valid_rtts s peer) < 96")
    case True
    then show ?thesis using Cons by (auto simp: static_def moving_def Retry_def split: if_splits)
  next
    case False
    then obtain s1 where "measure_links peers s1 = (ok, s')" "static s s1" "moving s1"
      using Cons.prems by (auto simp: Let_def static_def moving_def split: if_splits)
    from Cons.IH [OF this(1,3)] this(2) show ?thesis by (simp add: static_def)
  qed
qed

lemma tick_measured_steps:
  assumes "tick_measured now s = (ok, s')" and "moving s"
  shows "static s s' \<and> moving s'"
proof -
  obtain b s1 where m: "measure_links (seats (sc_playerCount (su_session s))) s = (b, s1)" by fastforce
  from measure_links_steps [OF m assms(2)] show ?thesis
    using assms m by (cases b) (auto simp: tick_measured_def static_def moving_def split: if_splits)
qed

lemma startup_bytes_cong:
  "su_session s' = su_session s \<Longrightarrow> su_mode s' = su_mode s \<Longrightarrow> su_reserve s' = su_reserve s \<Longrightarrow>
   su_requested s' = su_requested s \<Longrightarrow> su_choice s' = su_choice s \<Longrightarrow> su_attempt s' = su_attempt s \<Longrightarrow>
   startup_bytes s' K_Commit sequence peer = startup_bytes s K_Commit sequence peer"
  by (simp add: startup_bytes_def startup_body_def)

lemma tick_repeat_steps:
  assumes "tick_repeat (recorded T) t now kind s = (t', s')" and "su_stage s \<noteq> ST_Failed"
    and "kind = K_Commit \<Longrightarrow> su_stage s = ST_Committed \<and> sc_localPlayer (su_session s) = 0"
  shows "quiet s s' \<and> idle_step s s' \<and> (\<forall>b. b \<in> set (snd t') \<longrightarrow> b \<in> set (snd t) \<or> own_commit s' b)"
proof -
  let ?s = "s\<lparr>su_nextControl := now + 200000\<rparr>"
  obtain ok t1 where send: "Send_control (recorded T) t s kind = (ok, t1)" by (rule prod.exhaust)
  have sent: "snd t1 = (if ok then startup_bytes s kind 0 MAX_PLAYERS # snd t else snd t)"
    using Startup_Send_recorded [of T t s kind 0 MAX_PLAYERS] send by (simp add: Send_control_def)
  have same: "startup_bytes ?s K_Commit 0 MAX_PLAYERS = startup_bytes s K_Commit 0 MAX_PLAYERS"
    by (rule startup_bytes_cong) simp_all
  have own: "own_commit ?s (startup_bytes s kind 0 MAX_PLAYERS)"
    using assms(3) same by (cases "kind = K_Commit") (simp_all add: own_commit_def)
  have q: "quiet s ?s" using assms(2) by (simp add: quiet_defs)
  have "(t', s') = (t1, ?s) \<or> (t', s') = (t, s)"
    using assms(1) send unfolding tick_repeat_def by (auto split: if_splits)
  then show ?thesis using q quiet_refl [OF assms(2)] own sent by (auto simp: idle_step_def split: if_splits)
qed

lemma tick_negotiate_steps:
  assumes "tick_negotiate (recorded T) t now s = (t', s')" and "moving s"
  shows "quiet s s' \<and> (sc_localPlayer (su_session s) \<noteq> 0 \<longrightarrow> moving s') \<and>
    (\<forall>b. b \<in> set (snd t') \<longrightarrow> b \<in> set (snd t) \<or> own_commit s' b)"
proof -
  define c where "c = s\<lparr>su_choice := ChooseAll s\<rparr>"
  obtain o1 t1 where m: "Send_control (recorded T) t s K_Summary = (o1, t1)" by (rule prod.exhaust)
  have n1: "no_commit (snd t) (snd t1)" using no_commit_Send_control [of K_Summary t T s] m by simp
  obtain o2 t2 where k: "Send_control (recorded T) t1 c K_Commit = (o2, t2)" by (rule prod.exhaust)
  have k2: "snd t2 = (if o2 then startup_bytes c K_Commit 0 MAX_PLAYERS # snd t1 else snd t1)"
    using Startup_Send_recorded [of T t1 c K_Commit 0 MAX_PLAYERS] k by (simp add: Send_control_def)
  have kept: "quiet s x \<and> (sc_localPlayer (su_session s) \<noteq> 0 \<longrightarrow> moving x)"
    if "static s x" "moving x" for x using moving_quiet [OF that(1) assms(2) that(2)] that(2) by simp
  consider (skip) "(t', s') = (t, s)"
    | (wait) "(t', s') = (t1, s\<lparr>su_nextControl := now + 200000\<rparr>)"
    | (budget) "(t', s') = (t1, Unavailable c RR_Budget)"
    | (commit) "sc_localPlayer (su_session s) = 0" "su_haveLocal s" "su_summaryMask s = AllMask s" "co_delay (ChooseAll s) \<le> 9"
        "o2" "(t', s') = (t2, c\<lparr>su_stage := ST_Committed, su_committedAt := now, su_nextControl := now + 200000\<rparr>)"
    | (other) t3 where "(t', s') = (t3, c\<lparr>su_nextControl := now + 200000\<rparr>)"
        "t3 = t1 \<or> (\<not> o2 \<and> t3 = t2) \<or> t3 = snd (Send_control (recorded T) t1 c K_Proposal) \<or> t3 = snd (Send_control (recorded T) t1 c K_Accept)"
  proof (cases "su_haveLocal s \<and> now \<ge> su_nextControl s")
    case False
    then show thesis using assms(1) skip unfolding tick_negotiate_def if_not_P [OF False] by simp
  next
    case go: True
    note step = assms(1) [unfolded tick_negotiate_def if_P [OF go] Let_def m prod.case c_def [symmetric] k]
    consider "su_summaryMask s \<noteq> AllMask s" | "su_summaryMask s = AllMask s" "co_delay (su_choice c) > 9"
      | "su_summaryMask s = AllMask s" "\<not> co_delay (su_choice c) > 9" by blast
    then show thesis
    proof cases
      case 1
      then show thesis using step wait by simp
    next
      case 2
      then show thesis using step budget by simp
    next
      case 3
      have d: "co_delay (ChooseAll s) \<le> 9" using 3(2) by (simp add: c_def not_less)
      have l: "sc_localPlayer (su_session c) = sc_localPlayer (su_session s)" by (simp add: c_def)
      note rest = step [unfolded l, simplified 3]
      show thesis
      proof (cases "sc_localPlayer (su_session s) = 0 \<and> (su_acceptedMask c OR LocalBit c) = AllMask c")
        case True
        then show thesis using rest commit [OF _ _ 3(1) d] other [of t2] go by (cases o2) auto
      next
        case False
        then show thesis using rest other by (auto split: if_splits)
      qed
    qed
  qed
  then show ?thesis
  proof cases
    case skip
    then show ?thesis using kept [of s] assms(2) by (simp add: static_def)
  next
    case wait
    then show ?thesis using kept [of "s\<lparr>su_nextControl := now + 200000\<rparr>"] assms(2) n1 no_commit_own
      by (auto simp: static_def moving_def)
  next
    case budget
    then show ?thesis using kept [of "Unavailable c RR_Budget"] assms(2) n1 no_commit_own
      by (auto simp: static_def moving_def Unavailable_def c_def)
  next
    case commit
    let ?d = "c\<lparr>su_stage := ST_Committed, su_committedAt := now, su_nextControl := now + 200000\<rparr>"
    have "startup_bytes ?d K_Commit 0 MAX_PLAYERS = startup_bytes c K_Commit 0 MAX_PLAYERS"
      by (rule startup_bytes_cong) simp_all
    then have "own_commit ?d (startup_bytes c K_Commit 0 MAX_PLAYERS)" using commit(1) by (simp add: own_commit_def c_def)
    moreover have "quiet s ?d" using assms(2) commit(2-4) by (simp add: quiet_defs moving_def c_def)
    ultimately show ?thesis using commit k2 n1 no_commit_own by auto
  next
    case other
    have "no_commit (snd t1) (snd t3)" using other(2) k2 by (elim disjE) (simp_all add: no_commit_Send_control)
    with n1 have "no_commit (snd t) (snd t3)" by (rule no_commit_trans)
    then show ?thesis using other(1) kept [of "c\<lparr>su_nextControl := now + 200000\<rparr>"] assms(2) no_commit_own
      by (auto simp: static_def moving_def c_def)
  qed
qed

text \<open>The result of \<^verbatim>\<open>Tick\<close>: a seat other than the host never commits by itself.\<close>

definition kept :: "AdonisStartup \<Rightarrow> AdonisStartup \<Rightarrow> bool" where
  "kept s s' \<longleftrightarrow> static s s' \<and> (agreed s \<longrightarrow> agreed s' \<and>
     (su_stage s = ST_Committed \<or> su_stage s = ST_Failed \<longrightarrow> (su_stage s' = ST_Committed \<or> su_stage s' = ST_Failed) \<and>
        su_choice s' = su_choice s \<and> su_attempt s' = su_attempt s))"

lemma quiet_kept: "quiet s s' \<Longrightarrow> su_stage s \<noteq> ST_Failed \<Longrightarrow> kept s s'"
  by (simp add: quiet_def kept_def)

lemma quiet_Fail_kept: "quiet s s' \<Longrightarrow> su_stage s \<noteq> ST_Failed \<Longrightarrow> kept s (snd (Startup_Fail s' text))"
  by (auto simp: quiet_def kept_def Startup_Fail_def static_def agreed_def)

lemma Startup_Tick_failed: "su_stage s = ST_Failed \<Longrightarrow> Startup_Tick T t s now = (False, t, s)"
  by (simp add: Startup_Tick_def Startup_ObserveClock_def)

lemma tick_active_steps:
  assumes "tick_active (recorded T) t now s = (t', s')" and "moving s"
  shows "quiet s s' \<and> (sc_localPlayer (su_session s) \<noteq> 0 \<longrightarrow> moving s') \<and>
    (\<forall>b. b \<in> set (snd t') \<longrightarrow> b \<in> set (snd t) \<or> own_commit s' b)"
proof -
  obtain t1 s1 where h: "tick_hello (recorded T) t now s = (t1, s1)" by (rule prod.exhaust)
  obtain t2 s2 where p: "tick_probe (recorded T) t1 now s1 = (t2, s2)" by (rule prod.exhaust)
  obtain b s3 where m: "tick_measured now s2 = (b, s3)" by (rule prod.exhaust)
  obtain t4 s4 where n: "tick_negotiate (recorded T) t2 now s3 = (t4, s4)" by (rule prod.exhaust)
  note h1 = tick_hello_steps [OF h assms(2)]
  note p1 = tick_probe_steps [OF p conjunct1 [OF conjunct2 [OF h1]]]
  note m1 = tick_measured_steps [OF m conjunct1 [OF conjunct2 [OF p1]]]
  note n1 = tick_negotiate_steps [OF n conjunct2 [OF m1]]
  have st: "static s s1" "static s s2" "static s s3" using h1 p1 m1 by (simp_all add: static_def)
  have mv: "moving s1" "moving s2" "moving s3" using h1 p1 m1 by simp_all
  have c1: "no_commit (snd t) (snd t1)" and c2: "no_commit (snd t) (snd t2)"
    using h1 p1 no_commit_trans by blast+
  consider "(t', s') = (t1, s1)" | "(t', s') = (t2, s3)" | "(t', s') = (t4, s4)"
    using assms(1) unfolding tick_active_def Let_def h p m n prod.case by (auto split: if_splits)
  then show ?thesis
  proof cases
    case 1
    then show ?thesis using moving_quiet [OF st(1) assms(2) mv(1)] mv(1) no_commit_own [OF c1] by simp
  next
    case 2
    then show ?thesis using moving_quiet [OF st(3) assms(2) mv(3)] mv(3) no_commit_own [OF c2] by simp
  next
    case 3
    have "quiet s s4" using moving_quiet [OF st(3) assms(2) mv(3)] n1 quiet_trans by blast
    moreover have "sc_localPlayer (su_session s3) = sc_localPlayer (su_session s)" using st(3) by (simp add: static_def)
    moreover have "b \<in> set (snd t) \<or> own_commit s4 b" if "b \<in> set (snd t4)" for b
      using n1 that no_commit_own [OF c2] by blast
    ultimately show ?thesis using 3 n1 by simp
  qed
qed

lemma Startup_Tick_steps:
  assumes "Startup_Tick (recorded T) t s now = (ok, t', s')"
  shows "kept s s'" "sc_localPlayer (su_session s) \<noteq> 0 \<Longrightarrow> su_stage s' = ST_Committed \<Longrightarrow> su_stage s = ST_Committed"
    "b \<in> set (snd t') \<Longrightarrow> b \<in> set (snd t) \<or> own_commit s' b"
proof -
  have "kept s s' \<and> (sc_localPlayer (su_session s) \<noteq> 0 \<longrightarrow> idle_step s s') \<and>
      (\<forall>b. b \<in> set (snd t') \<longrightarrow> b \<in> set (snd t) \<or> own_commit s' b)"
  proof (cases "su_stage s = ST_Failed")
    case True
    then show ?thesis using assms by (simp add: Startup_Tick_failed kept_def static_def)
  next
    case running: False
    obtain clock s1 where c: "Startup_ObserveClock s now = (clock, s1)" by (rule prod.exhaust)
    define s2 where "s2 = tick_deadlines (recorded T) t now s1"
    note step = assms [unfolded Startup_Tick_def c Let_def prod.case s2_def [symmetric]]
    show ?thesis
    proof (cases "clock \<and> su_stage s1 \<noteq> ST_Idle")
      case False
      have q: "quiet s (if clock then s1 else s)" using ObserveClock_steps(1) [OF c running] quiet_refl [OF running] by simp
      have "t' = t \<and> (\<exists>text. s' = snd (Startup_Fail (if clock then s1 else s) text))"
        using False step ObserveClock_steps(2) [OF c running] by (cases clock) (auto simp: Startup_Fail_def)
      then show ?thesis using quiet_Fail_kept [OF q running] by (auto simp: idle_step_def Startup_Fail_def)
    next
      case True
      have q1: "quiet s s1" "idle_step s s1" using ObserveClock_steps(1) [OF c running] True by auto
      have q2: "quiet s1 s2" "idle_step s1 s2"
        using tick_deadlines_quiet [OF quiet_running [OF q1(1)], of "recorded T" t now] by (simp_all add: s2_def)
      have q: "quiet s s2" "idle_step s s2" using q1 q2 quiet_trans idle_step_trans by blast+
      have r2: "su_stage s2 \<noteq> ST_Failed" by (rule quiet_running [OF q(1)])
      have local: "sc_localPlayer (su_session s2) = sc_localPlayer (su_session s)" using q(1) by (simp add: quiet_def static_def)
      have finish: ?thesis if "quiet s2 s'" "sc_localPlayer (su_session s) \<noteq> 0 \<longrightarrow> idle_step s2 s'"
        "\<forall>b. b \<in> set (snd t') \<longrightarrow> b \<in> set (snd t) \<or> own_commit s' b"
        using quiet_kept [OF quiet_trans [OF q(1) that(1)] running] that(2,3) q(2) idle_step_trans by blast
      consider (closed) "(t', s') = (t, if su_probes s2 = 0 then s2\<lparr>su_stabilityStarted := False\<rparr> else s2)"
        | (stop) "tick_repeat (recorded T) t now K_Stop s2 = (t', s')"
        | (retry) "tick_repeat (recorded T) t now K_RetryRequest s2 = (t', s')"
        | (commit) "su_stage s2 = ST_Committed" "sc_localPlayer (su_session s2) = 0" "tick_repeat (recorded T) t now K_Commit s2 = (t', s')"
        | (rest) "(t', s') = (t, s2)"
        | (active) "moving s2" "tick_active (recorded T) t now s2 = (t', s')"
      proof -
        let ?u = "su_stage s2 = ST_Unavailable" and ?r = "su_stage s2 = ST_Retrying" and ?c = "su_stage s2 = ST_Committed"
        let ?h = "sc_localPlayer (su_session s2) = 0 \<and> (su_commitAckMask s2 OR LocalBit s2) \<noteq> AllMask s2 \<and>
            now - su_committedAt s2 < 5000000"
        have "pt_IsOpen (recorded T) t \<Longrightarrow> \<not> ?u \<Longrightarrow> \<not> ?r \<Longrightarrow> \<not> ?c \<Longrightarrow> tick_active (recorded T) t now s2 = (t', s')"
          "pt_IsOpen (recorded T) t \<Longrightarrow> ?u \<Longrightarrow> tick_repeat (recorded T) t now K_Stop s2 = (t', s')"
          "pt_IsOpen (recorded T) t \<Longrightarrow> ?r \<Longrightarrow> tick_repeat (recorded T) t now K_RetryRequest s2 = (t', s')"
          "pt_IsOpen (recorded T) t \<Longrightarrow> ?c \<Longrightarrow> (if ?h then tick_repeat (recorded T) t now K_Commit s2 else (t, s2)) = (t', s')"
          "\<not> pt_IsOpen (recorded T) t \<Longrightarrow> (t', s') = (t, if su_probes s2 = 0 then s2\<lparr>su_stabilityStarted := False\<rparr> else s2)"
          using step True by simp_all
        then show thesis using that r2 unfolding moving_def by metis
      qed
      then show ?thesis
      proof cases
        case closed
        have "quiet s2 s'" "idle_step s2 s'" using closed r2 quiet_refl [OF r2] by (auto simp: quiet_defs idle_step_def)
        then show ?thesis using finish closed by simp
      next
        case stop
        from tick_repeat_steps [OF this r2] show ?thesis using finish by simp
      next
        case retry
        from tick_repeat_steps [OF this r2] show ?thesis using finish by simp
      next
        case commit
        from tick_repeat_steps [OF commit(3) r2] show ?thesis using commit(1,2) finish by simp
      next
        case rest
        then show ?thesis using finish quiet_refl [OF r2] by simp
      next
        case active
        from tick_active_steps [OF active(2,1)] show ?thesis using finish local by (auto simp: idle_step_def moving_def)
      qed
    qed
  qed
  then show "kept s s'" "sc_localPlayer (su_session s) \<noteq> 0 \<Longrightarrow> su_stage s' = ST_Committed \<Longrightarrow> su_stage s = ST_Committed"
    "b \<in> set (snd t') \<Longrightarrow> b \<in> set (snd t) \<or> own_commit s' b" by (auto simp: idle_step_def)
qed

section \<open>Receive\<close>

lemma u8_below_4: "p \<le> (3 :: u8) \<Longrightarrow> p = 0 \<or> p = 1 \<or> p = 2 \<or> p = 3"
proof -
  assume "p \<le> 3"
  then have "unat p \<le> 3" by (simp add: word_le_nat_alt)
  then consider "unat p = 0" | "unat p = 1" | "unat p = 2" | "unat p = 3" by linarith
  then show ?thesis by cases (simp_all add: word_unat_eq_iff)
qed

lemma peer_bit_in_AllMask:
  assumes "p < sc_playerCount (su_session s)" "sc_playerCount (su_session s) \<le> 3"
  shows "AllMask s AND peer_bit p \<noteq> 0" "AllMask s OR peer_bit p = AllMask s"
proof -
  have p: "p \<le> 3" using assms by simp
  have ne: "p \<noteq> 3" using assms by auto
  show "AllMask s AND peer_bit p \<noteq> 0" "AllMask s OR peer_bit p = AllMask s"
    using u8_below_4 [OF p] u8_below_4 [OF assms(2)] assms(1) ne
    by (auto simp: AllMask_def peer_bit_def)
qed

definition accepts_commit :: "AdonisStartup \<Rightarrow> bytes \<Rightarrow> bool" where
  "accepts_commit s p \<longleftrightarrow> length p = 64 \<and> p ! 4 = K_Commit \<and> p ! 5 = 0 \<and> sc_localPlayer (su_session s) \<noteq> 0 \<and>
     le_word (take 8 (drop 8 p)) = sc_sessionId (su_session s) \<and> \<not> startup_differs s p \<and> \<not> startup_target_differs s p \<and>
     startup_word p 32 = co_delay (su_choice s) \<and> startup_word p 36 = co_fullDelay (su_choice s) \<and>
     startup_word p 40 = co_prediction (su_choice s) \<and> startup_word p 60 = su_attempt s"

lemma accepts_commit_static:
  "static s s' \<Longrightarrow> startup_differs s' p = startup_differs s p \<and> startup_target_differs s' p = startup_target_differs s p"
  by (simp add: static_def startup_differs_def startup_target_differs_def)

text \<open>A handler ends quietly, or with a failure after a quiet step.\<close>

definition handled :: "AdonisStartup \<Rightarrow> AdonisStartup \<Rightarrow> bool" where
  "handled s s' \<longleftrightarrow> quiet s s' \<and> idle_step s s' \<or> (\<exists>x text. quiet s x \<and> s' = snd (Startup_Fail x text))"

lemma handled_quiet: "quiet s s' \<Longrightarrow> idle_step s s' \<Longrightarrow> handled s s'"
  and handled_Fail: "su_stage s \<noteq> ST_Failed \<Longrightarrow> handled s (snd (Startup_Fail s text))"
  and handled_refl: "su_stage s \<noteq> ST_Failed \<Longrightarrow> handled s s"
  unfolding handled_def using quiet_refl idle_step_refl by blast+

lemma Startup_Fail_iff: "Startup_Fail s msg = (ok, s') \<longleftrightarrow> \<not> ok \<and> s' = snd (Startup_Fail s msg)"
  by (auto simp: Startup_Fail_def)

lemma receive_retry_steps:
  assumes "receive_retry s p now = (ok, s')" and "su_stage s \<noteq> ST_Failed"
  shows "handled s s'"
proof -
  have "s' = s \<or> (\<exists>text. s' = snd (Startup_Fail s text)) \<or> (su_stage s \<noteq> ST_Committed \<and> (\<exists>r. s' = Unavailable s r)) \<or>
      (su_stage s \<noteq> ST_Committed \<and> (\<exists>a r. s' = ResetAttempt s a now r)) \<or> (\<exists>r. s' = Retry s r)"
    using assms(1) unfolding receive_retry_def Let_def by (auto simp: Startup_Fail_iff split: if_splits)
  then show ?thesis
    using handled_refl [OF assms(2)] handled_Fail [OF assms(2)] quiet_Unavailable [OF assms(2)]
      quiet_ResetAttempt quiet_Retry [OF assms(2)] handled_quiet by metis
qed

lemma receive_probe_steps:
  assumes "receive_probe (recorded T) t s p now = (ok, t', s')" and "su_stage s \<noteq> ST_Failed"
  shows "handled s s' \<and> no_commit (snd t) (snd t')"
proof -
  have q: "quiet s (s\<lparr>su_rtt := r\<rparr>)" "idle_step s (s\<lparr>su_rtt := r\<rparr>)" for r
    using assms(2) by (simp_all add: quiet_defs idle_step_def)
  have "(s' = s \<or> (\<exists>text. s' = snd (Startup_Fail s text)) \<or> (\<exists>r. s' = Retry s r) \<or> (\<exists>r. s' = s\<lparr>su_rtt := r\<rparr>)) \<and>
      (t' = t \<or> t' = snd (Startup_Send (recorded T) t s K_Echo (startup_word p 28) (p ! 5)))"
    using assms(1) unfolding receive_probe_def Let_def by (auto simp: Startup_Fail_iff split: if_splits prod.splits)
  moreover have "no_commit (snd t) (snd (snd (Startup_Send (recorded T) t s K_Echo (startup_word p 28) (p ! 5))))"
    by (simp add: no_commit_Send)
  ultimately show ?thesis
    using handled_refl [OF assms(2)] handled_Fail [OF assms(2)] quiet_Retry [OF assms(2)] q handled_quiet no_commit_refl by metis
qed

lemma receive_summary_steps:
  assumes "receive_summary s p = (ok, s')" and "su_stage s \<noteq> ST_Failed"
    and "p ! 5 < sc_playerCount (su_session s)" "sc_playerCount (su_session s) \<le> 3"
  shows "handled s s'"
proof -
  note bits = peer_bit_in_AllMask [OF assms(3,4)]
  let ?seen = "su_summaryMask s AND peer_bit (p ! 5) \<noteq> 0"
  consider (fail) msg where "s' = snd (Startup_Fail s msg)"
    | (store) "?seen \<longrightarrow> su_reports s (p ! 5) = summary_report p"
      "s' = s\<lparr>su_nextControl := (if ?seen then su_nextControl s else 0),
        su_reports := (su_reports s)(p ! 5 := summary_report p), su_summaryMask := su_summaryMask s OR peer_bit (p ! 5)\<rparr>"
    using assms(1) unfolding receive_summary_def Let_def by (auto simp: Startup_Fail_iff split: if_splits)
  then show ?thesis
  proof cases
    case fail
    then show ?thesis using handled_Fail [OF assms(2)] by simp
  next
    case store
    have "quiet s s'"
    proof (cases "su_summaryMask s = AllMask s")
      case True
      then have eq: "(su_reports s)(p ! 5 := summary_report p) = su_reports s" using store(1) bits(1) by auto
      have "su_summaryMask s OR peer_bit (p ! 5) = su_summaryMask s" using True bits(2) by simp
      then show ?thesis unfolding store(2) eq using assms(2) by (simp add: quiet_defs)
    next
      case False
      then have "agreed s \<Longrightarrow> su_stage s \<noteq> ST_Committed" by (auto simp: agreed_def)
      then show ?thesis using assms(2) store(2) by (auto simp: quiet_def static_def agreed_def)
    qed
    then show ?thesis using store(2) by (intro handled_quiet) (simp_all add: idle_step_def)
  qed
qed

lemma receive_commitment_steps:
  assumes "receive_commitment (recorded T) t s p now = (ok, t', s')" and "su_stage s \<noteq> ST_Failed"
  shows "no_commit (snd t) (snd t') \<and> (handled s s' \<or> quiet s s' \<and> p ! 4 = K_Commit \<and> p ! 5 = 0 \<and>
    sc_localPlayer (su_session s) \<noteq> 0 \<and> startup_word p 32 = co_delay (su_choice s') \<and>
    startup_word p 36 = co_fullDelay (su_choice s') \<and> startup_word p 40 = co_prediction (su_choice s') \<and> su_attempt s' = su_attempt s)"
proof (cases "\<not> su_haveLocal s \<or> su_summaryMask s \<noteq> AllMask s")
  case True
  then have "s' = s \<and> t' = t" using assms(1) by (simp add: receive_commitment_def Let_def)
  then show ?thesis using handled_refl [OF assms(2)] by simp
next
  case full: False
  define e where "e = ChooseAll s"
  define c where "c = s\<lparr>su_choice := e\<rparr>"
  note step = assms(1) [unfolded receive_commitment_def Let_def if_not_P [OF full] e_def [symmetric] c_def [symmetric]]
  show ?thesis
  proof (cases "startup_word p 32 \<noteq> co_delay e \<or> startup_word p 36 \<noteq> co_fullDelay e \<or> startup_word p 40 \<noteq> co_prediction e \<or> co_delay e > 9")
    case True
    from step [unfolded if_P [OF True]] have "s' = snd (Startup_Fail s ''Adonis chosen delay disagrees with both measured summaries'') \<and> t' = t"
      by (simp add: Startup_Fail_def)
    then show ?thesis using handled_Fail [OF assms(2)] by simp
  next
    case ok: False
    note step = step [unfolded if_not_P [OF ok]]
    have qc: "quiet s c" "idle_step s c" using assms(2) by (simp_all add: c_def e_def quiet_defs idle_step_def)
    have q: "quiet s (c\<lparr>su_accepted := True\<rparr>)" "quiet s (c\<lparr>su_acceptedMask := m, su_nextControl := 0\<rparr>)"
      "quiet s (c\<lparr>su_commitAckMask := m\<rparr>)" for m
      using assms(2) by (simp_all add: c_def e_def quiet_defs)
    have i: "idle_step s (c\<lparr>su_accepted := True\<rparr>)" "idle_step s (c\<lparr>su_acceptedMask := m, su_nextControl := 0\<rparr>)"
      "idle_step s (c\<lparr>su_commitAckMask := m\<rparr>)" for m
      by (simp_all add: c_def idle_step_def)
    have qd: "quiet s (c\<lparr>su_stage := ST_Committed, su_committedAt := now\<rparr>)"
      using full ok by (simp add: c_def e_def quiet_defs not_less)
    have sends: "no_commit (snd t) (snd (snd (Send_control (recorded T) t x K_Accept)))"
      "no_commit (snd t) (snd (snd (Send_control (recorded T) t x K_CommitAck)))" for x
      by (simp_all add: no_commit_Send_control)
    consider (same) "s' = c" "t' = t"
      | (proposal) "s' = c\<lparr>su_accepted := True\<rparr>" "t' = snd (Send_control (recorded T) t (c\<lparr>su_accepted := True\<rparr>) K_Accept)"
      | (accept) "s' = c\<lparr>su_acceptedMask := su_acceptedMask c OR peer_bit (p ! 5), su_nextControl := 0\<rparr>" "t' = t"
      | (commit) "p ! 4 = K_Commit" "sc_localPlayer (su_session s) \<noteq> 0" "p ! 5 = 0"
          "s' = c\<lparr>su_stage := ST_Committed, su_committedAt := now\<rparr>" 
          "t' = snd (Send_control (recorded T) t (c\<lparr>su_stage := ST_Committed, su_committedAt := now\<rparr>) K_CommitAck)"
      | (ack) "s' = c\<lparr>su_commitAckMask := su_commitAckMask c OR peer_bit (p ! 5)\<rparr>" "t' = t"
      | (fail) msg where "s' = snd (Startup_Fail c msg)" "t' = t"
    proof -
      let ?l = "sc_localPlayer (su_session s)"
      let ?A = "?l \<noteq> 0 \<and> p ! 5 \<noteq> 0 \<and> (p ! 4 = K_Accept \<or> p ! 4 = K_CommitAck)"
      let ?B = "p ! 4 = K_Proposal \<and> ?l \<noteq> 0 \<and> p ! 5 = 0"
      let ?C = "p ! 4 = K_Accept \<and> ?l = 0"
      let ?D = "p ! 4 = K_Commit \<and> ?l \<noteq> 0 \<and> p ! 5 = 0 \<and> su_accepted c"
      let ?E = "p ! 4 = K_CommitAck \<and> ?l = 0 \<and> su_stage c = ST_Committed"
      show thesis
      proof (cases ?A)
        case True
        from step [unfolded if_P [OF True]] show thesis using same by simp
      next
        case A: False
        note step = step [unfolded if_not_P [OF A]]
        show thesis
        proof (cases ?B)
          case True
          from step [unfolded if_P [OF True]]
          have "s' = c\<lparr>su_accepted := True\<rparr> \<and> t' = snd (Send_control (recorded T) t (c\<lparr>su_accepted := True\<rparr>) K_Accept)" by auto
          then show thesis using proposal by blast
        next
          case B: False
          note step = step [unfolded if_not_P [OF B]]
          show thesis
          proof (cases ?C)
            case True
            from step [unfolded if_P [OF True]] show thesis using accept by simp
          next
            case C: False
            note step = step [unfolded if_not_P [OF C]]
            show thesis
            proof (cases ?D)
              case True
              let ?d = "c\<lparr>su_stage := ST_Committed, su_committedAt := now\<rparr>"
              from step [unfolded if_P [OF True]]
              have "s' = ?d \<and> t' = snd (Send_control (recorded T) t ?d K_CommitAck)" by auto
              then show thesis using commit True by blast
            next
              case D: False
              note step = step [unfolded if_not_P [OF D]]
              show thesis
              proof (cases ?E)
                case True
                from step [unfolded if_P [OF True]] show thesis using ack by simp
              next
                case False
                from step [unfolded if_not_P [OF False]] show thesis
                  using fail [of "''Invalid Adonis commit authority or phase''"] by (simp add: Startup_Fail_def)
              qed
            qed
          qed
        qed
      qed
    qed
    then show ?thesis
    proof cases
      case same
      then show ?thesis using handled_quiet [OF qc] by simp
    next
      case proposal
      then show ?thesis using handled_quiet [OF q(1) i(1)] sends by simp
    next
      case accept
      then show ?thesis using handled_quiet [OF q(2) i(2)] by simp
    next
      case commit
      have "su_choice s' = e \<and> su_attempt s' = su_attempt s" using commit(4) by (simp add: c_def)
      then show ?thesis using commit qd sends ok by auto
    next
      case ack
      then show ?thesis using handled_quiet [OF q(3) i(3)] by simp
    next
      case fail
      then show ?thesis using qc(1) by (auto simp: handled_def)
    qed
  qed
qed

lemma receive_current_steps:
  assumes "receive_current (recorded T) t s p now = (ok, t', s')" and "su_stage s \<noteq> ST_Failed"
    and "p ! 5 < sc_playerCount (su_session s)" "sc_playerCount (su_session s) \<le> 3"
  shows "no_commit (snd t) (snd t') \<and> (handled s s' \<or> quiet s s' \<and> p ! 4 = K_Commit \<and> p ! 5 = 0 \<and>
    sc_localPlayer (su_session s) \<noteq> 0 \<and> startup_word p 32 = co_delay (su_choice s') \<and>
    startup_word p 36 = co_fullDelay (su_choice s') \<and> startup_word p 40 = co_prediction (su_choice s') \<and>
    startup_word p 60 = su_attempt s')"
proof (cases "startup_word p 60 \<noteq> su_attempt s \<or> su_stage s = ST_Unavailable \<or> su_stage s = ST_Retrying")
  case True
  from assms(1) [unfolded receive_current_def if_P [OF True]] show ?thesis using handled_refl [OF assms(2)] by simp
next
  case current: False
  note step = assms(1) [unfolded receive_current_def if_not_P [OF current]]
  consider (hello) "p ! 4 = K_Hello" | (probe) "p ! 4 \<noteq> K_Hello" "p ! 4 = K_Probe \<or> p ! 4 = K_Echo"
    | (summary) "p ! 4 = K_Summary" | (rest) "p ! 4 \<noteq> K_Hello" "\<not> (p ! 4 = K_Probe \<or> p ! 4 = K_Echo)" "p ! 4 \<noteq> K_Summary" by blast
  then show ?thesis
  proof cases
    case hello
    have "quiet s (s\<lparr>su_peerHelloMask := m\<rparr>)" for m using assms(2) by (simp add: quiet_defs)
    then have "handled s (s\<lparr>su_peerHelloMask := m\<rparr>)" for m by (rule handled_quiet) (simp add: idle_step_def)
    then show ?thesis using step hello by auto
  next
    case probe
    from step [unfolded if_not_P [OF probe(1)] if_P [OF probe(2)]] show ?thesis using receive_probe_steps [OF _ assms(2)] by blast
  next
    case summary
    obtain b x where r: "receive_summary s p = (b, x)" by (rule prod.exhaust)
    from receive_summary_steps [OF r assms(2-4)] show ?thesis using step summary r by simp
  next
    case rest
    have attempt: "startup_word p 60 = su_attempt s" using current by simp
    from receive_commitment_steps [OF step [unfolded if_not_P [OF rest(1)] if_not_P [OF rest(2)] if_not_P [OF rest(3)]] assms(2)]
    show ?thesis using attempt by auto
  qed
qed

lemma handled_kept: "handled s s' \<Longrightarrow> su_stage s \<noteq> ST_Failed \<Longrightarrow> kept s s' \<and> idle_step s s'"
  unfolding handled_def using quiet_kept quiet_Fail_kept by (auto simp: idle_step_def Startup_Fail_def)

lemma handled_after: "quiet s x \<Longrightarrow> idle_step s x \<Longrightarrow> handled x s' \<Longrightarrow> handled s s'"
  unfolding handled_def using quiet_trans idle_step_trans by blast

lemma Startup_Receive_steps:
  assumes "Startup_Receive (recorded T) t s p now = (ok, t', s')" and three: "sc_playerCount (su_session s) \<le> 3"
  shows "kept s s'" "su_stage s' = ST_Committed \<Longrightarrow> su_stage s = ST_Committed \<or> accepts_commit s' p"
    "no_commit (snd t) (snd t')"
proof -
  have "no_commit (snd t) (snd t') \<and> kept s s' \<and> (su_stage s' = ST_Committed \<longrightarrow> su_stage s = ST_Committed \<or> accepts_commit s' p)"
  proof (cases "su_stage s = ST_Failed")
    case True
    then show ?thesis using assms(1) by (simp add: Startup_Receive_def Startup_ObserveClock_def kept_def static_def)
  next
    case running: False
    obtain clock s1 where c: "Startup_ObserveClock s now = (clock, s1)" by (rule prod.exhaust)
    note step = assms(1) [unfolded Startup_Receive_def c Let_def prod.case]
    have finish: ?thesis if "no_commit (snd t) (snd t')" "handled s s'"
      using handled_kept [OF that(2) running] that(1) by (auto simp: idle_step_def)
    show ?thesis
    proof (cases clock)
      case False
      have "s' = snd (Startup_Fail s ''Adonis startup clock reversed'') \<and> t' = t"
        using False step ObserveClock_steps(2) [OF c running] by simp
      then show ?thesis using finish handled_Fail [OF running] by simp
    next
      case clock: True
      have q1: "quiet s s1" "idle_step s s1" using ObserveClock_steps(1) [OF c running clock] by auto
      have r1: "su_stage s1 \<noteq> ST_Failed" by (rule quiet_running [OF q1(1)])
      have count: "sc_playerCount (su_session s1) \<le> 3" using three q1(1) by (simp add: quiet_def static_def)
      let ?bad = "\<not> Startup_IsPacket p \<or> length p \<noteq> 64 \<or> p ! 3 \<noteq> 4 \<or> p ! 4 < K_Hello \<or> p ! 4 > K_Stop"
      let ?old = "le_word (take 8 (drop 8 p)) \<noteq> sc_sessionId (su_session s1)"
      consider (fail) msg where "t' = t" "s' = snd (Startup_Fail s1 msg)"
        | (old) "t' = t" "s' = s1"
        | (retry) b where "receive_retry s1 p now = (b, s')" "t' = t"
        | (current) b where "length p = 64" "\<not> ?old" "\<not> startup_differs s1 p" "\<not> startup_target_differs s1 p"
            "receive_current (recorded T) t s1 p now = (b, t', s')"
      proof (cases "?bad \<or> startup_differs s1 p \<or> startup_target_differs s1 p \<or> startup_reserved p \<or> startup_fields_invalid p \<or>
          startup_word p 60 > MaxRetries \<or> ?old")
        case True
        have "(\<exists>msg. t' = t \<and> s' = snd (Startup_Fail s1 msg)) \<or> t' = t \<and> s' = s1"
          using step clock True by (simp split: if_splits) metis+
        then show thesis using fail old by blast
      next
        case False
        note good = this
        show thesis
        proof (cases "p ! 4 \<ge> K_RetryRequest")
          case True
          obtain b x where r: "receive_retry s1 p now = (b, x)" by (rule prod.exhaust)
          then show thesis using step clock good True retry [of b] by simp
        next
          case False
          then have "receive_current (recorded T) t s1 p now = (ok, t', s')" using step clock good by simp
          then show thesis using current good by blast
        qed
      qed
      then show ?thesis
      proof cases
        case fail
        then show ?thesis using finish handled_after [OF q1 handled_Fail [OF r1]] by simp
      next
        case old
        then show ?thesis using finish handled_quiet [OF q1] by simp
      next
        case retry
        then show ?thesis using finish handled_after [OF q1 receive_retry_steps [OF retry(1) r1]] by simp
      next
        case current
        have peer: "p ! 5 < sc_playerCount (su_session s1)" using current(3) by (simp add: startup_differs_def not_le)
        note r = receive_current_steps [OF current(5) r1 peer count]
        show ?thesis
        proof (cases "handled s1 s'")
          case True
          then show ?thesis using finish handled_after [OF q1 True] r by simp
        next
          case False
          with r have q2: "quiet s1 s'" and a: "p ! 4 = K_Commit" "p ! 5 = 0" "sc_localPlayer (su_session s1) \<noteq> 0"
            "startup_word p 32 = co_delay (su_choice s')" "startup_word p 36 = co_fullDelay (su_choice s')"
            "startup_word p 40 = co_prediction (su_choice s')" "startup_word p 60 = su_attempt s'" by auto
          have st: "static s1 s'" using q2 by (simp add: quiet_def)
          then have "sc_localPlayer (su_session s') \<noteq> 0" "sc_sessionId (su_session s') = sc_sessionId (su_session s1)"
            using a(3) by (simp_all add: static_def)
          then have "accepts_commit s' p"
            using accepts_commit_static [OF st] current(1-4) a by (simp add: accepts_commit_def)
          then show ?thesis using quiet_kept [OF quiet_trans [OF q1(1) q2] running] r by simp
        qed
      qed
    qed
  qed
  then show "kept s s'" "su_stage s' = ST_Committed \<Longrightarrow> su_stage s = ST_Committed \<or> accepts_commit s' p"
    "no_commit (snd t) (snd t')" by auto
qed

end
