(* ===== verification/StartupProps.thy ===== *)
theory StartupProps
  imports StartupSteps
begin

text \<open>
  The properties of the calibration: the seats of a session that commit have committed the same timing,
  and a committed timing follows from usable measurements of every link.
\<close>

section \<open>A session of calibrating seats\<close>

text \<open>
  \<open>startup_net config T n P W\<close>: the calibrations \<open>P\<close> of \<open>n\<close> seats after any number of calls, each with any
  state of the transport \<open>T\<close> and at any time, where \<open>W\<close> holds the packets a transport accepted. A packet of \<open>W\<close>
  reaches any seat any number of times, in any order, or never. A seat has its own configuration.
\<close>

type_synonym startup_config = "SessionConfig \<times> u64 \<times> u8 \<times> u32 \<times> u32"

inductive startup_net :: "(u8 \<Rightarrow> startup_config) \<Rightarrow> 't PeerTransport \<Rightarrow> u8 \<Rightarrow> (u8 \<Rightarrow> AdonisStartup) \<Rightarrow> bytes set \<Rightarrow> bool"
  for config T n where
  net_begin: "(\<And>p. p < n \<Longrightarrow> (case config p of (session, now, mode, request, reserve) \<Rightarrow>
      sc_localPlayer session = p \<and> Startup_Begin session now mode request reserve = (True, P p))) \<Longrightarrow>
    startup_net config T n P {}"
| net_tick: "startup_net config T n P W \<Longrightarrow> p < n \<Longrightarrow>
    Startup_Tick (recorded T) (t, []) (P p) now = (ok, (t', sent), s') \<Longrightarrow>
    startup_net config T n (P(p := s')) (W \<union> set sent)"
| net_receive: "startup_net config T n P W \<Longrightarrow> p < n \<Longrightarrow> b \<in> W \<Longrightarrow>
    Startup_Receive (recorded T) (t, []) (P p) b now = (ok, (t', sent), s') \<Longrightarrow>
    startup_net config T n (P(p := s')) (W \<union> set sent)"

definition seat_ok :: "u8 \<Rightarrow> AdonisStartup \<Rightarrow> bool" where
  "seat_ok p s \<longleftrightarrow> sc_localPlayer (su_session s) = p \<and> sc_playerCount (su_session s) \<le> 3 \<and>
     su_reserve s \<le> 2 \<and> agreed s"

lemma seat_ok_kept: "seat_ok p s \<Longrightarrow> kept s s' \<Longrightarrow> seat_ok p s'"
  by (auto simp: seat_ok_def kept_def static_def)

lemma Startup_Begin_fields:
  assumes "Startup_Begin session now mode request reserve = (True, s)"
  shows "su_session s = session" "sc_playerCount session \<le> 3" "su_stage s = ST_WaitingPeer" "su_reserve s \<le> 2"
  using assms by (auto simp: Startup_Begin_def Startup_Fail_def Let_def not_less split: if_splits)

lemma Startup_Begin_seat_ok:
  "Startup_Begin session now mode request reserve = (True, s) \<Longrightarrow> seat_ok (sc_localPlayer session) s"
  using Startup_Begin_fields by (simp add: seat_ok_def agreed_def)

text \<open>The commit packets on the wire are the host's, and the host has committed what they say.\<close>

definition host_commit :: "AdonisStartup \<Rightarrow> bytes \<Rightarrow> bool" where
  "host_commit s b \<longleftrightarrow> (b ! 4 = K_Commit \<longrightarrow> (su_stage s = ST_Committed \<or> su_stage s = ST_Failed) \<and>
     b = startup_bytes s K_Commit 0 MAX_PLAYERS)"

lemma own_host_commit: "own_commit s b \<Longrightarrow> host_commit s b"
  by (simp add: own_commit_def host_commit_def)

lemma host_commit_kept:
  assumes "host_commit s b" "kept s s'" "agreed s"
  shows "host_commit s' b"
proof -
  have "su_stage s = ST_Committed \<or> su_stage s = ST_Failed \<Longrightarrow>
      startup_bytes s' K_Commit 0 MAX_PLAYERS = startup_bytes s K_Commit 0 MAX_PLAYERS"
    using assms(2,3) by (intro startup_bytes_cong) (auto simp: kept_def static_def)
  then show ?thesis using assms by (auto simp: host_commit_def kept_def)
qed

definition net_inv :: "u8 \<Rightarrow> (u8 \<Rightarrow> AdonisStartup) \<Rightarrow> bytes set \<Rightarrow> bool" where
  "net_inv n P W \<longleftrightarrow> (\<forall>p. p < n \<longrightarrow> seat_ok p (P p)) \<and> (\<forall>b \<in> W. host_commit (P 0) b) \<and>
     (\<forall>p. p < n \<longrightarrow> p \<noteq> 0 \<longrightarrow> su_stage (P p) = ST_Committed \<longrightarrow> (\<exists>b \<in> W. accepts_commit (P p) b))"

text \<open>A step of one seat keeps the invariant if it keeps the seat, sends only commits of its own and
  commits only on a commit of the wire.\<close>

lemma net_inv_step:
  assumes inv: "net_inv n P W" and p: "p < n" and n: "0 < n" and k: "kept (P p) s'"
    and sent: "\<And>b. b \<in> set sent \<Longrightarrow> own_commit s' b"
    and commit: "p \<noteq> 0 \<Longrightarrow> su_stage s' = ST_Committed \<Longrightarrow> su_stage (P p) = ST_Committed \<or> (\<exists>b \<in> W. accepts_commit s' b)"
  shows "net_inv n (P(p := s')) (W \<union> set sent)"
proof -
  have ok: "seat_ok q ((P(p := s')) q)" if "q < n" for q
    using inv that p seat_ok_kept [OF _ k] by (simp add: net_inv_def)
  have host: "kept (P 0) ((P(p := s')) 0)" using k by (simp add: kept_def static_def)
  have agreed0: "agreed (P 0)" using inv n by (simp add: net_inv_def seat_ok_def)
  have wire: "host_commit ((P(p := s')) 0) b" if "b \<in> W \<union> set sent" for b
  proof (cases "b \<in> W")
    case True
    then show ?thesis using inv host_commit_kept [OF _ host agreed0] by (simp add: net_inv_def)
  next
    case False
    then have own: "own_commit s' b" using that sent by simp
    show ?thesis
    proof (cases "p = 0")
      case True
      then show ?thesis using own_host_commit [OF own] by simp
    next
      case False
      then have "b ! 4 \<noteq> K_Commit" using own ok [OF p] by (auto simp: own_commit_def seat_ok_def)
      then show ?thesis by (simp add: host_commit_def)
    qed
  qed
  have guests: "\<exists>b \<in> W \<union> set sent. accepts_commit ((P(p := s')) q) b"
    if q: "q < n" "q \<noteq> 0" "su_stage ((P(p := s')) q) = ST_Committed" for q
  proof (cases "q = p")
    case False
    then show ?thesis using inv q by (auto simp: net_inv_def)
  next
    case True
    show ?thesis
    proof (cases "su_stage (P p) = ST_Committed")
      case False
      then show ?thesis using commit q True by auto
    next
      case same: True
      then obtain b where b: "b \<in> W" "accepts_commit (P p) b" using inv q True by (auto simp: net_inv_def)
      have "agreed (P p)" using inv p by (simp add: net_inv_def seat_ok_def)
      then have "static (P p) s'" "su_choice s' = su_choice (P p)" "su_attempt s' = su_attempt (P p)"
        using k same by (auto simp: kept_def)
      then have "accepts_commit s' b" using b(2) accepts_commit_static [of "P p" s' b] by (simp add: accepts_commit_def static_def)
      then show ?thesis using b(1) True by auto
    qed
  qed
  show ?thesis unfolding net_inv_def using ok wire guests by blast
qed

lemma startup_net_inv: "startup_net config T n P W \<Longrightarrow> 0 < n \<Longrightarrow> net_inv n P W"
proof (induction rule: startup_net.induct)
  case (net_begin P)
  have "seat_ok p (P p) \<and> su_stage (P p) = ST_WaitingPeer" if "p < n" for p
    using net_begin(1) [OF that] Startup_Begin_seat_ok Startup_Begin_fields(3) by (auto split: prod.splits)
  then show ?case by (simp add: net_inv_def)
next
  case (net_tick P W p t now ok t' sent s')
  note inv = net_tick.IH [OF net_tick.prems]
  have l: "sc_localPlayer (su_session (P p)) = p" using inv net_tick.hyps(2) by (simp add: net_inv_def seat_ok_def)
  note st = Startup_Tick_steps [OF net_tick.hyps(3)]
  show ?case using st(2,3) l by (intro net_inv_step [OF inv net_tick.hyps(2) net_tick.prems st(1)]) auto
next
  case (net_receive P W p b t now ok t' sent s')
  note inv = net_receive.IH [OF net_receive.prems]
  have three: "sc_playerCount (su_session (P p)) \<le> 3" using inv net_receive.hyps(2) by (simp add: net_inv_def seat_ok_def)
  note st = Startup_Receive_steps [OF net_receive.hyps(4) three]
  show ?case
  proof (rule net_inv_step [OF inv net_receive.hyps(2) net_receive.prems st(1)])
    show "b' \<in> set sent \<Longrightarrow> own_commit s' b'" for b' using st(3) by (auto simp: no_commit_def own_commit_def)
    show "p \<noteq> 0 \<Longrightarrow> su_stage s' = ST_Committed \<Longrightarrow> su_stage (P p) = ST_Committed \<or> (\<exists>b \<in> W. accepts_commit s' b)"
      using st(2) net_receive.hyps(3) by blast
  qed
qed

section \<open>Reading back what was sent\<close>

lemma length_startup_body: "length (startup_body s kind) = 24"
  by (simp add: startup_body_def)

lemma startup_words:
  "startup_word (startup_bytes s kind sequence peer) 16 = sc_gameplayAbi (su_session s)"
  "startup_word (startup_bytes s kind sequence peer) 20 = sc_seed (su_session s)"
  "startup_word (startup_bytes s kind sequence peer) 24 = su_requested s"
  "startup_word (startup_bytes s kind sequence peer) 28 = sequence"
  "startup_word (startup_bytes s kind sequence peer) 60 = su_attempt s"
  "le_word (take 8 (drop 8 (startup_bytes s kind sequence peer))) = sc_sessionId (su_session s)"
  by (simp_all add: startup_word_def startup_bytes_def length_startup_body le_word_le_bytes_id)

lemma startup_commit_words:
  "startup_word (startup_bytes s K_Commit sequence peer) 32 = co_delay (su_choice s)"
  "startup_word (startup_bytes s K_Commit sequence peer) 36 = co_fullDelay (su_choice s)"
  "startup_word (startup_bytes s K_Commit sequence peer) 40 = co_prediction (su_choice s)"
  by (simp_all add: startup_word_def startup_bytes_def startup_body_def le_word_le_bytes_id)

lemma startup_bytes_nths:
  "startup_bytes s kind sequence peer ! 5 = sc_localPlayer (su_session s)"
  "startup_bytes s kind sequence peer ! 6 = su_mode s"
  "startup_bytes s kind sequence peer ! 7 = ucast (su_reserve s)"
  "startup_bytes s kind sequence peer ! 56 = sc_playerCount (su_session s)"
  by (simp_all add: startup_bytes_def length_startup_body nth_append nth_Cons')

lemma reserve_byte: "(r :: u32) \<le> 2 \<Longrightarrow> ucast (ucast r :: u8) = r"
proof -
  assume "r \<le> 2"
  then have "unat r \<le> 2" by (simp add: word_le_nat_alt)
  then show ?thesis by (simp add: word_unat_eq_iff unsigned_ucast_eq unsigned_take_bit_eq take_bit_nat_eq_self)
qed

text \<open>What a guest that commits has in common with the host.\<close>

definition same_timing :: "AdonisStartup \<Rightarrow> AdonisStartup \<Rightarrow> bool" where
  "same_timing s s' \<longleftrightarrow> su_choice s = su_choice s' \<and> su_attempt s = su_attempt s' \<and> su_mode s = su_mode s' \<and>
     su_reserve s = su_reserve s' \<and> su_requested s = su_requested s' \<and>
     sc_sessionId (su_session s) = sc_sessionId (su_session s') \<and> sc_seed (su_session s) = sc_seed (su_session s') \<and>
     sc_gameplayAbi (su_session s) = sc_gameplayAbi (su_session s') \<and>
     sc_playerCount (su_session s) = sc_playerCount (su_session s')"

lemma accepted_same_timing:
  assumes "accepts_commit s (startup_bytes h K_Commit 0 MAX_PLAYERS)" "su_reserve h \<le> 2"
  shows "same_timing s h"
proof -
  let ?b = "startup_bytes h K_Commit 0 MAX_PLAYERS"
  from assms(1) have w: "co_delay (su_choice s) = co_delay (su_choice h)" "co_fullDelay (su_choice s) = co_fullDelay (su_choice h)"
    "co_prediction (su_choice s) = co_prediction (su_choice h)" "su_attempt s = su_attempt h"
    by (simp_all add: accepts_commit_def startup_commit_words startup_words)
  have "su_choice s = su_choice h" using w(1-3) by simp
  moreover from assms have "su_mode s = su_mode h" "su_reserve s = su_reserve h" "su_requested s = su_requested h"
    "sc_sessionId (su_session s) = sc_sessionId (su_session h)" "sc_seed (su_session s) = sc_seed (su_session h)"
    "sc_gameplayAbi (su_session s) = sc_gameplayAbi (su_session h)" "sc_playerCount (su_session s) = sc_playerCount (su_session h)"
    by (simp_all add: accepts_commit_def startup_differs_def startup_target_differs_def startup_words startup_bytes_nths reserve_byte)
  ultimately show ?thesis using w(4) by (simp add: same_timing_def)
qed

lemma same_as_host:
  assumes "net_inv n P W" "p < n" "su_stage (P p) = ST_Committed"
  shows "same_timing (P p) (P 0)"
proof (cases "p = 0")
  case True
  then show ?thesis by (simp add: same_timing_def)
next
  case False
  then obtain b where b: "b \<in> W" "accepts_commit (P p) b" using assms by (auto simp: net_inv_def)
  then have "b = startup_bytes (P 0) K_Commit 0 MAX_PLAYERS"
    using assms(1) by (auto simp: net_inv_def host_commit_def accepts_commit_def)
  moreover have "0 < n" using assms(2) by (rule le_less_trans [OF word_zero_le])
  then have "su_reserve (P 0) \<le> 2" using assms(1) by (simp add: net_inv_def seat_ok_def)
  ultimately show ?thesis using accepted_same_timing b(2) by blast
qed

text \<open>
  C37: Seats that commit a calibration have committed the same timing. However packets are lost, repeated,
  delayed or reordered, whatever the transports do in between and whenever the seats are called, any two
  seats of a session that have reached \<^verbatim>\<open>Committed\<close> agree on the input delay, the full delay and the
  prediction reserve they chose, on the attempt that measured them, and on mode, request, session,
  seed, build and number of players.
\<close>

theorem startup_agreement:
  assumes "startup_net config T n P W" "p < n" "q < n"
    and "su_stage (P p) = ST_Committed" "su_stage (P q) = ST_Committed"
  shows "same_timing (P p) (P q)"
proof -
  have "0 < n" using assms(2) by (rule le_less_trans [OF word_zero_le])
  from startup_net_inv [OF assms(1) this] have inv: "net_inv n P W" .
  show ?thesis using same_as_host [OF inv assms(2,4)] same_as_host [OF inv assms(3,5)] by (simp add: same_timing_def)
qed

end
