(* ===== verification/StartupDemo.thy ===== *)
theory StartupDemo
  imports StartupProps
begin

text \<open>
  A complete calibration of two seats over a transport that takes every packet, used to evaluate the
  properties of the calibration: hello, 129 rounds of probes and echoes, summaries and the commit.
\<close>

section \<open>The seats\<close>

definition wire :: "unit PeerTransport" where
  "wire = \<lparr>pt_IsOpen = (\<lambda>_. True), pt_Failed = (\<lambda>_. False), pt_Recovering = (\<lambda>_. False),
     pt_Disconnected = (\<lambda>_. False), pt_CalibrationSuspended = (\<lambda>_. False), pt_SendTo = (\<lambda>t _ _. (True, t)),
     pt_SendRepairTo = (\<lambda>t _ _. (True, t)), pt_SendControl = (\<lambda>t _. (True, t)), pt_Poll = (\<lambda>t. (None, t)),
     pt_BufferedAmount = (\<lambda>_. 0)\<rparr>"

definition seat_session :: "u8 \<Rightarrow> SessionConfig" where
  "seat_session p = \<lparr>sc_sessionId = 7, sc_seed = 5, sc_gameplayAbi = 8, sc_gameId = 6, sc_playerCount = 2, sc_localPlayer = p\<rparr>"

definition demo_config :: "u8 \<Rightarrow> startup_config" where
  "demo_config p = (seat_session p, 0, AdonisMode_Delay, Automatic, 2)"

definition demo_begin :: "u8 \<Rightarrow> AdonisStartup" where
  "demo_begin p = AdonisStartup_default\<lparr>su_session := seat_session p, su_mode := AdonisMode_Delay, su_stage := ST_WaitingPeer,
     su_sentAt := (\<lambda>_ _. Unsent), su_rtt := (\<lambda>_ _. Unsent)\<rparr>"

lemma seat_session_fields [simp]:
  "sc_sessionId (seat_session p) = 7" "sc_seed (seat_session p) = 5" "sc_gameplayAbi (seat_session p) = 8"
  "sc_playerCount (seat_session p) = 2" "sc_localPlayer (seat_session p) = p"
  by (simp_all add: seat_session_def)

lemma demo_begins: "p < 2 \<Longrightarrow> Startup_Begin (seat_session p) 0 AdonisMode_Delay Automatic 2 = (True, demo_begin p)"
  by (auto simp: Startup_Begin_def demo_begin_def Automatic_def INVALID_FRAME_def AdonisMode_Delay_def
      AdonisMode_Hybrid_def AdonisStartup_default_def Let_def)

lemma wire_flags [simp]:
  "pt_IsOpen (recorded wire) t" "\<not> pt_Failed (recorded wire) t" "\<not> pt_Recovering (recorded wire) t"
  "\<not> pt_Disconnected (recorded wire) t" "\<not> pt_CalibrationSuspended (recorded wire) t"
  by (simp_all add: recorded_def wire_def)

lemma wire_sends [simp]:
  "Startup_Send (recorded wire) (u, sent) s kind sequence peer = (True, ((), startup_bytes s kind sequence peer # sent))"
  "Send_control (recorded wire) (u, sent) s kind = (True, ((), startup_bytes s kind 0 MAX_PLAYERS # sent))"
  by (simp_all add: Send_control_def Startup_Send_def recorded_def wire_def Let_def)

definition demo_seat :: "u8 \<Rightarrow> AdonisStartup \<Rightarrow> bool" where
  "demo_seat p s \<longleftrightarrow> su_session s = seat_session p \<and> su_mode s = AdonisMode_Delay \<and> su_reserve s = 0 \<and>
     su_requested s = Automatic \<and> su_attempt s = 0 \<and> su_begin s = 0"

text \<open>A packet of one seat passes the checks of the other's head.\<close>

lemma startup_reserved_bytes: "kind < K_RetryRequest \<Longrightarrow> \<not> startup_reserved (startup_bytes s kind sequence peer)"
proof -
  assume k: "kind < K_RetryRequest"
  have u: "[44..<64] = [44, 45, 46, 47, 48, 49, 50, 51, 52, 53, 54, 55] @ [56..<64 :: nat]"
    "[56..<64] = [56, 57, 58, 59, 60, 61, 62, 63 :: nat]" by (simp_all add: upt_conv_Cons)
  have tail: "startup_bytes s k sequence peer ! 58 = 0" "startup_bytes s k sequence peer ! 59 = 0" for k
    by (simp_all add: startup_bytes_def length_startup_body nth_append nth_Cons')
  have body: "startup_bytes s kind sequence peer ! (32 + i) = startup_body s kind ! i" if "i < 24" for i
    using that by (simp add: startup_bytes_def length_startup_body nth_append nth_Cons')
  have zero: "startup_body s kind ! i = 0" if "12 \<le> i" "i < 24" "kind \<noteq> K_Summary" for i
    using that k by (auto simp: startup_body_def nth_append not_le not_less)
  have "kind \<noteq> K_Summary \<Longrightarrow> startup_bytes s kind sequence peer ! j = 0" if "44 \<le> j" "j < 56" for j
    using body [of "j - 32"] zero [of "j - 32"] that by simp
  then show ?thesis by (auto simp: startup_reserved_def u tail)
qed

lemma startup_fields_bytes:
  "kind < K_RetryRequest \<Longrightarrow> (kind \<noteq> K_Probe \<and> kind \<noteq> K_Echo \<longrightarrow> sequence = 0) \<Longrightarrow>
   \<not> startup_fields_invalid (startup_bytes s kind sequence peer)"
proof -
  assume "kind < K_RetryRequest" and q: "kind \<noteq> K_Probe \<and> kind \<noteq> K_Echo \<longrightarrow> sequence = 0"
  have "startup_word (startup_bytes s kind sequence peer) 32 = 0 \<and> startup_word (startup_bytes s kind sequence peer) 36 = 0 \<and>
      startup_word (startup_bytes s kind sequence peer) 40 = 0" if "kind \<le> K_Echo"
  proof -
    have "\<not> kind \<ge> K_Proposal" "\<not> kind \<ge> K_RetryRequest" "kind \<noteq> K_Summary"
      using that by (auto simp: word_le_nat_alt)
    then have "startup_body s kind = replicate 24 0" by (simp add: startup_body_def)
    then show ?thesis by (simp add: startup_word_def startup_bytes_def take_replicate drop_replicate le_word_def numeral_eq_Suc)
  qed
  then show ?thesis using q by (auto simp: startup_fields_invalid_def startup_words)
qed

lemma demo_receive:
  assumes "demo_seat q a" "demo_seat p s" "p \<noteq> q" "q < 2"
    and "K_Hello \<le> kind" "kind < K_RetryRequest" "kind \<noteq> K_Probe \<and> kind \<noteq> K_Echo \<longrightarrow> sequence = 0"
    and "kind = K_Probe \<or> kind = K_Echo \<Longrightarrow> peer = p"
    and clock: "Startup_ObserveClock s now = (True, s1)" "demo_seat p s1"
  shows "Startup_Receive T t s (startup_bytes a kind sequence peer) now =
    receive_current T t s1 (startup_bytes a kind sequence peer) now"
proof -
  let ?b = "startup_bytes a kind sequence peer"
  have l: "length ?b = 64" by (simp add: startup_bytes_def length_startup_body)
  have h: "Startup_IsPacket ?b" "?b ! 3 = 4" by (simp_all add: Startup_IsPacket_def startup_bytes_def)
  have d: "\<not> startup_differs s1 ?b"
    using assms(1-4) clock(2) by (simp add: startup_differs_def startup_bytes_nths startup_words demo_seat_def)
  have g: "\<not> startup_target_differs s1 ?b"
    using assms(1,2,8) clock(2)
    by (auto simp: startup_target_differs_def startup_bytes_nths demo_seat_def startup_bytes_def length_startup_body nth_append nth_Cons')
  have "\<not> ?b ! 4 < K_Hello" "\<not> ?b ! 4 > K_Stop" "\<not> ?b ! 4 \<ge> K_RetryRequest" using assms(5,6) by (auto simp: word_le_nat_alt word_less_nat_alt)
  moreover have "le_word (take 8 (drop 8 ?b)) = sc_sessionId (su_session s1)" "\<not> startup_word ?b 60 > MaxRetries"
    using assms(1) clock(2) by (simp_all add: startup_words demo_seat_def)
  ultimately show ?thesis
    using l h d g startup_reserved_bytes [OF assms(6)] startup_fields_bytes [OF assms(6,7)] clock(1)
    by (simp add: Startup_Receive_def)
qed

section \<open>Times\<close>

definition us :: "nat \<Rightarrow> u64" where
  "us n = word_of_nat n"

lemma unat_us: "n < 2 ^ 64 \<Longrightarrow> unat (us n) = n"
  by (simp add: us_def unsigned_of_nat take_bit_eq_mod)

lemma us_numeral: "(numeral k :: u64) = us (numeral k)" "(0 :: u64) = us 0"
  by (simp_all add: us_def)

lemma us_order:
  assumes "m < 2 ^ 64" "n < 2 ^ 64"
  shows "us m \<le> us n \<longleftrightarrow> m \<le> n" "us m < us n \<longleftrightarrow> m < n" "us m = us n \<longleftrightarrow> m = n"
  using assms by (simp_all add: word_le_nat_alt word_less_nat_alt word_unat_eq_iff unat_us)

lemma us_arith: "us m + us n = us (m + n)" "n \<le> m \<Longrightarrow> us m - us n = us (m - n)"
  by (simp_all add: us_def)

section \<open>A round of probes\<close>

lemma seats_two: "seats 2 = [0, 1]"
  by (simp add: seats_def upt_conv_Cons)

lemma u8_below_2: "p < (2 :: u8) \<Longrightarrow> p = 0 \<or> p = 1"
  using u8_below_4 [of p] by (auto simp: word_le_nat_alt word_less_nat_alt)

lemma u8_other: "p < (2 :: u8) \<Longrightarrow> 1 - p < 2 \<and> 1 - p \<noteq> p \<and> (q < 2 \<longrightarrow> q \<noteq> p \<longrightarrow> q = 1 - p)"
  using u8_below_2 [of p] u8_below_2 [of q] by auto

definition probing :: "u8 \<Rightarrow> nat \<Rightarrow> AdonisStartup \<Rightarrow> bool" where
  "probing p k s \<longleftrightarrow> demo_seat p s \<and> su_stage s = ST_Measuring \<and> su_probes s = word_of_nat k \<and> su_stabilityStarted s \<and>
     \<not> su_haveLocal s \<and> su_measurementBegin s = 0 \<and> su_clock s = us (985000 + 16000 * k) \<and>
     su_nextProbe s = us (1000000 + 16000 * k) \<and> (k \<noteq> 0 \<longrightarrow> su_lastProbe s = us (984000 + 16000 * k)) \<and>
     su_summaryMask s = 0 \<and> su_acceptedMask s = 0 \<and> \<not> su_accepted s \<and> su_local s = Report_default \<and>
     su_reports s = (\<lambda>_. Report_default) \<and>
     (\<forall>i. su_rtt s (1 - p) i = (if Warmup \<le> i \<and> i \<le> k then 1000 else Unsent))"

definition after_probe :: "u8 \<Rightarrow> AdonisStartup \<Rightarrow> u64 \<Rightarrow> AdonisStartup" where
  "after_probe p s t = s\<lparr>su_clock := t, su_nextHello := (if su_nextHello s \<le> t then t + 200000 else su_nextHello s),
     su_probes := su_probes s + 1, su_nextProbe := t + IntervalUs, su_lastProbe := t,
     su_sentAt := (su_sentAt s)(1 - p := (su_sentAt s (1 - p))(unat (su_probes s + 1) := t))\<rparr>"

lemma probing_observe:
  assumes "su_stage s = ST_Measuring" "su_clock s = us m" "m \<le> n" "n \<le> m + 500000" "n < 2 ^ 63"
  shows "Startup_ObserveClock s (us n) = (True, s\<lparr>su_clock := us n\<rparr>)"
proof -
  have "us n - us m = us (n - m)" using assms(3) by (simp add: us_arith)
  moreover have "\<not> us (n - m) > 500000" using assms(3-5) by (simp add: us_numeral us_order)
  moreover have "\<not> us n < us m" using assms(3-5) by (simp add: us_order)
  ultimately show ?thesis using assms(1,2) by (simp add: Startup_ObserveClock_def)
qed

text \<open>The deadlines do not fire in the first ten seconds.\<close>

lemma demo_deadlines:
  assumes "demo_seat p s" "n < 10000000" "su_stage s = ST_Measuring \<or> su_stage s = ST_Negotiating"
    "su_measurementBegin s = 0"
  shows "tick_deadlines (recorded wire) t (us n) s = s"
proof -
  have "\<not> us n \<ge> StartupTimeoutUs" "\<not> us n \<ge> MeasurementTimeoutUs"
    using assms(2) by (simp_all add: us_numeral us_order)
  then show ?thesis using assms(1,3,4) by (auto simp: tick_deadlines_def demo_seat_def Let_def)
qed

lemma probing_hello:
  "\<exists>L. tick_hello (recorded wire) ((), []) t s =
     (((), L), s\<lparr>su_nextHello := (if su_nextHello s \<le> t then t + 200000 else su_nextHello s)\<rparr>)"
  if "su_stage s = ST_Measuring \<or> su_stage s = ST_Negotiating"
  using that by (auto simp: tick_hello_def Let_def)

lemma probing_tick:
  assumes pr: "probing p k s" and p: "p < 2" and k: "k < 129"
  shows "\<exists>L. Startup_Tick (recorded wire) ((), []) s (us (1000000 + 16000 * k)) =
      (True, ((), L), after_probe p s (us (1000000 + 16000 * k))) \<and>
    startup_bytes s K_Probe (word_of_nat (k + 1)) (1 - p) \<in> set L"
proof -
  let ?t = "us (1000000 + 16000 * k)"
  let ?c = "s\<lparr>su_clock := ?t\<rparr>"
  let ?h = "?c\<lparr>su_nextHello := (if su_nextHello s \<le> ?t then ?t + 200000 else su_nextHello s)\<rparr>"
  have st: "su_stage s = ST_Measuring" "demo_seat p s" "su_clock s = us (985000 + 16000 * k)" using pr by (auto simp: probing_def)
  have c: "Startup_ObserveClock s ?t = (True, ?c)" by (rule probing_observe [OF st(1,3)]) (use k in simp_all)
  have d: "tick_deadlines (recorded wire) ((), []) ?t ?c = ?c"
    by (rule demo_deadlines [of p]) (use pr k in \<open>simp_all add: probing_def demo_seat_def\<close>)
  obtain L where h: "tick_hello (recorded wire) ((), []) ?t ?c = (((), L), ?h)"
    using probing_hello [of ?c ?t] st(1) by auto
  have small: "su_probes s < ProbeCount" "su_probes s = word_of_nat k"
    using pr k by (simp_all add: probing_def word_less_nat_alt unsigned_of_nat take_bit_eq_mod)
  obtain L' where q: "tick_probe (recorded wire) ((), L) ?t ?h = (((), L'), after_probe p s ?t)"
    "startup_bytes s K_Probe (word_of_nat (k + 1)) (1 - p) \<in> set L'"
  proof -
    let ?i = "?h\<lparr>su_probes := su_probes s + 1\<rparr>"
    have a: "startup_bytes ?i K_Probe x y = startup_bytes s K_Probe x y" for x y
      by (simp add: startup_bytes_def startup_body_def)
    have b: "probe_peers (recorded wire) ?t (su_probes s + 1) [0, 1] ((), L) ?i =
        (((), startup_bytes s K_Probe (su_probes s + 1) (1 - p) # L),
         ?i\<lparr>su_sentAt := (su_sentAt s)(1 - p := (su_sentAt s (1 - p))(unat (su_probes s + 1) := ?t))\<rparr>)"
      using u8_below_2 [OF p] st(2) by (auto simp: demo_seat_def a)
    have e: "(su_peerHelloMask ?h OR LocalBit ?h = AllMask ?h \<and> su_stage ?h = ST_WaitingPeer) = False"
      "(su_stage ?h = ST_Measuring \<and> su_probes ?h = 0 \<and> \<not> su_stabilityStarted ?h) = False"
      "(su_stage ?h = ST_Measuring \<and> su_probes ?h < ProbeCount \<and> su_nextProbe ?h \<le> ?t) = True"
      using pr small by (simp_all add: probing_def)
    have f: "sc_playerCount (su_session ?h) = 2" using st(2) by (simp add: demo_seat_def)
    have "tick_probe (recorded wire) ((), L) ?t ?h = (((), startup_bytes s K_Probe (su_probes s + 1) (1 - p) # L), after_probe p s ?t)"
      unfolding tick_probe_def Let_def e if_False if_True using b f
      by (simp add: seats_two after_probe_def)
    then show thesis using that small(2) by (simp add: add.commute)
  qed
  have ms: "tick_measured ?t (after_probe p s ?t) = (True, after_probe p s ?t)"
    by (simp add: tick_measured_def after_probe_def)
  have ng: "tick_negotiate (recorded wire) ((), L') ?t (after_probe p s ?t) = (((), L'), after_probe p s ?t)"
    using pr by (simp add: tick_negotiate_def after_probe_def probing_def)
  have "Startup_Tick (recorded wire) ((), []) s ?t = (True, tick_active (recorded wire) ((), []) ?t ?c)"
    using st(1) c d by (simp add: Startup_Tick_def)
  then show ?thesis using h q ms ng by (simp add: tick_active_def)
qed

lemma demo_bytes_eq:
  "demo_seat p s \<Longrightarrow> demo_seat p s' \<Longrightarrow> kind \<le> K_Echo \<Longrightarrow>
   startup_bytes s kind sequence peer = startup_bytes s' kind sequence peer"
proof -
  assume d: "demo_seat p s" "demo_seat p s'" and k: "kind \<le> K_Echo"
  have "\<not> kind \<ge> K_Proposal" "\<not> kind \<ge> K_RetryRequest" "kind \<noteq> K_Summary" using k by (auto simp: word_le_nat_alt)
  then show ?thesis using d by (simp add: startup_bytes_def startup_body_def demo_seat_def)
qed

lemma after_probe_fields:
  assumes "probing p k s" "k < 129"
  shows "demo_seat p (after_probe p s t)" "su_stage (after_probe p s t) = ST_Measuring" "su_clock (after_probe p s t) = t"
    "\<not> su_haveLocal (after_probe p s t)" "su_sentAt (after_probe p s t) (1 - p) (k + 1) = t"
    "su_rtt (after_probe p s t) (1 - p) (k + 1) = Unsent" "su_attempt (after_probe p s t) = 0"
proof -
  have "unat (word_of_nat k + 1 :: u32) = k + 1"
    using assms(2) by (simp add: unat_word_ariths unsigned_of_nat take_bit_eq_mod)
  then show "su_sentAt (after_probe p s t) (1 - p) (k + 1) = t" using assms(1) by (simp add: after_probe_def probing_def)
qed (use assms(1) in \<open>simp_all add: after_probe_def probing_def demo_seat_def\<close>)

lemma demo_sequence: "k < 129 \<Longrightarrow> unat (word_of_nat (k + 1) :: u32) = k + 1"
  "k < 129 \<Longrightarrow> (word_of_nat (k + 1) :: u32) \<noteq> 0"
proof -
  show u: "k < 129 \<Longrightarrow> unat (word_of_nat (k + 1) :: u32) = k + 1"
    by (simp add: unsigned_of_nat take_bit_eq_mod del: of_nat_add of_nat_Suc)
  show "k < 129 \<Longrightarrow> (word_of_nat (k + 1) :: u32) \<noteq> 0" using u by (metis add_is_0 one_neq_zero unsigned_0)
qed

lemma echo_probe:
  assumes pr: "probing p k s" and k: "k < 129" and p: "p < 2" and a: "demo_seat (1 - p) a"
    and t: "t = us (1000000 + 16000 * k)"
  shows "Startup_Receive (recorded wire) ((), []) (after_probe p s t) (startup_bytes a K_Probe (word_of_nat (k + 1)) p) t =
    (True, ((), [startup_bytes (after_probe p s t) K_Echo (word_of_nat (k + 1)) (1 - p)]), after_probe p s t)"
proof -
  let ?s = "after_probe p s t" and ?b = "startup_bytes a K_Probe (word_of_nat (k + 1)) p"
  note f = after_probe_fields [OF pr k, of t]
  have c: "Startup_ObserveClock ?s t = (True, ?s)"
    using probing_observe [OF f(2), of "1000000 + 16000 * k" "1000000 + 16000 * k"] f(3) k
    by (simp add: t [symmetric] after_probe_def)
  have r: "Startup_Receive (recorded wire) ((), []) ?s ?b t = receive_current (recorded wire) ((), []) ?s ?b t"
    by (rule demo_receive [OF a f(1) _ _ _ _ _ _ c f(1)]) (use u8_other [OF p] in auto)
  have w: "startup_word ?b 28 = word_of_nat (k + 1)" "startup_word ?b 60 = 0" "?b ! 5 = 1 - p"
    using a by (simp_all add: startup_words startup_bytes_nths demo_seat_def)
  have lt: "\<not> unat (word_of_nat (k + 1) :: u32) \<ge> Attempts" using demo_sequence(1) [OF k] k by simp
  have "receive_probe (recorded wire) ((), []) ?s ?b t = (True, ((), [startup_bytes ?s K_Echo (word_of_nat (k + 1)) (1 - p)]), ?s)"
    using w lt demo_sequence(2) [OF k] by (simp add: receive_probe_def del: of_nat_add of_nat_Suc)
  then show ?thesis using r f(2,7) w(2) by (simp add: receive_current_def)
qed

definition after_echo :: "u8 \<Rightarrow> nat \<Rightarrow> AdonisStartup \<Rightarrow> u64 \<Rightarrow> AdonisStartup" where
  "after_echo p i s t = (let s' = s\<lparr>su_clock := t\<rparr> in
     if Warmup \<le> i then s'\<lparr>su_rtt := (su_rtt s)(1 - p := (su_rtt s (1 - p))(i := t - su_clock s))\<rparr> else s')"

lemma receive_echo:
  assumes pr: "probing p k s" and k: "k < 129" and p: "p < 2" and a: "demo_seat (1 - p) a"
    and t: "t = us (1000000 + 16000 * k)" "t' = us (1001000 + 16000 * k)"
  shows "Startup_Receive (recorded wire) ((), []) (after_probe p s t) (startup_bytes a K_Echo (word_of_nat (k + 1)) p) t' =
    (True, ((), []), after_echo p (k + 1) (after_probe p s t) t')"
proof -
  let ?s = "after_probe p s t" and ?b = "startup_bytes a K_Echo (word_of_nat (k + 1)) p"
  let ?c = "?s\<lparr>su_clock := t'\<rparr>"
  note f = after_probe_fields [OF pr k, of t]
  have c: "Startup_ObserveClock ?s t' = (True, ?c)"
    using probing_observe [OF f(2), of "1000000 + 16000 * k" "1001000 + 16000 * k"] f(3) k by (simp add: t)
  have d: "demo_seat p ?c" using f(1) by (simp add: demo_seat_def)
  have r: "Startup_Receive (recorded wire) ((), []) ?s ?b t' = receive_current (recorded wire) ((), []) ?c ?b t'"
    by (rule demo_receive [OF a f(1) _ _ _ _ _ _ c d]) (use u8_other [OF p] in auto)
  have w: "startup_word ?b 28 = word_of_nat (k + 1)" "startup_word ?b 60 = 0" "?b ! 5 = 1 - p" "?b ! 4 = K_Echo"
    using a by (simp_all add: startup_words startup_bytes_nths demo_seat_def)
  have q: "\<not> (word_of_nat (k + 1) = (0 :: u32) \<or> unat (word_of_nat (k + 1) :: u32) \<ge> Attempts)"
    using demo_sequence [OF k] k by simp
  have e: "t' - t = us 1000" "us 1000 \<noteq> 0" "us 1000 \<le> 1000000" by (simp_all add: t us_arith us_numeral us_order)
  have u: "t \<noteq> Unsent" using k by (simp add: t Unsent_def us_numeral us_order)
  have "receive_probe (recorded wire) ((), []) ?c ?b t' = (True, ((), []), after_echo p (k + 1) ?s t')"
    unfolding receive_probe_def Let_def w if_not_P [OF q]
    unfolding demo_sequence(1) [OF k] using f(4-6) f(3) e u by (simp add: after_echo_def Let_def)
  then show ?thesis using r f(2,7) w(2,4) by (simp add: receive_current_def)
qed

lemma probing_next:
  assumes pr: "probing p k s" and k: "k < 129" and p: "p < 2"
  shows "probing p (k + 1) (after_echo p (k + 1) (after_probe p s (us (1000000 + 16000 * k))) (us (1001000 + 16000 * k)))"
proof -
  have ne: "1 - p \<noteq> p" using u8_other [OF p] by blast
  have e: "us (1001000 + 16000 * k) - us (1000000 + 16000 * k) = 1000" by (simp add: us_arith us_numeral)
  have n: "us (1000000 + 16000 * k) + IntervalUs = us (1016000 + 16000 * k)" by (simp add: us_numeral us_arith)
  show ?thesis using pr e n
    by (auto simp: probing_def after_echo_def after_probe_def demo_seat_def Let_def le_Suc_eq algebra_simps)
qed

section \<open>The run up to the last probe\<close>

abbreviation net :: "(u8 \<Rightarrow> AdonisStartup) \<Rightarrow> bytes set \<Rightarrow> bool" where
  "net \<equiv> startup_net demo_config wire 2"

lemma net_step_tick:
  "net P W \<Longrightarrow> p < 2 \<Longrightarrow> Startup_Tick (recorded wire) ((), []) (P p) now = (True, ((), L), s) \<Longrightarrow> net (P(p := s)) (W \<union> set L)"
  by (rule startup_net.net_tick)

lemma net_step_receive:
  "net P W \<Longrightarrow> p < 2 \<Longrightarrow> b \<in> W \<Longrightarrow> Startup_Receive (recorded wire) ((), []) (P p) b now = (True, ((), L), s) \<Longrightarrow>
   net (P(p := s)) (W \<union> set L)"
  by (rule startup_net.net_receive)

definition demo_hello :: "u8 \<Rightarrow> AdonisStartup" where
  "demo_hello p = (demo_begin p)\<lparr>su_nextHello := 200000\<rparr>"

definition demo_met :: "u8 \<Rightarrow> AdonisStartup" where
  "demo_met p = (demo_hello p)\<lparr>su_peerHelloMask := peer_bit (1 - p)\<rparr>"

definition demo_measuring :: "u8 \<Rightarrow> u64 \<Rightarrow> u64 \<Rightarrow> AdonisStartup" where
  "demo_measuring p now hello = (demo_met p)\<lparr>su_stage := ST_Measuring, su_nextProbe := 1000000, su_stabilityStarted := True,
     su_clock := now, su_nextHello := hello\<rparr>"

lemmas demo_defs = demo_measuring_def demo_met_def demo_hello_def demo_begin_def AdonisStartup_default_def

lemma demo_seats: "demo_seat p (demo_begin p)" "demo_seat p (demo_hello p)" "demo_seat p (demo_met p)" "demo_seat p (demo_measuring p t h)"
  by (simp_all add: demo_defs demo_seat_def)

lemma AllMask_two: "demo_seat p s \<Longrightarrow> AllMask s = 3" and LocalBit_two: "demo_seat p s \<Longrightarrow> LocalBit s = peer_bit p"
  by (simp_all add: AllMask_def LocalBit_def peer_bit_def demo_seat_def)

lemmas demo_tick_defs = Startup_Tick_def Startup_ObserveClock_def tick_deadlines_def tick_active_def tick_hello_def
  tick_probe_def tick_measured_def tick_negotiate_def demo_defs Let_def AllMask_def LocalBit_def peer_bit_def

lemma demo_tick_begin:
  assumes "p < 2"
  shows "Startup_Tick (recorded wire) ((), []) (demo_begin p) 0 =
    (True, ((), [startup_bytes (demo_begin p) K_Hello 0 MAX_PLAYERS]), demo_hello p)"
  using u8_below_2 [OF assms] by (auto simp: demo_tick_defs)

lemma demo_tick_met:
  assumes "p < 2"
  shows "Startup_Tick (recorded wire) ((), []) (demo_met p) 0 = (True, ((), []), demo_measuring p 0 200000)"
  using u8_below_2 [OF assms] by (auto simp: demo_tick_defs)

lemma demo_tick_wait:
  assumes "p < 2"
  shows "\<exists>L. Startup_Tick (recorded wire) ((), []) (demo_measuring p 0 200000) 490000 = (True, ((), L), demo_measuring p 490000 690000)"
  using u8_below_2 [OF assms] by (auto simp: demo_tick_defs)

lemma demo_tick_wait_again:
  assumes "p < 2"
  shows "\<exists>L. Startup_Tick (recorded wire) ((), []) (demo_measuring p 490000 690000) 985000 = (True, ((), L), demo_measuring p 985000 1185000)"
  using u8_below_2 [OF assms] by (auto simp: demo_tick_defs)

lemma demo_hears:
  assumes "p < 2"
  shows "Startup_Receive (recorded wire) ((), []) (demo_hello p) (startup_bytes (demo_begin (1 - p)) K_Hello 0 MAX_PLAYERS) 0 =
    (True, ((), []), demo_met p)"
proof -
  have c: "Startup_ObserveClock (demo_hello p) 0 = (True, demo_hello p)" by (simp add: Startup_ObserveClock_def demo_defs)
  have "Startup_Receive (recorded wire) ((), []) (demo_hello p) (startup_bytes (demo_begin (1 - p)) K_Hello 0 MAX_PLAYERS) 0 =
      receive_current (recorded wire) ((), []) (demo_hello p) (startup_bytes (demo_begin (1 - p)) K_Hello 0 MAX_PLAYERS) 0"
    by (rule demo_receive [OF demo_seats(1) demo_seats(2) _ _ _ _ _ _ c demo_seats(2)]) (use u8_other [OF assms] in auto)
  then show ?thesis by (simp add: receive_current_def startup_words startup_bytes_nths demo_defs)
qed

lemma demo_probing_0: "p < 2 \<Longrightarrow> probing p 0 (demo_measuring p 985000 1185000)"
  using u8_below_2 [of p] by (auto simp: probing_def demo_seat_def demo_defs us_numeral)

lemma net_start: "\<exists>P W. net P W \<and> probing 0 0 (P 0) \<and> probing 1 0 (P 1)"
proof -
  let ?h = "\<lambda>p. startup_bytes (demo_begin p) K_Hello 0 MAX_PLAYERS"
  have n0: "net demo_begin {}"
    by (rule startup_net.net_begin) (simp add: demo_config_def demo_begins)
  note n1 = net_step_tick [OF net_step_tick [OF n0 _ demo_tick_begin [of 0]] _ , of 1 0, simplified, OF demo_tick_begin [of 1, simplified]]
  note n2 = net_step_receive [OF n1, of 0 "?h 1" 0, simplified, OF demo_hears [of 0, simplified]]
  note n3 = net_step_receive [OF n2, of 1 "?h 0" 0, simplified, OF demo_hears [of 1, simplified]]
  note n4 = net_step_tick [OF n3, of 0 0, simplified, OF demo_tick_met [of 0, simplified]]
  note n5 = net_step_tick [OF n4, of 1 0, simplified, OF demo_tick_met [of 1, simplified]]
  obtain L0 L1 L2 L3 where t: "Startup_Tick (recorded wire) ((), []) (demo_measuring 0 0 200000) 490000 = (True, ((), L0), demo_measuring 0 490000 690000)"
    "Startup_Tick (recorded wire) ((), []) (demo_measuring 1 0 200000) 490000 = (True, ((), L1), demo_measuring 1 490000 690000)"
    "Startup_Tick (recorded wire) ((), []) (demo_measuring 0 490000 690000) 985000 = (True, ((), L2), demo_measuring 0 985000 1185000)"
    "Startup_Tick (recorded wire) ((), []) (demo_measuring 1 490000 690000) 985000 = (True, ((), L3), demo_measuring 1 985000 1185000)"
    using demo_tick_wait [of 0] demo_tick_wait_again [of 0] demo_tick_wait [of 1] demo_tick_wait_again [of 1] by auto
  note n6 = net_step_tick [OF n5, of 0 490000, simplified, OF t(1)]
  note n7 = net_step_tick [OF n6, of 1 490000, simplified, OF t(2)]
  note n8 = net_step_tick [OF n7, of 0 985000, simplified, OF t(3)]
  note n9 = net_step_tick [OF n8, of 1 985000, simplified, OF t(4)]
  show ?thesis by (intro exI conjI, rule n9) (simp_all add: demo_probing_0)
qed

lemma net_round:
  assumes "net P W" "probing 0 k (P 0)" "probing 1 k (P 1)" "k < 129"
  shows "\<exists>P' W'. net P' W' \<and> probing 0 (k + 1) (P' 0) \<and> probing 1 (k + 1) (P' 1)"
proof -
  define t where "t = us (1000000 + 16000 * k)"
  define t' where "t' = us (1001000 + 16000 * k)"
  define q :: u32 where "q = word_of_nat (k + 1)"
  let ?A = "after_probe 0 (P 0) t" and ?B = "after_probe 1 (P 1) t"
  have seats: "demo_seat 0 (P 0)" "demo_seat 1 (P 1)" using assms(2,3) by (simp_all add: probing_def)
  obtain L0 L1 where tick: "Startup_Tick (recorded wire) ((), []) (P 0) t = (True, ((), L0), ?A)"
      "startup_bytes (P 0) K_Probe q 1 \<in> set L0"
      "Startup_Tick (recorded wire) ((), []) (P 1) t = (True, ((), L1), ?B)"
      "startup_bytes (P 1) K_Probe q 0 \<in> set L1"
    using probing_tick [OF assms(2) _ assms(4)] probing_tick [OF assms(3) _ assms(4)] unfolding t_def q_def by auto
  have n1: "net (P(0 := ?A)) (W \<union> set L0)" by (rule net_step_tick [OF assms(1) _ tick(1)]) simp
  have n2: "net (P(0 := ?A, 1 := ?B)) (W \<union> set L0 \<union> set L1)"
    by (rule net_step_tick [OF n1, of 1 t]) (use tick(3) in simp_all)
  have r0: "Startup_Receive (recorded wire) ((), []) ?A (startup_bytes (P 1) K_Probe q 0) t = (True, ((), [startup_bytes ?A K_Echo q 1]), ?A)"
    using echo_probe [OF assms(2,4) _ _ t_def, of "P 1"] seats(2) by (simp add: q_def)
  have r1: "Startup_Receive (recorded wire) ((), []) ?B (startup_bytes (P 0) K_Probe q 1) t = (True, ((), [startup_bytes ?B K_Echo q 0]), ?B)"
    using echo_probe [OF assms(3,4) _ _ t_def, of "P 0"] seats(1) by (simp add: q_def)
  have n3: "net ((P(0 := ?A, 1 := ?B))(0 := ?A)) (W \<union> set L0 \<union> set L1 \<union> set [startup_bytes ?A K_Echo q 1])"
    by (rule net_step_receive [OF n2, of 0 "startup_bytes (P 1) K_Probe q 0" t]) (use r0 tick(4) in simp_all)
  have n4: "net ((P(0 := ?A, 1 := ?B))(0 := ?A, 1 := ?B))
      (W \<union> set L0 \<union> set L1 \<union> set [startup_bytes ?A K_Echo q 1] \<union> set [startup_bytes ?B K_Echo q 0])"
    by (rule net_step_receive [OF n3, of 1 "startup_bytes (P 0) K_Probe q 1" t]) (use r1 tick(2) in simp_all)
  have sa: "demo_seat 0 ?A" "demo_seat 1 ?B" using after_probe_fields(1) [OF assms(2,4)] after_probe_fields(1) [OF assms(3,4)] by simp_all
  have e0: "Startup_Receive (recorded wire) ((), []) ?A (startup_bytes ?B K_Echo q 0) t' = (True, ((), []), after_echo 0 (k + 1) ?A t')"
    using receive_echo [OF assms(2,4) _ _ t_def t'_def, of ?B] sa(2) by (simp add: q_def)
  have e1: "Startup_Receive (recorded wire) ((), []) ?B (startup_bytes ?A K_Echo q 1) t' = (True, ((), []), after_echo 1 (k + 1) ?B t')"
    using receive_echo [OF assms(3,4) _ _ t_def t'_def, of ?A] sa(1) by (simp add: q_def)
  let ?P = "(P(0 := ?A, 1 := ?B))(0 := ?A, 1 := ?B)"
  note n5 = net_step_receive [OF n4, of 0 "startup_bytes ?B K_Echo q 0" t' "[]" "after_echo 0 (k + 1) ?A t'"]
  have n5: "net (?P(0 := after_echo 0 (k + 1) ?A t')) (W \<union> set L0 \<union> set L1 \<union> set [startup_bytes ?A K_Echo q 1] \<union>
      set [startup_bytes ?B K_Echo q 0] \<union> set [])"
    by (rule n5) (use e0 in simp_all)
  note n6 = net_step_receive [OF n5, of 1 "startup_bytes ?A K_Echo q 1" t' "[]" "after_echo 1 (k + 1) ?B t'"]
  have n7: "net (?P(0 := after_echo 0 (k + 1) ?A t', 1 := after_echo 1 (k + 1) ?B t')) (W \<union> set L0 \<union> set L1 \<union>
      set [startup_bytes ?A K_Echo q 1] \<union> set [startup_bytes ?B K_Echo q 0] \<union> set [] \<union> set [])"
    by (rule n6) (use e1 in simp_all)
  have pr: "probing 0 (k + 1) (after_echo 0 (k + 1) ?A t')" "probing 1 (k + 1) (after_echo 1 (k + 1) ?B t')"
    using probing_next [OF assms(2,4)] probing_next [OF assms(3,4)] by (simp_all add: t_def t'_def)
  show ?thesis by (intro exI conjI, rule n7) (simp_all add: pr [simplified])
qed

lemma net_probed: "k \<le> 129 \<Longrightarrow> \<exists>P W. net P W \<and> probing 0 k (P 0) \<and> probing 1 k (P 1)"
proof (induction k)
  case 0
  show ?case by (rule net_start)
next
  case (Suc k)
  then obtain P W where "net P W" "probing 0 k (P 0)" "probing 1 k (P 1)" by auto
  from net_round [OF this] Suc.prems show ?case by simp
qed

section \<open>Summaries\<close>

definition demo_report :: Report where
  "demo_report = \<lparr>rp_p95Us = 1000, rp_received = 120, rp_lost = 0, rp_minUs = 1000, rp_maxUs = 1000, rp_meanUs = 1000\<rparr>"

definition demo_choice :: Choice where
  "demo_choice = \<lparr>co_fullDelay = 1, co_delay = 1, co_prediction = 0\<rparr>"

lemma foldl_replicate_plus: "foldl (+) a (replicate n (b :: u64)) = a + word_of_nat n * b"
  by (induction n arbitrary: a) (simp_all add: algebra_simps)

definition demo_rtts :: "u64 list" where
  "demo_rtts = replicate 120 1000"

lemma length_demo_rtts: "length demo_rtts = 120"
  by (simp only: demo_rtts_def length_replicate)

lemma demo_link: "link_report demo_rtts = demo_report"
proof -
  have s: "sort (replicate 120 (1000 :: u64)) = replicate 120 1000" by (rule sorted_sort_id) simp
  show ?thesis unfolding demo_rtts_def link_report_def Let_def s
    by (simp add: foldl_replicate_plus demo_report_def nth_append)
qed

lemma map_upt_const: "(\<And>i. a \<le> i \<Longrightarrow> i < b \<Longrightarrow> f i = c) \<Longrightarrow> map f [a..<b] = replicate (b - a) c"
  by (simp add: list_eq_iff_nth_eq)

lemma filter_replicate_all: "P c \<Longrightarrow> filter P (replicate n c) = replicate n c"
  by (induction n) simp_all

lemma valid_rtts_cong: "su_rtt s' = su_rtt s \<Longrightarrow> valid_rtts s' peer = valid_rtts s peer"
  by (simp only: valid_rtts_def)

lemma probed_rtts:
  assumes "probing p 129 s"
  shows "valid_rtts s (1 - p) = demo_rtts"
proof -
  have "map (su_rtt s (1 - p)) [Warmup..<Attempts] = replicate (Attempts - Warmup) 1000"
    by (rule map_upt_const) (use assms in \<open>auto simp: probing_def\<close>)
  moreover have "Attempts - Warmup = 120" by simp
  moreover have "filter (\<lambda>us. us \<noteq> Unsent) (replicate 120 1000) = replicate 120 1000"
    by (rule filter_replicate_all) (simp add: Unsent_def)
  ultimately show ?thesis unfolding valid_rtts_def demo_rtts_def by (simp only:)
qed

definition summed :: "u8 \<Rightarrow> AdonisStartup \<Rightarrow> bool" where
  "summed p s \<longleftrightarrow> demo_seat p s \<and> su_stage s = ST_Negotiating \<and> su_haveLocal s \<and> su_measurementBegin s = 0 \<and>
     su_clock s = us 3264000 \<and> su_local s = demo_report \<and> su_reports s p = demo_report"

lemma demo_measure_links:
  assumes "demo_seat p s" "valid_rtts s (1 - p) = demo_rtts" "rp_p95Us (su_local s) < rp_p95Us demo_report" "p < 2"
  shows "measure_links (seats 2) s = (True, s\<lparr>su_links := (su_links s)(1 - p := demo_report), su_local := demo_report,
    su_worstPeer := ucast (1 - p)\<rparr>)"
proof -
  have l: "sc_localPlayer (su_session s) = p" using assms(1) by (simp add: demo_seat_def)
  from u8_below_2 [OF assms(4)] show ?thesis
  proof
    assume "p = 0"
    then show ?thesis using assms(2,3) l by (simp add: seats_two demo_link length_demo_rtts Let_def)
  next
    assume "p = 1"
    then show ?thesis using assms(2,3) l by (simp add: seats_two demo_link length_demo_rtts Let_def)
  qed
qed

lemma probed_tick:
  assumes pr: "probing p 129 s" and p: "p < 2"
  shows "\<exists>L s' a. Startup_Tick (recorded wire) ((), []) s (us 3264000) = (True, ((), L), s') \<and> summed p s' \<and>
    su_summaryMask s' = peer_bit p \<and> su_acceptedMask s' = 0 \<and> \<not> su_accepted s' \<and>
    su_reports s' = (\<lambda>_. Report_default)(p := demo_report) \<and>
    demo_seat p a \<and> su_local a = demo_report \<and> startup_bytes a K_Summary 0 MAX_PLAYERS \<in> set L"
proof -
  let ?t = "us 3264000"
  let ?c = "s\<lparr>su_clock := ?t\<rparr>"
  let ?h = "?c\<lparr>su_nextHello := (if su_nextHello s \<le> ?t then ?t + 200000 else su_nextHello s)\<rparr>"
  have st: "su_stage s = ST_Measuring" "demo_seat p s" "su_clock s = us 3049000" using pr by (auto simp: probing_def)
  have c: "Startup_ObserveClock s ?t = (True, ?c)" by (rule probing_observe [OF st(1,3)]) simp_all
  have d: "tick_deadlines (recorded wire) ((), []) ?t ?c = ?c"
    by (rule demo_deadlines [of p]) (use pr in \<open>simp_all add: probing_def demo_seat_def\<close>)
  obtain L where h: "tick_hello (recorded wire) ((), []) ?t ?c = (((), L), ?h)"
    using probing_hello [of ?c ?t] st(1) by auto
  have n: "su_probes s = ProbeCount" using pr by (simp add: probing_def)
  have q: "tick_probe (recorded wire) ((), L) ?t ?h = (((), L), ?h)"
    using pr n by (simp add: tick_probe_def probing_def)
  let ?l = "?h\<lparr>su_links := (su_links s)(1 - p := demo_report), su_local := demo_report, su_worstPeer := ucast (1 - p)\<rparr>"
  have v: "valid_rtts ?h (1 - p) = demo_rtts" using probed_rtts [OF pr] by (subst valid_rtts_cong [of _ s]) simp_all
  have gt: "rp_p95Us (su_local s) < rp_p95Us demo_report" using pr by (simp add: probing_def demo_report_def Report_default_def)
  have hs: "demo_seat p ?h" "rp_p95Us (su_local ?h) < rp_p95Us demo_report" using st(2) gt by (simp_all add: demo_seat_def)
  have ml: "measure_links (seats 2) ?h = (True, ?l)" using demo_measure_links [OF hs(1) v hs(2) p] by simp
  define m where "m = ?l\<lparr>su_reports := (su_reports s)(p := demo_report), su_summaryMask := peer_bit p, su_haveLocal := True,
    su_stage := ST_Negotiating, su_nextControl := 0\<rparr>"
  have last: "?t - su_lastProbe s \<ge> IntervalUs + TailUs" using pr by (simp add: probing_def us_arith us_numeral us_order)
  have ms: "tick_measured ?t ?h = (True, m)"
  proof -
    have "su_stage ?h = ST_Measuring \<and> su_probes ?h = ProbeCount \<and> ?t - su_lastProbe ?h \<ge> IntervalUs + TailUs"
      using st(1) n last by simp
    moreover have "sc_playerCount (su_session ?h) = 2" "sc_localPlayer (su_session ?l) = p" "su_summaryMask s = 0" "LocalBit ?l = peer_bit p"
      using pr by (simp_all add: probing_def demo_seat_def LocalBit_def)
    ultimately show ?thesis by (simp add: tick_measured_def ml m_def)
  qed
  have dm: "demo_seat p m" "su_haveLocal m" "su_nextControl m = 0" "su_summaryMask m = peer_bit p"
    using st(2) by (simp_all add: m_def demo_seat_def)
  have "su_summaryMask m \<noteq> AllMask m" using AllMask_two [OF dm(1)] dm(4) u8_below_2 [OF p] by (auto simp: peer_bit_def)
  then have ng: "tick_negotiate (recorded wire) ((), L) ?t m =
      (((), startup_bytes m K_Summary 0 MAX_PLAYERS # L), m\<lparr>su_nextControl := ?t + 200000\<rparr>)"
    using dm by (simp add: tick_negotiate_def us_numeral us_order Let_def)
  have "Startup_Tick (recorded wire) ((), []) s ?t = (True, tick_active (recorded wire) ((), []) ?t ?c)"
    using st(1) c d by (simp add: Startup_Tick_def)
  then have k: "Startup_Tick (recorded wire) ((), []) s ?t =
      (True, ((), startup_bytes m K_Summary 0 MAX_PLAYERS # L), m\<lparr>su_nextControl := ?t + 200000\<rparr>)"
    using h q ms ng by (simp add: tick_active_def)
  have f: "summed p (m\<lparr>su_nextControl := ?t + 200000\<rparr>)"
    using pr by (simp add: summed_def m_def probing_def demo_seat_def)
  have g: "su_local m = demo_report" "su_acceptedMask m = 0" "\<not> su_accepted m"
    "su_reports m = (\<lambda>_. Report_default)(p := demo_report)" using pr by (simp_all add: m_def probing_def)
  show ?thesis
    by (rule exI [of _ "startup_bytes m K_Summary 0 MAX_PLAYERS # L"], rule exI [of _ "m\<lparr>su_nextControl := ?t + 200000\<rparr>"],
        rule exI [of _ m]) (simp only: k f g dm, simp add: g dm)
qed

section \<open>The commit\<close>

abbreviation "demo_now \<equiv> us 3264000"

definition full :: "u8 \<Rightarrow> AdonisStartup \<Rightarrow> bool" where
  "full p s \<longleftrightarrow> summed p s \<and> su_summaryMask s = 3 \<and> su_reports s (1 - p) = demo_report"

lemma observe_same:
  "su_stage s = ST_Negotiating \<Longrightarrow> su_clock s = t \<Longrightarrow> Startup_ObserveClock s t = (True, s)"
  by (simp add: Startup_ObserveClock_def)

lemma summary_bytes: "summary_report (startup_bytes s K_Summary sequence peer) = su_local s"
  by (simp add: summary_report_def startup_word_def startup_bytes_def startup_body_def le_word_le_bytes_id)

lemma demo_summary:
  assumes "summed p s" "su_summaryMask s = peer_bit p" "p < 2" "demo_seat (1 - p) a" "su_local a = demo_report"
  shows "\<exists>s'. Startup_Receive (recorded wire) ((), []) s (startup_bytes a K_Summary 0 MAX_PLAYERS) demo_now = (True, ((), []), s') \<and>
    full p s' \<and> su_acceptedMask s' = su_acceptedMask s \<and> su_nextControl s' = 0"
proof -
  let ?b = "startup_bytes a K_Summary 0 MAX_PLAYERS"
  let ?s = "s\<lparr>su_nextControl := 0, su_reports := (su_reports s)(1 - p := demo_report), su_summaryMask := peer_bit p OR peer_bit (1 - p)\<rparr>"
  have sd: "demo_seat p s" "su_stage s = ST_Negotiating" "su_clock s = demo_now" using assms(1) by (auto simp: summed_def)
  have c: "Startup_ObserveClock s demo_now = (True, s)" by (rule observe_same [OF sd(2,3)])
  have r: "Startup_Receive (recorded wire) ((), []) s ?b demo_now = receive_current (recorded wire) ((), []) s ?b demo_now"
    by (rule demo_receive [OF assms(4) sd(1) _ _ _ _ _ _ c sd(1)]) (use u8_other [OF assms(3)] in auto)
  have w: "startup_word ?b 60 = su_attempt s" "?b ! 5 = 1 - p"
    using assms(4) sd(1) by (simp_all add: startup_words startup_bytes_nths demo_seat_def)
  have bits: "peer_bit p AND peer_bit (1 - p) = 0" "peer_bit p OR peer_bit (1 - p) = 3" "1 - p \<noteq> p"
    using u8_below_2 [OF assms(3)] by (auto simp: peer_bit_def)
  have v: "\<not> report_invalid demo_report" by (simp add: report_invalid_def demo_report_def)
  have "receive_summary s ?b = (True, ?s)"
    using v assms(2,5) bits(1) by (simp add: receive_summary_def summary_bytes w(2) Let_def)
  then have "Startup_Receive (recorded wire) ((), []) s ?b demo_now = (True, ((), []), ?s)"
    using r w(1) sd(2) by (simp add: receive_current_def)
  moreover have "full p ?s" using assms(1) bits by (simp add: full_def summed_def demo_seat_def)
  ultimately show ?thesis by (intro exI [of _ ?s]) simp
qed

lemma full_choice:
  assumes "full p s" "p < 2"
  shows "ChooseAll s = demo_choice" "AllMask s = 3" "co_delay demo_choice = 1"
proof -
  have r: "su_local s = demo_report" "su_reports s 0 = demo_report" "su_reports s 1 = demo_report" "demo_seat p s"
    using assms u8_below_2 [OF assms(2)] by (auto simp: full_def summed_def)
  then have "worst_report (su_reports s) (seats 2) (su_local s) = demo_report" by (simp add: worst_report_def seats_two)
  moreover have "Choose demo_report demo_report AdonisMode_Delay Automatic 0 = demo_choice"
    by (simp add: Choose_def demo_report_def demo_choice_def AdonisMode_Delay_def AdonisMode_Hybrid_def Let_def)
  ultimately show "ChooseAll s = demo_choice" using r(4) by (simp add: ChooseAll_def demo_seat_def)
  show "AllMask s = 3" by (rule AllMask_two [OF r(4)])
  show "co_delay demo_choice = 1" by (simp add: demo_choice_def)
qed

text \<open>A tick of the host that has every summary: it commits if the guest accepted, and proposes otherwise.\<close>

lemma full_tick:
  assumes "full 0 s" "su_nextControl s = 0"
  shows "\<exists>L s' a. Startup_Tick (recorded wire) ((), []) s demo_now = (True, ((), L), s') \<and>
    demo_seat 0 a \<and> su_choice a = demo_choice \<and> su_choice s' = demo_choice \<and>
    (if su_acceptedMask s OR 1 = 3 then su_stage s' = ST_Committed \<and> startup_bytes a K_Commit 0 MAX_PLAYERS \<in> set L
     else full 0 s' \<and> su_acceptedMask s' = su_acceptedMask s \<and> startup_bytes a K_Proposal 0 MAX_PLAYERS \<in> set L)"
proof -
  let ?h = "s\<lparr>su_nextHello := (if su_nextHello s \<le> demo_now then demo_now + 200000 else su_nextHello s)\<rparr>"
  let ?c = "?h\<lparr>su_choice := demo_choice\<rparr>"
  have sd: "demo_seat 0 s" "su_stage s = ST_Negotiating" "su_clock s = demo_now" "su_haveLocal s" "su_measurementBegin s = 0"
    "su_summaryMask s = 3" using assms(1) by (auto simp: full_def summed_def)
  have d: "tick_deadlines (recorded wire) ((), []) demo_now s = s"
    by (rule demo_deadlines [OF sd(1) _ _ sd(5)]) (use sd(2) in simp_all)
  have st: "Startup_Tick (recorded wire) ((), []) s demo_now = (True, tick_active (recorded wire) ((), []) demo_now s)"
    using sd(2) d observe_same [OF sd(2,3)] by (simp add: Startup_Tick_def)
  obtain L where h: "tick_hello (recorded wire) ((), []) demo_now s = (((), L), ?h)"
    using probing_hello [of s demo_now] sd(2) by auto
  have q: "tick_probe (recorded wire) ((), L) demo_now ?h = (((), L), ?h)" using sd(2) by (simp add: tick_probe_def)
  have m: "tick_measured demo_now ?h = (True, ?h)" using sd(2) by (simp add: tick_measured_def)
  have fh: "full 0 ?h" using assms(1) by (simp add: full_def summed_def demo_seat_def)
  note fc = full_choice [OF fh, simplified]
  have l: "LocalBit ?c = 1" "AllMask ?c = 3" "sc_localPlayer (su_session s) = 0" "demo_seat 0 ?c"
    using sd(1) by (simp_all add: LocalBit_def AllMask_def peer_bit_def demo_seat_def)
  show ?thesis
  proof (cases "su_acceptedMask s OR 1 = 3")
    case True
    have "\<exists>L' s'. tick_negotiate (recorded wire) ((), L) demo_now ?h = (((), L'), s') \<and> su_stage s' = ST_Committed \<and>
        su_choice s' = demo_choice \<and> startup_bytes ?c K_Commit 0 MAX_PLAYERS \<in> set L'"
      using sd(4,6) fc assms(2) l True by (simp add: tick_negotiate_def Let_def us_numeral us_order)
    then show ?thesis using st h q m True l(4) by (auto simp: tick_active_def intro!: exI [of _ ?c])
  next
    case False
    have "\<exists>L' s'. tick_negotiate (recorded wire) ((), L) demo_now ?h = (((), L'), s') \<and> full 0 s' \<and>
        su_acceptedMask s' = su_acceptedMask s \<and> su_choice s' = demo_choice \<and> startup_bytes ?c K_Proposal 0 MAX_PLAYERS \<in> set L'"
      using sd(4,6) fc assms(1,2) l False
      by (simp add: tick_negotiate_def Let_def us_numeral us_order full_def summed_def demo_seat_def)
    then show ?thesis using st h q m False l(4) by (auto simp: tick_active_def intro!: exI [of _ ?c])
  qed
qed

lemma demo_control:
  assumes "full p s" "p < 2" "demo_seat (1 - p) a" "K_Proposal \<le> kind" "kind < K_RetryRequest"
  shows "Startup_Receive (recorded wire) ((), []) s (startup_bytes a kind 0 MAX_PLAYERS) demo_now =
    receive_commitment (recorded wire) ((), []) s (startup_bytes a kind 0 MAX_PLAYERS) demo_now"
proof -
  have sd: "demo_seat p s" "su_stage s = ST_Negotiating" "su_clock s = demo_now" using assms(1) by (auto simp: full_def summed_def)
  have c: "Startup_ObserveClock s demo_now = (True, s)" by (rule observe_same [OF sd(2,3)])
  have lo: "K_Hello \<le> kind" "kind \<noteq> K_Hello" "kind \<noteq> K_Probe" "kind \<noteq> K_Echo" "kind \<noteq> K_Summary"
    using assms(4) by (auto simp: word_le_nat_alt)
  have w: "startup_word (startup_bytes a kind 0 MAX_PLAYERS) 60 = su_attempt s"
    using sd(1) assms(3) by (simp add: demo_seat_def startup_words)
  have ne: "p \<noteq> 1 - p" "1 - p < 2" using u8_other [OF assms(2)] by auto
  have "Startup_Receive (recorded wire) ((), []) s (startup_bytes a kind 0 MAX_PLAYERS) demo_now =
      receive_current (recorded wire) ((), []) s (startup_bytes a kind 0 MAX_PLAYERS) demo_now"
    by (rule demo_receive [OF assms(3) sd(1) ne lo(1) assms(5) _ _ c sd(1)]) (use lo in auto)
  then show ?thesis using lo sd(2) w by (simp add: receive_current_def)
qed

lemma demo_commitment:
  assumes "full p s" "p < 2" "demo_seat (1 - p) a" "su_choice a = demo_choice"
    and "kind = K_Proposal \<or> kind = K_Accept \<or> kind = K_Commit"
  defines "b \<equiv> startup_bytes a kind 0 MAX_PLAYERS" and "c \<equiv> s\<lparr>su_choice := demo_choice\<rparr>"
  shows "kind = K_Proposal \<Longrightarrow> p = 1 \<Longrightarrow> receive_commitment (recorded wire) ((), []) s b demo_now =
      (True, ((), [startup_bytes (c\<lparr>su_accepted := True\<rparr>) K_Accept 0 MAX_PLAYERS]), c\<lparr>su_accepted := True\<rparr>)"
    "kind = K_Accept \<Longrightarrow> p = 0 \<Longrightarrow> receive_commitment (recorded wire) ((), []) s b demo_now =
      (True, ((), []), c\<lparr>su_acceptedMask := su_acceptedMask s OR 2, su_nextControl := 0\<rparr>)"
    "kind = K_Commit \<Longrightarrow> p = 1 \<Longrightarrow> su_accepted s \<Longrightarrow> receive_commitment (recorded wire) ((), []) s b demo_now =
      (True, ((), [startup_bytes (c\<lparr>su_stage := ST_Committed, su_committedAt := demo_now\<rparr>) K_CommitAck 0 MAX_PLAYERS]),
       c\<lparr>su_stage := ST_Committed, su_committedAt := demo_now\<rparr>)"
proof -
  have sd: "demo_seat p s" "su_haveLocal s" "su_summaryMask s = 3" using assms(1) by (auto simp: full_def summed_def)
  note fc = full_choice [OF assms(1,2)]
  have w: "startup_word b 32 = co_delay demo_choice" "startup_word b 36 = co_fullDelay demo_choice" "startup_word b 40 = co_prediction demo_choice"
    using assms(4,5) by (auto simp: b_def startup_word_def startup_bytes_def startup_body_def le_word_le_bytes_id)
  have i: "\<not> (\<not> su_haveLocal s \<or> su_summaryMask s \<noteq> AllMask s)" using sd fc by simp
  have g: "\<not> (startup_word b 32 \<noteq> co_delay (ChooseAll s) \<or> startup_word b 36 \<noteq> co_fullDelay (ChooseAll s) \<or>
      startup_word b 40 \<noteq> co_prediction (ChooseAll s) \<or> co_delay (ChooseAll s) > 9)"
    unfolding fc w by (simp add: demo_choice_def)
  have l: "sc_localPlayer (su_session s) = p" "b ! 5 = 1 - p" "b ! 4 = kind"
    using sd(1) assms(3) by (simp_all add: b_def demo_seat_def startup_bytes_nths)
  note step = receive_commitment_def [of "recorded wire" "((), [])" s b demo_now, unfolded Let_def if_not_P [OF i], unfolded if_not_P [OF g], unfolded fc(1), folded c_def]
  have x: "su_acceptedMask c = su_acceptedMask s" "su_accepted c = su_accepted s" "peer_bit 1 = 2" by (simp_all add: c_def peer_bit_def)
  show "kind = K_Proposal \<Longrightarrow> p = 1 \<Longrightarrow> receive_commitment (recorded wire) ((), []) s b demo_now =
      (True, ((), [startup_bytes (c\<lparr>su_accepted := True\<rparr>) K_Accept 0 MAX_PLAYERS]), c\<lparr>su_accepted := True\<rparr>)"
    unfolding step by (simp add: l)
  show "kind = K_Accept \<Longrightarrow> p = 0 \<Longrightarrow> receive_commitment (recorded wire) ((), []) s b demo_now =
      (True, ((), []), c\<lparr>su_acceptedMask := su_acceptedMask s OR 2, su_nextControl := 0\<rparr>)"
    unfolding step by (simp add: l x)
  show "kind = K_Commit \<Longrightarrow> p = 1 \<Longrightarrow> su_accepted s \<Longrightarrow> receive_commitment (recorded wire) ((), []) s b demo_now =
      (True, ((), [startup_bytes (c\<lparr>su_stage := ST_Committed, su_committedAt := demo_now\<rparr>) K_CommitAck 0 MAX_PLAYERS]),
       c\<lparr>su_stage := ST_Committed, su_committedAt := demo_now\<rparr>)"
    unfolding step by (simp add: l x)
qed

text \<open>Both seats of the session have committed.\<close>

lemma full_accepted: "full p s \<Longrightarrow> full p (s\<lparr>su_choice := x, su_accepted := y\<rparr>)"
  and full_mask: "full p s \<Longrightarrow> full p (s\<lparr>su_choice := x, su_acceptedMask := m, su_nextControl := n\<rparr>)"
  by (simp_all add: full_def summed_def demo_seat_def)

lemma net_summed:
  "\<exists>P W. net P W \<and> full 0 (P 0) \<and> full 1 (P 1) \<and> su_nextControl (P 0) = 0 \<and> su_acceptedMask (P 0) = 0"
proof -
  obtain P W where n0: "net P W" and pr: "probing 0 129 (P 0)" "probing 1 129 (P 1)" using net_probed [of 129] by auto
  obtain L0 s0 a0 where t0: "Startup_Tick (recorded wire) ((), []) (P 0) demo_now = (True, ((), L0), s0)" "summed 0 s0"
    "su_summaryMask s0 = peer_bit 0" "su_acceptedMask s0 = 0" "demo_seat 0 a0" "su_local a0 = demo_report"
    "startup_bytes a0 K_Summary 0 MAX_PLAYERS \<in> set L0" using probed_tick [OF pr(1)] by auto
  obtain L1 s1 a1 where t1: "Startup_Tick (recorded wire) ((), []) (P 1) demo_now = (True, ((), L1), s1)" "summed 1 s1"
    "su_summaryMask s1 = peer_bit 1" "demo_seat 1 a1" "su_local a1 = demo_report"
    "startup_bytes a1 K_Summary 0 MAX_PLAYERS \<in> set L1" using probed_tick [OF pr(2)] by auto
  have n1: "net (P(0 := s0)) (W \<union> set L0)" by (rule net_step_tick [OF n0 _ t0(1)]) simp
  have n2: "net (P(0 := s0, 1 := s1)) (W \<union> set L0 \<union> set L1)" by (rule net_step_tick [OF n1, of 1 demo_now]) (use t1(1) in simp_all)
  obtain s0' where r0: "Startup_Receive (recorded wire) ((), []) s0 (startup_bytes a1 K_Summary 0 MAX_PLAYERS) demo_now = (True, ((), []), s0')"
    "full 0 s0'" "su_acceptedMask s0' = 0" "su_nextControl s0' = 0" using demo_summary [OF t0(2,3), of a1] t1(4,5) t0(4) by auto
  obtain s1' where r1: "Startup_Receive (recorded wire) ((), []) s1 (startup_bytes a0 K_Summary 0 MAX_PLAYERS) demo_now = (True, ((), []), s1')"
    "full 1 s1'" using demo_summary [OF t1(2,3), of a0] t0(5,6) by auto
  have n3: "net ((P(0 := s0, 1 := s1))(0 := s0')) (W \<union> set L0 \<union> set L1 \<union> set [])"
    by (rule net_step_receive [OF n2, of 0 "startup_bytes a1 K_Summary 0 MAX_PLAYERS" demo_now]) (use r0(1) t1(6) in simp_all)
  have n4: "net ((P(0 := s0, 1 := s1))(0 := s0', 1 := s1')) (W \<union> set L0 \<union> set L1 \<union> set [] \<union> set [])"
    by (rule net_step_receive [OF n3, of 1 "startup_bytes a0 K_Summary 0 MAX_PLAYERS" demo_now]) (use r1(1) t0(7) in simp_all)
  show ?thesis by (intro exI conjI, rule n4) (use r0 r1 in simp_all)
qed

lemma net_committed:
  "\<exists>P W. net P W \<and> su_stage (P 0) = ST_Committed \<and> su_stage (P 1) = ST_Committed \<and> su_choice (P 0) = demo_choice"
proof -
  obtain P W where n0: "net P W" and f: "full 0 (P 0)" "full 1 (P 1)" "su_nextControl (P 0) = 0" "su_acceptedMask (P 0) = 0"
    using net_summed by blast
  obtain L0 s0 a0 where t0: "Startup_Tick (recorded wire) ((), []) (P 0) demo_now = (True, ((), L0), s0)" "full 0 s0"
    "demo_seat 0 a0" "su_choice a0 = demo_choice" "su_acceptedMask s0 = 0" "startup_bytes a0 K_Proposal 0 MAX_PLAYERS \<in> set L0"
    using full_tick [OF f(1,3)] f(4) by auto
  have n1: "net (P(0 := s0)) (W \<union> set L0)" by (rule net_step_tick [OF n0 _ t0(1)]) simp
  define g where "g = (P 1)\<lparr>su_choice := demo_choice, su_accepted := True\<rparr>"
  have fg: "full 1 g" unfolding g_def by (rule full_accepted [OF f(2)])
  then have gs: "demo_seat 1 g" "su_choice g = demo_choice" "su_accepted g" by (simp_all add: full_def summed_def g_def)
  have r1: "Startup_Receive (recorded wire) ((), []) (P 1) (startup_bytes a0 K_Proposal 0 MAX_PLAYERS) demo_now =
      (True, ((), [startup_bytes g K_Accept 0 MAX_PLAYERS]), g)"
    using demo_control [OF f(2), of a0 K_Proposal] demo_commitment(1) [OF f(2), of a0 K_Proposal] t0(3,4) by (simp add: g_def)
  have n2: "net (P(0 := s0, 1 := g)) (W \<union> set L0 \<union> set [startup_bytes g K_Accept 0 MAX_PLAYERS])"
    by (rule net_step_receive [OF n1, of 1 "startup_bytes a0 K_Proposal 0 MAX_PLAYERS" demo_now]) (use r1 t0(6) in simp_all)
  define h where "h = s0\<lparr>su_choice := demo_choice, su_acceptedMask := 2, su_nextControl := 0\<rparr>"
  have fh: "full 0 h" unfolding h_def by (rule full_mask [OF t0(2)])
  have r0: "Startup_Receive (recorded wire) ((), []) s0 (startup_bytes g K_Accept 0 MAX_PLAYERS) demo_now = (True, ((), []), h)"
    using demo_control [OF t0(2), of g K_Accept] demo_commitment(2) [OF t0(2), of g K_Accept] gs t0(5) by (simp add: h_def)
  have n3: "net ((P(0 := s0, 1 := g))(0 := h)) (W \<union> set L0 \<union> set [startup_bytes g K_Accept 0 MAX_PLAYERS] \<union> set [])"
    by (rule net_step_receive [OF n2, of 0 "startup_bytes g K_Accept 0 MAX_PLAYERS" demo_now]) (use r0 in simp_all)
  have hc: "su_nextControl h = 0" "su_acceptedMask h OR 1 = 3" by (simp_all add: h_def)
  obtain L2 s2 a2 where t2: "Startup_Tick (recorded wire) ((), []) h demo_now = (True, ((), L2), s2)" "su_stage s2 = ST_Committed"
    "demo_seat 0 a2" "su_choice a2 = demo_choice" "su_choice s2 = demo_choice" "startup_bytes a2 K_Commit 0 MAX_PLAYERS \<in> set L2"
    using full_tick [OF fh hc(1)] hc(2) by auto
  have n4: "net ((P(0 := s0, 1 := g))(0 := h, 0 := s2)) (W \<union> set L0 \<union> set [startup_bytes g K_Accept 0 MAX_PLAYERS] \<union> set [] \<union> set L2)"
    by (rule net_step_tick [OF n3, of 0 demo_now]) (use t2(1) in simp_all)
  obtain s3 L3 where r2: "Startup_Receive (recorded wire) ((), []) g (startup_bytes a2 K_Commit 0 MAX_PLAYERS) demo_now = (True, ((), L3), s3)"
    "su_stage s3 = ST_Committed"
    using demo_control [OF fg, of a2 K_Commit] demo_commitment(3) [OF fg, of a2 K_Commit] t2(3,4) gs(3) by simp
  have n5: "net ((P(0 := s0, 1 := g))(0 := h, 0 := s2, 1 := s3)) (W \<union> set L0 \<union> set [startup_bytes g K_Accept 0 MAX_PLAYERS] \<union>
      set [] \<union> set L2 \<union> set L3)"
    by (rule net_step_receive [OF n4, of 1 "startup_bytes a2 K_Commit 0 MAX_PLAYERS" demo_now]) (use r2 t2(6) in simp_all)
  show ?thesis by (intro exI conjI, rule n5) (use t2 r2 in simp_all)
qed

section \<open>Witness\<close>

theorem startup_agreement_witness:
  "\<exists>P W. startup_net demo_config wire 2 P W \<and> same_timing (P 0) (P 1) \<and> su_choice (P 1) = demo_choice"
proof -
  obtain P W where n: "net P W" "su_stage (P 0) = ST_Committed" "su_stage (P 1) = ST_Committed" "su_choice (P 0) = demo_choice"
    using net_committed by blast
  have "same_timing (P 0) (P 1)" by (rule startup_agreement [OF n(1) _ _ n(2,3)]) simp_all
  then show ?thesis using n by (intro exI [of _ P] exI [of _ W]) (simp add: same_timing_def)
qed

end
