(* ===== verification/StartupMeasure.thy ===== *)
theory StartupMeasure
  imports StartupDemo
begin

text \<open>
  A committed timing follows from usable measurements: the statistics of a link are a valid report, every
  report a seat keeps is valid, and the chosen delays follow from the worst of them.
\<close>

section \<open>The statistics of a link\<close>

definition usable :: "u64 \<Rightarrow> bool" where
  "usable rtt \<longleftrightarrow> 0 < rtt \<and> rtt \<le> 1000000"

lemma sum_words:
  "\<forall>x \<in> set xs. x \<le> (1000000 :: u64) \<Longrightarrow> unat a + 1000000 * length xs < 2 ^ 64 \<Longrightarrow>
   unat (foldl (+) a xs) = unat a + sum_list (map unat xs)"
proof (induction xs arbitrary: a)
  case Nil
  then show ?case by simp
next
  case (Cons x xs)
  have x: "unat x \<le> 1000000" using Cons.prems(1) by (simp add: word_le_nat_alt)
  then have u: "unat (a + x) = unat a + unat x" using Cons.prems(2) by (subst unat_add_lem [THEN iffD1]) simp_all
  show ?case using Cons.IH [of "a + x"] Cons.prems u x by simp
qed

lemma sum_between:
  "\<forall>x \<in> set xs. lo \<le> (x :: nat) \<and> x \<le> hi \<Longrightarrow> lo * length xs \<le> sum_list xs \<and> sum_list xs \<le> hi * length xs"
  by (induction xs) auto

lemma ucast_small: "unat (w :: u64) \<le> 1000000 \<Longrightarrow> unat (ucast w :: u32) = unat w"
  by (simp add: unsigned_ucast_eq take_bit_nat_eq_self)

lemma mean_between:
  assumes "(xs :: u64 list) \<noteq> []" "length xs \<le> 120" "\<forall>x \<in> set xs. lo \<le> unat x \<and> unat x \<le> hi" "hi \<le> 1000000"
  shows "lo \<le> unat (foldl (+) 0 xs div word_of_nat (length xs)) \<and> unat (foldl (+) 0 xs div word_of_nat (length xs)) \<le> hi"
proof -
  have "unat (foldl (+) 0 xs) = sum_list (map unat xs)"
    using sum_words [of xs 0] assms by (auto simp: word_le_nat_alt dest: order_trans)
  moreover have "lo * length xs \<le> sum_list (map unat xs) \<and> sum_list (map unat xs) \<le> hi * length xs"
    using sum_between [of "map unat xs" lo hi] assms(3) by simp
  moreover have "unat (word_of_nat (length xs) :: u64) = length xs" using assms(2) by (simp add: unsigned_of_nat take_bit_nat_eq_self)
  ultimately have u: "unat (foldl (+) 0 xs div word_of_nat (length xs)) = sum_list (map unat xs) div length xs"
    and b: "lo * length xs \<le> sum_list (map unat xs)" "sum_list (map unat xs) \<le> hi * length xs"
    by (simp_all add: unat_div)
  have "0 < length xs" using assms(1) by simp
  then have "lo \<le> sum_list (map unat xs) div length xs" "sum_list (map unat xs) div length xs \<le> hi"
    using div_le_mono [OF b(1), of "length xs"] div_le_mono [OF b(2), of "length xs"] by simp_all
  then show ?thesis by (simp add: u)
qed

lemma tail_between:
  assumes "a \<le> b" "unat (b :: u64) \<le> 1000000"
  shows "unat a \<le> unat ((a + b) div 2) \<and> unat ((a + b) div 2) \<le> unat b"
proof -
  have ab: "unat a \<le> unat b" using assms(1) by (simp add: word_le_nat_alt)
  then have "unat (a + b) = unat a + unat b" using assms(2) by (subst unat_add_lem [THEN iffD1]) simp_all
  then have "unat ((a + b) div 2) = (unat a + unat b) div 2" by (simp add: unat_div)
  then show ?thesis using ab by presburger
qed

text \<open>A seat's own summary passes every check the other seats make.\<close>

lemma link_report_valid:
  assumes n: "96 \<le> length rtts" "length rtts \<le> 120" and u: "\<forall>x \<in> set rtts. usable x"
  shows "\<not> report_invalid (link_report rtts)"
proof -
  define v where "v = sort rtts"
  define n where "n = length v"
  define rank where "rank = (n - 1) * 95 div 100"
  define tail where "tail = (if n mod 2 = 0 \<and> rank + 1 < n then (v ! rank + v ! (rank + 1)) div 2 else v ! rank)"
  have len: "n = length rtts" "96 \<le> n" "n \<le> 120" using assms by (simp_all add: n_def v_def)
  have in_v: "usable (v ! i)" if "i < n" for i
    using u nth_mem [of i v] that by (simp add: n_def v_def)
  have big: "unat (v ! i) \<le> 1000000" "0 < unat (v ! i)" if "i < n" for i
    using in_v [OF that] by (simp_all add: usable_def word_le_nat_alt word_less_nat_alt)
  have mono: "v ! i \<le> v ! j" if "i \<le> j" "j < n" for i j
    using sorted_nth_mono [of v i j] that by (simp add: v_def n_def)
  have rank: "rank < n" using len by (simp add: rank_def)
  have tail: "unat (v ! 0) \<le> unat tail" "unat tail \<le> unat (v ! (n - 1))"
  proof -
    have lo: "unat (v ! 0) \<le> unat (v ! rank)" and hi: "unat (v ! rank) \<le> unat (v ! (n - 1))"
      using mono [of 0 rank] mono [of rank "n - 1"] rank by (simp_all add: word_le_nat_alt)
    show "unat (v ! 0) \<le> unat tail" "unat tail \<le> unat (v ! (n - 1))"
    proof (atomize (full), cases "n mod 2 = 0 \<and> rank + 1 < n")
      case True
      have "v ! (rank + 1) \<le> v ! (n - 1)" by (rule mono) (use True in linarith)+
      then show "unat (v ! 0) \<le> unat tail \<and> unat tail \<le> unat (v ! (n - 1))"
        using tail_between [OF mono [of rank "rank + 1"] big(1) [of "rank + 1"]] True lo
        by (simp add: tail_def word_le_nat_alt)
    next
      case False
      then show "unat (v ! 0) \<le> unat tail \<and> unat tail \<le> unat (v ! (n - 1))" using lo hi by (auto simp: tail_def)
    qed
  qed
  have "\<forall>x \<in> set v. unat (v ! 0) \<le> unat x \<and> unat x \<le> unat (v ! (n - 1))"
  proof
    fix x assume "x \<in> set v"
    then obtain i where "i < n" "x = v ! i" by (auto simp: in_set_conv_nth n_def)
    then show "unat (v ! 0) \<le> unat x \<and> unat x \<le> unat (v ! (n - 1))"
      using mono [of 0 i] mono [of i "n - 1"] by (simp add: word_le_nat_alt)
  qed
  moreover have "v \<noteq> []" "length v \<le> 120" "n - 1 < n" using len by (auto simp: n_def)
  ultimately have mean: "unat (v ! 0) \<le> unat (foldl (+) 0 v div word_of_nat n)"
    "unat (foldl (+) 0 v div word_of_nat n) \<le> unat (v ! (n - 1))"
    using mean_between [of v "unat (v ! 0)" "unat (v ! (n - 1))"] big(1) [of "n - 1"] unfolding n_def by blast+
  have r: "link_report rtts = \<lparr>rp_p95Us = ucast tail, rp_received = word_of_nat n, rp_lost = word_of_nat (Samples - n),
      rp_minUs = ucast (v ! 0), rp_maxUs = ucast (v ! (n - 1)), rp_meanUs = ucast (foldl (+) 0 v div word_of_nat n)\<rparr>"
    unfolding link_report_def Let_def v_def [symmetric] n_def [symmetric] rank_def [symmetric] tail_def [symmetric] by (rule refl)
  have ends: "0 < unat (v ! 0)" "unat (v ! 0) \<le> 1000000" "unat (v ! (n - 1)) \<le> 1000000"
  proof -
    have i: "0 < n" "n - 1 < n" using len(2) by linarith+
    show "0 < unat (v ! 0)" "unat (v ! 0) \<le> 1000000" "unat (v ! (n - 1)) \<le> 1000000"
      using big [OF i(1)] big(1) [OF i(2)] by blast+
  qed
  have c: "unat (ucast tail :: u32) = unat tail" "unat (ucast (v ! 0) :: u32) = unat (v ! 0)"
    "unat (ucast (v ! (n - 1)) :: u32) = unat (v ! (n - 1))"
    "unat (ucast (foldl (+) 0 v div word_of_nat n) :: u32) = unat (foldl (+) 0 v div word_of_nat n)"
    by (rule ucast_small; use tail mean ends in simp)+
  have w: "unat (word_of_nat n :: u32) = n" "unat (word_of_nat (Samples - n) :: u32) = Samples - n"
    using len by (simp_all add: unsigned_of_nat take_bit_nat_eq_self del: of_nat_diff)
  have total: "(word_of_nat n :: u32) + word_of_nat (Samples - n) = word_of_nat Samples"
    using len by (simp only: of_nat_add [symmetric] le_add_diff_inverse)
  show ?thesis
    unfolding r report_invalid_def using tail mean ends len(2,3) total
    by (simp add: word_le_nat_alt word_less_nat_alt c w word_unat_eq_iff [of _ 0] del: of_nat_add of_nat_diff One_nat_def)
qed

section \<open>The reports of a seat\<close>

text \<open>
  \<open>measured s\<close>: the configuration is admissible, the lanes hold usable round trips, and every report that
  counts is valid. A seat whose own report is published measures no more.
\<close>

definition early :: "Stage \<Rightarrow> bool" where
  "early stage \<longleftrightarrow> stage = ST_WaitingPeer \<or> stage = ST_Measuring"

definition admissible :: "AdonisStartup \<Rightarrow> bool" where
  "admissible s \<longleftrightarrow> 2 \<le> sc_playerCount (su_session s) \<and> sc_playerCount (su_session s) \<le> 3 \<and>
     sc_localPlayer (su_session s) < sc_playerCount (su_session s) \<and> (su_requested s = Automatic \<or> su_requested s \<le> 9)"

definition measured :: "AdonisStartup \<Rightarrow> bool" where
  "measured s \<longleftrightarrow> admissible s \<and> (\<forall>p i. su_rtt s p i = Unsent \<or> usable (su_rtt s p i)) \<and>
     (su_local s = Report_default \<or> \<not> report_invalid (su_local s)) \<and>
     (\<forall>p. p < sc_playerCount (su_session s) \<longrightarrow> su_summaryMask s AND peer_bit p \<noteq> 0 \<longrightarrow> \<not> report_invalid (su_reports s p)) \<and>
     (su_haveLocal s \<longrightarrow> \<not> early (su_stage s) \<and> \<not> report_invalid (su_local s) \<and>
        su_reports s (sc_localPlayer (su_session s)) = su_local s)"

lemmas measured_defs = measured_def admissible_def early_def

named_theorems measured_intros

lemma measured_if [measured_intros]: "(c \<Longrightarrow> measured a) \<Longrightarrow> (\<not> c \<Longrightarrow> measured b) \<Longrightarrow> measured (if c then a else b)"
  by simp

lemma measured_Let: "measured v \<Longrightarrow> (\<And>x. measured x \<Longrightarrow> measured (f x)) \<Longrightarrow> measured (let x = v in f x)"
  by (simp add: Let_def)

lemma measured_Retry [measured_intros]: "measured s \<Longrightarrow> measured (Retry s reason)"
  by (auto simp: Retry_def measured_defs)

lemma measured_Unavailable [measured_intros]: "measured s \<Longrightarrow> measured (Unavailable s reason)"
  by (auto simp: Unavailable_def measured_defs)

lemma measured_Fail [measured_intros]: "measured s \<Longrightarrow> measured (snd (Startup_Fail s msg))"
  by (auto simp: Startup_Fail_def measured_defs)

lemma measured_ResetAttempt [measured_intros]: "measured s \<Longrightarrow> measured (ResetAttempt s attempt now reason)"
  by (auto simp: ResetAttempt_def measured_defs)

text \<open>Fields the invariant does not mention.\<close>

lemma measured_frame [measured_intros]:
  "measured s \<Longrightarrow> measured (s\<lparr>su_clock := c\<rparr>)" "measured s \<Longrightarrow> measured (s\<lparr>su_stabilityStarted := b\<rparr>)"
  "measured s \<Longrightarrow> measured (s\<lparr>su_nextControl := c\<rparr>)" "measured s \<Longrightarrow> measured (s\<lparr>su_nextHello := c\<rparr>)"
  "measured s \<Longrightarrow> measured (s\<lparr>su_sentAt := l\<rparr>)" "measured s \<Longrightarrow> measured (s\<lparr>su_choice := x\<rparr>)"
  "measured s \<Longrightarrow> measured (s\<lparr>su_choice := x, su_accepted := b\<rparr>)" "measured s \<Longrightarrow> measured (s\<lparr>su_choice := x, su_acceptedMask := m, su_nextControl := c\<rparr>)"
  "measured s \<Longrightarrow> measured (s\<lparr>su_choice := x, su_commitAckMask := m\<rparr>)" "measured s \<Longrightarrow> measured (s\<lparr>su_peerHelloMask := m\<rparr>)"
  "measured s \<Longrightarrow> measured (s\<lparr>su_choice := x, su_stage := ST_Committed, su_committedAt := c\<rparr>)"
  "measured s \<Longrightarrow> measured (s\<lparr>su_stage := ST_Committed, su_committedAt := c\<rparr>)"
  "measured s \<Longrightarrow> measured (s\<lparr>su_nextProbe := c, su_stabilityStarted := b\<rparr>)"
  "measured s \<Longrightarrow> measured (s\<lparr>su_nextProbe := c, su_lastProbe := c'\<rparr>)" "measured s \<Longrightarrow> measured (s\<lparr>su_probes := n\<rparr>)"
  "measured s \<Longrightarrow> su_stage s = ST_WaitingPeer \<Longrightarrow> measured (s\<lparr>su_stage := ST_Measuring, su_measurementBegin := c\<rparr>)"
  by (auto simp: measured_defs)

lemma measured_ObserveClock: "measured s \<Longrightarrow> measured (snd (Startup_ObserveClock s now))"
  unfolding Startup_ObserveClock_def Let_def by (auto intro!: measured_intros)

lemma measured_deadlines: "measured s \<Longrightarrow> measured (tick_deadlines T t now s)"
  unfolding tick_deadlines_def by (intro measured_Let measured_intros)

lemma measured_repeat: "measured s \<Longrightarrow> measured (snd (tick_repeat T t now kind s))"
  by (auto simp: tick_repeat_def intro: measured_intros split: prod.split)

lemma measured_hello: "measured s \<Longrightarrow> measured (snd (tick_hello T t now s))"
  by (auto simp: tick_hello_def Let_def intro: measured_intros)

lemma measured_probe_peers: "measured s \<Longrightarrow> measured (snd (probe_peers T now sequence peers t s))"
proof (induction peers arbitrary: t s)
  case Nil
  then show ?case by simp
next
  case (Cons peer peers)
  obtain ok t1 where send: "Startup_Send T t s K_Probe sequence peer = (ok, t1)" by (rule prod.exhaust)
  have "measured (if ok then s\<lparr>su_sentAt := l\<rparr> else s)" for l by (intro measured_intros Cons.prems)
  from Cons.IH [OF this] Cons.IH [OF Cons.prems] show ?case using send by simp
qed

lemma measured_probe: "measured s \<Longrightarrow> measured (snd (tick_probe T t now s))"
proof -
  assume m: "measured s"
  define s1 where "s1 = (if (su_peerHelloMask s OR LocalBit s) = AllMask s \<and> su_stage s = ST_WaitingPeer
      then s\<lparr>su_stage := ST_Measuring, su_measurementBegin := now\<rparr> else s)"
  define s2 where "s2 = (if su_stage s1 = ST_Measuring \<and> su_probes s1 = 0 \<and> \<not> su_stabilityStarted s1
      then s1\<lparr>su_nextProbe := now + StabilizeUs, su_stabilityStarted := True\<rparr> else s1)"
  have "measured s1" unfolding s1_def using m by (intro measured_intros) simp_all
  then have "measured s2" unfolding s2_def by (intro measured_intros)
  moreover obtain t3 s3 where p: "probe_peers T now (su_probes s2 + 1) (seats (sc_playerCount (su_session s2))) t
      (s2\<lparr>su_probes := su_probes s2 + 1\<rparr>) = (t3, s3)" by (rule prod.exhaust)
  ultimately have "measured s3"
    using measured_probe_peers [of "s2\<lparr>su_probes := su_probes s2 + 1\<rparr>" T now "su_probes s2 + 1"
      "seats (sc_playerCount (su_session s2))" t] measured_frame(15) by simp
  then show ?thesis using \<open>measured s2\<close> p
    unfolding tick_probe_def Let_def s1_def [symmetric] s2_def [symmetric] by (simp add: measured_frame)
qed

lemma valid_rtts_usable: "measured s \<Longrightarrow> \<forall>x \<in> set (valid_rtts s peer). usable x"
proof
  fix x assume m: "measured s" and x: "x \<in> set (valid_rtts s peer)"
  have "x \<in> su_rtt s peer ` set [Warmup..<Attempts] \<and> x \<noteq> Unsent"
    using x by (auto simp only: valid_rtts_def set_filter set_map mem_Collect_eq)
  then show "usable x" using m unfolding measured_def by (metis imageE)
qed

lemma length_valid_rtts: "length (valid_rtts s peer) \<le> 120"
proof -
  have "length (valid_rtts s peer) \<le> length (map (su_rtt s peer) [Warmup..<Attempts])"
    unfolding valid_rtts_def by (rule length_filter_le)
  moreover have "length (map (su_rtt s peer) [Warmup..<Attempts]) = 120" by (simp only: length_map length_upt)
  ultimately show ?thesis by simp
qed

lemma measured_links:
  "measure_links peers s = (ok, s') \<Longrightarrow> measured s \<Longrightarrow> su_stage s = ST_Measuring \<Longrightarrow> measured s' \<and> static s s' \<and>
     (ok \<longrightarrow> (\<exists>p \<in> set peers. p \<noteq> sc_localPlayer (su_session s)) \<or> \<not> report_invalid (su_local s) \<longrightarrow> \<not> report_invalid (su_local s'))"
proof (induction peers arbitrary: s)
  case Nil
  then show ?case by (simp add: static_def)
next
  case (Cons peer peers)
  show ?case
  proof (cases "peer = sc_localPlayer (su_session s) \<or> length (valid_rtts s peer) < 96")
    case True
    have "static s (Retry s RR_Samples)" by (simp add: static_def Retry_def)
    then show ?thesis using Cons True measured_Retry [OF Cons.prems(2)] by (auto split: if_splits)
  next
    case False
    define link where "link = link_report (valid_rtts s peer)"
    have valid: "\<not> report_invalid link" unfolding link_def
      by (rule link_report_valid) (use False length_valid_rtts valid_rtts_usable [OF Cons.prems(2)] in auto)
    define s1 where "s1 = s\<lparr>su_links := (su_links s)(peer := link)\<rparr>"
    define s2 where "s2 = (if rp_p95Us link > rp_p95Us (su_local s1) then s1\<lparr>su_local := link, su_worstPeer := ucast peer\<rparr> else s1)"
    have hl: "\<not> su_haveLocal s" using Cons.prems(2,3) by (simp add: measured_def early_def)
    have m1: "measured s1" using Cons.prems(2) by (simp add: s1_def measured_defs)
    have m2: "measured s2" using m1 valid hl by (auto simp: s2_def s1_def measured_defs)
    have st: "static s s2" "su_stage s2 = ST_Measuring" using Cons.prems(3) by (simp_all add: s2_def s1_def static_def)
    have pos: "rp_p95Us Report_default < rp_p95Us link"
      using valid by (auto simp: report_invalid_def Report_default_def word_neq_0_conv)
    have l2: "\<not> report_invalid (su_local s2)"
      using Cons.prems(2) valid pos by (auto simp: s2_def s1_def measured_def)
    have "measure_links peers s2 = (ok, s')"
      using Cons.prems(1) False
      by (cases "rp_p95Us (su_local s) < rp_p95Us link") (simp_all add: link_def [symmetric] s1_def s2_def Let_def)
    from Cons.IH [OF this m2 st(2)] st(1) l2 show ?thesis by (simp add: static_def)
  qed
qed

lemma measured_measured: "measured s \<Longrightarrow> measured (snd (tick_measured now s))"
proof -
  assume m: "measured s"
  let ?go = "su_stage s = ST_Measuring \<and> su_probes s = ProbeCount \<and> now - su_lastProbe s \<ge> IntervalUs + TailUs"
  let ?local = "sc_localPlayer (su_session s)" and ?count = "sc_playerCount (su_session s)"
  show ?thesis
  proof (cases ?go)
    case False
    then show ?thesis unfolding tick_measured_def if_not_P [OF False] using m by simp
  next
    case True
    obtain ok s1 where l: "measure_links (seats ?count) s = (ok, s1)" by (rule prod.exhaust)
    have ad: "2 \<le> ?count" "?count \<le> 3" "?local < ?count" using m by (auto simp: measured_def admissible_def)
    have "\<exists>p \<in> set (seats ?count). p \<noteq> ?local"
    proof (cases "?local = 0")
      case True
      have "1 < ?count" using ad(1) by (simp add: word_le_nat_alt word_less_nat_alt)
      then show ?thesis using True by (intro bexI [of _ 1]) simp_all
    next
      case False
      have "0 < ?count" using ad(1) by (simp add: word_le_nat_alt word_less_nat_alt)
      then show ?thesis using False by (intro bexI [of _ 0]) simp_all
    qed
    then have s1: "measured s1" "static s s1" "ok \<Longrightarrow> \<not> report_invalid (su_local s1)"
      using measured_links [OF l m] True by auto
    have bits: "p < ?count \<Longrightarrow> (m OR LocalBit s1) AND peer_bit p \<noteq> 0 \<Longrightarrow> p = ?local \<or> m AND peer_bit p \<noteq> 0" for p and m :: u32
    proof -
      assume p: "p < ?count" and b: "(m OR LocalBit s1) AND peer_bit p \<noteq> 0"
      have "LocalBit s1 = peer_bit ?local" using s1(2) by (simp add: LocalBit_def static_def)
      moreover have "?local = p \<or> peer_bit ?local AND peer_bit p = 0"
      proof -
        have "?local \<le> 3" "p \<le> 3" using p ad by simp_all
        from u8_below_4 [OF this(1)] u8_below_4 [OF this(2)] show ?thesis by (auto simp: peer_bit_def)
      qed
      ultimately show ?thesis using b by (auto simp: bit.conj_disj_distrib2)
    qed
    show ?thesis
    proof (cases ok)
      case False
      then show ?thesis unfolding tick_measured_def if_P [OF True] using l s1(1) by simp
    next
      case ok: True
      have "measured (s1\<lparr>su_reports := (su_reports s1)(?local := su_local s1), su_summaryMask := su_summaryMask s1 OR LocalBit s1,
          su_haveLocal := True, su_stage := ST_Negotiating, su_nextControl := 0\<rparr>)"
      proof -
        have "\<not> report_invalid (((su_reports s1)(?local := su_local s1)) p)"
          if "p < ?count" "(su_summaryMask s1 OR LocalBit s1) AND peer_bit p \<noteq> 0" for p
          using bits [OF that] s1(1,2) s1(3) [OF ok] that(1) by (auto simp: measured_def static_def)
        moreover have "su_session s1 = su_session s" using s1(2) by (simp add: static_def)
        ultimately show ?thesis using s1(1) s1(3) [OF ok] by (simp add: measured_def admissible_def early_def)
      qed
      moreover have "sc_localPlayer (su_session s1) = ?local" using s1(2) by (simp add: static_def)
      ultimately show ?thesis unfolding tick_measured_def if_P [OF True] using l ok by simp
    qed
  qed
qed

lemma measured_negotiate: "measured s \<Longrightarrow> measured (snd (tick_negotiate T t now s))"
proof -
  assume m: "measured s"
  define c where "c = s\<lparr>su_choice := ChooseAll s\<rparr>"
  have c: "measured c" unfolding c_def by (rule measured_frame(6) [OF m])
  show ?thesis
    using m c unfolding tick_negotiate_def Let_def c_def [symmetric]
    by (auto intro: measured_intros split: prod.splits bool.splits if_splits)
qed

lemma measured_active: "measured s \<Longrightarrow> measured (snd (tick_active T t now s))"
proof -
  assume m: "measured s"
  obtain t1 s1 where h: "tick_hello T t now s = (t1, s1)" by (rule prod.exhaust)
  obtain t2 s2 where p: "tick_probe T t1 now s1 = (t2, s2)" by (rule prod.exhaust)
  obtain b s3 where d: "tick_measured now s2 = (b, s3)" by (rule prod.exhaust)
  have "measured s1" using measured_hello [OF m, of T t now] h by simp
  moreover from this have "measured s2" using measured_probe [of s1 T t1 now] p by simp
  moreover from this have "measured s3" using measured_measured [of s2 now] d by simp
  ultimately show ?thesis using measured_negotiate [of s3 T t2 now] by (simp add: tick_active_def h p d)
qed

lemma measured_Tick: "measured s \<Longrightarrow> measured (snd (snd (Startup_Tick T t s now)))"
proof -
  assume m: "measured s"
  obtain clock s1 where c: "Startup_ObserveClock s now = (clock, s1)" by (rule prod.exhaust)
  have m1: "measured s1" using measured_ObserveClock [OF m, of now] c by simp
  define s2 where "s2 = tick_deadlines T t now s1"
  have m2: "measured s2" unfolding s2_def by (rule measured_deadlines [OF m1])
  have f: "snd (snd (case Startup_Fail s1 msg of (ok, s) \<Rightarrow> (ok, t, s))) = snd (Startup_Fail s1 msg)" for msg
    by (simp add: Startup_Fail_def)
  show ?thesis
    unfolding Startup_Tick_def c Let_def prod.case s2_def [symmetric]
    using m1 m2 by (auto simp: f intro: measured_intros measured_repeat measured_active)
qed

lemma measured_receive_retry: "measured s \<Longrightarrow> measured (snd (receive_retry s p now))"
  unfolding receive_retry_def Let_def by (auto intro: measured_intros)

lemma measured_receive_probe: "measured s \<Longrightarrow> measured (snd (snd (receive_probe T t s p now)))"
proof -
  assume m: "measured s"
  have f: "snd (snd (case Startup_Fail s msg of (ok, s) \<Rightarrow> (ok, t, s))) = snd (Startup_Fail s msg)" for msg
    by (simp add: Startup_Fail_def)
  have r: "measured (s\<lparr>su_rtt := (su_rtt s)(q := (su_rtt s q)(i := d))\<rparr>)" if "d \<noteq> 0" "d \<le> 1000000" for q i d
    using m that by (auto simp: measured_defs usable_def word_neq_0_conv)
  show ?thesis unfolding receive_probe_def Let_def using m by (auto simp: f intro: measured_intros r)
qed

lemma measured_receive_summary:
  assumes m: "measured s" and peer: "p ! 5 < sc_playerCount (su_session s)" "p ! 5 \<noteq> sc_localPlayer (su_session s)"
  shows "measured (snd (receive_summary s p))"
proof -
  let ?r = "summary_report p" and ?count = "sc_playerCount (su_session s)"
  have bits: "q = p ! 5 \<or> su_summaryMask s AND peer_bit q \<noteq> 0"
    if "q < ?count" "(su_summaryMask s OR peer_bit (p ! 5)) AND peer_bit q \<noteq> 0" for q
  proof -
    have "p ! 5 \<le> 3" "q \<le> 3" using that(1) peer(1) m by (auto simp: measured_def admissible_def)
    from u8_below_4 [OF this(1)] u8_below_4 [OF this(2)] have "p ! 5 = q \<or> peer_bit (p ! 5) AND peer_bit q = 0"
      by (auto simp: peer_bit_def)
    then show ?thesis using that(2) by (auto simp: bit.conj_disj_distrib2)
  qed
  have "measured (s\<lparr>su_nextControl := c, su_reports := (su_reports s)(p ! 5 := ?r), su_summaryMask := su_summaryMask s OR peer_bit (p ! 5)\<rparr>)"
    if "\<not> report_invalid ?r" for c
  proof -
    have "\<not> report_invalid (((su_reports s)(p ! 5 := ?r)) q)"
      if "q < ?count" "(su_summaryMask s OR peer_bit (p ! 5)) AND peer_bit q \<noteq> 0" for q
      using bits [OF that] m \<open>\<not> report_invalid ?r\<close> that(1) by (auto simp: measured_def)
    then show ?thesis using m peer(2) by (auto simp: measured_def admissible_def early_def)
  qed
  then show ?thesis unfolding receive_summary_def Let_def using measured_Fail [OF m] by auto
qed

lemma measured_receive_commitment: "measured s \<Longrightarrow> measured (snd (snd (receive_commitment T t s p now)))"
proof -
  assume m: "measured s"
  define c where "c = s\<lparr>su_choice := ChooseAll s\<rparr>"
  have c: "measured c" unfolding c_def by (rule measured_frame(6) [OF m])
  have f: "snd (snd (case Startup_Fail x msg of (ok, s) \<Rightarrow> (ok, t, s))) = snd (Startup_Fail x msg)" for x msg
    by (simp add: Startup_Fail_def)
  have "measured (c\<lparr>su_accepted := b\<rparr>)" "measured (c\<lparr>su_acceptedMask := k, su_nextControl := l\<rparr>)"
    "measured (c\<lparr>su_commitAckMask := k\<rparr>)" for b k l using c by (simp_all add: measured_defs)
  then show ?thesis
    unfolding receive_commitment_def Let_def c_def [symmetric] using m c by (auto simp: f intro: measured_intros)
qed

lemma measured_Receive: "measured s \<Longrightarrow> measured (snd (snd (Startup_Receive T t s p now)))"
proof -
  assume m: "measured s"
  obtain clock s1 where c: "Startup_ObserveClock s now = (clock, s1)" by (rule prod.exhaust)
  have m1: "measured s1" using measured_ObserveClock [OF m, of now] c by simp
  have r: "snd (snd (case receive_retry s1 p now of (ok, s) \<Rightarrow> (ok, t, s))) = snd (receive_retry s1 p now)"
    by (simp split: prod.split)
  have u: "snd (snd (case receive_summary s1 p of (ok, s) \<Rightarrow> (ok, t, s))) = snd (receive_summary s1 p)"
    by (simp split: prod.split)
  have cur: "measured (snd (snd (receive_current T t s1 p now)))" if "\<not> startup_differs s1 p"
    unfolding receive_current_def using m1 that
    by (auto simp: u startup_differs_def not_le intro: measured_intros measured_receive_probe measured_receive_commitment measured_receive_summary)
  show ?thesis
    unfolding Startup_Receive_def c Let_def prod.case using m1 measured_Fail [OF m1] measured_receive_retry [OF m1] cur
    by (simp add: r)
qed

section \<open>A committed timing is measured\<close>

text \<open>The runs of one seat: any calls, at any time, with any packets and any state of the transport.\<close>

inductive startup_run :: "startup_config \<Rightarrow> 't PeerTransport \<Rightarrow> AdonisStartup \<Rightarrow> bool" for config T where
  run_begin: "(case config of (session, now, mode, request, reserve) \<Rightarrow>
      Startup_Begin session now mode request reserve = (True, s)) \<Longrightarrow> startup_run config T s"
| run_tick: "startup_run config T s \<Longrightarrow> Startup_Tick (recorded T) (t, []) s now = (ok, t', s') \<Longrightarrow> startup_run config T s'"
| run_receive: "startup_run config T s \<Longrightarrow> Startup_Receive (recorded T) (t, []) s p now = (ok, t', s') \<Longrightarrow>
    startup_run config T s'"

lemma measured_Begin: "Startup_Begin session now mode request reserve = (True, s) \<Longrightarrow> measured s"
  by (auto simp: Startup_Begin_def Startup_Fail_def AdonisStartup_default_def measured_defs not_less not_le
      Let_def split: if_splits)

lemma startup_run_inv: "startup_run config T s \<Longrightarrow> measured s \<and> agreed s"
proof (induction rule: startup_run.induct)
  case (run_begin s)
  then show ?case using measured_Begin Startup_Begin_fields(3) by (auto simp: agreed_def split: prod.splits)
next
  case (run_tick s t now ok t' s')
  have "measured s'" using measured_Tick [of s "recorded T" "(t, [])" now] run_tick by simp
  then show ?case using Startup_Tick_steps(1) [OF run_tick.hyps(2)] run_tick.IH by (simp add: kept_def)
next
  case (run_receive s t p now ok t' s')
  have m: "measured s'" using measured_Receive [of s "recorded T" "(t, [])" p now] run_receive by simp
  have "sc_playerCount (su_session s) \<le> 3" using run_receive.IH by (simp add: measured_def admissible_def)
  then show ?case using m Startup_Receive_steps(1) [OF run_receive.hyps(2)] run_receive.IH by (simp add: kept_def)
qed

lemma worst_report_Max:
  "unat (rp_p95Us (worst_report R peers l)) = Max (insert (unat (rp_p95Us l)) ((\<lambda>p. unat (rp_p95Us (R p))) ` set peers))"
proof (induction peers arbitrary: l)
  case Nil
  then show ?case by (simp add: worst_report_def)
next
  case (Cons p peers)
  let ?l = "if rp_p95Us (R p) > rp_p95Us l then R p else l" and ?f = "\<lambda>p. unat (rp_p95Us (R p))"
  have "unat (rp_p95Us ?l) = max (unat (rp_p95Us l)) (?f p)" by (simp add: word_less_nat_alt max_def)
  moreover have "worst_report R (p # peers) l = worst_report R peers ?l" by (simp add: worst_report_def)
  ultimately show ?case using Cons.IH [of ?l] by (cases "peers = []") (simp_all add: max.assoc)
qed

lemma Choose_values:
  fixes mode :: u8 and request reserve :: u32
  assumes "unat (rp_p95Us r) \<le> 1000000"
  defines "c \<equiv> Choose r r mode request reserve"
  shows "unat (co_fullDelay c) = max 1 ((unat (rp_p95Us r) div 2 * 60 + 999999) div 1000000)"
    "unat (co_prediction c) \<le> 2" "request \<noteq> Automatic \<Longrightarrow> co_delay c = request"
    "request = Automatic \<Longrightarrow> unat (co_delay c) + unat (co_prediction c) = unat (co_fullDelay c) \<and> 1 \<le> unat (co_delay c)"
proof -
  define w where "w = unat (rp_p95Us r)"
  define f :: u32 where "f = max 1 (ucast (((ucast (rp_p95Us r) :: u64) div 2 * 60 + 999999) div 1000000))"
  have w: "w \<le> 1000000" using assms(1) by (simp add: w_def)
  have u: "unat (ucast (rp_p95Us r) :: u64) = w" by (simp add: w_def unsigned_ucast_eq take_bit_nat_eq_self_iff order_less_le_trans [OF unsigned_less])
  have h: "w div 2 \<le> 500000" using div_le_mono [OF w, of 2] by simp
  then have "w div 2 * 60 + 999999 \<le> 30999999" by linarith
  then have s: "(w div 2 * 60 + 999999) div 1000000 \<le> 31" using div_le_mono [of "w div 2 * 60 + 999999" 30999999 1000000] by simp
  have v: "unat ((ucast (rp_p95Us r) :: u64) div 2) = w div 2" by (simp add: unat_div u)
  have v60: "unat ((ucast (rp_p95Us r) :: u64) div 2 * 60) = w div 2 * 60"
    using h by (subst unat_mult_lem [THEN iffD1]) (simp_all add: v)
  have "unat ((ucast (rp_p95Us r) :: u64) div 2 * 60 + 999999) = w div 2 * 60 + 999999"
    using h by (subst unat_add_lem [THEN iffD1]) (simp_all add: v60)
  then have d: "unat (((ucast (rp_p95Us r) :: u64) div 2 * 60 + 999999) div 1000000) = (w div 2 * 60 + 999999) div 1000000"
    by (simp add: unat_div)
  have f: "unat f = max 1 ((w div 2 * 60 + 999999) div 1000000)"
  proof -
    have "unat (ucast (((ucast (rp_p95Us r) :: u64) div 2 * 60 + 999999) div 1000000) :: u32) = (w div 2 * 60 + 999999) div 1000000"
      using s by (subst ucast_small) (simp_all only: d)
    then show ?thesis by (simp add: f_def max_def word_le_nat_alt)
  qed
  then have f1: "1 \<le> unat f" by simp
  let ?a = "f - (if request = Automatic then 1 else 0)"
  define p where "p = (if mode = AdonisMode_Hybrid then min ?a (min reserve 2) else 0)"
  have c: "c = \<lparr>co_fullDelay = f, co_delay = (if request = Automatic then f - p else request), co_prediction = p\<rparr>"
    by (simp add: c_def Choose_def f_def p_def Let_def)
  have a: "unat ?a = unat f - (if request = Automatic then 1 else 0)"
    using f1 by (simp add: unat_sub word_le_nat_alt)
  have p: "unat p \<le> 2" "unat p \<le> unat ?a" by (auto simp: p_def min_def word_le_nat_alt)
  show "unat (co_fullDelay c) = max 1 ((unat (rp_p95Us r) div 2 * 60 + 999999) div 1000000)" using f by (simp add: c w_def)
  show "unat (co_prediction c) \<le> 2" using p(1) by (simp add: c)
  show "request \<noteq> Automatic \<Longrightarrow> co_delay c = request" by (simp add: c)
  show "unat (co_delay c) + unat (co_prediction c) = unat (co_fullDelay c) \<and> 1 \<le> unat (co_delay c)" if "request = Automatic"
  proof -
    have "unat p + 1 \<le> unat f" using p(2) a f1 that by simp
    moreover from this have "unat (f - p) = unat f - unat p" by (simp add: unat_sub word_le_nat_alt)
    ultimately show ?thesis using that by (simp add: c)
  qed
qed

text \<open>
  C38: A committed timing is measured. Whatever packets a seat receives, once it has committed it holds a
  valid report for every seat (96 to 120 usable round trips, an ordered minimum, tail, mean and maximum of at
  most a second), and its full delay is the number of 60 Hz frames, at least one, that half of the worst
  tail takes. With an automatic request the delay and the prediction reserve add up to the full delay and
  at least one frame of delay is left; otherwise the delay is the requested one. It never exceeds nine frames.
\<close>

theorem startup_commit_is_measured:
  assumes "startup_run config T s" "su_stage s = ST_Committed"
  shows "(\<forall>p. p < sc_playerCount (su_session s) \<longrightarrow> \<not> report_invalid (su_reports s p)) \<and>
    unat (co_fullDelay (su_choice s)) = max 1 ((Max ((\<lambda>p. unat (rp_p95Us (su_reports s p))) `
      {p. p < sc_playerCount (su_session s)}) div 2 * 60 + 999999) div 1000000) \<and>
    (if su_requested s = Automatic
     then unat (co_delay (su_choice s)) + unat (co_prediction (su_choice s)) = unat (co_fullDelay (su_choice s)) \<and>
       1 \<le> unat (co_delay (su_choice s))
     else co_delay (su_choice s) = su_requested s) \<and>
    unat (co_prediction (su_choice s)) \<le> 2 \<and> co_delay (su_choice s) \<le> 9"
proof -
  let ?n = "sc_playerCount (su_session s)" and ?l = "sc_localPlayer (su_session s)"
  let ?w = "worst_report (su_reports s) (seats ?n) (su_local s)" and ?f = "\<lambda>p. unat (rp_p95Us (su_reports s p))"
  have inv: "measured s" "agreed s" using startup_run_inv [OF assms(1)] by auto
  then have h: "su_haveLocal s" "su_summaryMask s = AllMask s" "su_choice s = ChooseAll s" "co_delay (ChooseAll s) \<le> 9"
    using assms(2) by (simp_all add: agreed_def)
  have ad: "?n \<le> 3" "?l < ?n" using inv(1) by (simp_all add: measured_def admissible_def)
  have valid: "\<not> report_invalid (su_reports s p)" if "p < ?n" for p
    using inv(1) that h(2) peer_bit_in_AllMask(1) [OF that ad(1)] by (simp add: measured_def)
  have local: "su_local s = su_reports s ?l" using inv(1) h(1) by (simp add: measured_def)
  have worst: "unat (rp_p95Us ?w) = Max (?f ` {p. p < ?n})"
    unfolding worst_report_Max local set_seats using ad(2) by (intro arg_cong [where f = Max]) auto
  have "?f p \<le> 1000000" if "p < ?n" for p
    using valid [OF that] by (simp add: report_invalid_def word_less_nat_alt)
  moreover have "?f ` {p. p < ?n} \<noteq> {}" "finite (?f ` {p. p < ?n})" using ad(2) by auto
  ultimately have le: "unat (rp_p95Us ?w) \<le> 1000000" unfolding worst by (subst Max_le_iff) auto
  have c: "su_choice s = Choose ?w ?w (su_mode s) (su_requested s) (su_reserve s)" using h(3) unfolding ChooseAll_def Let_def .
  have full: "unat (co_fullDelay (su_choice s)) = max 1 ((Max (?f ` {p. p < ?n}) div 2 * 60 + 999999) div 1000000)"
    unfolding c Choose_values(1) [OF le] worst by simp
  show ?thesis
    using valid full Choose_values(2-4) [OF le, where mode = "su_mode s" and request = "su_requested s" and reserve = "su_reserve s"] h(3,4)
    unfolding c [symmetric] by simp
qed

section \<open>Witness\<close>

lemma net_seat_run:
  "startup_net config T n P W \<Longrightarrow> p < n \<Longrightarrow> startup_run (config p) T (P p)"
proof (induction rule: startup_net.induct)
  case (net_begin P)
  obtain session now mode request reserve where "config p = (session, now, mode, request, reserve)" by (rule prod_cases5)
  then show ?case using net_begin(1) [OF net_begin.prems] by (intro run_begin) simp
next
  case (net_tick P W q t now ok t' L s')
  then show ?case by (auto intro: run_tick)
next
  case (net_receive P W q b t now ok t' L s')
  then show ?case by (auto intro: run_receive)
qed

theorem startup_commit_is_measured_witness:
  "\<exists>s. startup_run (demo_config 0) wire s \<and> su_stage s = ST_Committed \<and> su_choice s = demo_choice \<and>
     \<not> report_invalid (su_reports s 0) \<and> 1 \<le> unat (co_fullDelay (su_choice s)) \<and> co_delay (su_choice s) \<le> 9"
proof -
  obtain P W where n: "net P W" "su_stage (P 0) = ST_Committed" "su_choice (P 0) = demo_choice" using net_committed by blast
  have r: "startup_run (demo_config 0) wire (P 0)" by (rule net_seat_run [OF n(1)]) simp
  have "2 \<le> sc_playerCount (su_session (P 0))"
    using startup_run_inv [OF r] unfolding measured_def admissible_def by (elim conjE)
  then have pos: "0 < sc_playerCount (su_session (P 0))" by (rule order_less_le_trans [rotated]) simp
  note m = startup_commit_is_measured [OF r n(2)]
  have "\<not> report_invalid (su_reports (P 0) 0)" using m [THEN conjunct1] pos by blast
  moreover have "1 \<le> unat (co_fullDelay (su_choice (P 0)))" using m [THEN conjunct2, THEN conjunct1] by linarith
  moreover have "co_delay (su_choice (P 0)) \<le> 9" using m by (elim conjE) assumption
  ultimately show ?thesis using r n(2,3) by blast
qed

end
