(* ===== verification/Spectator.thy ===== *)
theory Spectator
  imports Wire
begin

text \<open>
  The receive-only spectator lane of cooperative games: \<^verbatim>\<open>SpectatorStageProtocol.hpp\<close> (the events and
  their codec), \<^verbatim>\<open>SpectatorStagePublisher.hpp\<close> (the player that publishes the confirmed frames),
  \<^verbatim>\<open>SpectatorStageHistory.hpp\<close> (what a viewer has received) and \<^verbatim>\<open>SpectatorStagePlayback.hpp\<close> (the viewer
  that restores a checkpoint and replays the inputs after it).

  The enumerators \<^verbatim>\<open>SpectatorEventKind\<close> and \<^verbatim>\<open>SpectatorNodeKind\<close> are read from the wire by a cast, so the
  fields hold the byte. The \<^verbatim>\<open>send\<close> callback of the publisher works on a state \<open>'s\<close>; the callbacks of the
  playback work on the world \<open>'w\<close> they drive.
\<close>

section \<open>The events\<close>

definition SE_Checkpoint :: u8 where "SE_Checkpoint = 1"
definition SE_Node :: u8 where "SE_Node = 2"
definition SE_End :: u8 where "SE_End = 3"
definition SE_Bootstrap :: u8 where "SE_Bootstrap = 4"
definition SN_Stage :: u8 where "SN_Stage = 1"
definition SN_Boss :: u8 where "SN_Boss = 2"

lemmas stage_kinds = SE_Checkpoint_def SE_Node_def SE_End_def SE_Bootstrap_def SN_Stage_def SN_Boss_def

record SpectatorStageEvent =
  se_game :: u8
  se_playerCount :: u8
  se_kind :: u8
  se_sessionId :: u64
  se_gameplayAbi :: u32
  se_frame :: u32
  se_stage :: u32
  se_serial :: u32
  se_schema :: u32
  se_checkpoint :: u32
  se_node :: u8
  se_bossSlots :: u8
  se_state :: bytes

definition StageEvent_default :: SpectatorStageEvent where
  "StageEvent_default = \<lparr>se_game = 0, se_playerCount = 0, se_kind = SE_Checkpoint, se_sessionId = 0,
     se_gameplayAbi = 0, se_frame = INVALID_FRAME, se_stage = 0, se_serial = 0, se_schema = 0, se_checkpoint = 0,
     se_node = SN_Stage, se_bossSlots = 0, se_state = []\<rparr>"

definition SpectatorStageHeaderBytes :: nat where "SpectatorStageHeaderBytes = 32"
definition SpectatorStageMaxStateBytes :: nat where "SpectatorStageMaxStateBytes = 60 * 1024"

text \<open>The games, by their character codes: \<^verbatim>\<open>6 7 8 A B F\<close>.\<close>

definition IsCooperativeSpectatorGame :: "u8 \<Rightarrow> bool" where
  "IsCooperativeSpectatorGame game \<longleftrightarrow>
     game = 0x36 \<or> game = 0x37 \<or> game = 0x38 \<or> game = 0x41 \<or> game = 0x42 \<or> game = 0x46"

definition IsSpectatorStageEvent :: "bytes \<Rightarrow> bool" where
  "IsSpectatorStageEvent data \<longleftrightarrow> length data \<ge> 4 \<and> data ! 0 = 0x45 \<and>
     IsCooperativeSpectatorGame (data ! 1) \<and> data ! 2 = 0x53 \<and> data ! 3 = 0x56"

definition stage_put :: "bytes \<Rightarrow> nat \<Rightarrow> u64 \<Rightarrow> nat \<Rightarrow> bytes" where
  "stage_put data at value n = foldl (\<lambda>data i. data[at + i := ucast (drop_bit (8 * i) value)]) data [0..<n]"

definition stage_get :: "bytes \<Rightarrow> nat \<Rightarrow> nat \<Rightarrow> u64" where
  "stage_get data at n = foldl (\<lambda>value i. value OR push_bit (8 * i) (ucast (data ! (at + i)))) 0 [0..<n]"

definition StageEvent_Valid :: "SpectatorStageEvent \<Rightarrow> bool" where
  "StageEvent_Valid event =
     (if \<not> IsCooperativeSpectatorGame (se_game event) \<or> se_playerCount event < 2 \<or>
        se_playerCount event > MAX_PLAYERS \<or> se_sessionId event = 0 \<or> se_gameplayAbi event = 0 \<or>
        se_frame event = INVALID_FRAME \<or> se_stage event > 65535 \<or> se_serial event = 0
      then False
      else if se_kind event = SE_Checkpoint
      then se_schema event \<noteq> 0 \<and> se_state event \<noteq> [] \<and> length (se_state event) \<le> SpectatorStageMaxStateBytes
      else if se_kind event = SE_Node
      then se_state event = [] \<and> se_checkpoint event \<noteq> 0 \<and>
        ((se_node event = SN_Stage \<and> se_bossSlots event = 0) \<or> (se_node event = SN_Boss \<and> se_bossSlots event \<noteq> 0))
      else if se_kind event = SE_End \<or> se_kind event = SE_Bootstrap then se_state event = []
      else False)"

definition EncodeSpectatorStageEvent :: "SpectatorStageEvent \<Rightarrow> bytes option" where
  "EncodeSpectatorStageEvent event =
     (if \<not> StageEvent_Valid event then None
      else
        let extra = (if se_kind event = SE_Checkpoint \<or> se_kind event = SE_Node then 8 else 0);
            data = replicate (SpectatorStageHeaderBytes + extra + length (se_state event)) 0;
            data = data[0 := 0x45, 1 := se_game event, 2 := 0x53, 3 := 0x56];
            data = data[4 := 1, 5 := se_kind event, 6 := se_playerCount event];
            data = stage_put data 8 (se_sessionId event) 8;
            data = stage_put data 16 (ucast (se_gameplayAbi event)) 4;
            data = stage_put data 20 (ucast (se_frame event)) 4;
            data = stage_put data 24 (ucast (se_stage event)) 4;
            data = stage_put data 28 (ucast (se_serial event)) 4
        in if se_kind event = SE_Checkpoint then
             let data = stage_put data 32 (ucast (se_schema event)) 4;
                 data = stage_put data 36 (word_of_nat (length (se_state event))) 4
             in Some (take 40 data @ se_state event)
           else if se_kind event = SE_Node then
             let data = stage_put data 32 (ucast (se_checkpoint event)) 4
             in Some (data[36 := se_node event, 37 := se_bossSlots event])
           else Some data)"

text \<open>The decoder writes \<^verbatim>\<open>*output\<close> only on success.\<close>

definition DecodeSpectatorStageEvent :: "bytes \<Rightarrow> SpectatorStageEvent option" where
  "DecodeSpectatorStageEvent data =
     (let size = length data in
      if \<not> IsSpectatorStageEvent data \<or> size < SpectatorStageHeaderBytes \<or>
         size > 40 + SpectatorStageMaxStateBytes \<or> data ! 4 \<noteq> 1 \<or> data ! 7 \<noteq> 0
      then None
      else
        let event = StageEvent_default\<lparr>se_game := data ! 1, se_kind := data ! 5, se_playerCount := data ! 6,
              se_sessionId := stage_get data 8 8, se_gameplayAbi := ucast (stage_get data 16 4),
              se_frame := ucast (stage_get data 20 4), se_stage := ucast (stage_get data 24 4),
              se_serial := ucast (stage_get data 28 4)\<rparr>;
            body =
              (if se_kind event = SE_Checkpoint then
                 if size < 40 \<or> stage_get data 36 4 \<noteq> word_of_nat (size - 40) then None
                 else Some (event\<lparr>se_schema := ucast (stage_get data 32 4), se_state := drop 40 data\<rparr>)
               else if se_kind event = SE_Node then
                 if size \<noteq> 40 \<or> data ! 38 \<noteq> 0 \<or> data ! 39 \<noteq> 0 then None
                 else Some (event\<lparr>se_checkpoint := ucast (stage_get data 32 4), se_node := data ! 36,
                   se_bossSlots := data ! 37\<rparr>)
               else if (se_kind event \<noteq> SE_End \<and> se_kind event \<noteq> SE_Bootstrap) \<or> size \<noteq> 32 then None
               else Some event)
        in case body of None \<Rightarrow> None | Some event \<Rightarrow> if StageEvent_Valid event then Some event else None)"

section \<open>The publisher\<close>

definition PublisherCapacity :: nat where "PublisherCapacity = 256"

datatype CheckpointRequirement = CR_Required | CR_NotRequired | CR_AlreadyPublished | CR_MissingPredecessor

datatype PublishFailure = PF_None | PF_InvalidPublisher | PF_MissingRecord | PF_StageCheckpointMissing
  | PF_CheckpointEncode | PF_CheckpointSend | PF_InputUnavailable | PF_InputEncode | PF_InputSend
  | PF_BossNodeEncode | PF_BossNodeSend

fun FailureName :: "PublishFailure \<Rightarrow> string" where
  "FailureName PF_None = ''none''"
| "FailureName PF_InvalidPublisher = ''invalid-publisher''"
| "FailureName PF_MissingRecord = ''missing-record''"
| "FailureName PF_StageCheckpointMissing = ''stage-checkpoint-missing''"
| "FailureName PF_CheckpointEncode = ''checkpoint-encode''"
| "FailureName PF_CheckpointSend = ''checkpoint-send''"
| "FailureName PF_InputUnavailable = ''input-unavailable''"
| "FailureName PF_InputEncode = ''input-encode''"
| "FailureName PF_InputSend = ''input-send''"
| "FailureName PF_BossNodeEncode = ''boss-node-encode''"
| "FailureName PF_BossNodeSend = ''boss-node-send''"

record StageFrame =
  fr_frame :: u32
  fr_stage :: u32
  fr_schema :: u32
  fr_initializer :: bytes
  fr_inputs :: "nat \<Rightarrow> FrameInput"
  fr_hasInputs :: bool
  fr_bossSlots :: u8

definition StageFrame_default :: StageFrame where
  "StageFrame_default = \<lparr>fr_frame = INVALID_FRAME, fr_stage = 0, fr_schema = 0, fr_initializer = [],
     fr_inputs = (\<lambda>_. FrameInput_default), fr_hasInputs = False, fr_bossSlots = 0\<rparr>"

record SpectatorStagePublisher =
  pb_records :: "nat \<Rightarrow> StageFrame"
  pb_identity :: SpectatorStageEvent
  pb_firstFrame :: u32
  pb_next :: u32
  pb_stage :: u32
  pb_serial :: u32
  pb_checkpoint :: u32
  pb_phase :: nat
  pb_ended :: bool

definition Publisher_default :: SpectatorStagePublisher where
  "Publisher_default = \<lparr>pb_records = (\<lambda>_. StageFrame_default), pb_identity = StageEvent_default, pb_firstFrame = 0,
     pb_next = 0, pb_stage = 0, pb_serial = 0, pb_checkpoint = 0, pb_phase = 0, pb_ended = False\<rparr>"

definition ring_slot :: "u32 \<Rightarrow> nat" where
  "ring_slot frame = unat frame mod PublisherCapacity"

definition Publisher_Reset ::
    "SpectatorStagePublisher \<Rightarrow> u8 \<Rightarrow> u8 \<Rightarrow> u64 \<Rightarrow> u32 \<Rightarrow> u32 \<Rightarrow> bool \<times> SpectatorStagePublisher" where
  "Publisher_Reset b game n session abi firstFrame =
     (let check = StageEvent_default\<lparr>se_game := game, se_playerCount := n, se_sessionId := session,
            se_gameplayAbi := abi, se_frame := firstFrame, se_serial := 1, se_schema := 1, se_state := [1]\<rparr>
      in if \<not> StageEvent_Valid check then (False, b)
         else (True, Publisher_default\<lparr>pb_identity := check\<lparr>se_state := [], se_schema := 0, se_serial := 0\<rparr>,
           pb_firstFrame := firstFrame, pb_next := firstFrame\<rparr>))"

definition NeedsCheckpoint :: "SpectatorStagePublisher \<Rightarrow> u32 \<Rightarrow> u32 \<Rightarrow> CheckpointRequirement" where
  "NeedsCheckpoint b frame stage =
     (if se_sessionId (pb_identity b) = 0 \<or> frame = INVALID_FRAME \<or> stage > 65535 \<or> frame < pb_firstFrame b
      then CR_MissingPredecessor
      else if frame < pb_next b then CR_AlreadyPublished
      else if unat (frame - pb_next b) \<ge> PublisherCapacity then CR_MissingPredecessor
      else if frame = pb_firstFrame b then CR_Required
      else if \<not> list_all (\<lambda>i. fr_frame (pb_records b (ring_slot (pb_next b + word_of_nat i))) = pb_next b + word_of_nat i)
             [0..<unat (frame - pb_next b)]
      then CR_MissingPredecessor
      else
        let predecessor = pb_records b (ring_slot (frame - 1))
        in if fr_frame predecessor \<noteq> frame - 1 then CR_MissingPredecessor
           else if fr_stage predecessor = stage then CR_NotRequired else CR_Required)"

definition frame_packet :: "SpectatorStagePublisher \<Rightarrow> u32 \<Rightarrow> (nat \<Rightarrow> FrameInput) \<Rightarrow> SpectatorFramePacket" where
  "frame_packet b frame inputs = \<lparr>sf_sessionId = se_sessionId (pb_identity b), sf_frame = frame,
     sf_gameplayAbi = se_gameplayAbi (pb_identity b), sf_playerCount = se_playerCount (pb_identity b),
     sf_inputs = inputs\<rparr>"

definition SameInputs :: "ProtocolConfig \<Rightarrow> SpectatorStagePublisher \<Rightarrow> StageFrame \<Rightarrow> StageFrame \<Rightarrow> bool" where
  "SameInputs cfg b x y =
     (if \<not> fr_hasInputs x \<or> \<not> fr_hasInputs y then True
      else
        let (ok, former) = EncodeSpectatorFramePacket cfg (frame_packet b (fr_frame x) (fr_inputs x)) []
        in if \<not> ok then False
           else let (ok, latter) = EncodeSpectatorFramePacket cfg (frame_packet b (fr_frame x) (fr_inputs y)) []
             in ok \<and> former = latter)"

definition Publisher_Record ::
    "ProtocolConfig \<Rightarrow> SpectatorStagePublisher \<Rightarrow> StageFrame \<Rightarrow> bool \<times> SpectatorStagePublisher" where
  "Publisher_Record cfg b frame =
     (let old = pb_records b (ring_slot (fr_frame frame)) in
      if se_sessionId (pb_identity b) = 0 \<or> pb_ended b \<or> fr_frame frame = INVALID_FRAME \<or> fr_stage frame > 65535 \<or>
         length (fr_initializer frame) > SpectatorStageMaxStateBytes \<or>
         (fr_schema frame \<noteq> 0) \<noteq> (fr_initializer frame \<noteq> [])
      then (False, b)
      else if fr_frame frame < pb_next b
      then (fr_frame old \<noteq> fr_frame frame \<or> SameInputs cfg b old frame, b)
      else if unat (fr_frame frame - pb_next b) \<ge> PublisherCapacity then (False, b)
      else if fr_frame frame = pb_next b \<and> pb_phase b \<noteq> 0
      then (fr_frame old = fr_frame frame \<and> fr_stage old = fr_stage frame \<and> fr_schema old = fr_schema frame \<and>
        fr_initializer old = fr_initializer frame \<and> fr_bossSlots old = fr_bossSlots frame \<and>
        SameInputs cfg b old frame, b)
      else (True, b\<lparr>pb_records := (pb_records b)(ring_slot (fr_frame frame) := frame)\<rparr>))"

text \<open>\<^verbatim>\<open>Event\<close>: encode, send, and only then count the serial. The failure is \<open>PF_None\<close> on success.\<close>

definition Publisher_Event ::
    "('s \<Rightarrow> bytes \<Rightarrow> bool \<times> 's) \<Rightarrow> 's \<Rightarrow> SpectatorStagePublisher \<Rightarrow> SpectatorStageEvent \<Rightarrow> PublishFailure \<Rightarrow> PublishFailure \<Rightarrow>
      bool \<times> PublishFailure \<times> 's \<times> SpectatorStagePublisher" where
  "Publisher_Event send s b event encodeFailure sendFailure =
     (if se_serial event = 0 then (False, encodeFailure, s, b)
      else case EncodeSpectatorStageEvent event of
        None \<Rightarrow> (False, encodeFailure, s, b)
      | Some wire \<Rightarrow>
          (case send s wire of
            (False, s) \<Rightarrow> (False, sendFailure, s, b)
          | (True, s) \<Rightarrow> (True, PF_None, s, b\<lparr>pb_serial := se_serial event\<rparr>)))"

text \<open>The three phases of one frame: the checkpoint of its stage, its inputs, and the bosses seen in it.\<close>

definition publish_checkpoint ::
    "('s \<Rightarrow> bytes \<Rightarrow> bool \<times> 's) \<Rightarrow> StageFrame \<Rightarrow> 's \<Rightarrow> SpectatorStagePublisher \<Rightarrow>
      bool \<times> PublishFailure \<times> 's \<times> SpectatorStagePublisher" where
  "publish_checkpoint send frame s b =
     (if pb_phase b = 0 then
        if fr_initializer frame \<noteq> [] then
          let event = (pb_identity b)\<lparr>se_frame := pb_next b, se_stage := fr_stage frame, se_kind := SE_Checkpoint,
                se_serial := pb_serial b + 1, se_schema := fr_schema frame, se_state := fr_initializer frame\<rparr>
          in case Publisher_Event send s b event PF_CheckpointEncode PF_CheckpointSend of
              (False, failure, s, b) \<Rightarrow> (False, failure, s, b)
            | (True, _, s, b) \<Rightarrow> (True, PF_None, s, b\<lparr>pb_checkpoint := pb_serial b, pb_stage := fr_stage frame, pb_phase := 1\<rparr>)
        else if pb_checkpoint b = 0 \<or> fr_stage frame \<noteq> pb_stage b then (False, PF_StageCheckpointMissing, s, b)
        else (True, PF_None, s, b\<lparr>pb_phase := 1\<rparr>)
      else (True, PF_None, s, b))"

definition publish_input ::
    "ProtocolConfig \<Rightarrow> (u32 \<Rightarrow> (nat \<Rightarrow> FrameInput) option) \<Rightarrow> ('s \<Rightarrow> bytes \<Rightarrow> bool \<times> 's) \<Rightarrow> StageFrame \<Rightarrow> 's \<Rightarrow>
      SpectatorStagePublisher \<Rightarrow> bool \<times> PublishFailure \<times> 's \<times> SpectatorStagePublisher" where
  "publish_input cfg inputs send frame s b =
     (if pb_phase b = 1 then
        case (if fr_hasInputs frame then Some (fr_inputs frame) else inputs (pb_next b)) of
          None \<Rightarrow> (False, PF_InputUnavailable, s, b)
        | Some lanes \<Rightarrow>
            let (ok, wire) = EncodeSpectatorFramePacket cfg (frame_packet b (pb_next b) lanes) []
            in if \<not> ok then (False, PF_InputEncode, s, b)
               else (case send s wire of
                   (False, s) \<Rightarrow> (False, PF_InputSend, s, b)
                 | (True, s) \<Rightarrow> (True, PF_None, s, b\<lparr>pb_phase := 2\<rparr>))
      else (True, PF_None, s, b))"

definition publish_boss ::
    "('s \<Rightarrow> bytes \<Rightarrow> bool \<times> 's) \<Rightarrow> StageFrame \<Rightarrow> 's \<Rightarrow> SpectatorStagePublisher \<Rightarrow>
      bool \<times> PublishFailure \<times> 's \<times> SpectatorStagePublisher" where
  "publish_boss send frame s b =
     (if fr_bossSlots frame \<noteq> 0 then
        let event = (pb_identity b)\<lparr>se_kind := SE_Node, se_frame := pb_next b + 1, se_stage := pb_stage b,
              se_serial := pb_serial b + 1, se_checkpoint := pb_checkpoint b, se_node := SN_Boss,
              se_bossSlots := fr_bossSlots frame\<rparr>
        in Publisher_Event send s b event PF_BossNodeEncode PF_BossNodeSend
      else (True, PF_None, s, b))"

definition publish_frame ::
    "ProtocolConfig \<Rightarrow> (u32 \<Rightarrow> (nat \<Rightarrow> FrameInput) option) \<Rightarrow> ('s \<Rightarrow> bytes \<Rightarrow> bool \<times> 's) \<Rightarrow> 's \<Rightarrow>
      SpectatorStagePublisher \<Rightarrow> bool \<times> PublishFailure \<times> 's \<times> SpectatorStagePublisher" where
  "publish_frame cfg inputs send s b =
     (let frame = pb_records b (ring_slot (pb_next b)) in
      if fr_frame frame \<noteq> pb_next b then (False, PF_MissingRecord, s, b)
      else case publish_checkpoint send frame s b of
        (False, r) \<Rightarrow> (False, r)
      | (True, _, s, b) \<Rightarrow> (case publish_input cfg inputs send frame s b of
          (False, r) \<Rightarrow> (False, r)
        | (True, _, s, b) \<Rightarrow> (case publish_boss send frame s b of
            (False, r) \<Rightarrow> (False, r)
          | (True, _, s, b) \<Rightarrow> (True, PF_None, s, b\<lparr>pb_next := pb_next b + 1, pb_phase := 0\<rparr>))))"

text \<open>
  The loop \<^verbatim>\<open>while (next_ <= last)\<close>. Every pass that goes on increments \<^verbatim>\<open>next_\<close>, so the number of frames
  from \<^verbatim>\<open>next_\<close> to \<^verbatim>\<open>last\<close> bounds the passes; \<^verbatim>\<open>last\<close> is below \<^verbatim>\<open>INVALID_FRAME\<close> here.
\<close>

fun publish_loop ::
    "nat \<Rightarrow> ProtocolConfig \<Rightarrow> (u32 \<Rightarrow> (nat \<Rightarrow> FrameInput) option) \<Rightarrow> ('s \<Rightarrow> bytes \<Rightarrow> bool \<times> 's) \<Rightarrow> u32 \<Rightarrow> 's \<Rightarrow>
      SpectatorStagePublisher \<Rightarrow> bool \<times> PublishFailure \<times> 's \<times> SpectatorStagePublisher" where
  "publish_loop 0 cfg inputs send lastFrame s b = (True, PF_None, s, b)"
| "publish_loop (Suc n) cfg inputs send lastFrame s b =
     (if pb_next b \<le> lastFrame then
        case publish_frame cfg inputs send s b of
          (False, r) \<Rightarrow> (False, r)
        | (True, _, s, b) \<Rightarrow> publish_loop n cfg inputs send lastFrame s b
      else (True, PF_None, s, b))"

definition Publish ::
    "ProtocolConfig \<Rightarrow> SpectatorStagePublisher \<Rightarrow> u32 \<Rightarrow> u32 \<Rightarrow> (u32 \<Rightarrow> (nat \<Rightarrow> FrameInput) option) \<Rightarrow>
      ('s \<Rightarrow> bytes \<Rightarrow> bool \<times> 's) \<Rightarrow> 's \<Rightarrow> bool \<times> PublishFailure \<times> 's \<times> SpectatorStagePublisher" where
  "Publish cfg b confirmed simulated inputs send s =
     (if se_sessionId (pb_identity b) = 0 \<or> pb_ended b then (False, PF_InvalidPublisher, s, b)
      else if confirmed = INVALID_FRAME \<or> simulated = INVALID_FRAME then (True, PF_None, s, b)
      else
        let lastFrame = min confirmed simulated
        in publish_loop (unat lastFrame + 1 - unat (pb_next b)) cfg inputs send lastFrame s b)"

definition Publisher_Finish ::
    "('s \<Rightarrow> bytes \<Rightarrow> bool \<times> 's) \<Rightarrow> 's \<Rightarrow> SpectatorStagePublisher \<Rightarrow> u32 \<Rightarrow> bool \<times> 's \<times> SpectatorStagePublisher" where
  "Publisher_Finish send s b endFrame =
     (if pb_ended b \<or> pb_checkpoint b = 0 \<or> pb_phase b \<noteq> 0 \<or> endFrame \<noteq> pb_next b then (False, s, b)
      else
        let event = (pb_identity b)\<lparr>se_kind := SE_End, se_frame := pb_next b, se_stage := pb_stage b,
              se_serial := pb_serial b + 1\<rparr>
        in case Publisher_Event send s b event PF_None PF_None of
            (False, _, s, b) \<Rightarrow> (False, s, b)
          | (True, _, s, b) \<Rightarrow> (True, s, b\<lparr>pb_ended := True\<rparr>))"

section \<open>The received history\<close>

definition HistoryMaxFrames :: nat where "HistoryMaxFrames = 108000"
definition HistoryMaxBytes :: nat where "HistoryMaxBytes = 16 * 1024 * 1024"

record StageSegment =
  sm_checkpoint :: SpectatorStageEvent
  sm_inputs :: "SpectatorFramePacket list"
  sm_nodes :: "SpectatorStageEvent list"
  sm_ended :: bool

record SpectatorStageHistory =
  hi_segments :: "StageSegment list"
  hi_next :: u32
  hi_serial :: u32
  hi_bytes :: nat
  hi_frames :: nat
  hi_ended :: bool

definition History_default :: SpectatorStageHistory where
  "History_default = \<lparr>hi_segments = [], hi_next = 0, hi_serial = 0, hi_bytes = 0, hi_frames = 0, hi_ended = False\<rparr>"

text \<open>A change of \<^verbatim>\<open>segments_.back()\<close>.\<close>

definition set_back_segment :: "(StageSegment \<Rightarrow> StageSegment) \<Rightarrow> StageSegment list \<Rightarrow> StageSegment list" where
  "set_back_segment f segments = butlast segments @ [f (last segments)]"

definition event_refused :: "SpectatorStageHistory \<Rightarrow> SpectatorStageEvent \<Rightarrow> bool" where
  "event_refused h event \<longleftrightarrow>
     (if hi_segments h = [] then se_kind event \<noteq> SE_Checkpoint
      else
        let identity = sm_checkpoint (last (hi_segments h))
        in hi_ended h \<or> se_game event \<noteq> se_game identity \<or> se_sessionId event \<noteq> se_sessionId identity \<or>
           se_gameplayAbi event \<noteq> se_gameplayAbi identity \<or> se_playerCount event \<noteq> se_playerCount identity \<or>
           se_serial event \<le> hi_serial h \<or> se_frame event \<noteq> hi_next h \<or>
           (se_kind event \<noteq> SE_Checkpoint \<and> se_stage event \<noteq> se_stage identity) \<or>
           (se_kind event = SE_Checkpoint \<and> se_frame event \<le> se_frame identity))"

definition History_AcceptEvent :: "SpectatorStageHistory \<Rightarrow> SpectatorStageEvent \<Rightarrow> bool \<times> SpectatorStageHistory" where
  "History_AcceptEvent h event =
     (if \<not> StageEvent_Valid event \<or> se_kind event = SE_Bootstrap \<or> event_refused h event then (False, h)
      else
        let size = SpectatorStageHeaderBytes + (if se_kind event = SE_End then 0 else 8) + length (se_state event)
        in if size > HistoryMaxBytes - hi_bytes h then (False, h)
           else if se_kind event = SE_Checkpoint then
             (True, h\<lparr>hi_segments := hi_segments h @
                 [\<lparr>sm_checkpoint = event, sm_inputs = [], sm_nodes = [], sm_ended = False\<rparr>],
               hi_next := se_frame event, hi_serial := se_serial event, hi_bytes := hi_bytes h + size\<rparr>)
           else if se_kind event = SE_Node then
             if se_checkpoint event \<noteq> se_serial (sm_checkpoint (last (hi_segments h))) then (False, h)
             else (True, h\<lparr>hi_segments := set_back_segment (\<lambda>m. m\<lparr>sm_nodes := sm_nodes m @ [event]\<rparr>) (hi_segments h),
               hi_serial := se_serial event, hi_bytes := hi_bytes h + size\<rparr>)
           else
             (True, h\<lparr>hi_segments := set_back_segment (\<lambda>m. m\<lparr>sm_ended := True\<rparr>) (hi_segments h), hi_ended := True,
               hi_serial := se_serial event, hi_bytes := hi_bytes h + size\<rparr>))"

definition History_AcceptInput ::
    "ProtocolConfig \<Rightarrow> SpectatorStageHistory \<Rightarrow> SpectatorFramePacket \<Rightarrow> bool \<times> SpectatorStageHistory" where
  "History_AcceptInput cfg h packet =
     (let size = 24 + 12 * unat (sf_playerCount packet) in
      if hi_segments h = [] \<or> hi_ended h \<or> sf_frame packet \<noteq> hi_next h \<or> sf_frame packet = INVALID_FRAME \<or>
         hi_frames h \<ge> HistoryMaxFrames \<or> size > HistoryMaxBytes - hi_bytes h
      then (False, h)
      else
        let checkpoint = sm_checkpoint (last (hi_segments h))
        in if sf_sessionId packet \<noteq> se_sessionId checkpoint \<or> sf_gameplayAbi packet \<noteq> se_gameplayAbi checkpoint \<or>
              sf_playerCount packet \<noteq> se_playerCount checkpoint \<or>
              \<not> list_all (\<lambda>i. IsValidFrameInput cfg (sf_inputs packet i)) [0..<unat (sf_playerCount packet)]
           then (False, h)
           else (True, h\<lparr>hi_segments := set_back_segment (\<lambda>m. m\<lparr>sm_inputs := sm_inputs m @ [packet]\<rparr>) (hi_segments h),
             hi_next := hi_next h + 1, hi_frames := hi_frames h + 1, hi_bytes := hi_bytes h + size\<rparr>))"

definition Locate :: "SpectatorStageHistory \<Rightarrow> u32 \<Rightarrow> StageSegment option" where
  "Locate h frame =
     find (\<lambda>m. frame \<ge> se_frame (sm_checkpoint m) \<and>
       unat (frame - se_frame (sm_checkpoint m)) \<le> length (sm_inputs m)) (rev (hi_segments h))"

definition BootstrapMatches :: "SpectatorStageHistory \<Rightarrow> SpectatorStageEvent \<Rightarrow> bool" where
  "BootstrapMatches h event \<longleftrightarrow> hi_segments h \<noteq> [] \<and> se_kind event = SE_Bootstrap \<and>
     (let checkpoint = sm_checkpoint (last (hi_segments h))
      in StageEvent_Valid event \<and> se_game event = se_game checkpoint \<and>
         se_playerCount event = se_playerCount checkpoint \<and> se_sessionId event = se_sessionId checkpoint \<and>
         se_gameplayAbi event = se_gameplayAbi checkpoint \<and> se_frame event = hi_next h \<and>
         se_stage event = se_stage checkpoint \<and> se_serial event = hi_serial h)"

section \<open>The playback\<close>

definition BufferFrames :: u32 where "BufferFrames = 90"

datatype PlaybackAction = PA_Pause | PA_Play | PA_Seek | PA_Live

record SpectatorStagePlayback =
  pl_history :: SpectatorStageHistory
  pl_position :: u32
  pl_target :: u32
  pl_restoredSerial :: u32
  pl_bootstrapped :: bool
  pl_initialized :: bool
  pl_restore :: bool
  pl_hasRestored :: bool
  pl_paused :: bool
  pl_seeking :: bool
  pl_following :: bool
  pl_liveRequested :: bool
  pl_failed :: bool

definition Playback_default :: SpectatorStagePlayback where
  "Playback_default = \<lparr>pl_history = History_default, pl_position = 0, pl_target = 0, pl_restoredSerial = 0,
     pl_bootstrapped = False, pl_initialized = False, pl_restore = False, pl_hasRestored = False, pl_paused = False,
     pl_seeking = False, pl_following = False, pl_liveRequested = False, pl_failed = False\<rparr>"

definition Edge :: "SpectatorStagePlayback \<Rightarrow> u32" where
  "Edge b =
     (let h = pl_history b in
      if hi_segments h = [] then 0
      else
        let first = se_frame (sm_checkpoint (hd (hi_segments h))); received = hi_next h
        in if hi_ended h then received else received - min BufferFrames (received - first))"

definition Playback_Request :: "SpectatorStagePlayback \<Rightarrow> u32 \<Rightarrow> bool \<Rightarrow> bool \<times> SpectatorStagePlayback" where
  "Playback_Request b frame live =
     (case Locate (pl_history b) frame of
        None \<Rightarrow> (False, b)
      | Some segment \<Rightarrow>
          (True, b\<lparr>pl_restore := pl_restore b \<or> \<not> pl_initialized b \<or> frame < pl_position b \<or> \<not> pl_hasRestored b \<or>
              pl_restoredSerial b \<noteq> se_serial (sm_checkpoint segment),
            pl_initialized := True, pl_target := frame, pl_seeking := True, pl_liveRequested := live,
            pl_following := False, pl_paused := False\<rparr>))"

definition Playback_ReceiveEvent :: "SpectatorStagePlayback \<Rightarrow> SpectatorStageEvent \<Rightarrow> bool \<times> SpectatorStagePlayback" where
  "Playback_ReceiveEvent b event =
     (if se_kind event = SE_Bootstrap then
        if pl_bootstrapped b \<or> \<not> BootstrapMatches (pl_history b) event then (False, b)
        else
          let b = b\<lparr>pl_bootstrapped := True\<rparr>; segment = last (hi_segments (pl_history b));
              target = foldl (\<lambda>target node. if se_frame node \<le> se_frame event then se_frame node else target)
                (se_frame (sm_checkpoint segment)) (sm_nodes segment)
          in Playback_Request b target False
      else case History_AcceptEvent (pl_history b) event of (ok, h) \<Rightarrow> (ok, b\<lparr>pl_history := h\<rparr>))"

definition Playback_ReceiveInput ::
    "ProtocolConfig \<Rightarrow> SpectatorStagePlayback \<Rightarrow> SpectatorFramePacket \<Rightarrow> bool \<times> SpectatorStagePlayback" where
  "Playback_ReceiveInput cfg b packet =
     (case History_AcceptInput cfg (pl_history b) packet of (ok, h) \<Rightarrow> (ok, b\<lparr>pl_history := h\<rparr>))"

definition Playback_Control :: "SpectatorStagePlayback \<Rightarrow> PlaybackAction \<Rightarrow> u32 \<Rightarrow> bool \<times> SpectatorStagePlayback" where
  "Playback_Control b action frame =
     (if \<not> pl_bootstrapped b \<or> pl_failed b then (False, b)
      else case action of
        PA_Pause \<Rightarrow> (True, b\<lparr>pl_paused := True\<rparr>)
      | PA_Play \<Rightarrow> (True, b\<lparr>pl_paused := False\<rparr>)
      | PA_Seek \<Rightarrow>
          (if frame > Edge b \<or> Locate (pl_history b) frame = None then (False, b)
           else case Playback_Request b frame False of
               (False, b) \<Rightarrow> (False, b)
             | (True, b') \<Rightarrow> (True, b'\<lparr>pl_paused := pl_paused b\<rparr>))
      | PA_Live \<Rightarrow> Playback_Request b (Edge b) True)"

text \<open>
  \<^verbatim>\<open>Step\<close>. \<^verbatim>\<open>restore\<close> and \<^verbatim>\<open>tick\<close> drive the world; the list \<open>yields\<close> has one entry for each of the
  \<^verbatim>\<open>budget\<close> passes, the answer of \<^verbatim>\<open>shouldYield\<close> in it. A failure of a callback is terminal.
\<close>

definition playback_restore ::
    "('w \<Rightarrow> SpectatorStageEvent \<Rightarrow> bool \<times> 'w) \<Rightarrow> StageSegment \<Rightarrow> 'w \<Rightarrow> SpectatorStagePlayback \<Rightarrow>
      bool \<times> 'w \<times> SpectatorStagePlayback" where
  "playback_restore restore segment w b =
     (case restore w (sm_checkpoint segment) of
        (False, w) \<Rightarrow> (False, w, b\<lparr>pl_failed := True\<rparr>)
      | (True, w) \<Rightarrow> (True, w, b\<lparr>pl_restoredSerial := se_serial (sm_checkpoint segment), pl_hasRestored := True\<rparr>))"

text \<open>The end of a pass; the flag says that the target of a seek is reached.\<close>

definition playback_advance :: "SpectatorStagePlayback \<Rightarrow> bool \<times> SpectatorStagePlayback" where
  "playback_advance b =
     (let b = b\<lparr>pl_position := pl_position b + 1\<rparr>
      in if pl_seeking b \<and> pl_position b = pl_target b
         then (True, b\<lparr>pl_seeking := False, pl_following := pl_liveRequested b\<rparr>)
         else (False, b))"

fun playback_loop ::
    "('w \<Rightarrow> SpectatorStageEvent \<Rightarrow> bool \<times> 'w) \<Rightarrow> ('w \<Rightarrow> SpectatorFramePacket \<Rightarrow> bool \<Rightarrow> bool \<times> 'w) \<Rightarrow>
      bool list \<Rightarrow> 'w \<Rightarrow> SpectatorStagePlayback \<Rightarrow> bool \<times> 'w \<times> SpectatorStagePlayback" where
  "playback_loop restore tick [] w b = (True, w, b)"
| "playback_loop restore tick (yield # yields) w b =
     (let limit = (if pl_seeking b then pl_target b else Edge b) in
      if pl_position b \<ge> limit
      then (True, w, if pl_seeking b then b\<lparr>pl_seeking := False, pl_following := pl_liveRequested b\<rparr> else b)
      else case Locate (pl_history b) (pl_position b) of
        None \<Rightarrow> (True, w, b)
      | Some segment \<Rightarrow>
          (let at = unat (pl_position b - se_frame (sm_checkpoint segment)) in
           if at \<ge> length (sm_inputs segment) then (True, w, b)
           else case
               (if \<not> pl_hasRestored b \<or> pl_restoredSerial b \<noteq> se_serial (sm_checkpoint segment)
                then if pl_position b \<noteq> se_frame (sm_checkpoint segment) then (False, w, b\<lparr>pl_failed := True\<rparr>)
                     else playback_restore restore segment w b
                else (True, w, b)) of
               (False, w, b) \<Rightarrow> (False, w, b)
             | (True, w, b) \<Rightarrow>
                 (case tick w (sm_inputs segment ! at) (pl_seeking b) of
                   (False, w) \<Rightarrow> (False, w, b\<lparr>pl_failed := True\<rparr>)
                 | (True, w) \<Rightarrow>
                     let (arrived, b) = playback_advance b
                     in if arrived \<or> yield then (True, w, b) else playback_loop restore tick yields w b)))"

definition Playback_Step ::
    "('w \<Rightarrow> SpectatorStageEvent \<Rightarrow> bool \<times> 'w) \<Rightarrow> ('w \<Rightarrow> SpectatorFramePacket \<Rightarrow> bool \<Rightarrow> bool \<times> 'w) \<Rightarrow>
      bool list \<Rightarrow> 'w \<Rightarrow> SpectatorStagePlayback \<Rightarrow> bool \<times> 'w \<times> SpectatorStagePlayback" where
  "Playback_Step restore tick yields w b =
     (if \<not> pl_bootstrapped b \<or> (pl_paused b \<and> \<not> pl_seeking b) \<or> pl_failed b then (\<not> pl_failed b, w, b)
      else if pl_restore b then
        case Locate (pl_history b) (pl_target b) of
          None \<Rightarrow> (False, w, b\<lparr>pl_failed := True\<rparr>)
        | Some segment \<Rightarrow>
            (case playback_restore restore segment w b of
              (False, w, b) \<Rightarrow> (False, w, b)
            | (True, w, b) \<Rightarrow> playback_loop restore tick yields w
                (b\<lparr>pl_position := se_frame (sm_checkpoint segment), pl_restore := False\<rparr>))
      else playback_loop restore tick yields w b)"

definition WaitingForLiveInput :: "SpectatorStagePlayback \<Rightarrow> bool" where
  "WaitingForLiveInput b \<longleftrightarrow> pl_bootstrapped b \<and> pl_following b \<and> \<not> pl_paused b \<and> \<not> pl_seeking b \<and>
     \<not> hi_ended (pl_history b) \<and> pl_position b \<ge> Edge b"

end
