(* ===== verification/SpectatorPlay.thy ===== *)
theory SpectatorPlay
  imports Spectator
begin

text \<open>
  What a viewer may rely on: the received history is a chain of checkpoints with the inputs of consecutive
  frames after each, and the world of the playback is always a checkpoint followed by exactly its inputs.
\<close>

section \<open>The shape of a history\<close>

abbreviation sm_frame :: "StageSegment \<Rightarrow> u32" where
  "sm_frame m \<equiv> se_frame (sm_checkpoint m)"

abbreviation sm_serial :: "StageSegment \<Rightarrow> u32" where
  "sm_serial m \<equiv> se_serial (sm_checkpoint m)"

definition segment_ok :: "StageSegment \<Rightarrow> bool" where
  "segment_ok m \<longleftrightarrow> unat (sm_frame m) + length (sm_inputs m) < 4294967296 \<and>
     (\<forall>i < length (sm_inputs m). sf_frame (sm_inputs m ! i) = sm_frame m + word_of_nat i)"

definition segment_before :: "StageSegment \<Rightarrow> StageSegment \<Rightarrow> bool" where
  "segment_before m m' \<longleftrightarrow> sm_serial m < sm_serial m' \<and> unat (sm_frame m) + length (sm_inputs m) \<le> unat (sm_frame m')"

definition history_ok :: "SpectatorStageHistory \<Rightarrow> bool" where
  "history_ok h \<longleftrightarrow> list_all segment_ok (hi_segments h) \<and> sorted_wrt segment_before (hi_segments h) \<and>
     (\<forall>m \<in> set (hi_segments h). sm_serial m \<le> hi_serial h) \<and>
     (hi_segments h \<noteq> [] \<longrightarrow>
       unat (hi_next h) = unat (sm_frame (last (hi_segments h))) + length (sm_inputs (last (hi_segments h))))"

lemma set_back_segment_snoc [simp]: "set_back_segment f (ms @ [m]) = ms @ [f m]"
  by (simp add: set_back_segment_def)

lemma history_ok_default: "history_ok History_default"
  by (simp add: history_ok_def History_default_def)

lemma history_ok_AcceptEvent:
  assumes ok: "history_ok h" and a: "History_AcceptEvent h e = (r, h')"
  shows "history_ok h'"
proof (cases "h' = h")
  case False
  then have g: "\<not> event_refused h e" using a by (auto simp: History_AcceptEvent_def split: if_splits)
  show ?thesis
  proof (cases "hi_segments h" rule: rev_cases)
    case Nil
    then have "se_kind e = SE_Checkpoint" using g by (simp add: event_refused_def)
    then show ?thesis using a False Nil ok
      by (auto simp: History_AcceptEvent_def Let_def history_ok_def segment_ok_def unat_frame_less split: if_splits)
  next
    case (snoc ms m)
    then have f: "hi_serial h < se_serial e" "se_frame e = hi_next h"
      using g by (auto simp: event_refused_def Let_def)
    have all: "list_all segment_ok ms" "segment_ok m" "sorted_wrt segment_before ms" "\<forall>a \<in> set ms. segment_before a m"
      "\<forall>a \<in> set ms. sm_serial a \<le> hi_serial h" "sm_serial m \<le> hi_serial h"
      "unat (hi_next h) = unat (sm_frame m) + length (sm_inputs m)"
      using ok snoc by (auto simp: history_ok_def sorted_wrt_append)
    let ?new = "\<lparr>sm_checkpoint = e, sm_inputs = [], sm_nodes = [], sm_ended = False\<rparr>"
    have new: "segment_ok ?new" by (simp add: segment_ok_def unat_frame_less)
    have serial: "hi_serial h' = se_serial e" using a False by (auto simp: History_AcceptEvent_def Let_def split: if_splits)
    consider "hi_segments h' = ms @ [m, ?new]" "hi_next h' = hi_next h"
      | m' where "hi_segments h' = ms @ [m']" "hi_next h' = hi_next h" "sm_checkpoint m' = sm_checkpoint m" "sm_inputs m' = sm_inputs m"
      using a False snoc f(2) by (auto simp: History_AcceptEvent_def Let_def split: if_splits)
    then show ?thesis
    proof cases
      case 1
      have "segment_before m ?new" using all(6,7) f by (simp add: segment_before_def)
      moreover have "\<forall>a \<in> set ms. segment_before a ?new" using all(4,5,7) f by (auto simp: segment_before_def)
      ultimately show ?thesis using 1 all new serial f by (auto simp: history_ok_def sorted_wrt_append)
    next
      case 2
      have "segment_ok m'" using all(2) 2 by (simp add: segment_ok_def)
      moreover have "\<forall>a \<in> set ms. segment_before a m'" using all(4) 2 by (simp add: segment_before_def)
      moreover have "\<forall>a \<in> set ms. sm_serial a \<le> se_serial e" using all(5) f(1) by auto
      ultimately show ?thesis using 2 all serial f(1) by (auto simp: history_ok_def sorted_wrt_append)
    qed
  qed
qed (use ok in simp)

lemma history_ok_AcceptInput:
  assumes ok: "history_ok h" and a: "History_AcceptInput cfg h p = (r, h')"
  shows "history_ok h'"
proof (cases "h' = h")
  case False
  then have s: "hi_segments h \<noteq> []" and f: "sf_frame p = hi_next h" "hi_next h \<noteq> INVALID_FRAME"
    and h': "h' = h\<lparr>hi_segments := set_back_segment (\<lambda>m. m\<lparr>sm_inputs := sm_inputs m @ [p]\<rparr>) (hi_segments h),
      hi_next := hi_next h + 1, hi_frames := hi_frames h + 1, hi_bytes := hi_bytes h + (24 + 12 * unat (sf_playerCount p))\<rparr>"
    using a by (auto simp: History_AcceptInput_def Let_def split: if_splits)
  obtain ms m where m: "hi_segments h = ms @ [m]" using s by (metis rev_exhaust)
  have all: "list_all segment_ok ms" "segment_ok m" "sorted_wrt segment_before ms" "\<forall>a \<in> set ms. segment_before a m"
    "\<forall>a \<in> set ms. sm_serial a \<le> hi_serial h" "sm_serial m \<le> hi_serial h"
    "unat (hi_next h) = unat (sm_frame m) + length (sm_inputs m)"
    using ok m by (auto simp: history_ok_def sorted_wrt_append)
  have lt: "unat (hi_next h) < 4294967295" using f(2) by (simp add: frame_neq_INVALID)
  then have up: "unat (hi_next h + 1) = unat (hi_next h) + 1" using unat_add_nat [of "hi_next h" 1] by simp
  have nx: "hi_next h = sm_frame m + word_of_nat (length (sm_inputs m))" using all(7) by (metis of_nat_add of_nat_unat ucast_id)
  have "segment_ok (m\<lparr>sm_inputs := sm_inputs m @ [p]\<rparr>)"
    using all(2,7) lt f(1) nx by (auto simp: segment_ok_def nth_append less_Suc_eq)
  then show ?thesis using all up by (auto simp: h' m history_ok_def sorted_wrt_append segment_before_def)
qed (use ok in simp)

lemma segment_unique:
  assumes "sorted_wrt segment_before ms" "a \<in> set ms" "b \<in> set ms" "sm_serial a = sm_serial b"
  shows "a = b"
  using assms by (induction ms) (auto simp: segment_before_def)

section \<open>Playback is replay\<close>

text \<open>The worlds made by restoring a checkpoint and ticking a list of inputs.\<close>

inductive replayed ::
    "('w \<Rightarrow> SpectatorStageEvent \<Rightarrow> bool \<times> 'w) \<Rightarrow> ('w \<Rightarrow> SpectatorFramePacket \<Rightarrow> bool \<Rightarrow> bool \<times> 'w) \<Rightarrow>
      SpectatorStageEvent \<Rightarrow> SpectatorFramePacket list \<Rightarrow> 'w \<Rightarrow> bool" for restore tick where
  replayed_restore: "restore w0 checkpoint = (True, w) \<Longrightarrow> replayed restore tick checkpoint [] w"
| replayed_tick: "replayed restore tick checkpoint inputs w \<Longrightarrow> tick w input seeking = (True, w') \<Longrightarrow>
    replayed restore tick checkpoint (inputs @ [input]) w'"

definition playing :: "('w \<Rightarrow> SpectatorStageEvent \<Rightarrow> bool \<times> 'w) \<Rightarrow> ('w \<Rightarrow> SpectatorFramePacket \<Rightarrow> bool \<Rightarrow> bool \<times> 'w) \<Rightarrow>
    'w \<Rightarrow> SpectatorStagePlayback \<Rightarrow> StageSegment \<Rightarrow> bool" where
  "playing restore tick w b m \<longleftrightarrow> m \<in> set (hi_segments (pl_history b)) \<and> sm_serial m = pl_restoredSerial b \<and>
     sm_frame m \<le> pl_position b \<and> unat (pl_position b - sm_frame m) \<le> length (sm_inputs m) \<and>
     replayed restore tick (sm_checkpoint m) (take (unat (pl_position b - sm_frame m)) (sm_inputs m)) w"

definition playback_ok :: "('w \<Rightarrow> SpectatorStageEvent \<Rightarrow> bool \<times> 'w) \<Rightarrow> ('w \<Rightarrow> SpectatorFramePacket \<Rightarrow> bool \<Rightarrow> bool \<times> 'w) \<Rightarrow>
    'w \<Rightarrow> SpectatorStagePlayback \<Rightarrow> bool" where
  "playback_ok restore tick w b \<longleftrightarrow> history_ok (pl_history b) \<and>
     (pl_hasRestored b \<longrightarrow> \<not> pl_failed b \<longrightarrow> (\<exists>m. playing restore tick w b m))"

lemma playback_ok_default: "playback_ok restore tick w Playback_default"
  by (simp add: playback_ok_def Playback_default_def history_ok_default)

lemma playing_cong:
  assumes "playing restore tick w b m" "hi_segments (pl_history b') = hi_segments (pl_history b)"
    "pl_restoredSerial b' = pl_restoredSerial b" "pl_position b' = pl_position b"
  shows "playing restore tick w b' m"
  using assms by (simp add: playing_def)

text \<open>Reception only appends: the segment that is played keeps its checkpoint and its first inputs.\<close>

lemma extended_segment:
  assumes "playing restore tick w b m" "pl_restoredSerial b' = pl_restoredSerial b" "pl_position b' = pl_position b"
    "\<exists>m' \<in> set (hi_segments (pl_history b')). sm_checkpoint m' = sm_checkpoint m \<and> (\<exists>ps. sm_inputs m' = sm_inputs m @ ps)"
  shows "\<exists>m'. playing restore tick w b' m'"
  using assms by (fastforce simp: playing_def)

lemma set_back_extends:
  assumes "m \<in> set ms" "\<And>a. sm_checkpoint (f a) = sm_checkpoint a \<and> (\<exists>ps. sm_inputs (f a) = sm_inputs a @ ps)"
  shows "\<exists>m' \<in> set (set_back_segment f ms). sm_checkpoint m' = sm_checkpoint m \<and> (\<exists>ps. sm_inputs m' = sm_inputs m @ ps)"
proof -
  obtain xs x where x: "ms = xs @ [x]" using assms(1) by (metis empty_iff list.set(1) rev_exhaust)
  show ?thesis using assms by (auto simp: x)
qed

lemma AcceptEvent_extends:
  assumes "History_AcceptEvent h e = (r, h')" "m \<in> set (hi_segments h)"
  shows "\<exists>m' \<in> set (hi_segments h'). sm_checkpoint m' = sm_checkpoint m \<and> (\<exists>ps. sm_inputs m' = sm_inputs m @ ps)"
  using assms by (auto simp: History_AcceptEvent_def Let_def split: if_splits intro!: set_back_extends)

lemma AcceptInput_extends:
  assumes "History_AcceptInput cfg h p = (r, h')" "m \<in> set (hi_segments h)"
  shows "\<exists>m' \<in> set (hi_segments h'). sm_checkpoint m' = sm_checkpoint m \<and> (\<exists>ps. sm_inputs m' = sm_inputs m @ ps)"
  using assms by (auto simp: History_AcceptInput_def Let_def split: if_splits intro!: set_back_extends)

lemma playback_ok_frame:
  assumes "playback_ok restore tick w b" "pl_history b' = pl_history b" "pl_restoredSerial b' = pl_restoredSerial b"
    "pl_position b' = pl_position b" "pl_hasRestored b' = pl_hasRestored b" "\<not> pl_failed b' \<longrightarrow> \<not> pl_failed b"
  shows "playback_ok restore tick w b'"
  using assms playing_cong [of restore tick w b _ b'] by (auto simp: playback_ok_def)

lemma playback_ok_Request:
  assumes "playback_ok restore tick w b" "Playback_Request b frame live = (r, b')"
  shows "playback_ok restore tick w b'"
  by (rule playback_ok_frame [OF assms(1)]) (use assms(2) in \<open>auto simp: Playback_Request_def split: option.splits\<close>)

lemma playback_ok_ReceiveEvent:
  assumes ok: "playback_ok restore tick w b" and e: "Playback_ReceiveEvent b e = (r, b')"
  shows "playback_ok restore tick w b'"
proof (cases "se_kind e = SE_Bootstrap")
  case True
  have "playback_ok restore tick w (b\<lparr>pl_bootstrapped := True\<rparr>)" by (rule playback_ok_frame [OF ok]) simp_all
  then show ?thesis using e ok True playback_ok_Request
    by (auto simp: Playback_ReceiveEvent_def Let_def split: if_splits)
next
  case False
  obtain h' where h: "History_AcceptEvent (pl_history b) e = (r, h')" and b': "b' = b\<lparr>pl_history := h'\<rparr>"
    using e False by (auto simp: Playback_ReceiveEvent_def split: prod.splits)
  have "\<exists>m'. playing restore tick w b' m'" if "playing restore tick w b m" for m
    by (rule extended_segment [OF that]) (use AcceptEvent_extends [OF h, of m] that in \<open>auto simp: b' playing_def\<close>)
  then show ?thesis using ok history_ok_AcceptEvent [OF _ h] by (auto simp: playback_ok_def b')
qed

lemma playback_ok_ReceiveInput:
  assumes ok: "playback_ok restore tick w b" and e: "Playback_ReceiveInput cfg b p = (r, b')"
  shows "playback_ok restore tick w b'"
proof -
  obtain h' where h: "History_AcceptInput cfg (pl_history b) p = (r, h')" and b': "b' = b\<lparr>pl_history := h'\<rparr>"
    using e by (auto simp: Playback_ReceiveInput_def split: prod.splits)
  have "\<exists>m'. playing restore tick w b' m'" if "playing restore tick w b m" for m
    by (rule extended_segment [OF that]) (use AcceptInput_extends [OF h, of m] that in \<open>auto simp: b' playing_def\<close>)
  then show ?thesis using ok history_ok_AcceptInput [OF _ h] by (auto simp: playback_ok_def b')
qed

lemma playback_ok_Control:
  assumes ok: "playback_ok restore tick w b" and c: "Playback_Control b action frame = (r, b')"
  shows "playback_ok restore tick w b'"
proof (cases action)
  case PA_Seek
  obtain q b1 where q: "Playback_Request b frame False = (q, b1)" by (rule prod.exhaust)
  have b1: "playback_ok restore tick w b1" by (rule playback_ok_Request [OF ok q])
  then have "playback_ok restore tick w (b1\<lparr>pl_paused := x\<rparr>)" for x by (rule playback_ok_frame) simp_all
  then show ?thesis using b1 c ok PA_Seek q by (auto simp: Playback_Control_def split: if_splits bool.splits)
next
  case PA_Live
  then show ?thesis using c ok playback_ok_Request [OF ok, of "Edge b" True r b'] by (auto simp: Playback_Control_def split: if_splits)
qed (use ok c playback_ok_frame [OF ok] in \<open>auto simp: Playback_Control_def split: if_splits\<close>)

section \<open>The steps of the world\<close>

lemma Locate_Some:
  assumes "Locate h frame = Some m"
  shows "m \<in> set (hi_segments h)" "sm_frame m \<le> frame" "unat (frame - sm_frame m) \<le> length (sm_inputs m)"
  using assms by (auto simp: Locate_def find_Some_iff) (metis length_rev nth_mem set_rev)+

lemma playback_restore_True:
  "playback_restore restore m w b = (True, w', b') \<Longrightarrow> restore w (sm_checkpoint m) = (True, w') \<and>
     b' = b\<lparr>pl_restoredSerial := sm_serial m, pl_hasRestored := True\<rparr>"
  by (cases "restore w (sm_checkpoint m)") (simp add: playback_restore_def split: bool.splits)

lemma playback_restore_False:
  "playback_restore restore m w b = (False, w', b') \<Longrightarrow> b' = b\<lparr>pl_failed := True\<rparr>"
  by (cases "restore w (sm_checkpoint m)") (simp add: playback_restore_def split: bool.splits)

lemma playing_restored:
  assumes "m \<in> set (hi_segments (pl_history b))" "restore w (sm_checkpoint m) = (True, w')"
    "hi_segments (pl_history b') = hi_segments (pl_history b)" "pl_restoredSerial b' = sm_serial m" "pl_position b' = sm_frame m"
  shows "playing restore tick w' b' m"
  using assms by (simp add: playing_def replayed_restore)

lemma playing_ticked:
  assumes m: "playing restore tick w b m" and ok: "segment_ok m"
    and at: "unat (pl_position b - sm_frame m) < length (sm_inputs m)"
    and t: "tick w (sm_inputs m ! unat (pl_position b - sm_frame m)) seeking = (True, w')"
    and b': "hi_segments (pl_history b') = hi_segments (pl_history b)" "pl_restoredSerial b' = pl_restoredSerial b"
      "pl_position b' = pl_position b + 1"
  shows "playing restore tick w' b' m"
proof -
  let ?at = "unat (pl_position b - sm_frame m)"
  have le: "sm_frame m \<le> pl_position b" using m by (simp add: playing_def)
  have p: "unat (pl_position b) = unat (sm_frame m) + ?at"
    using le unat_sub [OF le] by (simp add: word_le_nat_alt)
  have lt: "unat (sm_frame m) + length (sm_inputs m) < 4294967296" using ok by (simp add: segment_ok_def)
  have s: "unat (pl_position b + 1) = unat (pl_position b) + 1" using unat_add_nat [of "pl_position b" 1] p lt at by simp
  have le': "sm_frame m \<le> pl_position b + 1" unfolding word_le_nat_alt s p by simp
  have at': "unat (pl_position b + 1 - sm_frame m) = ?at + 1" unfolding unat_sub [OF le'] s p by simp
  have "replayed restore tick (sm_checkpoint m) (take (?at + 1) (sm_inputs m)) w'"
    using replayed_tick [of restore tick "sm_checkpoint m" "take ?at (sm_inputs m)" w _ seeking w'] t m at
    by (simp add: playing_def take_Suc_conv_app_nth)
  then show ?thesis unfolding playing_def b' at' using m le' at by (simp add: playing_def)
qed

lemma playback_advance_fields:
  assumes "playback_advance b = (a, b')"
  shows "pl_history b' = pl_history b" "pl_restoredSerial b' = pl_restoredSerial b" "pl_position b' = pl_position b + 1"
    "pl_hasRestored b' = pl_hasRestored b" "pl_failed b' = pl_failed b"
  using assms by (auto simp: playback_advance_def Let_def split: if_splits)

lemma playback_ok_failed:
  "history_ok (pl_history b) \<Longrightarrow> pl_failed b \<Longrightarrow> playback_ok restore tick w b"
  by (simp add: playback_ok_def)

lemma playback_ok_playing:
  "history_ok (pl_history b) \<Longrightarrow> playing restore tick w b m \<Longrightarrow> playback_ok restore tick w b"
  by (auto simp: playback_ok_def)

text \<open>The installation of the segment that holds the position, when another one is loaded.\<close>

lemma install_playing:
  assumes ok: "playback_ok restore tick w b" "\<not> pl_failed b" and m: "Locate (pl_history b) (pl_position b) = Some m"
    and i: "(if \<not> pl_hasRestored b \<or> pl_restoredSerial b \<noteq> sm_serial m
       then if pl_position b \<noteq> sm_frame m then (False, w, b\<lparr>pl_failed := True\<rparr>) else playback_restore restore m w b
       else (True, w, b)) = (r, w', b')"
  shows "if r then playing restore tick w' b' m \<and> \<not> pl_failed b' \<and> pl_history b' = pl_history b \<and> pl_position b' = pl_position b
    else b' = b\<lparr>pl_failed := True\<rparr>"
proof (cases "pl_hasRestored b \<and> pl_restoredSerial b = sm_serial m")
  case True
  obtain a where a: "playing restore tick w b a" using ok True by (auto simp: playback_ok_def)
  have "a = m" using ok(1) a True Locate_Some(1) [OF m]
    by (intro segment_unique [of "hi_segments (pl_history b)"]) (auto simp: playback_ok_def history_ok_def playing_def)
  then show ?thesis using a i True ok(2) by auto
next
  case False
  then have i: "(if pl_position b \<noteq> sm_frame m then (False, w, b\<lparr>pl_failed := True\<rparr>) else playback_restore restore m w b) = (r, w', b')"
    using i by auto
  show ?thesis
  proof (cases "pl_position b = sm_frame m")
    case True
    then have i: "playback_restore restore m w b = (r, w', b')" using i by simp
    show ?thesis
    proof (cases r)
      case True
      have p: "restore w (sm_checkpoint m) = (True, w') \<and> b' = b\<lparr>pl_restoredSerial := sm_serial m, pl_hasRestored := True\<rparr>"
        by (rule playback_restore_True) (use i True in simp)
      then show ?thesis using Locate_Some(1) [OF m] \<open>pl_position b = sm_frame m\<close> ok(2) True
        by (auto intro!: playing_restored [of m b restore w])
    next
      case False
      then show ?thesis using playback_restore_False [of restore m w b w' b'] i by simp
    qed
  next
    case False
    then show ?thesis using i by auto
  qed
qed

lemma playback_ok_loop:
  assumes "playback_ok restore tick w b" "\<not> pl_failed b" "playback_loop restore tick yields w b = (r, w', b')"
  shows "playback_ok restore tick w' b'"
  using assms
proof (induction yields arbitrary: w b)
  case (Cons yield yields)
  note ok = Cons.prems(1) and loop = Cons.prems(3)
  let ?limit = "if pl_seeking b then pl_target b else Edge b"
  show ?case
  proof (cases "?limit \<le> pl_position b")
    case True
    then have "w' = w" "b' = (if pl_seeking b then b\<lparr>pl_seeking := False, pl_following := pl_liveRequested b\<rparr> else b)"
      using loop by (simp_all add: Let_def)
    then show ?thesis using playback_ok_frame [OF ok, of b'] by simp
  next
    case False
    note go = loop [unfolded playback_loop.simps Let_def if_not_P [OF False]]
    show ?thesis
    proof (cases "Locate (pl_history b) (pl_position b)")
      case None
      then show ?thesis using go ok by simp
    next
      case (Some m)
      let ?at = "unat (pl_position b - sm_frame m)"
      let ?i = "if \<not> pl_hasRestored b \<or> pl_restoredSerial b \<noteq> sm_serial m
        then if pl_position b \<noteq> sm_frame m then (False, w, b\<lparr>pl_failed := True\<rparr>) else playback_restore restore m w b
        else (True, w, b)"
      show ?thesis
      proof (cases "?at \<ge> length (sm_inputs m)")
        case True
        then show ?thesis using go ok Some by simp
      next
        case at: False
        note go = go [unfolded Some option.case if_not_P [OF at]]
        obtain ri wi bi where i: "?i = (ri, wi, bi)" by (rule prod_cases3)
        note installed = install_playing [OF ok Cons.prems(2) Some i]
        have hist: "history_ok (pl_history b)" using ok by (simp add: playback_ok_def)
        show ?thesis
        proof (cases ri)
          case False
          then have "w' = wi" "b' = bi" using go i by simp_all
          moreover have "pl_failed bi" "pl_history bi = pl_history b" using installed False by simp_all
          ultimately show ?thesis using hist by (simp add: playback_ok_failed)
        next
          case True
          then have p: "playing restore tick wi bi m" "\<not> pl_failed bi" "pl_history bi = pl_history b" "pl_position bi = pl_position b"
            using installed by simp_all
          obtain rt wt where t: "tick wi (sm_inputs m ! ?at) (pl_seeking bi) = (rt, wt)" by (rule prod.exhaust)
          show ?thesis
          proof (cases rt)
            case False
            then have "w' = wt" "b' = bi\<lparr>pl_failed := True\<rparr>" using go i True t by simp_all
            then show ?thesis using hist p(3) by (simp add: playback_ok_failed)
          next
            case rt: True
            obtain arrived ba where a: "playback_advance bi = (arrived, ba)" by (rule prod.exhaust)
            note adv = playback_advance_fields [OF a]
            have "m \<in> set (hi_segments (pl_history b))" by (rule Locate_Some(1) [OF Some])
            then have sok: "segment_ok m" using hist by (simp add: history_ok_def list_all_iff)
            have pa: "playing restore tick wt ba m"
              by (rule playing_ticked [OF p(1) sok]) (use at t rt p adv in simp_all)
            have oka: "playback_ok restore tick wt ba" by (rule playback_ok_playing [OF _ pa]) (use adv p hist in simp)
            have "(r, w', b') = (if arrived \<or> yield then (True, wt, ba) else playback_loop restore tick yields wt ba)"
              using go i True t rt a by simp
            then show ?thesis using oka Cons.IH [OF oka] adv p by (auto split: if_splits)
          qed
        qed
      qed
    qed
  qed
qed simp

lemma playback_ok_Step:
  assumes ok: "playback_ok restore tick w b" and s: "Playback_Step restore tick yields w b = (r, w', b')"
  shows "playback_ok restore tick w' b'"
proof (cases "\<not> pl_bootstrapped b \<or> (pl_paused b \<and> \<not> pl_seeking b) \<or> pl_failed b")
  case True
  then show ?thesis using ok s by (auto simp: Playback_Step_def)
next
  case False
  note s = s [unfolded Playback_Step_def if_not_P [OF False]]
  have live: "\<not> pl_failed b" using False by simp
  have hist: "history_ok (pl_history b)" using ok by (simp add: playback_ok_def)
  show ?thesis
  proof (cases "pl_restore b")
    case True
    note s = s [unfolded if_P [OF True]]
    show ?thesis
    proof (cases "Locate (pl_history b) (pl_target b)")
      case None
      then show ?thesis using s hist by (auto intro: playback_ok_failed)
    next
      case (Some m)
      obtain ri wi bi where i: "playback_restore restore m w b = (ri, wi, bi)" by (rule prod_cases3)
      show ?thesis
      proof (cases ri)
        case False
        then have "b' = b\<lparr>pl_failed := True\<rparr>" using s Some i playback_restore_False [of restore m w b wi bi] by simp
        then show ?thesis using hist by (simp add: playback_ok_failed)
      next
        case True
        have bi: "restore w (sm_checkpoint m) = (True, wi) \<and> bi = b\<lparr>pl_restoredSerial := sm_serial m, pl_hasRestored := True\<rparr>"
          by (rule playback_restore_True) (use i True in simp)
        let ?b = "bi\<lparr>pl_position := sm_frame m, pl_restore := False\<rparr>"
        have "playing restore tick wi ?b m" by (rule playing_restored [of m b restore w]) (use Locate_Some(1) [OF Some] bi in simp_all)
        then have "playback_ok restore tick wi ?b" by (rule playback_ok_playing [rotated]) (use bi hist in simp)
        moreover have "playback_loop restore tick yields wi ?b = (r, w', b')" using s Some i True by simp
        ultimately show ?thesis using live bi by (intro playback_ok_loop [of restore tick wi ?b yields r w' b']) simp_all
      qed
    qed
  next
    case False
    then show ?thesis using s playback_ok_loop [OF ok live] by simp
  qed
qed

section \<open>The property\<close>

inductive playback_run ::
    "ProtocolConfig \<Rightarrow> ('w \<Rightarrow> SpectatorStageEvent \<Rightarrow> bool \<times> 'w) \<Rightarrow> ('w \<Rightarrow> SpectatorFramePacket \<Rightarrow> bool \<Rightarrow> bool \<times> 'w) \<Rightarrow>
      'w \<Rightarrow> SpectatorStagePlayback \<Rightarrow> bool" for cfg restore tick where
  playback_start: "playback_run cfg restore tick w Playback_default"
| playback_event: "playback_run cfg restore tick w b \<Longrightarrow> Playback_ReceiveEvent b e = (r, b') \<Longrightarrow> playback_run cfg restore tick w b'"
| playback_input: "playback_run cfg restore tick w b \<Longrightarrow> Playback_ReceiveInput cfg b p = (r, b') \<Longrightarrow> playback_run cfg restore tick w b'"
| playback_control: "playback_run cfg restore tick w b \<Longrightarrow> Playback_Control b action frame = (r, b') \<Longrightarrow>
    playback_run cfg restore tick w b'"
| playback_step: "playback_run cfg restore tick w b \<Longrightarrow> Playback_Step restore tick yields w b = (r, w', b') \<Longrightarrow>
    playback_run cfg restore tick w' b'"

lemma playback_run_ok: "playback_run cfg restore tick w b \<Longrightarrow> playback_ok restore tick w b"
  by (induction rule: playback_run.induct)
    (auto intro: playback_ok_default playback_ok_ReceiveEvent playback_ok_ReceiveInput playback_ok_Control playback_ok_Step)

text \<open>
  C39: Playback is replay. Whatever a viewer receives and however it is paused, moved and sliced, once a
  checkpoint was restored and no callback failed, the world is what restoring one received checkpoint and
  ticking exactly the received inputs of the frames from it up to the position, in order and each once, makes
  of it; no tick is skipped by a seek.
\<close>

theorem playback_is_replay:
  assumes "playback_run cfg restore tick w b" "pl_hasRestored b" "\<not> pl_failed b"
  shows "\<exists>m \<in> set (hi_segments (pl_history b)). sm_serial m = pl_restoredSerial b \<and> sm_frame m \<le> pl_position b \<and>
    (\<exists>inputs. replayed restore tick (sm_checkpoint m) inputs w \<and>
       inputs = take (length inputs) (sm_inputs m) \<and>
       map sf_frame inputs = map (\<lambda>i. sm_frame m + word_of_nat i) [0..<unat (pl_position b - sm_frame m)])"
proof -
  obtain m where m: "playing restore tick w b m" and h: "history_ok (pl_history b)"
    using playback_run_ok [OF assms(1)] assms(2,3) by (auto simp: playback_ok_def)
  let ?at = "unat (pl_position b - sm_frame m)"
  have "segment_ok m" using m h by (simp add: playing_def history_ok_def list_all_iff)
  then have "map sf_frame (take ?at (sm_inputs m)) = map (\<lambda>i. sm_frame m + word_of_nat i) [0..<?at]"
    using m by (intro nth_equalityI) (auto simp: segment_ok_def playing_def)
  then show ?thesis using m
    by (intro bexI [of _ m] conjI exI [of _ "take ?at (sm_inputs m)"]) (simp_all add: playing_def)
qed

section \<open>Witness\<close>

text \<open>A world that lists the ticked frames; the history is one checkpoint, one input and the end.\<close>

definition demo_restore :: "u32 list \<Rightarrow> SpectatorStageEvent \<Rightarrow> bool \<times> u32 list" where
  "demo_restore w e = (True, [])"

definition demo_tick :: "u32 list \<Rightarrow> SpectatorFramePacket \<Rightarrow> bool \<Rightarrow> bool \<times> u32 list" where
  "demo_tick w p seeking = (True, w @ [sf_frame p])"

definition demo_event :: "u8 \<Rightarrow> u32 \<Rightarrow> u32 \<Rightarrow> SpectatorStageEvent" where
  "demo_event kind frame serial = StageEvent_default\<lparr>se_game := 0x36, se_playerCount := 2, se_kind := kind, se_sessionId := 9,
     se_gameplayAbi := 4, se_frame := frame, se_serial := serial, se_schema := (if kind = SE_Checkpoint then 1 else 0),
     se_state := (if kind = SE_Checkpoint then [1] else [])\<rparr>"

definition demo_lanes :: SpectatorFramePacket where
  "demo_lanes = \<lparr>sf_sessionId = 9, sf_frame = 0, sf_gameplayAbi = 4, sf_playerCount = 2,
     sf_inputs = (\<lambda>_. FrameInput_default)\<rparr>"

lemmas demo_play_defs = Playback_ReceiveEvent_def Playback_ReceiveInput_def History_AcceptEvent_def History_AcceptInput_def
  event_refused_def StageEvent_Valid_def IsCooperativeSpectatorGame_def demo_event_def demo_lanes_def StageEvent_default_def
  stage_kinds MAX_PLAYERS_def INVALID_FRAME_def SpectatorStageMaxStateBytes_def SpectatorStageHeaderBytes_def
  HistoryMaxBytes_def HistoryMaxFrames_def Playback_default_def History_default_def set_back_segment_def

definition demo_history :: "SpectatorFramePacket list \<Rightarrow> bool \<Rightarrow> SpectatorStageHistory" where
  "demo_history ps ended = \<lparr>hi_segments = [\<lparr>sm_checkpoint = demo_event SE_Checkpoint 0 1, sm_inputs = ps, sm_nodes = [],
     sm_ended = ended\<rparr>], hi_next = word_of_nat (length ps), hi_serial = (if ended then 2 else 1),
     hi_bytes = 41 + 48 * length ps + (if ended then 32 else 0), hi_frames = length ps, hi_ended = ended\<rparr>"

definition demo_viewer :: "SpectatorStageHistory \<Rightarrow> SpectatorStagePlayback" where
  "demo_viewer h = Playback_default\<lparr>pl_history := h\<rparr>"

definition demo_started :: SpectatorStagePlayback where
  "demo_started = (demo_viewer (demo_history [demo_lanes] True))\<lparr>pl_bootstrapped := True, pl_initialized := True,
     pl_restore := True, pl_seeking := True\<rparr>"

definition demo_restored :: SpectatorStagePlayback where
  "demo_restored = demo_started\<lparr>pl_restore := False, pl_seeking := False, pl_hasRestored := True, pl_restoredSerial := 1\<rparr>"

lemma demo_lanes_valid: "IsValidFrameInput cfg FrameInput_default"
  by (simp add: IsValidFrameInput_def ValidInput_def FrameInput_default_def AM_None_def f32_isfinite_def f32_exponent_def)

lemma demo_receives:
  "Playback_ReceiveEvent Playback_default (demo_event SE_Checkpoint 0 1) = (True, demo_viewer (demo_history [] False))"
  "Playback_ReceiveInput sample_config (demo_viewer (demo_history [] False)) demo_lanes = (True, demo_viewer (demo_history [demo_lanes] False))"
  "Playback_ReceiveEvent (demo_viewer (demo_history [demo_lanes] False)) (demo_event SE_End 1 2) =
    (True, demo_viewer (demo_history [demo_lanes] True))"
  "Playback_ReceiveEvent (demo_viewer (demo_history [demo_lanes] True)) (demo_event SE_Bootstrap 1 2) = (True, demo_started)"
  by (simp_all add: demo_play_defs demo_viewer_def demo_history_def demo_lanes_valid list_all_iff demo_started_def
      BootstrapMatches_def Playback_Request_def Locate_def)

lemma demo_steps:
  "Playback_Step demo_restore demo_tick [False] w demo_started = (True, [], demo_restored)"
  "Playback_Step demo_restore demo_tick [False] [] demo_restored = (True, [0], demo_restored\<lparr>pl_position := 1\<rparr>)"
  by (simp_all add: demo_play_defs demo_viewer_def demo_history_def demo_started_def demo_restored_def Playback_Step_def
      playback_restore_def Locate_def demo_restore_def demo_tick_def playback_advance_def Edge_def)

lemma demo_playback: "playback_run sample_config demo_restore demo_tick [0] (demo_restored\<lparr>pl_position := 1\<rparr>)"
proof -
  note run = playback_run.intros [where cfg = sample_config and restore = demo_restore and tick = demo_tick]
  have "playback_run sample_config demo_restore demo_tick [] (demo_viewer (demo_history [demo_lanes] False))"
    by (rule run(3) [OF run(2) [OF run(1) demo_receives(1)] demo_receives(2)])
  then have "playback_run sample_config demo_restore demo_tick [] demo_started"
    by (rule run(2) [OF run(2) [OF _ demo_receives(3)] demo_receives(4)])
  then show ?thesis by (rule run(5) [OF run(5) [OF _ demo_steps(1)] demo_steps(2)])
qed

theorem playback_is_replay_witness:
  "\<exists>b m inputs. playback_run sample_config demo_restore demo_tick [0] b \<and> m \<in> set (hi_segments (pl_history b)) \<and>
     sm_serial m = 1 \<and> replayed demo_restore demo_tick (sm_checkpoint m) inputs [0] \<and> map sf_frame inputs = [0]"
proof -
  let ?b = "demo_restored\<lparr>pl_position := 1\<rparr>"
  have f: "hi_segments (pl_history ?b) = [\<lparr>sm_checkpoint = demo_event SE_Checkpoint 0 1, sm_inputs = [demo_lanes],
      sm_nodes = [], sm_ended = True\<rparr>]" "pl_restoredSerial ?b = 1" "pl_hasRestored ?b" "\<not> pl_failed ?b"
    by (simp_all add: demo_restored_def demo_started_def demo_viewer_def demo_history_def Playback_default_def)
  show ?thesis using playback_is_replay [OF demo_playback f(3,4)] demo_playback f(1,2)
    by (intro exI [of _ ?b]) (auto simp: demo_event_def StageEvent_default_def)
qed

end
