(* ===== verification/SpectatorStream.thy ===== *)
theory SpectatorStream
  imports SpectatorPlay
begin

text \<open>
  The codec of the spectator events, and the stream of a publisher at its viewer: whatever is recorded,
  published and retried, a viewer that receives what was sent accepts all of it.
\<close>

section \<open>The codec of the events\<close>

lemma stage_put_zeros:
  "n \<le> m \<Longrightarrow> stage_put (pre @ replicate m 0) (length pre) v n = pre @ le_bytes n v @ replicate (m - n) 0"
proof (induction n)
  case 0
  then show ?case by (simp add: stage_put_def)
next
  case (Suc n)
  have z: "replicate (m - n) (0::u8) = 0 # replicate (m - Suc n) 0"
    using Suc.prems by (metis Suc_diff_Suc Suc_le_lessD replicate_Suc)
  have "stage_put (pre @ replicate m 0) (length pre) v (Suc n) =
      (stage_put (pre @ replicate m 0) (length pre) v n)[length pre + n := ucast (drop_bit (8 * n) v)]"
    by (simp add: stage_put_def)
  also have "\<dots> = pre @ (le_bytes n v @ replicate (m - n) 0)[n := ucast (drop_bit (8 * n) v)]"
    using Suc by (simp add: list_update_append)
  also have "\<dots> = pre @ le_bytes (Suc n) v @ replicate (m - Suc n) 0"
    by (simp add: list_update_append z le_bytes_def)
  finally show ?case .
qed

lemma stage_get_take:
  "at + n \<le> length d \<Longrightarrow> stage_get d at n = le_word (take n (drop at d))"
proof -
  have "foldl (\<lambda>v i. v OR push_bit (8 * i) (ucast (bs ! i))) acc [0..<length bs] = acc OR le_word bs"
    for bs :: bytes and acc :: u64
  proof (induction bs arbitrary: acc rule: rev_induct)
    case (snoc b bs)
    have "le_word (bs @ [b]) = le_word bs OR push_bit (8 * length bs) (ucast b :: u64)"
      by (induction bs) (simp_all add: le_word_Cons push_bit_or ac_simps)
    moreover have "foldl (\<lambda>v i. v OR push_bit (8 * i) (ucast ((bs @ [b]) ! i))) acc [0..<length bs] =
        foldl (\<lambda>v i. v OR push_bit (8 * i) (ucast (bs ! i))) acc [0..<length bs]"
      by (rule foldl_cong) (simp_all add: nth_append)
    ultimately show ?case using snoc by (simp add: ac_simps)
  qed simp
  note whole = this [of "take n (drop at d)" 0]
  assume le: "at + n \<le> length d"
  then have n: "length (take n (drop at d)) = n" by simp
  have "foldl (\<lambda>v i. v OR push_bit (8 * i) (ucast (d ! (at + i)))) (0::u64) [0..<n] =
      foldl (\<lambda>v i. v OR push_bit (8 * i) (ucast (take n (drop at d) ! i))) 0 [0..<n]"
    by (rule foldl_cong) (use le in simp_all)
  then show ?thesis using whole unfolding n stage_get_def by simp
qed

definition stage_head :: "SpectatorStageEvent \<Rightarrow> bytes" where
  "stage_head e = [0x45, se_game e, 0x53, 0x56, 1, se_kind e, se_playerCount e, 0] @ le_bytes 8 (se_sessionId e) @
     le_bytes 4 (ucast (se_gameplayAbi e) :: u64) @ le_bytes 4 (ucast (se_frame e) :: u64) @
     le_bytes 4 (ucast (se_stage e) :: u64) @ le_bytes 4 (ucast (se_serial e) :: u64)"

definition stage_tail :: "SpectatorStageEvent \<Rightarrow> bytes" where
  "stage_tail e =
     (if se_kind e = SE_Checkpoint then le_bytes 4 (ucast (se_schema e) :: u64) @
        le_bytes 4 (word_of_nat (length (se_state e)) :: u64) @ se_state e
      else if se_kind e = SE_Node then le_bytes 4 (ucast (se_checkpoint e) :: u64) @ [se_node e, se_bossSlots e, 0, 0]
      else [])"

lemma length_stage_head [simp]: "length (stage_head e) = 32"
  by (simp add: stage_head_def)

lemma Encode_stage: "StageEvent_Valid e \<Longrightarrow> EncodeSpectatorStageEvent e = Some (stage_head e @ stage_tail e)"
proof -
  assume v: "StageEvent_Valid e"
  have r: "replicate (32 + x) (0::u8) = [0,0,0,0,0,0,0,0] @ replicate (24 + x) 0" for x
    by (simp add: numeral_eq_Suc)
  have p: "stage_put (pre @ replicate m 0) k v n = pre @ le_bytes n v @ replicate (m - n) 0"
    if "length pre = k" "n \<le> m" for pre m k v n using stage_put_zeros [of n m pre v] that by simp
  have head: "stage_put (stage_put (stage_put (stage_put (stage_put
      ((replicate (32 + x) 0)[0 := 0x45, 1 := se_game e, 2 := 0x53, 3 := 0x56, 4 := 1, 5 := se_kind e, 6 := se_playerCount e])
      8 (se_sessionId e) 8) 16 (ucast (se_gameplayAbi e)) 4) 20 (ucast (se_frame e)) 4) 24 (ucast (se_stage e)) 4)
      28 (ucast (se_serial e)) 4 = stage_head e @ replicate x 0" for x
  proof -
    define h where "h = [0x45, se_game e, 0x53, 0x56, 1, se_kind e, se_playerCount e, 0]"
    let ?a = "h @ le_bytes 8 (se_sessionId e)"
    let ?b = "?a @ le_bytes 4 (ucast (se_gameplayAbi e) :: u64)"
    let ?c = "?b @ le_bytes 4 (ucast (se_frame e) :: u64)"
    let ?d = "?c @ le_bytes 4 (ucast (se_stage e) :: u64)"
    have h: "(replicate (32 + x) 0)[0 := 0x45, 1 := se_game e, 2 := 0x53, 3 := 0x56, 4 := 1, 5 := se_kind e, 6 := se_playerCount e]
        = h @ replicate (24 + x) 0"
      unfolding r h_def by (simp add: numeral_eq_Suc)
    have l: "length h = 8" by (simp add: h_def)
    have 1: "stage_put (h @ replicate (24 + x) 0) 8 (se_sessionId e) 8 = ?a @ replicate (16 + x) 0"
      using p [of h 8 8 "24 + x"] l by simp
    have 2: "stage_put (?a @ replicate (16 + x) 0) 16 (ucast (se_gameplayAbi e)) 4 = ?b @ replicate (12 + x) 0"
      using p [of ?a 16 4 "16 + x"] l by simp
    have 3: "stage_put (?b @ replicate (12 + x) 0) 20 (ucast (se_frame e)) 4 = ?c @ replicate (8 + x) 0"
      using p [of ?b 20 4 "12 + x"] l by simp
    have 4: "stage_put (?c @ replicate (8 + x) 0) 24 (ucast (se_stage e)) 4 = ?d @ replicate (4 + x) 0"
      using p [of ?c 24 4 "8 + x"] l by simp
    have 5: "stage_put (?d @ replicate (4 + x) 0) 28 (ucast (se_serial e)) 4 =
        (?d @ le_bytes 4 (ucast (se_serial e) :: u64)) @ replicate x 0"
      using p [of ?d 28 4 "4 + x"] l by simp
    show ?thesis unfolding h 1 2 3 4 5 by (simp add: stage_head_def h_def)
  qed
  have 6: "stage_put (stage_put (stage_head e @ replicate (8 + x) 0) 32 v 4) 36 u 4 =
      stage_head e @ le_bytes 4 v @ le_bytes 4 u @ replicate x 0" for x v u
    using p [of "stage_head e" 32 4 "8 + x" v] p [of "stage_head e @ le_bytes 4 v" 36 4 "4 + x" u] by simp
  have 7: "stage_put (stage_head e @ replicate 8 0) 32 v 4 = stage_head e @ le_bytes 4 v @ [0, 0, 0, 0]" for v
    using p [of "stage_head e" 32 4 8 v] by (simp add: numeral_eq_Suc)
  have kinds: "SE_Checkpoint \<noteq> SE_Node" by (simp add: stage_kinds)
  consider "se_kind e = SE_Checkpoint" | "se_kind e = SE_Node" "se_state e = []"
    | "se_kind e \<noteq> SE_Checkpoint" "se_kind e \<noteq> SE_Node" "se_state e = []"
    using v by (auto simp: StageEvent_Valid_def split: if_splits)
  then show ?thesis
  proof cases
    case 1
    then show ?thesis using v head [of "8 + length (se_state e)"] 6 [of "length (se_state e)"]
      unfolding EncodeSpectatorStageEvent_def
      by (simp add: SpectatorStageHeaderBytes_def Let_def stage_tail_def add.assoc)
  next
    case 2
    then show ?thesis using v kinds head [of 8] 7 unfolding EncodeSpectatorStageEvent_def
      by (simp add: SpectatorStageHeaderBytes_def Let_def stage_tail_def list_update_append)
  next
    case 3
    then show ?thesis using v head [of 0] unfolding EncodeSpectatorStageEvent_def
      by (simp add: SpectatorStageHeaderBytes_def Let_def stage_tail_def)
  qed
qed

text \<open>The events whose unused fields have their default values: what a decoder makes and a publisher sends.\<close>

definition stage_canonical :: "SpectatorStageEvent \<Rightarrow> bool" where
  "stage_canonical e \<longleftrightarrow>
     (se_kind e \<noteq> SE_Checkpoint \<longrightarrow> se_schema e = 0) \<and>
     (se_kind e \<noteq> SE_Node \<longrightarrow> se_checkpoint e = 0 \<and> se_node e = SN_Stage \<and> se_bossSlots e = 0)"

lemma Encode_stage_iff: "EncodeSpectatorStageEvent e = Some d \<longleftrightarrow> StageEvent_Valid e \<and> d = stage_head e @ stage_tail e"
  using Encode_stage [of e] by (auto simp: EncodeSpectatorStageEvent_def)

definition event_bytes :: "SpectatorStageEvent \<Rightarrow> nat" where
  "event_bytes e = SpectatorStageHeaderBytes + (if se_kind e = SE_End then 0 else 8) + length (se_state e)"

lemma le_word_u32: "le_word (le_bytes 4 (ucast (w :: u32) :: u64)) = (ucast w :: u64)"
  unfolding le_word_le_bytes by (rule bit_word_eqI) (auto simp: bit_simps dest: bit_imp_le_length)

lemma ucast_u64_u32 [simp]: "ucast (ucast (w :: u32) :: u64) = w"
  by (rule bit_word_eqI) (auto simp: bit_simps)

lemma stage_head_gets:
  "IsCooperativeSpectatorGame (se_game e) \<Longrightarrow> IsSpectatorStageEvent (stage_head e @ x)"
  "stage_get (stage_head e @ x) 8 8 = se_sessionId e"
  "stage_get (stage_head e @ x) 16 4 = ucast (se_gameplayAbi e)"
  "stage_get (stage_head e @ x) 20 4 = ucast (se_frame e)"
  "stage_get (stage_head e @ x) 24 4 = ucast (se_stage e)"
  "stage_get (stage_head e @ x) 28 4 = ucast (se_serial e)"
  "(stage_head e @ x) ! Suc 0 = se_game e" "(stage_head e @ x) ! 4 = 1" "(stage_head e @ x) ! 5 = se_kind e"
  "(stage_head e @ x) ! 6 = se_playerCount e" "(stage_head e @ x) ! 7 = 0"
proof -
  show "stage_get (stage_head e @ x) 8 8 = se_sessionId e" "stage_get (stage_head e @ x) 16 4 = ucast (se_gameplayAbi e)"
    "stage_get (stage_head e @ x) 20 4 = ucast (se_frame e)" "stage_get (stage_head e @ x) 24 4 = ucast (se_stage e)"
    "stage_get (stage_head e @ x) 28 4 = ucast (se_serial e)"
    by (simp_all add: stage_get_take) (simp_all add: stage_head_def le_word_u32 le_word_le_bytes_id)
qed (simp_all add: stage_head_def IsSpectatorStageEvent_def)

lemma word_of_nat_small64: "n \<le> 61440 \<Longrightarrow> take_bit 32 (word_of_nat n :: u64) = word_of_nat n"
  by (simp add: word_unat_eq_iff unsigned_take_bit_eq unsigned_of_nat take_bit_nat_eq_self)

lemma stage_tail_gets:
  "se_kind e = SE_Checkpoint \<Longrightarrow> stage_get (stage_head e @ stage_tail e) 32 4 = ucast (se_schema e)"
  "se_kind e = SE_Checkpoint \<Longrightarrow> length (se_state e) \<le> SpectatorStageMaxStateBytes \<Longrightarrow>
     stage_get (stage_head e @ stage_tail e) 36 4 = word_of_nat (length (se_state e))"
  "se_kind e = SE_Node \<Longrightarrow> stage_get (stage_head e @ stage_tail e) 32 4 = ucast (se_checkpoint e)"
proof -
  show "se_kind e = SE_Checkpoint \<Longrightarrow> stage_get (stage_head e @ stage_tail e) 32 4 = ucast (se_schema e)"
    "se_kind e = SE_Checkpoint \<Longrightarrow> length (se_state e) \<le> SpectatorStageMaxStateBytes \<Longrightarrow>
       stage_get (stage_head e @ stage_tail e) 36 4 = word_of_nat (length (se_state e))"
    by (simp add: stage_get_take stage_tail_def le_word_u32)
      (simp add: stage_get_take stage_tail_def le_word_le_bytes word_of_nat_small64 SpectatorStageMaxStateBytes_def)
  show "se_kind e = SE_Node \<Longrightarrow> stage_get (stage_head e @ stage_tail e) 32 4 = ucast (se_checkpoint e)"
    by (simp add: stage_get_take stage_tail_def le_word_u32 stage_kinds)
qed

lemma stage_kinds_distinct [simp]:
  "SE_Node \<noteq> SE_Checkpoint" "SE_Checkpoint \<noteq> SE_Node" "SE_End \<noteq> SE_Checkpoint" "SE_End \<noteq> SE_Node"
  "SE_Bootstrap \<noteq> SE_Checkpoint" "SE_Bootstrap \<noteq> SE_Node" "SE_Checkpoint \<noteq> SE_Bootstrap" "SE_Node \<noteq> SE_Bootstrap"
  "SE_Checkpoint \<noteq> SE_End" "SE_Node \<noteq> SE_End" "SE_End \<noteq> SE_Bootstrap" "SE_Bootstrap \<noteq> SE_End"
  by (simp_all add: stage_kinds)

lemma stage_rebuilt:
  "se_kind e = SE_Checkpoint \<Longrightarrow> stage_canonical e \<Longrightarrow>
    \<lparr>se_game = se_game e, se_playerCount = se_playerCount e, se_kind = SE_Checkpoint, se_sessionId = se_sessionId e,
      se_gameplayAbi = se_gameplayAbi e, se_frame = se_frame e, se_stage = se_stage e, se_serial = se_serial e,
      se_schema = se_schema e, se_checkpoint = 0, se_node = SN_Stage, se_bossSlots = 0, se_state = se_state e\<rparr> = e"
  "se_kind e = SE_Node \<Longrightarrow> se_state e = [] \<Longrightarrow> stage_canonical e \<Longrightarrow>
    \<lparr>se_game = se_game e, se_playerCount = se_playerCount e, se_kind = SE_Node, se_sessionId = se_sessionId e,
      se_gameplayAbi = se_gameplayAbi e, se_frame = se_frame e, se_stage = se_stage e, se_serial = se_serial e,
      se_schema = 0, se_checkpoint = se_checkpoint e, se_node = se_node e, se_bossSlots = se_bossSlots e, se_state = []\<rparr> = e"
  "se_kind e = k \<Longrightarrow> k = SE_End \<or> k = SE_Bootstrap \<Longrightarrow> se_state e = [] \<Longrightarrow> stage_canonical e \<Longrightarrow>
    \<lparr>se_game = se_game e, se_playerCount = se_playerCount e, se_kind = k, se_sessionId = se_sessionId e,
      se_gameplayAbi = se_gameplayAbi e, se_frame = se_frame e, se_stage = se_stage e, se_serial = se_serial e,
      se_schema = 0, se_checkpoint = 0, se_node = SN_Stage, se_bossSlots = 0, se_state = []\<rparr> = e"
  by (cases e; auto simp: stage_canonical_def)+

lemma Decode_stage:
  assumes v: "StageEvent_Valid e" and c: "stage_canonical e"
  shows "DecodeSpectatorStageEvent (stage_head e @ stage_tail e) = Some e"
proof -
  have coop: "IsCooperativeSpectatorGame (se_game e)" using v by (auto simp: StageEvent_Valid_def split: if_splits)
  note gets = stage_head_gets stage_head_gets(1) [OF coop] SpectatorStageHeaderBytes_def StageEvent_default_def
  consider "se_kind e = SE_Checkpoint" "length (se_state e) \<le> SpectatorStageMaxStateBytes"
    | "se_kind e = SE_Node" "se_state e = []" | "se_kind e = SE_End \<or> se_kind e = SE_Bootstrap" "se_state e = []"
    using v by (auto simp: StageEvent_Valid_def split: if_splits)
  then show ?thesis
  proof cases
    case 1
    have tail: "length (stage_tail e) = 8 + length (se_state e)" "drop 8 (stage_tail e) = se_state e"
      using 1 by (simp_all add: stage_tail_def)
    show ?thesis using v 1 stage_tail_gets(1,2) [OF 1(1)] stage_rebuilt(1) [OF 1(1) c]
      unfolding DecodeSpectatorStageEvent_def by (simp add: gets tail)
  next
    case 2
    have tail: "length (stage_tail e) = 8" "(stage_head e @ stage_tail e) ! 36 = se_node e"
      "(stage_head e @ stage_tail e) ! 37 = se_bossSlots e" "(stage_head e @ stage_tail e) ! 38 = 0"
      "(stage_head e @ stage_tail e) ! 39 = 0"
      using 2 by (simp_all add: stage_tail_def nth_append)
    show ?thesis using v 2 stage_tail_gets(3) [OF 2(1)] stage_rebuilt(2) [OF 2 c]
      unfolding DecodeSpectatorStageEvent_def by (simp add: gets tail SpectatorStageMaxStateBytes_def)
  next
    case 3
    have tail: "stage_tail e = []" using 3 by (auto simp: stage_tail_def)
    show ?thesis using v 3 stage_rebuilt(3) [OF refl 3 c] stage_head_gets(1) [OF coop, of "[]"] stage_head_gets(2-11) [of e "[]"]
      unfolding DecodeSpectatorStageEvent_def tail
      by (auto simp: gets SpectatorStageMaxStateBytes_def)
  qed
qed

lemma length_stage_event:
  "StageEvent_Valid e \<Longrightarrow> se_kind e \<noteq> SE_Bootstrap \<Longrightarrow> length (stage_head e @ stage_tail e) = event_bytes e"
  by (auto simp: stage_tail_def event_bytes_def SpectatorStageHeaderBytes_def StageEvent_Valid_def stage_kinds split: if_splits)

section \<open>A viewer that receives the stream\<close>

text \<open>One message of the relay: an event or a frame.\<close>

definition spectator_feed :: "ProtocolConfig \<Rightarrow> SpectatorStageHistory \<Rightarrow> bytes \<Rightarrow> bool \<times> SpectatorStageHistory" where
  "spectator_feed cfg h wire =
     (case DecodeSpectatorStageEvent wire of Some e \<Rightarrow> History_AcceptEvent h e
      | None \<Rightarrow> (case DecodeSpectatorFramePacket cfg wire of Some p \<Rightarrow> History_AcceptInput cfg h p | None \<Rightarrow> (False, h)))"

fun spectator_feeds :: "ProtocolConfig \<Rightarrow> SpectatorStageHistory \<Rightarrow> bytes list \<Rightarrow> SpectatorStageHistory option" where
  "spectator_feeds cfg h [] = Some h"
| "spectator_feeds cfg h (wire # wires) =
     (case spectator_feed cfg h wire of (True, h) \<Rightarrow> spectator_feeds cfg h wires | (False, _) \<Rightarrow> None)"

lemma spectator_feeds_snoc:
  "spectator_feeds cfg h ws = Some h' \<Longrightarrow> spectator_feed cfg h' w = (True, h'') \<Longrightarrow> spectator_feeds cfg h (ws @ [w]) = Some h''"
  by (induction ws arbitrary: h) (auto split: prod.splits bool.splits)

definition stream_fits :: "bytes list \<Rightarrow> bool" where
  "stream_fits ws \<longleftrightarrow> length (concat ws) \<le> HistoryMaxBytes \<and> length ws \<le> HistoryMaxFrames"

lemma stream_fits_init: "stream_fits (ws @ [w]) \<Longrightarrow> stream_fits ws"
  by (simp add: stream_fits_def)

text \<open>What the history counts is what was received.\<close>

definition counts :: "SpectatorStageHistory \<Rightarrow> bytes list \<Rightarrow> bool" where
  "counts h ws \<longleftrightarrow> hi_bytes h = length (concat ws) \<and> hi_frames h \<le> length ws"

lemma feed_stage:
  assumes ws: "counts h ws" "stream_fits (ws @ [w])"
    and e: "EncodeSpectatorStageEvent e = Some w" "stage_canonical e" "se_kind e \<noteq> SE_Bootstrap" "\<not> event_refused h e"
    and node: "se_kind e = SE_Node \<Longrightarrow> se_checkpoint e = se_serial (sm_checkpoint (last (hi_segments h)))"
  shows "\<exists>h'. spectator_feed cfg h w = (True, h') \<and> counts h' (ws @ [w]) \<and> hi_serial h' = se_serial e \<and>
     hi_next h' = (if se_kind e = SE_Checkpoint then se_frame e else hi_next h) \<and>
     hi_ended h' = (hi_ended h \<or> se_kind e = SE_End) \<and>
     hi_segments h' =
       (if se_kind e = SE_Checkpoint then hi_segments h @ [\<lparr>sm_checkpoint = e, sm_inputs = [], sm_nodes = [], sm_ended = False\<rparr>]
        else if se_kind e = SE_Node then set_back_segment (\<lambda>m. m\<lparr>sm_nodes := sm_nodes m @ [e]\<rparr>) (hi_segments h)
        else set_back_segment (\<lambda>m. m\<lparr>sm_ended := True\<rparr>) (hi_segments h))"
proof -
  have v: "StageEvent_Valid e" and w: "w = stage_head e @ stage_tail e" using e(1) by (simp_all add: Encode_stage_iff)
  have len: "length w = event_bytes e" unfolding w by (rule length_stage_event [OF v e(3)])
  have k: "se_kind e = SE_Checkpoint \<or> se_kind e = SE_Node \<or> se_kind e = SE_End"
    using v e(3) by (auto simp: StageEvent_Valid_def split: if_splits)
  have fit: "\<not> event_bytes e > HistoryMaxBytes - hi_bytes h" using ws len by (simp add: counts_def stream_fits_def) arith
  have "spectator_feed cfg h w = History_AcceptEvent h e" by (simp add: spectator_feed_def w Decode_stage [OF v e(2)])
  then show ?thesis using v e(3,4) k node fit ws(1) len
    by (auto simp: History_AcceptEvent_def event_bytes_def counts_def)
qed

lemma feed_frame:
  assumes ws: "counts h ws" "stream_fits (ws @ [w])"
    and p: "EncodeSpectatorFramePacket cfg p [] = (True, w)"
    and h: "hi_segments h \<noteq> []" "\<not> hi_ended h" "hi_next h = sf_frame p"
      "sf_sessionId p = se_sessionId (sm_checkpoint (last (hi_segments h)))"
      "sf_gameplayAbi p = se_gameplayAbi (sm_checkpoint (last (hi_segments h)))"
      "sf_playerCount p = se_playerCount (sm_checkpoint (last (hi_segments h)))"
  shows "\<exists>h'. spectator_feed cfg h w = (True, h') \<and> counts h' (ws @ [w]) \<and> hi_serial h' = hi_serial h \<and>
     hi_next h' = hi_next h + 1 \<and> \<not> hi_ended h' \<and>
     hi_segments h' = set_back_segment (\<lambda>m. m\<lparr>sm_inputs := sm_inputs m @ [spectator_transmitted p]\<rparr>) (hi_segments h)"
proof -
  have ok: "spectator_packet_ok cfg p" using EncodeSpectatorFramePacket_fails [of cfg p "[]"] p by (metis prod.inject)
  then have w: "w = spectator_packet_bytes cfg p" using EncodeSpectatorFramePacket_ok p by (metis prod.inject)
  have "w ! 2 = 0x4E" by (simp add: w spectator_packet_bytes_def MAGIC_def)
  then have "DecodeSpectatorStageEvent w = None" by (simp add: DecodeSpectatorStageEvent_def IsSpectatorStageEvent_def)
  then have feed: "spectator_feed cfg h w = History_AcceptInput cfg h (spectator_transmitted p)"
    by (simp add: spectator_feed_def w DecodeSpectatorFramePacket_bytes [OF ok])
  have len: "length w = 24 + 12 * unat (sf_playerCount p)" by (simp add: w length_spectator_packet_bytes)
  have fields: "sf_sessionId (spectator_transmitted p) = sf_sessionId p" "sf_gameplayAbi (spectator_transmitted p) = sf_gameplayAbi p"
    "sf_playerCount (spectator_transmitted p) = sf_playerCount p" "sf_frame (spectator_transmitted p) = sf_frame p"
    by (simp_all add: spectator_transmitted_def)
  have valid: "list_all (\<lambda>i. IsValidFrameInput cfg (sf_inputs (spectator_transmitted p) i)) [0..<unat (sf_playerCount p)]"
    using ok by (auto simp: spectator_packet_ok_def spectator_transmitted_def stored_inputs_def spectator_inputs_def
      list_all_iff IsValidFrameInput_def)
  have fit: "\<not> 24 + 12 * unat (sf_playerCount p) > HistoryMaxBytes - hi_bytes h" "hi_frames h < HistoryMaxFrames"
    using ws len by (simp_all add: counts_def stream_fits_def) arith
  have "sf_frame p \<noteq> INVALID_FRAME" using ok by (simp add: spectator_packet_ok_def)
  then show ?thesis unfolding feed using h ws(1) len fit valid
    by (auto simp: History_AcceptInput_def counts_def fields Let_def)
qed

section \<open>The publisher and its viewer\<close>

text \<open>A transport that keeps what it takes; which messages it takes is arbitrary.\<close>

definition recording_send :: "(bytes list \<Rightarrow> bytes \<Rightarrow> bool) \<Rightarrow> bytes list \<Rightarrow> bytes \<Rightarrow> bool \<times> bytes list" where
  "recording_send takes ws w = (if takes ws w then (True, ws @ [w]) else (False, ws))"

inductive publisher_run :: "ProtocolConfig \<Rightarrow> SpectatorStagePublisher \<Rightarrow> bytes list \<Rightarrow> bool" for cfg where
  publisher_reset: "Publisher_Reset b0 game n session abi frame = (True, b) \<Longrightarrow> publisher_run cfg b []"
| publisher_record: "publisher_run cfg b ws \<Longrightarrow> Publisher_Record cfg b frame = (r, b') \<Longrightarrow> publisher_run cfg b' ws"
| publisher_publish: "publisher_run cfg b ws \<Longrightarrow>
    Publish cfg b confirmed simulated inputs (recording_send takes) ws = (r, failure, ws', b') \<Longrightarrow> publisher_run cfg b' ws'"
| publisher_finish: "publisher_run cfg b ws \<Longrightarrow> Publisher_Finish (recording_send takes) ws b frame = (r, ws', b') \<Longrightarrow>
    publisher_run cfg b' ws'"

definition identity_ok :: "SpectatorStageEvent \<Rightarrow> bool" where
  "identity_ok i \<longleftrightarrow> stage_canonical i \<and> se_kind i = SE_Checkpoint \<and> se_schema i = 0 \<and> se_state i = []"

text \<open>The inputs of a history are those of consecutive frames, up to the next one.\<close>

definition covered :: "u32 \<Rightarrow> SpectatorStageHistory \<Rightarrow> bool" where
  "covered first h \<longleftrightarrow> (\<exists>k. map sf_frame (concat (map sm_inputs (hi_segments h))) =
     map (\<lambda>i. first + word_of_nat i) [0..<k] \<and> hi_next h = first + word_of_nat k)"

lemma covered_segments:
  "covered first h \<Longrightarrow> hi_next h' = hi_next h \<Longrightarrow>
   concat (map sm_inputs (hi_segments h')) = concat (map sm_inputs (hi_segments h)) \<Longrightarrow> covered first h'"
  by (simp add: covered_def)

lemma covered_input:
  assumes "covered first h" "hi_next h' = hi_next h + 1" "sf_frame p = hi_next h"
    "concat (map sm_inputs (hi_segments h')) = concat (map sm_inputs (hi_segments h)) @ [p]"
  shows "covered first h'"
proof -
  obtain k where "map sf_frame (concat (map sm_inputs (hi_segments h))) = map (\<lambda>i. first + word_of_nat i) [0..<k]"
    "hi_next h = first + word_of_nat k" using assms(1) by (auto simp: covered_def)
  then show ?thesis using assms(2-4) unfolding covered_def by (intro exI [of _ "Suc k"]) (simp add: algebra_simps)
qed

lemma set_back_inputs:
  assumes "ms \<noteq> []" "\<And>m. sm_inputs (f m) = sm_inputs m @ ps"
  shows "concat (map sm_inputs (set_back_segment f ms)) = concat (map sm_inputs ms) @ ps"
proof -
  obtain xs x where "ms = xs @ [x]" using assms(1) by (metis rev_exhaust)
  then show ?thesis using assms(2) by simp
qed

definition viewed :: "SpectatorStagePublisher \<Rightarrow> SpectatorStageHistory \<Rightarrow> bool" where
  "viewed b h \<longleftrightarrow>
     (if pb_checkpoint b = 0 then h = History_default \<and> pb_phase b = 0 \<and> pb_serial b = 0 \<and> \<not> pb_ended b \<and>
        pb_next b = pb_firstFrame b
      else hi_segments h \<noteq> [] \<and> covered (pb_firstFrame b) h \<and>
        (let c = sm_checkpoint (last (hi_segments h)); i = pb_identity b in
         se_game c = se_game i \<and> se_playerCount c = se_playerCount i \<and> se_sessionId c = se_sessionId i \<and>
         se_gameplayAbi c = se_gameplayAbi i \<and> se_serial c = pb_checkpoint b \<and> se_stage c = pb_stage b \<and>
         hi_serial h = pb_serial b \<and> hi_ended h = pb_ended b \<and> se_frame c \<le> pb_next b \<and>
         hi_next h = (if pb_phase b = 2 then pb_next b + 1 else pb_next b) \<and> (pb_phase b = 2 \<longrightarrow> pb_next b \<noteq> INVALID_FRAME) \<and>
         (pb_phase b = 0 \<longrightarrow> se_frame c < pb_next b)))"

definition streamed :: "ProtocolConfig \<Rightarrow> SpectatorStagePublisher \<Rightarrow> bytes list \<Rightarrow> bool" where
  "streamed cfg b ws \<longleftrightarrow> identity_ok (pb_identity b) \<and> pb_phase b \<le> 2 \<and> (pb_phase b \<noteq> 0 \<longrightarrow> pb_checkpoint b \<noteq> 0) \<and>
     (pb_checkpoint b = 0 \<longrightarrow> ws = []) \<and>
     (stream_fits ws \<longrightarrow> (\<exists>h. spectator_feeds cfg History_default ws = Some h \<and> counts h ws \<and> viewed b h))"

lemma Publisher_Event_cases:
  assumes "Publisher_Event (recording_send takes) ws b e f1 f2 = (r, f, ws', b')"
  shows "if r then \<exists>w. EncodeSpectatorStageEvent e = Some w \<and> ws' = ws @ [w] \<and> b' = b\<lparr>pb_serial := se_serial e\<rparr> \<and> se_serial e \<noteq> 0
    else ws' = ws \<and> b' = b"
  using assms by (auto simp: Publisher_Event_def recording_send_def split: if_splits option.splits)

lemma next_serial: "(s :: u32) + 1 \<noteq> 0 \<Longrightarrow> s < s + 1"
proof -
  assume "s + 1 \<noteq> 0"
  then have "s \<noteq> INVALID_FRAME" by (auto simp: INVALID_FRAME_def)
  then show ?thesis using unat_add_nat [of s 1] by (simp add: frame_neq_INVALID word_less_nat_alt)
qed

lemma publish_checkpoint_streamed:
  assumes s: "streamed cfg b ws" "\<not> pb_ended b"
    and p: "publish_checkpoint (recording_send takes) frame ws b = (r, f, ws', b')"
  shows "streamed cfg b' ws' \<and> \<not> pb_ended b' \<and> pb_next b' = pb_next b \<and> (r \<longrightarrow> pb_phase b' \<noteq> 0 \<and> pb_checkpoint b' \<noteq> 0)"
proof (cases "pb_phase b = 0 \<and> fr_initializer frame \<noteq> []")
  case False
  then show ?thesis using p s
    by (auto simp: publish_checkpoint_def streamed_def viewed_def Let_def split: if_splits)
next
  case True
  let ?e = "(pb_identity b)\<lparr>se_frame := pb_next b, se_stage := fr_stage frame, se_kind := SE_Checkpoint,
    se_serial := pb_serial b + 1, se_schema := fr_schema frame, se_state := fr_initializer frame\<rparr>"
  obtain r1 f1 ws1 b1 where e: "Publisher_Event (recording_send takes) ws b ?e PF_CheckpointEncode PF_CheckpointSend = (r1, f1, ws1, b1)"
    by (rule prod_cases4)
  note c = Publisher_Event_cases [OF e]
  show ?thesis
  proof (cases r1)
    case False
    then have "\<not> r" "ws' = ws" "b' = b" using p True e c by (simp_all add: publish_checkpoint_def)
    then show ?thesis using s by simp
  next
    case r1: True
    then obtain w where w: "EncodeSpectatorStageEvent ?e = Some w" "ws' = ws @ [w]" "r" "pb_serial b + 1 \<noteq> 0"
      and b': "b' = b\<lparr>pb_serial := pb_serial b + 1, pb_checkpoint := pb_serial b + 1, pb_stage := fr_stage frame, pb_phase := 1\<rparr>"
      using p True e c by (auto simp: publish_checkpoint_def)
    have can: "stage_canonical ?e" using s(1) by (simp add: streamed_def identity_ok_def stage_canonical_def)
    have "\<exists>h'. spectator_feeds cfg History_default ws' = Some h' \<and> counts h' ws' \<and> viewed b' h'" if fit: "stream_fits ws'"
    proof -
      obtain h where h: "spectator_feeds cfg History_default ws = Some h" "counts h ws" "viewed b h"
        using s(1) stream_fits_init fit w(2) by (auto simp: streamed_def)
      have "\<not> event_refused h ?e" using h(3) True s(2) next_serial [OF w(4)]
        by (auto simp: event_refused_def viewed_def Let_def History_default_def split: if_splits)
      from feed_stage [OF h(2) fit [unfolded w(2)] w(1) can _ this, of cfg]
      obtain h' where h': "spectator_feed cfg h w = (True, h')" "counts h' (ws @ [w])" "hi_serial h' = pb_serial b + 1"
        "hi_next h' = pb_next b" "hi_ended h' = hi_ended h"
        "hi_segments h' = hi_segments h @ [\<lparr>sm_checkpoint = ?e, sm_inputs = [], sm_nodes = [], sm_ended = False\<rparr>]" by auto
      have "\<not> hi_ended h" using h(3) s(2) by (auto simp: viewed_def Let_def History_default_def split: if_splits)
      moreover have "covered (pb_firstFrame b) h'"
      proof (cases "pb_checkpoint b = 0")
        case True
        then have "hi_segments h = []" "pb_next b = pb_firstFrame b" using h(3) by (simp_all add: viewed_def History_default_def)
        then show ?thesis using h'(4,6) unfolding covered_def by (intro exI [of _ 0]) simp
      next
        case False
        then have c: "covered (pb_firstFrame b) h" "hi_next h = pb_next b" using h(3) True by (auto simp: viewed_def Let_def)
        show ?thesis by (rule covered_segments [OF c(1)]) (use h'(4,6) c(2) in simp_all)
      qed
      ultimately have "viewed b' h'" using h' w(4) s(2) by (simp add: viewed_def b')
      then show ?thesis using spectator_feeds_snoc [OF h(1) h'(1)] h'(2) w(2) by auto
    qed
    then show ?thesis using s w b' by (simp add: streamed_def)
  qed
qed

lemma publish_input_streamed:
  assumes s: "streamed cfg b ws" "\<not> pb_ended b" "pb_checkpoint b \<noteq> 0" "pb_phase b \<noteq> 0"
    and p: "publish_input cfg inputs (recording_send takes) frame ws b = (r, f, ws', b')"
  shows "streamed cfg b' ws' \<and> \<not> pb_ended b' \<and> pb_checkpoint b' = pb_checkpoint b \<and> (r \<longrightarrow> pb_phase b' = 2)"
proof (cases "pb_phase b = 1 \<and> ws' \<noteq> ws")
  case False
  moreover have "pb_phase b \<noteq> 1 \<Longrightarrow> pb_phase b = 2" using s(1,4) by (simp add: streamed_def)
  ultimately show ?thesis using p s
    by (auto simp: publish_input_def Let_def recording_send_def split: if_splits option.splits prod.splits)
next
  case True
  then obtain lanes w where w: "EncodeSpectatorFramePacket cfg (frame_packet b (pb_next b) lanes) [] = (True, w)"
    "ws' = ws @ [w]" "b' = b\<lparr>pb_phase := 2\<rparr>" "r"
    using p by (auto simp: publish_input_def Let_def recording_send_def split: if_splits option.splits prod.splits)
  let ?p = "frame_packet b (pb_next b) lanes"
  have "spectator_packet_ok cfg ?p" using EncodeSpectatorFramePacket_fails [of cfg ?p "[]"] w(1) by (metis prod.inject)
  then have nx: "pb_next b \<noteq> INVALID_FRAME" by (simp add: spectator_packet_ok_def frame_packet_def)
  have "\<exists>h'. spectator_feeds cfg History_default ws' = Some h' \<and> counts h' ws' \<and> viewed b' h'" if fit: "stream_fits ws'"
  proof -
    obtain h where h: "spectator_feeds cfg History_default ws = Some h" "counts h ws" "viewed b h"
      using s(1) stream_fits_init fit w(2) by (auto simp: streamed_def)
    have v: "hi_segments h \<noteq> []" "\<not> hi_ended h" "hi_next h = sf_frame ?p"
      "sf_sessionId ?p = se_sessionId (sm_checkpoint (last (hi_segments h)))"
      "sf_gameplayAbi ?p = se_gameplayAbi (sm_checkpoint (last (hi_segments h)))"
      "sf_playerCount ?p = se_playerCount (sm_checkpoint (last (hi_segments h)))"
      using h(3) s(2,3) True by (auto simp: viewed_def Let_def frame_packet_def)
    obtain h' where h': "spectator_feed cfg h w = (True, h')" "counts h' (ws @ [w])" "hi_serial h' = hi_serial h"
      "hi_next h' = hi_next h + 1" "\<not> hi_ended h'"
      "hi_segments h' = set_back_segment (\<lambda>m. m\<lparr>sm_inputs := sm_inputs m @ [spectator_transmitted ?p]\<rparr>) (hi_segments h)"
      using feed_frame [OF h(2) fit [unfolded w(2)] w(1) v] by auto
    have "covered (pb_firstFrame b) h'"
      by (rule covered_input [of _ h _ "spectator_transmitted ?p"])
        (use h(3) s(3) v(1,3) in \<open>simp_all add: h' viewed_def set_back_inputs spectator_transmitted_def\<close>)
    then have "viewed b' h'" using h(3) h' s(2,3) True nx v(1)
      by (simp add: viewed_def Let_def w(3) set_back_segment_def)
    then show ?thesis using spectator_feeds_snoc [OF h(1) h'(1)] h'(2) w(2) by auto
  qed
  then show ?thesis using s w by (simp add: streamed_def)
qed

lemma event_streamed:
  assumes s: "streamed cfg b ws" "\<not> pb_ended b" "pb_checkpoint b \<noteq> 0"
    and e: "stage_canonical e" "se_kind e = SE_Node \<or> se_kind e = SE_End" "se_game e = se_game (pb_identity b)"
      "se_playerCount e = se_playerCount (pb_identity b)" "se_sessionId e = se_sessionId (pb_identity b)"
      "se_gameplayAbi e = se_gameplayAbi (pb_identity b)" "se_stage e = pb_stage b" "se_serial e = pb_serial b + 1"
      "se_kind e = SE_Node \<Longrightarrow> se_checkpoint e = pb_checkpoint b"
      "se_frame e = (if pb_phase b = 2 then pb_next b + 1 else pb_next b)"
    and w: "EncodeSpectatorStageEvent e = Some w" "se_serial e \<noteq> 0"
    and b': "b' = b\<lparr>pb_serial := pb_serial b + 1, pb_ended := (se_kind e = SE_End)\<rparr>"
  shows "streamed cfg b' (ws @ [w])"
proof -
  have "\<exists>h'. spectator_feeds cfg History_default (ws @ [w]) = Some h' \<and> counts h' (ws @ [w]) \<and> viewed b' h'"
    if fit: "stream_fits (ws @ [w])"
  proof -
    obtain h where h: "spectator_feeds cfg History_default ws = Some h" "counts h ws" "viewed b h"
      using s(1) stream_fits_init fit by (auto simp: streamed_def)
    have "\<not> event_refused h e" using h(3) s(2,3) e next_serial [of "pb_serial b"] w(2)
      by (auto simp: event_refused_def viewed_def Let_def)
    moreover have "se_kind e = SE_Node \<Longrightarrow> se_checkpoint e = se_serial (sm_checkpoint (last (hi_segments h)))"
      using h(3) s(3) e(9) by (simp add: viewed_def Let_def)
    moreover have "se_kind e \<noteq> SE_Bootstrap" using e(2) by auto
    ultimately obtain h' where h': "spectator_feed cfg h w = (True, h')" "counts h' (ws @ [w])" "hi_serial h' = pb_serial b + 1"
      "hi_next h' = hi_next h" "hi_ended h' = (hi_ended h \<or> se_kind e = SE_End)"
      "hi_segments h' = set_back_segment (\<lambda>m. m\<lparr>sm_nodes := sm_nodes m @ [e]\<rparr>) (hi_segments h) \<or>
       hi_segments h' = set_back_segment (\<lambda>m. m\<lparr>sm_ended := True\<rparr>) (hi_segments h)"
      using feed_stage [OF h(2) fit w(1) e(1), of cfg] e(2,8) by (auto split: if_splits)
    have seg: "hi_segments h \<noteq> []" "covered (pb_firstFrame b) h" using h(3) s(3) by (simp_all add: viewed_def)
    have "concat (map sm_inputs (hi_segments h')) = concat (map sm_inputs (hi_segments h))"
      using h'(6) set_back_inputs [OF seg(1), of _ "[]"] by auto
    then have "covered (pb_firstFrame b) h'" by (rule covered_segments [OF seg(2) h'(4)])
    then have "viewed b' h'" using h(3) h' s(2,3) by (auto simp: viewed_def Let_def b' set_back_segment_def)
    then show ?thesis using spectator_feeds_snoc [OF h(1) h'(1)] h'(2) by auto
  qed
  then show ?thesis using s(1,3) by (simp add: streamed_def b')
qed

lemma publish_boss_streamed:
  assumes s: "streamed cfg b ws" "\<not> pb_ended b" "pb_checkpoint b \<noteq> 0" "pb_phase b = 2"
    and p: "publish_boss (recording_send takes) frame ws b = (r, f, ws', b')"
  shows "streamed cfg b' ws' \<and> \<not> pb_ended b' \<and> pb_checkpoint b' \<noteq> 0 \<and> pb_phase b' = 2"
proof (cases "fr_bossSlots frame \<noteq> 0 \<and> r")
  case False
  have "b' = b" "ws' = ws" if "fr_bossSlots frame \<noteq> 0"
    using p that False Publisher_Event_cases [of takes ws b _ PF_BossNodeEncode PF_BossNodeSend r f ws' b']
    by (auto simp: publish_boss_def Let_def)
  then show ?thesis using p s by (cases "fr_bossSlots frame = 0") (auto simp: publish_boss_def)
next
  case True
  let ?e = "(pb_identity b)\<lparr>se_kind := SE_Node, se_frame := pb_next b + 1, se_stage := pb_stage b,
    se_serial := pb_serial b + 1, se_checkpoint := pb_checkpoint b, se_node := SN_Boss, se_bossSlots := fr_bossSlots frame\<rparr>"
  have "Publisher_Event (recording_send takes) ws b ?e PF_BossNodeEncode PF_BossNodeSend = (r, f, ws', b')"
    using p True by (simp add: publish_boss_def)
  from Publisher_Event_cases [OF this] obtain w where w: "EncodeSpectatorStageEvent ?e = Some w" "ws' = ws @ [w]"
    "b' = b\<lparr>pb_serial := pb_serial b + 1\<rparr>" "se_serial ?e \<noteq> 0" using True by auto
  have "stage_canonical ?e" using s(1) by (simp add: streamed_def identity_ok_def stage_canonical_def)
  then have "streamed cfg b' (ws @ [w])"
    by (rule event_streamed [OF s(1-3) _ _ _ _ _ _ _ _ _ _ w(1) w(4)]) (use s w(3) in simp_all)
  then show ?thesis using w s by simp
qed

lemma publish_frame_streamed:
  assumes s: "streamed cfg b ws" "\<not> pb_ended b" and p: "publish_frame cfg inputs (recording_send takes) ws b = (r, f, ws', b')"
  shows "streamed cfg b' ws' \<and> \<not> pb_ended b'"
proof (cases "fr_frame (pb_records b (ring_slot (pb_next b))) \<noteq> pb_next b")
  case True
  then show ?thesis using p s by (simp add: publish_frame_def)
next
  case False
  let ?f = "pb_records b (ring_slot (pb_next b))"
  obtain r1 f1 ws1 b1 where c: "publish_checkpoint (recording_send takes) ?f ws b = (r1, f1, ws1, b1)" by (rule prod_cases4)
  note s1 = publish_checkpoint_streamed [OF s c]
  note go = p [unfolded publish_frame_def Let_def if_not_P [OF False] c]
  show ?thesis
  proof (cases r1)
    case False
    then show ?thesis using go s1 by simp
  next
    case r1: True
    obtain r2 f2 ws2 b2 where i: "publish_input cfg inputs (recording_send takes) ?f ws1 b1 = (r2, f2, ws2, b2)" by (rule prod_cases4)
    have s2: "streamed cfg b2 ws2 \<and> \<not> pb_ended b2 \<and> pb_checkpoint b2 = pb_checkpoint b1 \<and> (r2 \<longrightarrow> pb_phase b2 = 2)"
      by (rule publish_input_streamed [OF _ _ _ _ i]) (use s1 r1 in simp_all)
    show ?thesis
    proof (cases r2)
      case False
      then show ?thesis using go r1 i s2 by simp
    next
      case r2: True
      obtain r3 f3 ws3 b3 where n: "publish_boss (recording_send takes) ?f ws2 b2 = (r3, f3, ws3, b3)" by (rule prod_cases4)
      have s3: "streamed cfg b3 ws3 \<and> \<not> pb_ended b3 \<and> pb_checkpoint b3 \<noteq> 0 \<and> pb_phase b3 = 2"
        by (rule publish_boss_streamed [OF _ _ _ _ n]) (use s1 s2 r1 r2 in simp_all)
      show ?thesis
      proof (cases r3)
        case False
        then show ?thesis using go r1 i r2 n s3 by simp
      next
        case True
        then have b': "b' = b3\<lparr>pb_next := pb_next b3 + 1, pb_phase := 0\<rparr>" "ws' = ws3" using go r1 i r2 n by simp_all
        have "viewed b' h" if "viewed b3 h" for h
        proof -
          have "pb_next b3 \<noteq> INVALID_FRAME" using that s3 by (simp add: viewed_def Let_def)
          then have "pb_next b3 < pb_next b3 + 1"
            using unat_add_nat [of "pb_next b3" 1] by (simp add: frame_neq_INVALID word_less_nat_alt)
          then show ?thesis using that s3 by (auto simp: viewed_def Let_def b')
        qed
        then show ?thesis using s3 by (auto simp: streamed_def b')
      qed
    qed
  qed
qed

lemma publish_loop_streamed:
  "streamed cfg b ws \<Longrightarrow> \<not> pb_ended b \<Longrightarrow> publish_loop n cfg inputs (recording_send takes) lastFrame ws b = (r, f, ws', b') \<Longrightarrow>
   streamed cfg b' ws'"
proof (induction n arbitrary: b ws)
  case (Suc n)
  obtain r1 f1 ws1 b1 where c: "publish_frame cfg inputs (recording_send takes) ws b = (r1, f1, ws1, b1)" by (rule prod_cases4)
  note s1 = publish_frame_streamed [OF Suc.prems(1,2) c]
  show ?case using Suc.prems c s1 Suc.IH [of b1 ws1] by (cases r1; cases "pb_next b \<le> lastFrame") simp_all
qed simp

lemma Finish_streamed:
  assumes s: "streamed cfg b ws" and p: "Publisher_Finish (recording_send takes) ws b frame = (r, ws', b')"
  shows "streamed cfg b' ws'"
proof (cases "pb_ended b \<or> pb_checkpoint b = 0 \<or> pb_phase b \<noteq> 0 \<or> frame \<noteq> pb_next b")
  case True
  then have "ws' = ws" "b' = b" using p by (simp_all add: Publisher_Finish_def)
  then show ?thesis using s by simp
next
  case False
  let ?e = "(pb_identity b)\<lparr>se_kind := SE_End, se_frame := pb_next b, se_stage := pb_stage b, se_serial := pb_serial b + 1\<rparr>"
  obtain r1 f1 ws1 b1 where e: "Publisher_Event (recording_send takes) ws b ?e PF_None PF_None = (r1, f1, ws1, b1)" by (rule prod_cases4)
  note c = Publisher_Event_cases [OF e]
  show ?thesis
  proof (cases r1)
    case False
    then show ?thesis using p e c s \<open>\<not> (_ \<or> _)\<close> by (simp add: Publisher_Finish_def)
  next
    case True
    then obtain w where w: "EncodeSpectatorStageEvent ?e = Some w" "ws' = ws @ [w]" "se_serial ?e \<noteq> 0"
      "b' = b\<lparr>pb_serial := pb_serial b + 1, pb_ended := True\<rparr>" using p e c False by (auto simp: Publisher_Finish_def)
    have can: "stage_canonical ?e" using s by (simp add: streamed_def identity_ok_def stage_canonical_def)
    have "streamed cfg b' (ws @ [w])"
      by (rule event_streamed [OF s _ _ _ _ _ _ _ _ _ _ _ _ w(1) w(3)]) (use False w(4) can in simp_all)
    then show ?thesis using w by simp
  qed
qed

lemma publisher_run_streamed: "publisher_run cfg b ws \<Longrightarrow> streamed cfg b ws"
proof (induction rule: publisher_run.induct)
  case (publisher_reset b0 game n session abi frame b)
  then show ?case
    by (auto simp: Publisher_Reset_def Publisher_default_def streamed_def identity_ok_def stage_canonical_def viewed_def
        counts_def History_default_def StageEvent_default_def Let_def split: if_splits)
next
  case (publisher_record b ws frame r b')
  then have "\<exists>R. b' = b\<lparr>pb_records := R\<rparr>" by (auto simp: Publisher_Record_def Let_def split: if_splits intro: exI [of _ "pb_records b"])
  then show ?case using publisher_record.IH by (auto simp: streamed_def viewed_def)
next
  case (publisher_publish b ws confirmed simulated inputs takes r failure ws' b')
  then show ?case by (auto simp: Publish_def Let_def split: if_splits intro: publish_loop_streamed)
next
  case (publisher_finish b ws takes frame r ws' b')
  then show ?case by (auto intro: Finish_streamed)
qed

text \<open>
  C40: The viewer accepts the stream. Whatever a publisher records, publishes, retries after a refused send and
  finishes, the messages the transport took decode and are all accepted by a fresh history, in the order they
  were taken, provided they are within what a history holds, 16 MiB and 108000 messages; the publisher has no
  such limit. The history then stands where the publisher stands: its serial,
  its end, and the inputs of all frames from the first one to the next, each once and in order.
\<close>

theorem spectator_stream_accepted:
  assumes "publisher_run cfg b ws" "length (concat ws) \<le> HistoryMaxBytes" "length ws \<le> HistoryMaxFrames"
  shows "\<exists>h. spectator_feeds cfg History_default ws = Some h \<and> hi_serial h = pb_serial b \<and> hi_ended h = pb_ended b \<and>
    hi_bytes h = length (concat ws) \<and>
    (pb_checkpoint b = 0 \<and> ws = [] \<or>
     pb_checkpoint b \<noteq> 0 \<and> hi_next h = (if pb_phase b = 2 then pb_next b + 1 else pb_next b) \<and>
     (\<exists>k. map sf_frame (concat (map sm_inputs (hi_segments h))) = map (\<lambda>i. pb_firstFrame b + word_of_nat i) [0..<k] \<and>
        hi_next h = pb_firstFrame b + word_of_nat k))"
proof -
  obtain h where h: "spectator_feeds cfg History_default ws = Some h" "counts h ws" "viewed b h"
    using publisher_run_streamed [OF assms(1)] assms(2,3) by (auto simp: streamed_def stream_fits_def)
  have "pb_checkpoint b = 0 \<longrightarrow> ws = []" using publisher_run_streamed [OF assms(1)] by (simp add: streamed_def)
  then show ?thesis using h unfolding covered_def [symmetric]
    by (cases "pb_checkpoint b = 0"; intro exI [of _ h])
      (simp_all add: viewed_def counts_def Let_def, auto simp: History_default_def)
qed

section \<open>Witness\<close>

text \<open>One frame with the checkpoint of its stage, recorded, published and followed by the end.\<close>

definition demo_frame :: StageFrame where
  "demo_frame = StageFrame_default\<lparr>fr_frame := 0, fr_stage := 0, fr_schema := 1, fr_initializer := [1], fr_hasInputs := True\<rparr>"

definition demo_publisher :: SpectatorStagePublisher where
  "demo_publisher = Publisher_default\<lparr>pb_identity := StageEvent_default\<lparr>se_game := 0x36, se_playerCount := 2,
     se_sessionId := 9, se_gameplayAbi := 4, se_frame := 0\<rparr>\<rparr>"

definition demo_ready :: SpectatorStagePublisher where
  "demo_ready = demo_publisher\<lparr>pb_records := (pb_records demo_publisher)(0 := demo_frame)\<rparr>"

definition demo_sent :: "bytes list" where
  "demo_sent = [stage_head (demo_event SE_Checkpoint 0 1) @ stage_tail (demo_event SE_Checkpoint 0 1),
     spectator_packet_bytes sample_config demo_lanes]"

lemmas demo_publish_defs = demo_publisher_def Publisher_default_def StageEvent_default_def demo_frame_def StageFrame_default_def
  StageEvent_Valid_def IsCooperativeSpectatorGame_def stage_kinds MAX_PLAYERS_def INVALID_FRAME_def SpectatorStageMaxStateBytes_def

lemma demo_resets: "Publisher_Reset Publisher_default 0x36 2 9 4 0 = (True, demo_publisher)"
  by (simp add: Publisher_Reset_def demo_publish_defs)

lemma demo_records: "Publisher_Record cfg demo_publisher demo_frame = (True, demo_ready)"
  by (simp add: Publisher_Record_def demo_ready_def ring_slot_def PublisherCapacity_def demo_publish_defs)

lemma demo_publishes:
  "Publish sample_config demo_ready 0 0 (\<lambda>_. None) (recording_send (\<lambda>_ _. True)) [] =
    (True, PF_None, demo_sent, demo_ready\<lparr>pb_serial := 1, pb_checkpoint := 1, pb_next := 1\<rparr>)"
proof -
  let ?e = "demo_event SE_Checkpoint 0 1"
  have e: "EncodeSpectatorStageEvent ?e = Some (stage_head ?e @ stage_tail ?e)"
    by (rule Encode_stage) (simp add: demo_play_defs)
  have i: "(pb_identity demo_ready)\<lparr>se_frame := 0, se_stage := 0, se_kind := SE_Checkpoint, se_serial := 1, se_schema := 1,
      se_state := [1]\<rparr> = ?e"
    by (simp add: demo_ready_def demo_publish_defs demo_event_def)
  have p: "frame_packet (demo_ready\<lparr>pb_serial := 1, pb_checkpoint := 1, pb_stage := 0, pb_phase := 1\<rparr>) 0 (\<lambda>_. FrameInput_default) = demo_lanes"
    by (simp add: frame_packet_def demo_ready_def demo_publish_defs demo_lanes_def)
  have w: "EncodeSpectatorFramePacket sample_config demo_lanes [] = (True, spectator_packet_bytes sample_config demo_lanes)"
    by (rule EncodeSpectatorFramePacket_ok)
      (simp add: spectator_packet_ok_def demo_lanes_def MAX_PLAYERS_def INVALID_FRAME_def spectator_inputs_def list_all_iff
        demo_lanes_valid [unfolded IsValidFrameInput_def])
  have f: "pb_records demo_ready (ring_slot 0) = demo_frame" "pb_next demo_ready = 0" "pb_phase demo_ready = 0" "pb_serial demo_ready = 0"
    "pb_checkpoint demo_ready = 0" "pb_stage demo_ready = 0" "pb_ended demo_ready = False" "se_sessionId (pb_identity demo_ready) = 9"
    by (simp_all add: demo_ready_def ring_slot_def PublisherCapacity_def demo_publish_defs)
  have d: "fr_frame demo_frame = 0" "fr_stage demo_frame = 0" "fr_schema demo_frame = 1" "fr_initializer demo_frame = [1]"
    "fr_hasInputs demo_frame" "fr_bossSlots demo_frame = 0" "fr_inputs demo_frame = (\<lambda>_. FrameInput_default)"
    by (simp_all add: demo_frame_def StageFrame_default_def)
  have "se_serial ?e = 1" by (simp add: demo_event_def)
  then have ev: "Publisher_Event (recording_send (\<lambda>_ _. True)) [] demo_ready ?e PF_CheckpointEncode PF_CheckpointSend =
      (True, PF_None, [stage_head ?e @ stage_tail ?e], demo_ready\<lparr>pb_serial := 1\<rparr>)"
    by (simp add: Publisher_Event_def e recording_send_def)
  have "publish_checkpoint (recording_send (\<lambda>_ _. True)) demo_frame [] demo_ready =
      (True, PF_None, [stage_head ?e @ stage_tail ?e], demo_ready\<lparr>pb_serial := 1, pb_checkpoint := 1, pb_stage := 0, pb_phase := 1\<rparr>)"
    using i ev by (simp add: publish_checkpoint_def f d Let_def)
  then show ?thesis using p w
    by (simp add: Publish_def f d publish_frame_def publish_input_def publish_boss_def recording_send_def demo_sent_def INVALID_FRAME_def)
qed

theorem spectator_stream_accepted_witness:
  "\<exists>b h. publisher_run sample_config b demo_sent \<and> spectator_feeds sample_config History_default demo_sent = Some h \<and>
     hi_serial h = 1 \<and> hi_next h = 1"
proof -
  let ?b = "demo_ready\<lparr>pb_serial := 1, pb_checkpoint := 1, pb_next := 1\<rparr>"
  have run: "publisher_run sample_config ?b demo_sent"
    by (rule publisher_publish [OF publisher_record [OF publisher_reset [OF demo_resets] demo_records] demo_publishes])
  have f: "pb_serial ?b = 1" "pb_checkpoint ?b = 1" "pb_next ?b = 1" "pb_phase ?b = 0"
    by (simp_all add: demo_ready_def demo_publish_defs)
  have "length (concat demo_sent) \<le> HistoryMaxBytes" "length demo_sent \<le> HistoryMaxFrames"
    by (simp_all add: demo_sent_def stage_tail_def demo_event_def StageEvent_default_def length_spectator_packet_bytes demo_lanes_def
        HistoryMaxBytes_def HistoryMaxFrames_def)
  from spectator_stream_accepted [OF run this] show ?thesis using run f by auto
qed

end
