(* ===== verification/Spec2Isabelle.thy ===== *)
theory Spec2Isabelle
  imports Session CoreNetwork JournalProps ReplayProps PacingProps ChannelRepair StartupMeasure SpectatorStream
begin

text \<open>
  Verification of the netplay runtime that the browser ports of the games share: the C++ of
  \<^verbatim>\<open>src/include/eagler/netplay\<close> and \<^verbatim>\<open>src/src/netplay\<close>. Two or three peers simulate the same game from
  the same inputs. A peer predicts the inputs it has not received, and goes back in time when a guess
  was wrong; everything below serves that.

  \<^bold>\<open>The parts and how they interact.\<close>
  Before the first frame \<^verbatim>\<open>AdonisStartup\<close> measures the links between the seats and commits one input
  delay. Then \<^verbatim>\<open>SessionChannel\<close> runs the session: its \<^verbatim>\<open>Pump\<close> polls the transport, decodes every buffer
  with the codec of \<^verbatim>\<open>NetplayProtocol\<close>, hands session packets to the handshake gate \<^verbatim>\<open>SessionGate\<close>, input
  packets to the \<^verbatim>\<open>RollbackCore\<close>, and phase samples and frame leads to the wall-clock policies; it sends
  the packets the core builds, repairs a stalled peer on a lane of its own, and keeps answering for a
  session that has ended. The game captures its local input into the core, asks it for the decision of
  the next frame, simulates and marks it, and, when the core requests a rollback, restores its memory
  with \<^verbatim>\<open>RollbackJournal\<close> and simulates again. Confirmed inputs leave the core for the recorder
  \<^verbatim>\<open>InputReplay\<close> and for the spectator lane, whose publisher streams checkpoints and inputs and whose
  history and playback a viewer runs.

  \<^bold>\<open>Theories and sources.\<close>
  \<^item> \<open>Prelude\<close>, \<open>Codec\<close>, \<open>Binary\<close>: the machine types; the interface between a format and its fields, as
    the locales \<open>field_codec\<close> and \<open>total_codec\<close>; rounded binary arithmetic.
  \<^item> \<open>Protocol\<close>, \<open>Wire\<close>: \<^verbatim>\<open>NetplayProtocol.hpp\<close>, \<^verbatim>\<open>NetplayProtocol.cpp\<close>. \<open>Protocol\<close> has the packets, the
    writers and readers and the encoders and decoders of the three kinds of packets, and interprets the
    codec locales on the code's writers and readers; \<open>Wire\<close> proves the codecs over those facts.
  \<^item> \<open>Session\<close>: \<^verbatim>\<open>NetplaySession.hpp\<close>, \<^verbatim>\<open>NetplaySession.cpp\<close>, the handshake gate.
  \<^item> \<open>Core\<close>: \<^verbatim>\<open>NetplayCore.hpp\<close>, \<^verbatim>\<open>NetplayCore.cpp\<close>. \<open>CoreLemmas\<close> has the shared facts on rings and
    frontiers, \<open>CoreApply\<close> the transaction of an input packet, \<open>CorePrepare\<close> the decision of a frame,
    \<open>CoreDriver\<close> the runs of a core under its driver and their invariant, \<open>CoreSafety\<close> what the driver
    may rely on, \<open>CoreNetwork\<close> several cores over an unreliable network.
  \<^item> \<open>Journal\<close>: \<^verbatim>\<open>RollbackJournal.hpp\<close>, \<^verbatim>\<open>RollbackJournal.cpp\<close>. \<open>JournalIndex\<close> relates the AVL index in
    the array of blocks to a tree, \<open>JournalRecords\<close> defines well-formed records, \<open>JournalCapture\<close> says
    what the copies of a record are worth, \<open>JournalUndo\<close> and \<open>JournalRuns\<close> treat runs of a journal
    together with the game that writes the memory, \<open>JournalProps\<close> has the properties.
  \<^item> \<open>Replay\<close>: \<^verbatim>\<open>InputReplay.hpp\<close>, \<^verbatim>\<open>InputReplay.cpp\<close>; \<open>ReplayCodec\<close>, \<open>ReplayFile\<close> and \<open>ReplayProps\<close> hold
    the layout of a file, its reader and writer, and the properties.
  \<^item> \<open>Pacing\<close>: \<^verbatim>\<open>FrameAdvantageWindow.hpp\<close>, \<^verbatim>\<open>FramePacingPolicy.hpp\<close>, \<^verbatim>\<open>SessionPacing.hpp\<close>,
    \<^verbatim>\<open>ConfirmedInputWatchdog.hpp\<close>; \<open>Adonis\<close>: \<^verbatim>\<open>AdonisTiming.hpp\<close>; \<open>PacingProps\<close> their properties.
  \<^item> \<open>Transport\<close>: \<^verbatim>\<open>PeerTransport.hpp\<close>; \<open>Channel\<close>: \<^verbatim>\<open>SessionChannel.hpp\<close>, \<^verbatim>\<open>SessionChannel.cpp\<close>.
    \<open>ChannelLemmas\<close> has the preorder of channels that every step respects, \<open>ChannelPump\<close> the exits of the
    pump and of the retirement and the packets a pump handles, \<open>ChannelProps\<close> and \<open>ChannelRepair\<close> the
    properties.
  \<^item> \<open>Startup\<close>: \<^verbatim>\<open>AdonisStartup.hpp\<close>. \<open>StartupSteps\<close> says what every step keeps, \<open>StartupProps\<close> treats a
    network of calibrating seats, \<open>StartupDemo\<close> runs one calibration to its end, \<open>StartupMeasure\<close> bounds
    what is committed.
  \<^item> \<open>Spectator\<close>: \<^verbatim>\<open>SpectatorStageProtocol.hpp\<close>, \<^verbatim>\<open>SpectatorStagePublisher.hpp\<close>,
    \<^verbatim>\<open>SpectatorStageHistory.hpp\<close>, \<^verbatim>\<open>SpectatorStagePlayback.hpp\<close>; \<open>SpectatorPlay\<close> has the properties of the
    viewer, \<open>SpectatorStream\<close> those of the stream from a publisher to a viewer.

  \<^bold>\<open>How code is read.\<close>
  A struct or class is a record with the source's fields, an enum a datatype, a \<^verbatim>\<open>std::uintN_t\<close> an
  \<open>N word\<close>; a \<^verbatim>\<open>std::size_t\<close> is a natural number where the guards of the code keep the sums in range. A
  fixed array or ring is a function of the index, a method that changes its object returns its result
  with the new object, an early return is a branch, a pointer that may be null an option. A \<^verbatim>\<open>float\<close> is
  its bit pattern, a \<^verbatim>\<open>double\<close> the rational it denotes, rounded after every operation to the nearest
  value, ties to even. Code outside the repository's C++ is a parameter: the game's protocol constants
  (\<open>ProtocolConfig\<close>), the memory of the game, the transport (the record \<open>PeerTransport\<close> of its virtual
  methods over a state of any type), the \<^verbatim>\<open>send\<close> callback of the publisher and the restore and tick
  callbacks of the playback. No law is assumed of any of them, with two exceptions: a game writes
  only memory that its open journal record covers, as the journal asks of it (\<open>journal_run\<close>), and a packet
  that the transport of a calibrating seat refused is not on the wire (\<open>recorded\<close>).

  \<^bold>\<open>What the lemmas show.\<close>
  \<^item> Packets: the encoders and decoders are inverse to each other, exactly, up to the reserved bytes the
    decoders skip; a buffer is of at most one kind.
  \<^item> Gate: it opens only after HELLO and READY of every remote seat, and does open then.
  \<^item> Core: over any sequence of driver operations and any packets, a frame with no rollback pending was
    simulated with the accepted inputs, a rollback that is requested can be served, a packet is applied as
    a whole or not at all, confirmed inputs are exact; peers that exchange the core's packets over a
    network that loses, repeats and reorders them agree on every settled frame.
  \<^item> Journal: going back refines going back on the list of checkpoints, with or without the coalescing of
    restores and with deferred copies; the index answers like a search of all ranges within its depth.
  \<^item> Recording: files read back, are canonical, and no changed byte goes unnoticed.
  \<^item> Pacing: the advice stays in its band for any packets; the delays handed out are few and short.
  \<^item> Channel: a pump does exactly what the packets it polled say; retirement is settled, terminal
    acknowledgements and first failures are kept, a stalled seat is repaired.
  \<^item> Calibration: committed seats agree on their timing, and it follows from valid measurements.
  \<^item> Spectators: a viewer's world is a checkpoint with exactly its inputs; what was sent is accepted.

  \<^bold>\<open>Bounds and fuel.\<close>
  Loops that the code bounds itself recurse on that bound: the receive budget of a channel, the 129
  probes, the 32 samples of a packet, the frames a publisher has left. The others carry fuel that is
  proved to suffice: the confirmation frontier 257 steps, one more than its ring has slots
  (\<open>advance_loop_exit\<close>); the search of a journal record 64 steps, the size of the ancestor array of the
  code, which no AVL tree of \<open>2 ^ 32\<close> blocks exceeds (\<open>search_depth_suffices\<close>); the growth of an arena as
  many steps as bytes required (\<open>grow_enough\<close>); the cover search as many steps as the record has blocks.

  \<^bold>\<open>What is not modelled.\<close>
  The transports themselves and everything that is JavaScript or SDL (\<^verbatim>\<open>BrowserPeerTransport\<close>,
  \<^verbatim>\<open>WebSocketTransport\<close>, \<^verbatim>\<open>NetplayInput\<close>, audio, fonts, the practice panels, \<^verbatim>\<open>src/browser\<close>), which hold
  no netplay state; the helpers that depend on the layout of objects of a game (\<^verbatim>\<open>PartitionedPoolJournal\<close>,
  \<^verbatim>\<open>SparsePoolCapture\<close>, the direct touch headers); the adapter \<^verbatim>\<open>AdonisConnection\<close> and the view of a
  viewer; and the policies of a few lines that only the main loops of the games call. Of the journal,
  \<^verbatim>\<open>AddFloatPairToSnapshots\<close> and a branch of \<^verbatim>\<open>Touch\<close> that only a wasm build compiles are left out.
\<close>

end
